(* ===== verification/Wake_Prelude.thy ===== *)
theory Wake_Prelude
  imports Main "HOL-Library.Word" "HOL-Library.Multiset"
begin

text \<open>
  The shared vocabulary of the development.  It fixes the names of the C integer types, the
  reading of a little-endian byte run, the three loop shapes that recur in the sources (first
  match, arg-min/arg-max scan, swap in an array), NULL handles, and the two interfaces that
  several components implement: a store of entries with distinct keys, and a machine whose
  operations keep an invariant.

  Conventions.  A C array of fixed size is a list of that length; the length is part of the
  invariant of the structure that owns the array.  \<open>memcmp (a, b, n) == 0\<close> on two arrays of
  \<open>n\<close> bytes is equality of lists.  A loop counter that only runs over the indices of an
  array is a \<open>nat\<close>; every stored integer keeps its C width as a word.
\<close>

unbundle bit_operations_syntax

type_synonym u8 = "8 word"
type_synonym u16 = "16 word"
type_synonym u32 = "32 word"
type_synonym u64 = "64 word"
type_synonym bytes = "8 word list"

named_theorems wake_bits \<open>bit-level characterisations of the byte codecs\<close>

section \<open>First match in an array\<close>

text \<open>The loop \<open>for (i = 0; i < n; i++) if (P (a[i])) return i; return -1\<close>.\<close>

fun find_index :: "('a \<Rightarrow> bool) \<Rightarrow> 'a list \<Rightarrow> nat option" where
  "find_index P [] = None"
| "find_index P (x # xs) = (if P x then Some 0 else map_option Suc (find_index P xs))"

lemma find_index_None_iff: "find_index P xs = None \<longleftrightarrow> (\<forall>x\<in>set xs. \<not> P x)"
  by (induction xs) auto

lemma find_index_Some_iff:
  "find_index P xs = Some i \<longleftrightarrow> i < length xs \<and> P (xs ! i) \<and> (\<forall>j<i. \<not> P (xs ! j))"
proof (induction xs arbitrary: i)
  case Nil
  then show ?case by simp
next
  case (Cons x xs)
  show ?case
  proof (cases i)
    case 0
    then show ?thesis by auto
  next
    case (Suc n)
    then show ?thesis by (auto simp: Cons.IH less_Suc_eq_0_disj)
  qed
qed

lemma find_index_SomeD:
  assumes "find_index P xs = Some i"
  shows "i < length xs" and "P (xs ! i)"
  using assms by (auto simp: find_index_Some_iff)

lemma find_index_ex: "x \<in> set xs \<Longrightarrow> P x \<Longrightarrow> \<exists>i. find_index P xs = Some i"
  by (metis find_index_None_iff option.exhaust)

lemma find_index_unique:
  assumes "distinct (map f xs)" "i < length xs" "f (xs ! i) = k"
  shows "find_index (\<lambda>x. f x = k) xs = Some i"
  using assms by (auto simp: find_index_Some_iff distinct_conv_nth)

section \<open>Arg-max and arg-min scans\<close>

text \<open>
  \<open>best = 0; for (i = 1; i < n; i++) if (better (a[i], a[best])) best = i;\<close>
\<close>

definition scan_best :: "('a \<Rightarrow> 'a \<Rightarrow> bool) \<Rightarrow> 'a list \<Rightarrow> nat" where
  "scan_best better xs =
     fold (\<lambda>i b. if better (xs ! i) (xs ! b) then i else b) [1..<length xs] 0"

lemma scan_best_upto:
  fixes key :: "'a \<Rightarrow> 'k::linorder"
  assumes "0 < n" "n \<le> length xs"
  defines "b \<equiv> fold (\<lambda>i b. if key (xs ! i) < key (xs ! b) then i else b) [1..<n] 0"
  shows "b < n \<and> (\<forall>j<n. key (xs ! b) \<le> key (xs ! j))"
  using assms(1,2) unfolding b_def
proof (induction n)
  case 0
  then show ?case by simp
next
  case (Suc n)
  show ?case
  proof (cases "n = 0")
    case True
    then show ?thesis by simp
  next
    case False
    with Suc.prems have IH:
      "fold (\<lambda>i b. if key (xs ! i) < key (xs ! b) then i else b) [1..<n] 0 < n \<and>
       (\<forall>j<n. key (xs ! fold (\<lambda>i b. if key (xs ! i) < key (xs ! b) then i else b) [1..<n] 0)
                \<le> key (xs ! j))"
      by (intro Suc.IH) auto
    from False have "[1..<Suc n] = [1..<n] @ [n]" by simp
    with IH show ?thesis by (auto simp: less_Suc_eq)
  qed
qed

lemma scan_best_min:
  fixes key :: "'a \<Rightarrow> 'k::linorder"
  assumes "xs \<noteq> []"
  shows "scan_best (\<lambda>x y. key x < key y) xs < length xs"
    and "\<And>j. j < length xs \<Longrightarrow> key (xs ! scan_best (\<lambda>x y. key x < key y) xs) \<le> key (xs ! j)"
  using scan_best_upto [of "length xs" xs key] assms by (auto simp: scan_best_def)

lemma scan_best_less: "xs \<noteq> [] \<Longrightarrow> scan_best better xs < length xs"
proof -
  assume "xs \<noteq> []"
  have "n \<le> length xs \<Longrightarrow> 0 < n \<Longrightarrow>
      fold (\<lambda>i b. if better (xs ! i) (xs ! b) then i else b) [1..<n] 0 < n" for n
    by (induction n) (auto simp: less_Suc_eq)
  with \<open>xs \<noteq> []\<close> show ?thesis by (simp add: scan_best_def)
qed

section \<open>Arrays\<close>

definition swap :: "'a list \<Rightarrow> nat \<Rightarrow> nat \<Rightarrow> 'a list" where
  "swap xs i j = xs[i := xs ! j, j := xs ! i]"

lemma length_swap [simp]: "length (swap xs i j) = length xs"
  by (simp add: swap_def)

lemma mset_swap_in_range [simp]:
  "i < length xs \<Longrightarrow> j < length xs \<Longrightarrow> mset (swap xs i j) = mset xs"
  by (simp add: swap_def mset_swap)

lemma take_swap:
  "i < n \<Longrightarrow> j < n \<Longrightarrow> n \<le> length xs \<Longrightarrow> take n (swap xs i j) = swap (take n xs) i j"
  by (simp add: swap_def take_update_swap)

lemma drop_swap:
  "i < n \<Longrightarrow> j < n \<Longrightarrow> drop n (swap xs i j) = drop n xs"
  by (simp add: swap_def)

text \<open>\<open>memcpy (a + off, src, n)\<close> on arrays.\<close>

definition arr_put :: "'a list \<Rightarrow> nat \<Rightarrow> 'a list \<Rightarrow> 'a list" where
  "arr_put xs off ys = take off xs @ ys @ drop (off + length ys) xs"

lemma length_arr_put [simp]:
  "off + length ys \<le> length xs \<Longrightarrow> length (arr_put xs off ys) = length xs"
  by (simp add: arr_put_def)

lemma take_arr_put_0 [simp]: "take (length ys) (arr_put xs 0 ys) = ys"
  by (simp add: arr_put_def)

lemma take_Suc_update [simp]:
  "n < length xs \<Longrightarrow> take (Suc n) (xs[n := x]) = take n xs @ [x]"
  by (simp add: take_Suc_conv_app_nth)

lemma ball_list_update:
  "\<forall>x\<in>set xs. P x \<Longrightarrow> (i < length xs \<Longrightarrow> P v) \<Longrightarrow> \<forall>x\<in>set (xs[i := v]). P x"
  by (cases "i < length xs") (auto dest: set_update_subset_insert [THEN subsetD] simp: list_update_beyond)

lemma length_filter_update:
  "i < length xs \<Longrightarrow> length (filter P (xs[i := x])) + (if P (xs ! i) then 1 else 0)
     = length (filter P xs) + (if P x then 1 else 0)"
proof (induction xs arbitrary: i)
  case Nil
  then show ?case by simp
next
  case (Cons y ys)
  then show ?case by (cases i) auto
qed

lemma distinct_map_update:
  assumes "distinct (map f xs)" "i < length xs" "f x \<notin> f ` set xs \<or> f x = f (xs ! i)"
  shows "distinct (map f (xs[i := x]))"
  using assms(3)
proof
  assume "f x \<notin> f ` set xs"
  with assms(1) show ?thesis
    by (auto simp: map_update intro!: distinct_list_update)
next
  assume "f x = f (xs ! i)"
  with assms(1,2) show ?thesis
    by (metis length_map list_update_id map_update nth_map)
qed

section \<open>Little-endian integers\<close>

definition le_load :: "bytes \<Rightarrow> 'a::len word" where
  "le_load bs = foldr (\<lambda>b acc. ucast b OR push_bit 8 acc) bs 0"

definition le_bytes :: "nat \<Rightarrow> 'a::len word \<Rightarrow> bytes" where
  "le_bytes n w = map (\<lambda>i. ucast (drop_bit (8 * i) w)) [0..<n]"

lemma bit_le_load [wake_bits]:
  "bit (le_load bs :: 'a::len word) k \<longleftrightarrow>
     k < LENGTH('a) \<and> k div 8 < length bs \<and> bit (bs ! (k div 8)) (k mod 8)"
proof (induction bs arbitrary: k)
  case Nil
  then show ?case by (simp add: le_load_def)
next
  case (Cons b bs)
  have step: "bit (le_load (b # bs) :: 'a word) k \<longleftrightarrow>
     k < LENGTH('a) \<and> (bit b k \<or> (8 \<le> k \<and> bit (le_load bs :: 'a word) (k - 8)))" for k
    by (auto simp: le_load_def bit_or_iff bit_ucast_iff bit_push_bit_iff)
  show ?case
  proof (cases "k < 8")
    case True
    then show ?thesis by (simp add: step)
  next
    case False
    then obtain j where j: "k = j + 8"
      by (metis add.commute le_Suc_ex not_less)
    have "\<not> bit b k"
      using False bit_imp_le_length by force
    moreover have "(j + 8) div 8 = Suc (j div 8)" by simp
    ultimately show ?thesis
      by (auto simp: step Cons.IH j)
  qed
qed

lemma length_le_bytes [simp]: "length (le_bytes n w) = n"
  by (simp add: le_bytes_def)

lemma bit_nth_le_bytes [wake_bits]:
  "i < n \<Longrightarrow> bit (le_bytes n w ! i) k \<longleftrightarrow> k < 8 \<and> bit w (8 * i + k)"
  by (simp add: le_bytes_def bit_ucast_iff bit_drop_bit_eq)

lemma le_load_le_bytes [simp]:
  "LENGTH('a) \<le> 8 * n \<Longrightarrow> le_load (le_bytes n w) = (w :: 'a::len word)"
proof (rule bit_word_eqI)
  fix k
  assume n: "LENGTH('a) \<le> 8 * n" and k: "k < LENGTH('a)"
  then have "k div 8 < n" by linarith
  then show "bit (le_load (le_bytes n w) :: 'a word) k \<longleftrightarrow> bit w k"
    using k by (simp add: wake_bits)
qed

lemma le_bytes_le_load:
  assumes "length bs = n" "LENGTH('a) = 8 * n"
  shows "le_bytes n (le_load bs :: 'a::len word) = bs"
proof (rule nth_equalityI)
  fix i assume "i < length (le_bytes n (le_load bs :: 'a word))"
  then have i: "i < n" by simp
  show "le_bytes n (le_load bs :: 'a word) ! i = bs ! i"
  proof (rule bit_word_eqI)
    fix k assume "k < LENGTH(8)"
    then have k: "k < 8" by simp
    then have "(8 * i + k) div 8 = i" "(8 * i + k) mod 8 = k" "8 * i + k < 8 * n" using i by auto
    then show "bit (le_bytes n (le_load bs :: 'a word) ! i) k \<longleftrightarrow> bit (bs ! i) k"
      using i k assms by (simp add: wake_bits)
  qed
qed (simp add: assms)

lemma le_bytes_inject:
  "LENGTH('a) \<le> 8 * n \<Longrightarrow> le_bytes n v = le_bytes n w \<longleftrightarrow> v = (w :: 'a::len word)"
  by (metis le_load_le_bytes)

section \<open>Words as counters\<close>

lemma unat_Suc_less: "unat (w :: 'a::len word) < n \<Longrightarrow> n < 2 ^ LENGTH('a) \<Longrightarrow> unat (w + 1) = Suc (unat w)"
  by (simp add: unat_word_ariths)

lemma unat_Suc_word_less: "(w :: 'a::len word) < v \<Longrightarrow> unat (w + 1) = Suc (unat w)"
  using unsigned_less [of v, where ?'a = nat]
  by (intro unat_Suc_less [of _ "unat v"]) (auto simp: word_less_nat_alt)

lemma unat_of_nat_le:
  "n \<le> m \<Longrightarrow> m < 2 ^ LENGTH('a) \<Longrightarrow> unat (of_nat n :: 'a::len word) = n"
  by (simp add: unat_of_nat)

lemma unat_drop_bit [simp]: "unat (drop_bit k (w :: 'a::len word)) = unat w div 2 ^ k"
  by (simp only: unat_drop_bit_eq drop_bit_eq_div [where ?'a = nat])

lemma unat_ucast_up [simp]:
  assumes "LENGTH('a) \<le> LENGTH('b)"
  shows "unat (ucast (w :: 'a::len word) :: 'b::len word) = unat w"
proof -
  have "unat w < 2 ^ LENGTH('b)"
    using unsigned_less [of w, where ?'a = nat] assms
    by (meson one_le_numeral order_less_le_trans power_increasing)
  then show ?thesis by (simp add: unsigned_ucast_eq take_bit_nat_eq_self)
qed

lemma word_le_max [simp]:
  "(v :: u8) \<le> 0xFF" "(w :: u16) \<le> 0xFFFF" "(x :: u32) \<le> 0xFFFFFFFF"
  using unsigned_less [of v, where ?'a = nat] unsigned_less [of w, where ?'a = nat]
    unsigned_less [of x, where ?'a = nat]
  by (simp_all add: word_le_nat_alt)

lemma unat_u16_less: "unat (w :: u16) < 65536"
  using unsigned_less [of w, where ?'a = nat] by simp

section \<open>Options and NULL handles\<close>

lemma option_eqI: "(\<And>e. x = Some e \<longleftrightarrow> y = Some e) \<Longrightarrow> x = y"
  by (cases x; cases y) auto

text \<open>
  A public entry point takes a handle that may be NULL.  The body runs on the object behind
  the handle; on NULL the entry point returns its documented default and changes nothing.
\<close>

definition on_handle :: "'h option \<Rightarrow> 'r \<Rightarrow> ('h \<Rightarrow> 'r \<times> 'h) \<Rightarrow> 'r \<times> 'h option" where
  "on_handle p dflt f =
     (case p of None \<Rightarrow> (dflt, None) | Some h \<Rightarrow> (fst (f h), Some (snd (f h))))"

lemma on_handle_simps [simp]:
  "on_handle None d f = (d, None)"
  "on_handle (Some h) d f = (fst (f h), Some (snd (f h)))"
  by (simp_all add: on_handle_def)

section \<open>Interface: stores of entries with distinct keys\<close>

text \<open>
  The member list of SWIM, its dissemination queue and the peer list of PlumTree are dense
  arrays searched by node id.  What a client relies on is that no id occurs twice and that
  the search finds the entry with that id.
\<close>

locale keyed_store =
  fixes entries :: "'s \<Rightarrow> 'e list"
    and key :: "'e \<Rightarrow> 'k"
    and locate :: "'s \<Rightarrow> 'k \<Rightarrow> nat option"
    and invar :: "'s \<Rightarrow> bool"
  assumes distinct_keys: "invar s \<Longrightarrow> distinct (map key (entries s))"
    and locate_eq: "locate s k = find_index (\<lambda>e. key e = k) (entries s)"
begin

definition lookup :: "'s \<Rightarrow> 'k \<Rightarrow> 'e option" where
  "lookup s k = map_option (\<lambda>i. entries s ! i) (locate s k)"

lemma lookup_SomeD: "lookup s k = Some e \<Longrightarrow> e \<in> set (entries s) \<and> key e = k"
  by (auto simp: lookup_def locate_eq dest: find_index_SomeD)

lemma lookup_None_iff: "lookup s k = None \<longleftrightarrow> k \<notin> key ` set (entries s)"
  by (auto simp: lookup_def locate_eq find_index_None_iff)

lemma locate_Some_iff:
  assumes "invar s"
  shows "locate s k = Some i \<longleftrightarrow> i < length (entries s) \<and> key (entries s ! i) = k"
  using distinct_keys [OF assms] by (auto simp: locate_eq find_index_unique dest: find_index_SomeD)

lemma lookup_Some_iff:
  assumes "invar s"
  shows "lookup s k = Some e \<longleftrightarrow> e \<in> set (entries s) \<and> key e = k"
  using locate_Some_iff [OF assms] by (auto simp: lookup_def in_set_conv_nth)

lemma lookup_map_of:
  assumes "invar s"
  shows "lookup s = map_of (map (\<lambda>e. (key e, e)) (entries s))"
proof (rule ext)
  fix k
  have "map_of (map (\<lambda>e. (key e, e)) (entries s)) k = Some e \<longleftrightarrow>
      e \<in> set (entries s) \<and> key e = k" for e
    using distinct_keys [OF assms] by (subst map_of_eq_Some_iff) (auto simp: comp_def)
  with lookup_Some_iff [OF assms]
  show "lookup s k = map_of (map (\<lambda>e. (key e, e)) (entries s)) k"
    by (intro option_eqI) simp
qed

end

section \<open>Interface: machines with an invariant\<close>

inductive reach :: "('s \<Rightarrow> bool) \<Rightarrow> ('s \<Rightarrow> 's \<Rightarrow> bool) \<Rightarrow> 's \<Rightarrow> bool" for init step where
  reach_init: "init s \<Longrightarrow> reach init step s"
| reach_step: "reach init step s \<Longrightarrow> step s t \<Longrightarrow> reach init step t"

locale invariant_machine =
  fixes init :: "'s \<Rightarrow> bool"
    and step :: "'s \<Rightarrow> 's \<Rightarrow> bool"
    and inv :: "'s \<Rightarrow> bool"
  assumes inv_init: "init s \<Longrightarrow> inv s"
    and inv_step: "inv s \<Longrightarrow> step s t \<Longrightarrow> inv t"
begin

lemma reach_inv: "reach init step s \<Longrightarrow> inv s"
  by (induction rule: reach.induct) (auto intro: inv_init inv_step)

end

end
