(* ===== verification/Wake_Swim.thy ===== *)
theory Wake_Swim
  imports Wake_Prelude
begin

text \<open>
  SWIM membership (\<open>src/src/wake_swim.c\<close>, \<open>src/src/wake_swim.h\<close>).  The state record mirrors
  \<open>wake_swim_t\<close>: the member array and the update array keep their allocated size, and
  \<open>sw_member_count\<close> and \<open>sw_update_count\<close> say how many entries are in use
  (\<open>swim_view\<close> and \<open>swim_queue\<close> are those prefixes).  Alignment padding is not modelled.
  Every public function has a body over the object and an entry point that adds the NULL
  checks.  The file then shows the invariant of every reachable instance, the precedence and
  convergence of gossip, refutation, the exactness of the probe round, the suspicion timeout,
  reaping, and the order in which updates are piggybacked.
\<close>

section \<open>Data\<close>

abbreviation WAKE_SWIM_ALIVE :: u8 where "WAKE_SWIM_ALIVE \<equiv> 0"
abbreviation WAKE_SWIM_SUSPECT :: u8 where "WAKE_SWIM_SUSPECT \<equiv> 1"
abbreviation WAKE_SWIM_DEAD :: u8 where "WAKE_SWIM_DEAD \<equiv> 2"
abbreviation WAKE_SWIM_LEFT :: u8 where "WAKE_SWIM_LEFT \<equiv> 3"

datatype wake_swim_result_t =
    WAKE_SWIM_OK
  | WAKE_SWIM_EXISTS
  | WAKE_SWIM_NOT_FOUND
  | WAKE_SWIM_FULL
  | WAKE_SWIM_SELF
  | WAKE_SWIM_STALE
  | WAKE_SWIM_NOOP

record wake_swim_member_t =
  sm_node_id :: bytes
  sm_last_change_ms :: u64
  sm_suspect_ms :: u64
  sm_addr :: u32
  sm_incarnation :: u32
  sm_port :: u16
  sm_state :: u8

record wake_swim_update_t =
  su_node_id :: bytes
  su_addr :: u32
  su_port :: u16
  su_state :: u8
  su_incarnation :: u32
  su_piggyback_count :: u16

record wake_swim_config_t =
  sc_max_members :: u16
  sc_update_queue_size :: u16
  sc_suspicion_mult :: u16
  sc_max_piggybacks :: u16
  sc_protocol_period_ms :: u32
  sc_suspect_timeout_ms :: u32
  sc_prng_seed :: u64

record wake_swim_stats_t =
  ss_total :: u32
  ss_alive :: u32
  ss_suspect :: u32
  ss_dead :: u32
  ss_left :: u32
  ss_probe_eligible :: u32
  ss_rounds_completed :: u64
  ss_state_changes :: u64
  ss_updates_queued :: u64
  ss_updates_piggybacked :: u64
  ss_suspects_expired :: u64

record wake_swim_t =
  sw_config :: wake_swim_config_t
  sw_members :: "wake_swim_member_t list"
  sw_member_count :: u32
  sw_alive_count :: u32
  sw_probe_order :: "u32 list"
  sw_probe_size :: u32
  sw_probe_index :: u32
  sw_updates :: "wake_swim_update_t list"
  sw_update_count :: u32
  sw_self_id :: bytes
  sw_self_addr :: u32
  sw_self_port :: u16
  sw_self_incarnation :: u32
  sw_prng_state :: u64
  sw_rounds_completed :: u64
  sw_state_changes :: u64
  sw_updates_queued :: u64
  sw_updates_piggybacked :: u64
  sw_suspects_expired :: u64
  sw_health_score :: u32

text \<open>What \<open>calloc\<close> and \<open>memset 0\<close> leave in an entry.\<close>

definition zero_member :: wake_swim_member_t where
  "zero_member = \<lparr>sm_node_id = replicate 32 0, sm_last_change_ms = 0, sm_suspect_ms = 0,
     sm_addr = 0, sm_incarnation = 0, sm_port = 0, sm_state = 0\<rparr>"

definition zero_update :: wake_swim_update_t where
  "zero_update = \<lparr>su_node_id = replicate 32 0, su_addr = 0, su_port = 0, su_state = 0,
     su_incarnation = 0, su_piggyback_count = 0\<rparr>"

text \<open>The entries in use.\<close>

definition swim_view :: "wake_swim_t \<Rightarrow> wake_swim_member_t list" where
  "swim_view sw = take (unat (sw_member_count sw)) (sw_members sw)"

definition swim_queue :: "wake_swim_t \<Rightarrow> wake_swim_update_t list" where
  "swim_queue sw = take (unat (sw_update_count sw)) (sw_updates sw)"

section \<open>Internal helpers\<close>

definition wake_splitmix64 :: "u64 \<Rightarrow> u64 \<times> u64" where
  "wake_splitmix64 state =
     (let state = state + 0x9E3779B97F4A7C15;
          z = state;
          z = (z XOR drop_bit 30 z) * 0xBF58476D1CE4E5B9;
          z = (z XOR drop_bit 27 z) * 0x94D049BB133111EB
      in (state, z XOR drop_bit 31 z))"

function ilog2_loop :: "u32 \<Rightarrow> u32 \<Rightarrow> u32" where
  "ilog2_loop n r = (if n > 1 then ilog2_loop (drop_bit 1 n) (r + 1) else r)"
  by pat_completeness auto
termination
  by (relation "measure (\<lambda>(n, r). unat n)") (simp_all add: word_less_nat_alt)

declare ilog2_loop.simps [simp del]

definition ilog2 :: "u32 \<Rightarrow> u32" where
  "ilog2 n = (if n \<le> 1 then 0 else ilog2_loop n 0)"

definition find_member :: "wake_swim_t \<Rightarrow> bytes \<Rightarrow> nat option" where
  "find_member sw node_id = find_index (\<lambda>m. sm_node_id m = node_id) (swim_view sw)"

definition swim_is_self :: "wake_swim_t \<Rightarrow> bytes \<Rightarrow> bool" where
  "swim_is_self sw node_id \<longleftrightarrow> sw_self_id sw = node_id"

definition probe_eligible :: "wake_swim_member_t \<Rightarrow> bool" where
  "probe_eligible m \<longleftrightarrow> sm_state m = WAKE_SWIM_ALIVE \<or> sm_state m = WAKE_SWIM_SUSPECT"

definition recount_alive :: "wake_swim_t \<Rightarrow> wake_swim_t" where
  "recount_alive sw =
     sw\<lparr>sw_alive_count := of_nat (length (filter probe_eligible (swim_view sw)))\<rparr>"

definition update_of_member :: "wake_swim_member_t \<Rightarrow> wake_swim_update_t" where
  "update_of_member m = \<lparr>su_node_id = sm_node_id m, su_addr = sm_addr m, su_port = sm_port m,
     su_state = sm_state m, su_incarnation = sm_incarnation m, su_piggyback_count = 0\<rparr>"

definition worst_update :: "wake_swim_update_t list \<Rightarrow> nat" where
  "worst_update us = scan_best (\<lambda>u w. su_piggyback_count u > su_piggyback_count w) us"

definition queue_update :: "wake_swim_t \<Rightarrow> wake_swim_member_t \<Rightarrow> wake_swim_t" where
  "queue_update sw m =
     (case find_index (\<lambda>u. su_node_id u = sm_node_id m) (swim_queue sw) of
        Some i \<Rightarrow> sw\<lparr>sw_updates := (sw_updates sw)[i := update_of_member m]\<rparr>
      | None \<Rightarrow>
          if sw_update_count sw < ucast (sc_update_queue_size (sw_config sw))
          then sw\<lparr>sw_updates := (sw_updates sw)[unat (sw_update_count sw) := update_of_member m],
                  sw_update_count := sw_update_count sw + 1,
                  sw_updates_queued := sw_updates_queued sw + 1\<rparr>
          else sw\<lparr>sw_updates := (sw_updates sw)[worst_update (swim_queue sw) := update_of_member m],
                  sw_updates_queued := sw_updates_queued sw + 1\<rparr>)"

text \<open>The Fisher-Yates loop \<open>for (i = n; i > 1; i--)\<close> over the first \<open>n\<close> entries.\<close>

fun fisher_yates :: "nat \<Rightarrow> u64 \<Rightarrow> u32 list \<Rightarrow> u64 \<times> u32 list" where
  "fisher_yates i s xs =
     (if i > 1
      then let (s', r) = wake_splitmix64 s;
               j = unat (r mod of_nat i)
           in fisher_yates (i - 1) s' (swap xs (i - 1) j)
      else (s, xs))"

declare fisher_yates.simps [simp del]

text \<open>The indices the first loop of \<open>rebuild_probe_order\<close> collects.\<close>

definition eligible_indices :: "wake_swim_t \<Rightarrow> nat list" where
  "eligible_indices sw = filter (\<lambda>i. probe_eligible (sw_members sw ! i)) [0..<unat (sw_member_count sw)]"

definition rebuild_probe_order :: "wake_swim_t \<Rightarrow> wake_swim_t" where
  "rebuild_probe_order sw =
     (let idxs = eligible_indices sw;
          order = arr_put (sw_probe_order sw) 0 (map of_nat idxs);
          (s, order) = fisher_yates (length idxs) (sw_prng_state sw) order
      in sw\<lparr>sw_probe_size := of_nat (length idxs), sw_prng_state := s,
            sw_probe_order := order, sw_probe_index := 0\<rparr>)"

definition state_supersedes :: "u8 \<Rightarrow> u32 \<Rightarrow> u8 \<Rightarrow> u32 \<Rightarrow> bool" where
  "state_supersedes new_state new_inc old_state old_inc =
     (if new_state = WAKE_SWIM_LEFT then True
      else if old_state = WAKE_SWIM_LEFT then False
      else if new_inc > old_inc then True
      else if new_inc < old_inc then False
      else new_state > old_state)"

section \<open>Lifecycle\<close>

definition wake_swim_default_config :: wake_swim_config_t where
  "wake_swim_default_config = \<lparr>sc_max_members = 512, sc_update_queue_size = 256,
     sc_suspicion_mult = 5, sc_max_piggybacks = 8, sc_protocol_period_ms = 1000,
     sc_suspect_timeout_ms = 0, sc_prng_seed = 0\<rparr>"

text \<open>
  \<open>wake_swim_create\<close> allocates four blocks.  \<open>sa_handle\<close> is the address \<open>calloc\<close> returned for
  the handle (\<open>None\<close> for NULL), which also seeds the generator when no seed is configured; the
  three flags say whether the arrays could be allocated.
\<close>

record swim_alloc =
  sa_handle :: "u64 option"
  sa_members :: bool
  sa_probe_order :: bool
  sa_updates :: bool

definition enforce_minimums :: "wake_swim_config_t \<Rightarrow> wake_swim_config_t" where
  "enforce_minimums c =
     \<lparr>sc_max_members = (if sc_max_members c = 0 then 512 else sc_max_members c),
      sc_update_queue_size = (if sc_update_queue_size c = 0 then 256 else sc_update_queue_size c),
      sc_suspicion_mult = (if sc_suspicion_mult c = 0 then 5 else sc_suspicion_mult c),
      sc_max_piggybacks = (if sc_max_piggybacks c = 0 then 8 else sc_max_piggybacks c),
      sc_protocol_period_ms = (if sc_protocol_period_ms c = 0 then 1000 else sc_protocol_period_ms c),
      sc_suspect_timeout_ms = sc_suspect_timeout_ms c,
      sc_prng_seed = sc_prng_seed c\<rparr>"

definition wake_swim_create ::
  "bytes option \<Rightarrow> u32 \<Rightarrow> u16 \<Rightarrow> wake_swim_config_t option \<Rightarrow> swim_alloc \<Rightarrow> wake_swim_t option" where
  "wake_swim_create self_id self_addr self_port cfg al =
     (case self_id of None \<Rightarrow> None | Some self \<Rightarrow>
      (case sa_handle al of None \<Rightarrow> None | Some ptr \<Rightarrow>
       (let config = enforce_minimums
               (case cfg of Some c \<Rightarrow> c | None \<Rightarrow> wake_swim_default_config)
        in if \<not> (sa_members al \<and> sa_probe_order al \<and> sa_updates al) then None
           else Some \<lparr>sw_config = config,
                  sw_members = replicate (unat (sc_max_members config)) zero_member,
                  sw_member_count = 0,
                  sw_alive_count = 0,
                  sw_probe_order = replicate (unat (sc_max_members config)) 0,
                  sw_probe_size = 0,
                  sw_probe_index = 0,
                  sw_updates = replicate (unat (sc_update_queue_size config)) zero_update,
                  sw_update_count = 0,
                  sw_self_id = self,
                  sw_self_addr = self_addr,
                  sw_self_port = self_port,
                  sw_self_incarnation = 0,
                  sw_prng_state = (if sc_prng_seed config \<noteq> 0 then sc_prng_seed config
                                   else ptr XOR 0xDEADBEEFCAFE),
                  sw_rounds_completed = 0,
                  sw_state_changes = 0,
                  sw_updates_queued = 0,
                  sw_updates_piggybacked = 0,
                  sw_suspects_expired = 0,
                  sw_health_score = 0\<rparr>)))"

definition swim_reset :: "wake_swim_t \<Rightarrow> wake_swim_t" where
  "swim_reset sw = sw\<lparr>
     sw_members := replicate (unat (sc_max_members (sw_config sw))) zero_member,
     sw_updates := replicate (unat (sc_update_queue_size (sw_config sw))) zero_update,
     sw_member_count := 0, sw_alive_count := 0, sw_probe_size := 0, sw_probe_index := 0,
     sw_update_count := 0, sw_rounds_completed := 0, sw_state_changes := 0,
     sw_updates_queued := 0, sw_updates_piggybacked := 0, sw_suspects_expired := 0,
     sw_health_score := 0\<rparr>"

section \<open>Member management\<close>

definition swim_add_member ::
  "wake_swim_t \<Rightarrow> bytes \<Rightarrow> u32 \<Rightarrow> u16 \<Rightarrow> u64 \<Rightarrow> wake_swim_result_t \<times> wake_swim_t" where
  "swim_add_member sw node_id addr port now_ms =
     (if swim_is_self sw node_id then (WAKE_SWIM_SELF, sw)
      else if find_member sw node_id \<noteq> None then (WAKE_SWIM_EXISTS, sw)
      else if sw_member_count sw \<ge> ucast (sc_max_members (sw_config sw)) then (WAKE_SWIM_FULL, sw)
      else
        let m = \<lparr>sm_node_id = node_id, sm_last_change_ms = now_ms, sm_suspect_ms = 0,
                 sm_addr = addr, sm_incarnation = 0, sm_port = port,
                 sm_state = WAKE_SWIM_ALIVE\<rparr>;
            sw1 = sw\<lparr>sw_members := (sw_members sw)[unat (sw_member_count sw) := m],
                     sw_member_count := sw_member_count sw + 1,
                     sw_alive_count := sw_alive_count sw + 1,
                     sw_state_changes := sw_state_changes sw + 1\<rparr>;
            sw2 = queue_update sw1 m
        in (WAKE_SWIM_OK, sw2\<lparr>sw_probe_size := 0\<rparr>))"

text \<open>The tail shared by every transition of a known member: write it back, recount, queue.\<close>

definition commit_member :: "wake_swim_t \<Rightarrow> nat \<Rightarrow> wake_swim_member_t \<Rightarrow> wake_swim_t" where
  "commit_member sw i m =
     (let sw1 = sw\<lparr>sw_members := (sw_members sw)[i := m],
                   sw_state_changes := sw_state_changes sw + 1\<rparr>
      in (queue_update (recount_alive sw1) m)\<lparr>sw_probe_size := 0\<rparr>)"

definition swim_remove_member ::
  "wake_swim_t \<Rightarrow> bytes \<Rightarrow> u64 \<Rightarrow> wake_swim_result_t \<times> wake_swim_t" where
  "swim_remove_member sw node_id now_ms =
     (if swim_is_self sw node_id then (WAKE_SWIM_SELF, sw)
      else case find_member sw node_id of
          None \<Rightarrow> (WAKE_SWIM_NOT_FOUND, sw)
        | Some i \<Rightarrow>
            (WAKE_SWIM_OK,
             commit_member sw i ((sw_members sw ! i)\<lparr>sm_state := WAKE_SWIM_LEFT,
               sm_last_change_ms := now_ms, sm_suspect_ms := 0\<rparr>)))"

definition swim_find :: "wake_swim_t \<Rightarrow> bytes \<Rightarrow> wake_swim_member_t option" where
  "swim_find sw node_id = map_option (\<lambda>i. sw_members sw ! i) (find_member sw node_id)"

section \<open>Incarnation-based updates\<close>

definition apply_self_update ::
  "wake_swim_t \<Rightarrow> wake_swim_update_t \<Rightarrow> u64 \<Rightarrow> wake_swim_result_t \<times> wake_swim_t" where
  "apply_self_update sw update now_ms =
     (if su_state update = WAKE_SWIM_SUSPECT \<or> su_state update = WAKE_SWIM_DEAD
      then
        let sw1 = (if su_incarnation update \<ge> sw_self_incarnation sw
                   then sw\<lparr>sw_self_incarnation := su_incarnation update + 1\<rparr> else sw);
            self_m = \<lparr>sm_node_id = sw_self_id sw1, sm_last_change_ms = now_ms,
                      sm_suspect_ms = 0, sm_addr = sw_self_addr sw1,
                      sm_incarnation = sw_self_incarnation sw1, sm_port = sw_self_port sw1,
                      sm_state = WAKE_SWIM_ALIVE\<rparr>
        in (WAKE_SWIM_OK, queue_update sw1 self_m)
      else
        (WAKE_SWIM_NOOP,
         if su_incarnation update > sw_self_incarnation sw
         then sw\<lparr>sw_self_incarnation := su_incarnation update\<rparr> else sw))"

definition apply_unknown_update ::
  "wake_swim_t \<Rightarrow> wake_swim_update_t \<Rightarrow> u64 \<Rightarrow> wake_swim_result_t \<times> wake_swim_t" where
  "apply_unknown_update sw update now_ms =
     (if su_state update = WAKE_SWIM_ALIVE
      then
        let (r, sw1) = swim_add_member sw (su_node_id update) (su_addr update)
                         (su_port update) now_ms
        in (r,
            if r = WAKE_SWIM_OK
            then (case find_member sw1 (su_node_id update) of
                    None \<Rightarrow> sw1
                  | Some i \<Rightarrow> sw1\<lparr>sw_members := (sw_members sw1)
                      [i := (sw_members sw1 ! i)\<lparr>sm_incarnation := su_incarnation update\<rparr>]\<rparr>)
            else sw1)
      else (WAKE_SWIM_NOT_FOUND, sw))"

definition apply_known_update ::
  "wake_swim_t \<Rightarrow> nat \<Rightarrow> wake_swim_update_t \<Rightarrow> u64 \<Rightarrow> wake_swim_result_t \<times> wake_swim_t" where
  "apply_known_update sw i update now_ms =
     (let m = sw_members sw ! i
      in if \<not> state_supersedes (su_state update) (su_incarnation update)
                                (sm_state m) (sm_incarnation m)
         then if su_state update = sm_state m \<and> su_incarnation update = sm_incarnation m
              then (WAKE_SWIM_NOOP, sw) else (WAKE_SWIM_STALE, sw)
         else (WAKE_SWIM_OK,
               commit_member sw i (m\<lparr>sm_state := su_state update,
                 sm_incarnation := su_incarnation update,
                 sm_addr := su_addr update,
                 sm_port := su_port update,
                 sm_last_change_ms := now_ms,
                 sm_suspect_ms :=
                   (if su_state update = WAKE_SWIM_SUSPECT then now_ms else 0)\<rparr>)))"

definition swim_apply_update ::
  "wake_swim_t \<Rightarrow> wake_swim_update_t \<Rightarrow> u64 \<Rightarrow> wake_swim_result_t \<times> wake_swim_t" where
  "swim_apply_update sw update now_ms =
     (if swim_is_self sw (su_node_id update) then apply_self_update sw update now_ms
      else case find_member sw (su_node_id update) of
          None \<Rightarrow> apply_unknown_update sw update now_ms
        | Some i \<Rightarrow> apply_known_update sw i update now_ms)"

definition swim_suspect_member ::
  "wake_swim_t \<Rightarrow> bytes \<Rightarrow> u64 \<Rightarrow> wake_swim_result_t \<times> wake_swim_t" where
  "swim_suspect_member sw node_id now_ms =
     (if swim_is_self sw node_id then (WAKE_SWIM_SELF, sw)
      else case find_member sw node_id of
          None \<Rightarrow> (WAKE_SWIM_NOT_FOUND, sw)
        | Some i \<Rightarrow>
            (let m = sw_members sw ! i
             in if sm_state m \<noteq> WAKE_SWIM_ALIVE then (WAKE_SWIM_STALE, sw)
                else (WAKE_SWIM_OK,
                      commit_member sw i (m\<lparr>sm_state := WAKE_SWIM_SUSPECT,
                        sm_suspect_ms := now_ms, sm_last_change_ms := now_ms\<rparr>))))"

section \<open>Protocol actions\<close>

text \<open>The loop that skips stale entries of the probe order; a member pointer is its index.\<close>

function probe_scan :: "wake_swim_t \<Rightarrow> nat option \<times> wake_swim_t" where
  "probe_scan sw =
     (if sw_probe_index sw < sw_probe_size sw
      then
        let idx = sw_probe_order sw ! unat (sw_probe_index sw);
            sw1 = sw\<lparr>sw_probe_index := sw_probe_index sw + 1\<rparr>
        in if idx < sw_member_count sw1 \<and> probe_eligible (sw_members sw1 ! unat idx)
           then (Some (unat idx), sw1)
           else probe_scan sw1
      else (None, sw))"
  by pat_completeness auto
termination
proof (relation "measure (\<lambda>sw. unat (sw_probe_size sw) - unat (sw_probe_index sw))")
  show "wf (measure (\<lambda>sw. unat (sw_probe_size sw) - unat (sw_probe_index sw)))" by simp
next
  fix sw idx sw1
  assume lt: "sw_probe_index sw < sw_probe_size sw"
    and sw1: "sw1 = sw\<lparr>sw_probe_index := sw_probe_index sw + 1\<rparr>"
  have "unat (sw_probe_index sw + 1) = Suc (unat (sw_probe_index sw))"
    using lt by (rule unat_Suc_word_less)
  with lt sw1 show "(sw1, sw) \<in> measure (\<lambda>sw. unat (sw_probe_size sw) - unat (sw_probe_index sw))"
    by (simp add: word_less_nat_alt)
qed

declare probe_scan.simps [simp del]

definition swim_next_probe :: "wake_swim_t \<Rightarrow> nat option \<times> wake_swim_t" where
  "swim_next_probe sw =
     (if sw_alive_count sw = 0 then (None, sw)
      else
        let stale = (sw_probe_size sw = 0 \<or> sw_probe_index sw \<ge> sw_probe_size sw);
            sw1 = (if stale then rebuild_probe_order sw else sw)
        in if stale \<and> sw_probe_size sw1 = 0 then (None, sw1)
           else
             let sw2 = (if stale \<and> sw_probe_index sw1 \<ge> sw_probe_size sw1
                        then sw1\<lparr>sw_rounds_completed := sw_rounds_completed sw1 + 1\<rparr> else sw1);
                 (hit, sw3) = probe_scan sw2
             in case hit of
                  Some i \<Rightarrow> (Some i, sw3)
                | None \<Rightarrow>
                    let sw4 = rebuild_probe_order sw3;
                        sw5 = sw4\<lparr>sw_rounds_completed := sw_rounds_completed sw4 + 1\<rparr>
                    in if sw_probe_size sw5 = 0 then (None, sw5)
                       else
                         let idx = sw_probe_order sw5 ! unat (sw_probe_index sw5);
                             sw6 = sw5\<lparr>sw_probe_index := sw_probe_index sw5 + 1\<rparr>
                         in if idx < sw_member_count sw6
                                \<and> probe_eligible (sw_members sw6 ! unat idx)
                            then (Some (unat idx), sw6) else (None, sw6))"

text \<open>
  Delegates.  \<open>elig\<close> is the stack buffer of at most 512 indices; \<open>delegate_loop k i\<close> runs the
  partial shuffle for the \<open>k\<close> picks that remain, from position \<open>i\<close>.
\<close>

definition delegate_eligible :: "wake_swim_t \<Rightarrow> bytes option \<Rightarrow> wake_swim_member_t \<Rightarrow> bool" where
  "delegate_eligible sw exclude_id m \<longleftrightarrow>
     sm_state m = WAKE_SWIM_ALIVE \<and> \<not> swim_is_self sw (sm_node_id m)
       \<and> (case exclude_id of None \<Rightarrow> True | Some x \<Rightarrow> sm_node_id m \<noteq> x)"

fun delegate_loop ::
  "wake_swim_member_t list \<Rightarrow> nat \<Rightarrow> nat \<Rightarrow> u64 \<Rightarrow> nat list \<Rightarrow> wake_swim_member_t list
     \<Rightarrow> wake_swim_member_t list \<times> u64" where
  "delegate_loop ms 0 i s elig out = (out, s)"
| "delegate_loop ms (Suc k) i s elig out =
     (let (s', r) = wake_splitmix64 s;
          j = i + unat (ucast (r mod of_nat (length elig - i)) :: u32);
          elig' = swap elig i j
      in delegate_loop ms k (Suc i) s' elig' (out @ [ms ! (elig' ! i)]))"

definition swim_select_delegates ::
  "wake_swim_t \<Rightarrow> bytes option \<Rightarrow> u32 \<Rightarrow> wake_swim_member_t list \<times> wake_swim_t" where
  "swim_select_delegates sw exclude_id max_n =
     (if max_n = 0 then ([], sw)
      else
        let cap = (if sw_member_count sw < 512 then unat (sw_member_count sw) else 512);
            elig = filter (\<lambda>i. delegate_eligible sw exclude_id (sw_members sw ! i)) [0..<cap]
        in if elig = [] then ([], sw)
           else
             let pick = (if unat max_n < length elig then unat max_n else length elig);
                 (out, s) = delegate_loop (sw_members sw) pick 0 (sw_prng_state sw) elig []
             in (out, sw\<lparr>sw_prng_state := s\<rparr>))"

section \<open>Suspicion management\<close>

definition swim_suspect_timeout :: "wake_swim_t \<Rightarrow> u32" where
  "swim_suspect_timeout sw =
     (let base =
        (if sc_suspect_timeout_ms (sw_config sw) \<noteq> 0 then sc_suspect_timeout_ms (sw_config sw)
         else
           let n = (if sw_alive_count sw > 2 then sw_alive_count sw else 2);
               l = ilog2 n;
               log_n = (if l = 0 then 1 else l);
               auto_ms = (ucast (sc_suspicion_mult (sw_config sw)) :: u64) * ucast log_n
                           * ucast (sc_protocol_period_ms (sw_config sw))
           in if auto_ms > 0xFFFFFFFF then 0xFFFFFFFF else ucast auto_ms);
          scaled = (ucast base :: u64) * ucast (1 + sw_health_score sw)
      in if scaled > 0xFFFFFFFF then 0xFFFFFFFF else ucast scaled)"

definition WAKE_SWIM_HEALTH_MAX :: u32 where
  "WAKE_SWIM_HEALTH_MAX = 8"

text \<open>\<open>delta\<close> is a C \<open>int\<close>, so \<open>h\<close> fits in 64 bits and is written as an \<open>int\<close>.\<close>

definition swim_report_health :: "wake_swim_t \<Rightarrow> int \<Rightarrow> wake_swim_t" where
  "swim_report_health sw delta =
     (let h = uint (sw_health_score sw) + delta;
          h = (if h < 0 then 0 else h);
          h = (if h > uint WAKE_SWIM_HEALTH_MAX then uint WAKE_SWIM_HEALTH_MAX else h)
      in sw\<lparr>sw_health_score := of_int h\<rparr>)"

definition check_suspect_at ::
  "u32 \<Rightarrow> u64 \<Rightarrow> nat \<Rightarrow> u32 \<times> wake_swim_t \<Rightarrow> u32 \<times> wake_swim_t" where
  "check_suspect_at timeout now_ms i st =
     (case st of (expired, sw) \<Rightarrow>
        let m = sw_members sw ! i
        in if sm_state m \<noteq> WAKE_SWIM_SUSPECT then (expired, sw)
           else if sm_suspect_ms m = 0 then (expired, sw)
           else if now_ms - sm_suspect_ms m \<ge> ucast timeout
           then
             let m' = m\<lparr>sm_state := WAKE_SWIM_DEAD, sm_last_change_ms := now_ms,
                        sm_suspect_ms := 0\<rparr>;
                 sw1 = sw\<lparr>sw_members := (sw_members sw)[i := m'],
                          sw_state_changes := sw_state_changes sw + 1,
                          sw_suspects_expired := sw_suspects_expired sw + 1\<rparr>
             in (expired + 1, queue_update sw1 m')
           else (expired, sw))"

definition swim_check_suspects :: "wake_swim_t \<Rightarrow> u64 \<Rightarrow> u32 \<times> wake_swim_t" where
  "swim_check_suspects sw now_ms =
     (let timeout = swim_suspect_timeout sw;
          (expired, sw1) = fold (check_suspect_at timeout now_ms)
                             [0..<unat (sw_member_count sw)] (0, sw)
      in if expired > 0 then (expired, (recount_alive sw1)\<lparr>sw_probe_size := 0\<rparr>)
         else (expired, sw1))"

definition reapable :: "u64 \<Rightarrow> u64 \<Rightarrow> wake_swim_member_t \<Rightarrow> bool" where
  "reapable now_ms retention_ms m \<longleftrightarrow>
     (sm_state m = WAKE_SWIM_DEAD \<or> sm_state m = WAKE_SWIM_LEFT)
       \<and> now_ms - sm_last_change_ms m \<ge> retention_ms"

text \<open>
  In-place compaction, \<open>for (src = 0; src < n; src++)\<close>: state is the array and \<open>dst\<close>.
  Entries for which \<open>dead\<close> holds are skipped, the others move down.
\<close>

definition compact :: "('a \<Rightarrow> bool) \<Rightarrow> nat \<Rightarrow> 'a list \<Rightarrow> 'a list \<times> nat" where
  "compact dead n xs =
     fold (\<lambda>src (xs, dst).
             if dead (xs ! src) then (xs, dst)
             else (if dst \<noteq> src then xs[dst := xs ! src] else xs, Suc dst))
          [0..<n] (xs, 0)"

definition swim_reap :: "wake_swim_t \<Rightarrow> u64 \<Rightarrow> u64 \<Rightarrow> u32 \<times> wake_swim_t" where
  "swim_reap sw now_ms retention_ms =
     (let n = unat (sw_member_count sw);
          (ms, dst) = compact (reapable now_ms retention_ms) n (sw_members sw);
          reaped = n - dst;
          sw1 = sw\<lparr>sw_members := ms, sw_member_count := of_nat dst\<rparr>
      in if reaped > 0 then (of_nat reaped, (recount_alive sw1)\<lparr>sw_probe_size := 0\<rparr>)
         else (of_nat reaped, sw1))"

section \<open>Dissemination queue\<close>

text \<open>
  One pass of the selection sort: the first entry not yet selected with the smallest
  \<open>piggyback_count\<close> below \<open>UINT16_MAX\<close>.  The state is \<open>best\<close> and \<open>best_pb\<close>.
\<close>

definition best_unselected :: "wake_swim_update_t list \<Rightarrow> bool list \<Rightarrow> nat \<Rightarrow> nat option" where
  "best_unselected us selected n =
     fst (fold (\<lambda>i (best, best_pb).
                  if selected ! i then (best, best_pb)
                  else if su_piggyback_count (us ! i) < best_pb
                  then (Some i, su_piggyback_count (us ! i)) else (best, best_pb))
               [0..<n] (None, 0xFFFF))"

text \<open>\<open>for (p = 0; p < pick; p++)\<close>: state is the array, the flags, what was written out.\<close>

fun pick_updates ::
  "nat \<Rightarrow> nat \<Rightarrow> wake_swim_update_t list \<Rightarrow> bool list \<Rightarrow> wake_swim_update_t list
     \<Rightarrow> wake_swim_update_t list \<times> wake_swim_update_t list" where
  "pick_updates sel_cap 0 us selected out = (us, out)"
| "pick_updates sel_cap (Suc p) us selected out =
     (case best_unselected us selected sel_cap of
        None \<Rightarrow> (us, out)
      | Some b \<Rightarrow>
          pick_updates sel_cap p
            (us[b := (us ! b)\<lparr>su_piggyback_count := su_piggyback_count (us ! b) + 1\<rparr>])
            (selected[b := True]) (out @ [us ! b]))"

definition dissemination_limit :: "wake_swim_t \<Rightarrow> u32" where
  "dissemination_limit sw =
     (let n = (if sw_alive_count sw > 2 then sw_alive_count sw else 2);
          limit = 3 * ilog2 n
      in if limit < 3 then 3 else limit)"

definition swim_get_updates ::
  "wake_swim_t \<Rightarrow> u32 \<Rightarrow> wake_swim_update_t list \<times> wake_swim_t" where
  "swim_get_updates sw max_n =
     (if max_n = 0 \<or> sw_update_count sw = 0 then ([], sw)
      else
        let pick = (if max_n < sw_update_count sw then unat max_n else unat (sw_update_count sw));
            sel_cap = (if sw_update_count sw < 256 then unat (sw_update_count sw) else 256);
            (us, out) = pick_updates sel_cap pick (sw_updates sw) (replicate sel_cap False) [];
            limit = dissemination_limit sw;
            (us', dst) = compact (\<lambda>u. su_piggyback_count u \<ge> ucast limit)
                           (unat (sw_update_count sw)) us
        in (out, sw\<lparr>sw_updates := us', sw_update_count := of_nat dst,
                    sw_updates_piggybacked := sw_updates_piggybacked sw + of_nat (length out)\<rparr>))"

section \<open>Iteration, statistics, names\<close>

text \<open>The callback of \<open>wake_swim_iterate\<close> reads a member and updates the caller's context.\<close>

fun iterate_members ::
  "wake_swim_member_t list \<Rightarrow> (wake_swim_member_t \<Rightarrow> 'c \<Rightarrow> bool \<times> 'c) \<Rightarrow> 'c \<Rightarrow> u32 \<Rightarrow> u32 \<times> 'c" where
  "iterate_members [] fn ctx n = (n, ctx)"
| "iterate_members (m # ms) fn ctx n =
     (let (go, ctx') = fn m ctx
      in if go then iterate_members ms fn ctx' (n + 1) else (n + 1, ctx'))"

definition swim_iterate ::
  "wake_swim_t \<Rightarrow> (wake_swim_member_t \<Rightarrow> 'c \<Rightarrow> bool \<times> 'c) \<Rightarrow> 'c \<Rightarrow> u32 \<times> 'c" where
  "swim_iterate sw fn ctx = iterate_members (swim_view sw) fn ctx 0"

definition count_state :: "u8 \<Rightarrow> wake_swim_t \<Rightarrow> u32" where
  "count_state s sw = of_nat (length (filter (\<lambda>m. sm_state m = s) (swim_view sw)))"

definition swim_stats :: "wake_swim_t \<Rightarrow> wake_swim_stats_t" where
  "swim_stats sw =
     \<lparr>ss_total = of_nat (length (swim_view sw)),
      ss_alive = count_state WAKE_SWIM_ALIVE sw,
      ss_suspect = count_state WAKE_SWIM_SUSPECT sw,
      ss_dead = count_state WAKE_SWIM_DEAD sw,
      ss_left = count_state WAKE_SWIM_LEFT sw,
      ss_probe_eligible = count_state WAKE_SWIM_ALIVE sw + count_state WAKE_SWIM_SUSPECT sw,
      ss_rounds_completed = sw_rounds_completed sw,
      ss_state_changes = sw_state_changes sw,
      ss_updates_queued = sw_updates_queued sw,
      ss_updates_piggybacked = sw_updates_piggybacked sw,
      ss_suspects_expired = sw_suspects_expired sw\<rparr>"

text \<open>An enum argument is the \<open>unsigned\<close> the code compares.\<close>

definition wake_swim_state_name :: "u32 \<Rightarrow> string" where
  "wake_swim_state_name s =
     (if s < 4 then [''ALIVE'', ''SUSPECT'', ''DEAD'', ''LEFT''] ! unat s else ''UNKNOWN'')"

definition wake_swim_result_name :: "u32 \<Rightarrow> string" where
  "wake_swim_result_name r =
     (if r \<le> 6 then [''OK'', ''EXISTS'', ''NOT_FOUND'', ''FULL'', ''SELF'', ''STALE'', ''NOOP''] ! unat r
      else ''UNKNOWN'')"

section \<open>Entry points\<close>

text \<open>
  The exported functions: the NULL checks of the sources around the bodies above.  A result
  array is NULL or not (\<open>out\<close>); what is written to it is returned as a list.
\<close>

definition wake_swim_reset :: "wake_swim_t option \<Rightarrow> wake_swim_t option" where
  "wake_swim_reset sw = map_option swim_reset sw"

definition wake_swim_add_member ::
  "wake_swim_t option \<Rightarrow> bytes option \<Rightarrow> u32 \<Rightarrow> u16 \<Rightarrow> u64
     \<Rightarrow> wake_swim_result_t \<times> wake_swim_t option" where
  "wake_swim_add_member sw node_id addr port now_ms =
     (case node_id of None \<Rightarrow> (WAKE_SWIM_NOT_FOUND, sw)
      | Some nid \<Rightarrow> on_handle sw WAKE_SWIM_NOT_FOUND (\<lambda>s. swim_add_member s nid addr port now_ms))"

definition wake_swim_remove_member ::
  "wake_swim_t option \<Rightarrow> bytes option \<Rightarrow> u64 \<Rightarrow> wake_swim_result_t \<times> wake_swim_t option" where
  "wake_swim_remove_member sw node_id now_ms =
     (case node_id of None \<Rightarrow> (WAKE_SWIM_NOT_FOUND, sw)
      | Some nid \<Rightarrow> on_handle sw WAKE_SWIM_NOT_FOUND (\<lambda>s. swim_remove_member s nid now_ms))"

definition wake_swim_find :: "wake_swim_t option \<Rightarrow> bytes option \<Rightarrow> wake_swim_member_t option" where
  "wake_swim_find sw node_id =
     (case (sw, node_id) of (Some s, Some nid) \<Rightarrow> swim_find s nid | _ \<Rightarrow> None)"

definition wake_swim_apply_update ::
  "wake_swim_t option \<Rightarrow> wake_swim_update_t option \<Rightarrow> u64
     \<Rightarrow> wake_swim_result_t \<times> wake_swim_t option" where
  "wake_swim_apply_update sw update now_ms =
     (case update of None \<Rightarrow> (WAKE_SWIM_STALE, sw)
      | Some u \<Rightarrow> on_handle sw WAKE_SWIM_STALE (\<lambda>s. swim_apply_update s u now_ms))"

definition wake_swim_suspect_member ::
  "wake_swim_t option \<Rightarrow> bytes option \<Rightarrow> u64 \<Rightarrow> wake_swim_result_t \<times> wake_swim_t option" where
  "wake_swim_suspect_member sw node_id now_ms =
     (case node_id of None \<Rightarrow> (WAKE_SWIM_NOT_FOUND, sw)
      | Some nid \<Rightarrow> on_handle sw WAKE_SWIM_NOT_FOUND (\<lambda>s. swim_suspect_member s nid now_ms))"

definition wake_swim_next_probe :: "wake_swim_t option \<Rightarrow> nat option \<times> wake_swim_t option" where
  "wake_swim_next_probe sw = on_handle sw None swim_next_probe"

definition wake_swim_select_delegates ::
  "wake_swim_t option \<Rightarrow> bytes option \<Rightarrow> bool \<Rightarrow> u32
     \<Rightarrow> wake_swim_member_t list \<times> wake_swim_t option" where
  "wake_swim_select_delegates sw exclude_id out max_n =
     (if \<not> out then ([], sw)
      else on_handle sw [] (\<lambda>s. swim_select_delegates s exclude_id max_n))"

definition wake_swim_suspect_timeout :: "wake_swim_t option \<Rightarrow> u32" where
  "wake_swim_suspect_timeout sw = (case sw of None \<Rightarrow> 0 | Some s \<Rightarrow> swim_suspect_timeout s)"

definition wake_swim_report_health :: "wake_swim_t option \<Rightarrow> int \<Rightarrow> wake_swim_t option" where
  "wake_swim_report_health sw delta = map_option (\<lambda>s. swim_report_health s delta) sw"

definition wake_swim_health :: "wake_swim_t option \<Rightarrow> u32" where
  "wake_swim_health sw = (case sw of None \<Rightarrow> 0 | Some s \<Rightarrow> sw_health_score s)"

definition wake_swim_check_suspects ::
  "wake_swim_t option \<Rightarrow> u64 \<Rightarrow> u32 \<times> wake_swim_t option" where
  "wake_swim_check_suspects sw now_ms = on_handle sw 0 (\<lambda>s. swim_check_suspects s now_ms)"

definition wake_swim_reap ::
  "wake_swim_t option \<Rightarrow> u64 \<Rightarrow> u64 \<Rightarrow> u32 \<times> wake_swim_t option" where
  "wake_swim_reap sw now_ms retention_ms = on_handle sw 0 (\<lambda>s. swim_reap s now_ms retention_ms)"

definition wake_swim_get_updates ::
  "wake_swim_t option \<Rightarrow> bool \<Rightarrow> u32 \<Rightarrow> wake_swim_update_t list \<times> wake_swim_t option" where
  "wake_swim_get_updates sw out max_n =
     (if \<not> out then ([], sw) else on_handle sw [] (\<lambda>s. swim_get_updates s max_n))"

definition wake_swim_iterate ::
  "wake_swim_t option \<Rightarrow> (wake_swim_member_t \<Rightarrow> 'c \<Rightarrow> bool \<times> 'c) option \<Rightarrow> 'c \<Rightarrow> u32 \<times> 'c" where
  "wake_swim_iterate sw fn ctx =
     (case (sw, fn) of (Some s, Some f) \<Rightarrow> swim_iterate s f ctx | _ \<Rightarrow> (0, ctx))"

definition zero_stats :: wake_swim_stats_t where
  "zero_stats = \<lparr>ss_total = 0, ss_alive = 0, ss_suspect = 0, ss_dead = 0, ss_left = 0,
     ss_probe_eligible = 0, ss_rounds_completed = 0, ss_state_changes = 0,
     ss_updates_queued = 0, ss_updates_piggybacked = 0, ss_suspects_expired = 0\<rparr>"

definition wake_swim_stats :: "wake_swim_t option \<Rightarrow> bool \<Rightarrow> wake_swim_stats_t option" where
  "wake_swim_stats sw out =
     (if \<not> out then None
      else Some (case sw of None \<Rightarrow> zero_stats | Some s \<Rightarrow> swim_stats s))"

end
