(* ===== verification/Wake_Swim_Inv.thy ===== *)
theory Wake_Swim_Inv
  imports Wake_Swim
begin

text \<open>
  The invariant of a SWIM instance.  \<open>swim_step\<close> is one call of any exported function on a live
  instance, \<open>swim_inv\<close> what holds between two calls.  The member array and the update queue are
  interpretations of \<^const>\<open>keyed_store\<close>, and the whole instance is an interpretation of
  \<^const>\<open>invariant_machine\<close>, so that every later theorem may assume the invariant.
\<close>

section \<open>The invariant\<close>

text \<open>The member array: its capacity, distinct ids, never the node itself, timers only on suspects.\<close>

definition members_ok :: "wake_swim_t \<Rightarrow> bool" where
  "members_ok sw \<longleftrightarrow>
     length (sw_members sw) = unat (sc_max_members (sw_config sw))
   \<and> sw_member_count sw \<le> ucast (sc_max_members (sw_config sw))
   \<and> distinct (map sm_node_id (swim_view sw))
   \<and> (\<forall>m\<in>set (swim_view sw). sm_node_id m \<noteq> sw_self_id sw
        \<and> (sm_state m \<noteq> WAKE_SWIM_SUSPECT \<longrightarrow> sm_suspect_ms m = 0))"

definition alive_ok :: "wake_swim_t \<Rightarrow> bool" where
  "alive_ok sw \<longleftrightarrow> unat (sw_alive_count sw) = length (filter probe_eligible (swim_view sw))"

text \<open>
  The update queue: its capacity, one update per node, and a bound on how often an update has
  been sent (the pruning limit for 65535 members is 45).
\<close>

definition queue_ok :: "wake_swim_t \<Rightarrow> bool" where
  "queue_ok sw \<longleftrightarrow>
     length (sw_updates sw) = unat (sc_update_queue_size (sw_config sw))
   \<and> sc_update_queue_size (sw_config sw) \<noteq> 0
   \<and> sw_update_count sw \<le> ucast (sc_update_queue_size (sw_config sw))
   \<and> distinct (map su_node_id (swim_queue sw))
   \<and> (\<forall>u\<in>set (swim_queue sw). su_piggyback_count u < 45)"

text \<open>A probe order that has not been invalidated lists each eligible member exactly once.\<close>

definition probe_ok :: "wake_swim_t \<Rightarrow> bool" where
  "probe_ok sw \<longleftrightarrow>
     length (sw_probe_order sw) = unat (sc_max_members (sw_config sw))
   \<and> (sw_probe_size sw \<noteq> 0 \<longrightarrow>
        unat (sw_probe_size sw) = length (eligible_indices sw)
      \<and> mset (take (length (eligible_indices sw)) (sw_probe_order sw))
          = mset (map of_nat (eligible_indices sw)))"

definition swim_inv :: "wake_swim_t \<Rightarrow> bool" where
  "swim_inv sw \<longleftrightarrow> members_ok sw \<and> alive_ok sw \<and> queue_ok sw \<and> probe_ok sw
     \<and> sw_health_score sw \<le> WAKE_SWIM_HEALTH_MAX \<and> sw_rounds_completed sw = 0"

section \<open>The machine\<close>

definition swim_init :: "wake_swim_t \<Rightarrow> bool" where
  "swim_init sw \<longleftrightarrow> (\<exists>self addr port cfg al. wake_swim_create self addr port cfg al = Some sw)"

inductive swim_step :: "wake_swim_t \<Rightarrow> wake_swim_t \<Rightarrow> bool" where
  reset: "swim_step sw (swim_reset sw)"
| add_member: "swim_step sw (snd (swim_add_member sw nid addr port now))"
| remove_member: "swim_step sw (snd (swim_remove_member sw nid now))"
| apply_update: "swim_step sw (snd (swim_apply_update sw u now))"
| suspect_member: "swim_step sw (snd (swim_suspect_member sw nid now))"
| next_probe: "swim_step sw (snd (swim_next_probe sw))"
| select_delegates: "swim_step sw (snd (swim_select_delegates sw ex max_n))"
| report_health: "swim_step sw (swim_report_health sw delta)"
| check_suspects: "swim_step sw (snd (swim_check_suspects sw now))"
| reap: "swim_step sw (snd (swim_reap sw now retention))"
| get_updates: "swim_step sw (snd (swim_get_updates sw max_n))"

inductive_cases swim_stepE: "swim_step sw t"

abbreviation swim_reachable :: "wake_swim_t \<Rightarrow> bool" where
  "swim_reachable \<equiv> reach swim_init swim_step"

section \<open>Frames\<close>

text \<open>Each part of the invariant depends on a few fields only.\<close>

lemma members_ok_frame [simp]:
  "members_ok (sw_alive_count_update f1 sw) = members_ok sw"
  "members_ok (sw_probe_order_update f2 sw) = members_ok sw"
  "members_ok (sw_probe_size_update f3 sw) = members_ok sw"
  "members_ok (sw_probe_index_update f4 sw) = members_ok sw"
  "members_ok (sw_updates_update f5 sw) = members_ok sw"
  "members_ok (sw_update_count_update f6 sw) = members_ok sw"
  "members_ok (sw_self_incarnation_update f7 sw) = members_ok sw"
  "members_ok (sw_prng_state_update f8 sw) = members_ok sw"
  "members_ok (sw_rounds_completed_update f9 sw) = members_ok sw"
  "members_ok (sw_state_changes_update f10 sw) = members_ok sw"
  "members_ok (sw_updates_queued_update f11 sw) = members_ok sw"
  "members_ok (sw_updates_piggybacked_update f12 sw) = members_ok sw"
  "members_ok (sw_suspects_expired_update f13 sw) = members_ok sw"
  "members_ok (sw_health_score_update f14 sw) = members_ok sw"
  by (simp_all add: members_ok_def swim_view_def)

lemma alive_ok_frame [simp]:
  "alive_ok (sw_probe_order_update f15 sw) = alive_ok sw"
  "alive_ok (sw_probe_size_update f16 sw) = alive_ok sw"
  "alive_ok (sw_probe_index_update f17 sw) = alive_ok sw"
  "alive_ok (sw_updates_update f18 sw) = alive_ok sw"
  "alive_ok (sw_update_count_update f19 sw) = alive_ok sw"
  "alive_ok (sw_self_incarnation_update f20 sw) = alive_ok sw"
  "alive_ok (sw_prng_state_update f21 sw) = alive_ok sw"
  "alive_ok (sw_rounds_completed_update f22 sw) = alive_ok sw"
  "alive_ok (sw_state_changes_update f23 sw) = alive_ok sw"
  "alive_ok (sw_updates_queued_update f24 sw) = alive_ok sw"
  "alive_ok (sw_updates_piggybacked_update f25 sw) = alive_ok sw"
  "alive_ok (sw_suspects_expired_update f26 sw) = alive_ok sw"
  "alive_ok (sw_health_score_update f27 sw) = alive_ok sw"
  by (simp_all add: alive_ok_def swim_view_def)

lemma queue_ok_frame [simp]:
  "queue_ok (sw_members_update f28 sw) = queue_ok sw"
  "queue_ok (sw_member_count_update f29 sw) = queue_ok sw"
  "queue_ok (sw_alive_count_update f30 sw) = queue_ok sw"
  "queue_ok (sw_probe_order_update f31 sw) = queue_ok sw"
  "queue_ok (sw_probe_size_update f32 sw) = queue_ok sw"
  "queue_ok (sw_probe_index_update f33 sw) = queue_ok sw"
  "queue_ok (sw_self_incarnation_update f34 sw) = queue_ok sw"
  "queue_ok (sw_prng_state_update f35 sw) = queue_ok sw"
  "queue_ok (sw_rounds_completed_update f36 sw) = queue_ok sw"
  "queue_ok (sw_state_changes_update f37 sw) = queue_ok sw"
  "queue_ok (sw_updates_queued_update f38 sw) = queue_ok sw"
  "queue_ok (sw_updates_piggybacked_update f39 sw) = queue_ok sw"
  "queue_ok (sw_suspects_expired_update f40 sw) = queue_ok sw"
  "queue_ok (sw_health_score_update f41 sw) = queue_ok sw"
  by (simp_all add: queue_ok_def swim_queue_def)

lemma probe_ok_frame [simp]:
  "probe_ok (sw_alive_count_update f42 sw) = probe_ok sw"
  "probe_ok (sw_probe_index_update f43 sw) = probe_ok sw"
  "probe_ok (sw_updates_update f44 sw) = probe_ok sw"
  "probe_ok (sw_update_count_update f45 sw) = probe_ok sw"
  "probe_ok (sw_self_incarnation_update f46 sw) = probe_ok sw"
  "probe_ok (sw_prng_state_update f47 sw) = probe_ok sw"
  "probe_ok (sw_rounds_completed_update f48 sw) = probe_ok sw"
  "probe_ok (sw_state_changes_update f49 sw) = probe_ok sw"
  "probe_ok (sw_updates_queued_update f50 sw) = probe_ok sw"
  "probe_ok (sw_updates_piggybacked_update f51 sw) = probe_ok sw"
  "probe_ok (sw_suspects_expired_update f52 sw) = probe_ok sw"
  "probe_ok (sw_health_score_update f53 sw) = probe_ok sw"
  by (simp_all add: probe_ok_def eligible_indices_def)

lemma swim_view_frame [simp]:
  "swim_view (sw_alive_count_update f54 sw) = swim_view sw"
  "swim_view (sw_probe_order_update f55 sw) = swim_view sw"
  "swim_view (sw_probe_size_update f56 sw) = swim_view sw"
  "swim_view (sw_probe_index_update f57 sw) = swim_view sw"
  "swim_view (sw_updates_update f58 sw) = swim_view sw"
  "swim_view (sw_update_count_update f59 sw) = swim_view sw"
  "swim_view (sw_self_incarnation_update f60 sw) = swim_view sw"
  "swim_view (sw_prng_state_update f61 sw) = swim_view sw"
  "swim_view (sw_rounds_completed_update f62 sw) = swim_view sw"
  "swim_view (sw_state_changes_update f63 sw) = swim_view sw"
  "swim_view (sw_updates_queued_update f64 sw) = swim_view sw"
  "swim_view (sw_updates_piggybacked_update f65 sw) = swim_view sw"
  "swim_view (sw_suspects_expired_update f66 sw) = swim_view sw"
  "swim_view (sw_health_score_update f67 sw) = swim_view sw"
  by (simp_all add: swim_view_def)

lemma queue_update_frame [simp]:
  "sw_config (queue_update sw m) = sw_config sw"
  "sw_members (queue_update sw m) = sw_members sw"
  "sw_member_count (queue_update sw m) = sw_member_count sw"
  "sw_alive_count (queue_update sw m) = sw_alive_count sw"
  "sw_probe_order (queue_update sw m) = sw_probe_order sw"
  "sw_probe_size (queue_update sw m) = sw_probe_size sw"
  "sw_probe_index (queue_update sw m) = sw_probe_index sw"
  "sw_self_id (queue_update sw m) = sw_self_id sw"
  "sw_self_addr (queue_update sw m) = sw_self_addr sw"
  "sw_self_port (queue_update sw m) = sw_self_port sw"
  "sw_self_incarnation (queue_update sw m) = sw_self_incarnation sw"
  "sw_prng_state (queue_update sw m) = sw_prng_state sw"
  "sw_rounds_completed (queue_update sw m) = sw_rounds_completed sw"
  "sw_health_score (queue_update sw m) = sw_health_score sw"
  by (simp_all add: queue_update_def split: option.split)

lemma queue_update_view [simp]: "swim_view (queue_update sw m) = swim_view sw"
  by (simp add: swim_view_def)

lemma queue_update_parts [simp]:
  "members_ok (queue_update sw m) = members_ok sw"
  "alive_ok (queue_update sw m) = alive_ok sw"
  "probe_ok (queue_update sw m) = probe_ok sw"
  by (simp_all add: members_ok_def alive_ok_def probe_ok_def eligible_indices_def)

lemma length_swim_view: "members_ok sw \<Longrightarrow> length (swim_view sw) = unat (sw_member_count sw)"
  by (simp add: members_ok_def swim_view_def word_le_nat_alt)

lemma length_swim_queue: "queue_ok sw \<Longrightarrow> length (swim_queue sw) = unat (sw_update_count sw)"
  by (simp add: queue_ok_def swim_queue_def word_le_nat_alt)


section \<open>The queue\<close>

interpretation queue: keyed_store swim_queue su_node_id
  "\<lambda>sw k. find_index (\<lambda>u. su_node_id u = k) (swim_queue sw)" queue_ok
  by unfold_locales (auto simp: queue_ok_def)

interpretation members: keyed_store swim_view sm_node_id find_member members_ok
  by unfold_locales (auto simp: members_ok_def find_member_def)

subsection \<open>Floor of the binary logarithm\<close>

lemma ilog2_loop_spec:
  "n > 0 \<Longrightarrow> \<exists>k. ilog2_loop n r = r + of_nat k \<and> 2 ^ k \<le> unat n \<and> unat n < 2 ^ Suc k"
proof (induction n r rule: ilog2_loop.induct)
  case (1 n r)
  show ?case
  proof (cases "n > 1")
    case True
    then have "unat n \<ge> 2" by (simp add: word_less_nat_alt)
    then have "drop_bit 1 n > 0" by (simp add: word_less_nat_alt)
    with 1 True obtain k where k: "ilog2_loop (drop_bit 1 n) (r + 1) = r + 1 + of_nat k"
      "2 ^ k \<le> unat n div 2" "unat n div 2 < 2 ^ Suc k" by auto
    then have "ilog2_loop n r = r + of_nat (Suc k)" using True
      by (subst ilog2_loop.simps) (simp add: ac_simps)
    moreover have "2 ^ Suc k \<le> unat n" "unat n < 2 ^ Suc (Suc k)" using k(2,3) by auto
    ultimately show ?thesis by blast
  next
    case False
    then have "ilog2_loop n r = r + of_nat 0" by (simp add: ilog2_loop.simps)
    moreover have "unat n = 1" using False "1.prems"
      by (simp add: word_less_nat_alt)
    ultimately show ?thesis by (intro exI [of _ 0]) simp
  qed
qed

lemma ilog2_spec:
  assumes "n > 0"
  shows "2 ^ unat (ilog2 n) \<le> unat n" and "unat n < 2 ^ Suc (unat (ilog2 n))"
proof -
  obtain k where k: "ilog2_loop n 0 = of_nat k" "2 ^ k \<le> unat n" "unat n < 2 ^ Suc k"
    using ilog2_loop_spec [OF assms, of 0] by auto
  have "(2::nat) ^ k < 2 ^ 32"
    using k(2) unsigned_less [of n, where ?'a = nat] by simp
  then have "k < 32" by (rule power_less_imp_less_exp [rotated]) simp
  then have "unat (of_nat k :: u32) = k" by (intro unat_of_nat_le [of k 32]) auto
  moreover have "n \<le> 1 \<Longrightarrow> ilog2_loop n 0 = 0"
    by (subst ilog2_loop.simps) (simp add: not_less [symmetric])
  then have "ilog2 n = of_nat k"
    using k(1) by (auto simp: ilog2_def)
  ultimately show "2 ^ unat (ilog2 n) \<le> unat n" "unat n < 2 ^ Suc (unat (ilog2 n))"
    using k by simp_all
qed

lemma update_of_member_id [simp]:
  "su_node_id (update_of_member m) = sm_node_id m" "su_piggyback_count (update_of_member m) = 0"
  by (simp_all add: update_of_member_def)

lemma queue_ok_update_at:
  assumes "queue_ok sw" "i < unat (sw_update_count sw)"
    and "su_node_id u \<notin> su_node_id ` set (swim_queue sw)
           \<or> su_node_id u = su_node_id (swim_queue sw ! i)"
    and "su_piggyback_count u < 45"
  shows "queue_ok (sw\<lparr>sw_updates := (sw_updates sw)[i := u]\<rparr>)"
proof -
  have "swim_queue (sw\<lparr>sw_updates := (sw_updates sw)[i := u]\<rparr>) = (swim_queue sw)[i := u]"
    using assms(2) by (simp add: swim_queue_def take_update_swap)
  with assms show ?thesis
    using distinct_map_update [of su_node_id "swim_queue sw" i u] length_swim_queue [of sw]
      set_update_subset_insert [of "swim_queue sw" i u]
    by (auto simp: queue_ok_def)
qed

lemma queue_update_queue_ok [simp]:
  assumes "queue_ok sw"
  shows "queue_ok (queue_update sw m)"
proof (cases "find_index (\<lambda>u. su_node_id u = sm_node_id m) (swim_queue sw)")
  case (Some i)
  then have "i < unat (sw_update_count sw)" "su_node_id (swim_queue sw ! i) = sm_node_id m"
    using length_swim_queue [OF assms] by (auto dest: find_index_SomeD)
  then show ?thesis
    using assms Some by (simp add: queue_update_def queue_ok_update_at)
next
  case None
  then have new: "sm_node_id m \<notin> su_node_id ` set (swim_queue sw)"
    by (auto simp: find_index_None_iff)
  show ?thesis
  proof (cases "sw_update_count sw < ucast (sc_update_queue_size (sw_config sw))")
    case True
    then have "unat (sw_update_count sw + 1) = Suc (unat (sw_update_count sw))"
      by (rule unat_Suc_word_less)
    moreover have "unat (sw_update_count sw) < length (sw_updates sw)"
      using True assms by (simp add: queue_ok_def word_less_nat_alt)
    ultimately show ?thesis
      using True None new assms
      by (auto simp: queue_update_def queue_ok_def swim_queue_def word_le_nat_alt word_less_nat_alt)
  next
    case False
    have "swim_queue sw \<noteq> []"
      using False assms length_swim_queue [OF assms]
      by (auto simp: queue_ok_def word_less_nat_alt unat_eq_0)
    then have "worst_update (swim_queue sw) < unat (sw_update_count sw)"
      using scan_best_less length_swim_queue [OF assms] by (metis worst_update_def)
    from queue_ok_update_at [OF assms this, of "update_of_member m"] new show ?thesis
      using False None by (simp add: queue_update_def)
  qed
qed

section \<open>Members\<close>

lemma member_count_less: "members_ok sw \<Longrightarrow> unat (sw_member_count sw) \<le> 65535"
  using unat_u16_less [of "sc_max_members (sw_config sw)"]
  by (simp add: members_ok_def word_le_nat_alt)

lemma swim_view_nth:
  "members_ok sw \<Longrightarrow> i < unat (sw_member_count sw) \<Longrightarrow> swim_view sw ! i = sw_members sw ! i"
  by (simp add: swim_view_def)

lemma find_member_SomeD:
  assumes "members_ok sw" "find_member sw nid = Some i"
  shows "i < unat (sw_member_count sw)" and "sm_node_id (sw_members sw ! i) = nid"
  using assms members.locate_Some_iff [OF assms(1)] length_swim_view [OF assms(1)]
  by (auto simp: swim_view_nth)

lemma recount_alive_ok [simp]:
  assumes "members_ok sw"
  shows "alive_ok (recount_alive sw)"
proof -
  have "length (filter probe_eligible (swim_view sw)) \<le> 65535"
    using member_count_less [OF assms] length_swim_view [OF assms] length_filter_le order_trans
    by metis
  then show ?thesis
    by (simp add: alive_ok_def recount_alive_def unat_of_nat)
qed

lemma recount_alive_frame [simp]:
  "members_ok (recount_alive sw) = members_ok sw"
  "queue_ok (recount_alive sw) = queue_ok sw"
  "sw_health_score (recount_alive sw) = sw_health_score sw"
  "sw_rounds_completed (recount_alive sw) = sw_rounds_completed sw"
  "sw_config (recount_alive sw) = sw_config sw"
  "sw_probe_order (recount_alive sw) = sw_probe_order sw"
  "sw_members (recount_alive sw) = sw_members sw"
  "sw_member_count (recount_alive sw) = sw_member_count sw"
  "swim_view (recount_alive sw) = swim_view sw"
  by (simp_all add: recount_alive_def)

text \<open>An invalidated probe order satisfies its part of the invariant.\<close>

lemma probe_ok_invalid [simp]:
  "probe_ok (sw\<lparr>sw_probe_size := 0\<rparr>)
     = (length (sw_probe_order sw) = unat (sc_max_members (sw_config sw)))"
  by (simp add: probe_ok_def)

lemma probe_ok_length: "probe_ok sw \<Longrightarrow> length (sw_probe_order sw) = unat (sc_max_members (sw_config sw))"
  by (simp add: probe_ok_def)

lemma swim_view_update_at:
  "i < unat (sw_member_count sw) \<Longrightarrow>
     swim_view (sw\<lparr>sw_members := (sw_members sw)[i := m]\<rparr>) = (swim_view sw)[i := m]"
  by (simp add: swim_view_def take_update_swap)

lemma members_ok_update_at:
  assumes "members_ok sw" "i < unat (sw_member_count sw)"
    and "sm_node_id m = sm_node_id (sw_members sw ! i)"
    and "sm_state m \<noteq> WAKE_SWIM_SUSPECT \<longrightarrow> sm_suspect_ms m = 0"
  shows "members_ok (sw\<lparr>sw_members := (sw_members sw)[i := m]\<rparr>)"
proof -
  let ?v = "swim_view sw"
  have len: "i < length ?v" and at: "?v ! i = sw_members sw ! i"
    using assms(1,2) by (simp_all add: length_swim_view swim_view_nth)
  have "distinct (map sm_node_id (?v[i := m]))"
    using assms(1,3) len at by (intro distinct_map_update) (auto simp: members_ok_def)
  moreover have "\<forall>x\<in>set (?v[i := m]). sm_node_id x \<noteq> sw_self_id sw
        \<and> (sm_state x \<noteq> WAKE_SWIM_SUSPECT \<longrightarrow> sm_suspect_ms x = 0)"
  proof
    fix x
    assume "x \<in> set (?v[i := m])"
    then have "x = m \<or> x \<in> set ?v"
      using set_update_subset_insert [of ?v i m] by auto
    moreover have "?v ! i \<in> set ?v" using len by simp
    ultimately show "sm_node_id x \<noteq> sw_self_id sw
        \<and> (sm_state x \<noteq> WAKE_SWIM_SUSPECT \<longrightarrow> sm_suspect_ms x = 0)"
      using assms(1,3,4) at by (metis members_ok_def)
  qed
  ultimately show ?thesis
    using assms(1,2) by (simp add: members_ok_def swim_view_update_at)
qed

lemma swim_inv_commit:
  assumes "swim_inv sw" "i < unat (sw_member_count sw)"
    and "sm_node_id m = sm_node_id (sw_members sw ! i)"
    and "sm_state m \<noteq> WAKE_SWIM_SUSPECT \<longrightarrow> sm_suspect_ms m = 0"
  shows "swim_inv (commit_member sw i m)"
proof -
  have "members_ok (sw\<lparr>sw_members := (sw_members sw)[i := m]\<rparr>)"
    using assms by (intro members_ok_update_at) (auto simp: swim_inv_def)
  with assms(1) show ?thesis
    by (simp add: commit_member_def swim_inv_def Let_def probe_ok_length)
qed

section \<open>Compaction and shuffling\<close>

lemma compact_spec:
  assumes "n \<le> length xs" "compact dead n xs = (ys, k)"
  shows "k = length (filter (\<lambda>x. \<not> dead x) (take n xs))"
    and "take k ys = filter (\<lambda>x. \<not> dead x) (take n xs)"
    and "length ys = length xs" and "drop n ys = drop n xs"
proof -
  let ?P = "\<lambda>x. \<not> dead x"
  have "\<forall>ys k. compact dead n xs = (ys, k) \<longrightarrow>
      k = length (filter ?P (take n xs)) \<and> take k ys = filter ?P (take n xs)
        \<and> length ys = length xs \<and> drop n ys = drop n xs"
    using assms(1)
  proof (induction n)
    case 0
    then show ?case by (simp add: compact_def)
  next
    case (Suc n)
    obtain zs j where zs: "compact dead n xs = (zs, j)" by force
    with Suc have IH: "j = length (filter ?P (take n xs))" "take j zs = filter ?P (take n xs)"
      "length zs = length xs" "drop n zs = drop n xs" by auto
    have j: "j \<le> n"
      using IH(1) Suc.prems by (metis length_filter_le length_take min.absorb2 Suc_leD)
    have at: "zs ! n = xs ! n"
      using IH(3,4) Suc.prems by (metis Cons_nth_drop_Suc Suc_le_lessD list.inject)
    have dr: "drop (Suc n) zs = drop (Suc n) xs"
      using IH(4) by (metis drop_Suc tl_drop)
    have step: "compact dead (Suc n) xs =
       (if dead (xs ! n) then (zs, j) else (if j \<noteq> n then zs[j := zs ! n] else zs, Suc j))"
      using zs at by (simp add: compact_def)
    show ?case
      using Suc.prems IH j at dr
      by (auto simp: step take_Suc_conv_app_nth)
  qed
  with assms(2) show "k = length (filter ?P (take n xs))"
    and "take k ys = filter ?P (take n xs)"
    and "length ys = length xs" and "drop n ys = drop n xs" by auto
qed

lemma fisher_yates_perm:
  assumes "i \<le> n" "n \<le> length xs" "n < 2 ^ 64"
  shows "length (snd (fisher_yates i s xs)) = length xs
    \<and> mset (take n (snd (fisher_yates i s xs))) = mset (take n xs)"
  using assms
proof (induction i s xs rule: fisher_yates.induct)
  case (1 i s xs)
  show ?case
  proof (cases "i > 1")
    case True
    obtain s' r where sr: "wake_splitmix64 s = (s', r)" by force
    define j where "j = unat (r mod of_nat i)"
    have "unat (of_nat i :: u64) = i"
      using "1.prems" by (intro unat_of_nat_le [of i n]) auto
    then have "j < i"
      using True by (simp add: j_def unat_mod)
    then have jn: "j < n" "i - 1 < n" using "1.prems" True by auto
    have "mset (take n (swap xs (i - 1) j)) = mset (take n xs)"
      using jn "1.prems" by (simp add: take_swap)
    with "1.IH" [OF True sr [symmetric] refl j_def] "1.prems" True sr jn
    show ?thesis
      by (subst (1 2) fisher_yates.simps) (simp add: j_def Let_def)
  next
    case False
    then show ?thesis by (simp add: fisher_yates.simps)
  qed
qed

lemma eligible_indices_le:
  assumes "members_ok sw"
  shows "length (eligible_indices sw) \<le> unat (sw_member_count sw)"
    and "unat (sw_member_count sw) \<le> unat (sc_max_members (sw_config sw))"
  using length_filter_le [of _ "[0..<unat (sw_member_count sw)]"] assms
  by (auto simp: eligible_indices_def members_ok_def word_le_nat_alt)

lemma rebuild_frame [simp]:
  "sw_config (rebuild_probe_order sw) = sw_config sw"
  "sw_members (rebuild_probe_order sw) = sw_members sw"
  "sw_member_count (rebuild_probe_order sw) = sw_member_count sw"
  "sw_alive_count (rebuild_probe_order sw) = sw_alive_count sw"
  "sw_rounds_completed (rebuild_probe_order sw) = sw_rounds_completed sw"
  "sw_health_score (rebuild_probe_order sw) = sw_health_score sw"
  "sw_probe_index (rebuild_probe_order sw) = 0"
  "members_ok (rebuild_probe_order sw) = members_ok sw"
  "alive_ok (rebuild_probe_order sw) = alive_ok sw"
  "queue_ok (rebuild_probe_order sw) = queue_ok sw"
  "swim_view (rebuild_probe_order sw) = swim_view sw"
  by (simp_all add: rebuild_probe_order_def Let_def split: prod.split)

lemma eligible_indices_rebuild [simp]:
  "eligible_indices (rebuild_probe_order sw) = eligible_indices sw"
  by (simp add: eligible_indices_def)

lemma rebuild_perm:
  assumes "members_ok sw" "length (sw_probe_order sw) = unat (sc_max_members (sw_config sw))"
  defines "t \<equiv> rebuild_probe_order sw"
  shows "unat (sw_probe_size t) = length (eligible_indices sw)"
    and "length (sw_probe_order t) = length (sw_probe_order sw)"
    and "mset (take (length (eligible_indices sw)) (sw_probe_order t))
           = mset (map of_nat (eligible_indices sw))"
proof -
  let ?e = "eligible_indices sw"
  let ?o = "arr_put (sw_probe_order sw) 0 (map of_nat ?e) :: u32 list"
  have le: "length ?e \<le> length (sw_probe_order sw)" and small: "length ?e \<le> 65535"
    using eligible_indices_le [OF assms(1)] member_count_less [OF assms(1)] assms(2) by auto
  have len: "length ?o = length (sw_probe_order sw)" using le by simp
  have "take (length ?e) ?o = map of_nat ?e"
    by (metis length_map take_arr_put_0)
  with fisher_yates_perm [of "length ?e" "length ?e" ?o "sw_prng_state sw"] le len small
  show "unat (sw_probe_size t) = length ?e"
    and "length (sw_probe_order t) = length (sw_probe_order sw)"
    and "mset (take (length ?e) (sw_probe_order t)) = mset (map of_nat ?e)"
    by (auto simp: t_def rebuild_probe_order_def unat_of_nat Let_def split: prod.split)
qed

lemma rebuild_probe_ok:
  assumes "members_ok sw" "length (sw_probe_order sw) = unat (sc_max_members (sw_config sw))"
  shows "probe_ok (rebuild_probe_order sw)"
  using rebuild_perm [OF assms] assms(2) by (simp add: probe_ok_def)

section \<open>Probing\<close>

lemma length_eligible_indices:
  assumes "members_ok sw"
  shows "length (eligible_indices sw) = length (filter probe_eligible (swim_view sw))"
proof -
  have "map (\<lambda>i. sw_members sw ! i) [0..<unat (sw_member_count sw)] = swim_view sw"
    using length_swim_view [OF assms] by (intro nth_equalityI) (auto simp: swim_view_nth assms)
  then have "filter probe_eligible (swim_view sw)
      = map (\<lambda>i. sw_members sw ! i) (eligible_indices sw)"
    by (metis (no_types, lifting) comp_apply eligible_indices_def filter_cong filter_map)
  then show ?thesis by simp
qed

lemma probe_entry:
  assumes "members_ok sw" "probe_ok sw" "sw_probe_index sw < sw_probe_size sw"
  shows "unat (sw_probe_order sw ! unat (sw_probe_index sw)) \<in> set (eligible_indices sw)"
proof -
  let ?k = "unat (sw_probe_size sw)" and ?o = "sw_probe_order sw"
  have "sw_probe_size sw \<noteq> 0" using assms(3) by auto
  then have k: "?k = length (eligible_indices sw)"
    and perm: "mset (take ?k ?o) = mset (map of_nat (eligible_indices sw))"
    using assms(2) by (auto simp: probe_ok_def)
  have "unat (sw_probe_index sw) < length (take ?k ?o)"
    using assms(3) k mset_eq_length [OF perm] by (simp add: word_less_nat_alt)
  then have "?o ! unat (sw_probe_index sw) \<in> set (take ?k ?o)"
    using nth_mem [of "unat (sw_probe_index sw)" "take ?k ?o"] by simp
  then obtain i where i: "i \<in> set (eligible_indices sw)" "?o ! unat (sw_probe_index sw) = of_nat i"
    using mset_eq_setD [OF perm] by auto
  have "i < unat (sw_member_count sw)" using i(1) by (simp add: eligible_indices_def)
  then have "unat (of_nat i :: u32) = i"
    using member_count_less [OF assms(1)] by (intro unat_of_nat_le [of i 65535]) auto
  with i show ?thesis by simp
qed

lemma probe_scan_hit:
  assumes "members_ok sw" "probe_ok sw" "sw_probe_index sw < sw_probe_size sw"
  shows "probe_scan sw = (Some (unat (sw_probe_order sw ! unat (sw_probe_index sw))),
                          sw\<lparr>sw_probe_index := sw_probe_index sw + 1\<rparr>)"
  using probe_entry [OF assms] assms(3)
  by (subst probe_scan.simps) (auto simp: eligible_indices_def word_less_nat_alt Let_def)

text \<open>The state from which the next target is read: the current order, or a fresh one.\<close>

definition probe_base :: "wake_swim_t \<Rightarrow> wake_swim_t" where
  "probe_base sw = (if sw_probe_size sw = 0 \<or> sw_probe_index sw \<ge> sw_probe_size sw
                    then rebuild_probe_order sw else sw)"

lemma probe_base_ok:
  assumes "swim_inv sw" "sw_alive_count sw \<noteq> 0"
  shows "swim_inv (probe_base sw)" and "sw_probe_index (probe_base sw) < sw_probe_size (probe_base sw)"
    and "swim_view (probe_base sw) = swim_view sw"
    and "eligible_indices (probe_base sw) = eligible_indices sw"
proof -
  have inv: "members_ok sw" "alive_ok sw" "length (sw_probe_order sw) = unat (sc_max_members (sw_config sw))"
    using assms(1) by (auto simp: swim_inv_def probe_ok_length)
  have "0 < length (eligible_indices sw)"
    using inv assms(2) by (simp add: length_eligible_indices alive_ok_def unat_gt_0 flip: unat_eq_0)
  then have "sw_probe_index (rebuild_probe_order sw) < sw_probe_size (rebuild_probe_order sw)"
    using rebuild_perm(1) [OF inv(1,3)] by (simp add: word_less_nat_alt)
  then show "sw_probe_index (probe_base sw) < sw_probe_size (probe_base sw)"
    by (auto simp: probe_base_def)
  show "swim_inv (probe_base sw)"
    using assms(1) rebuild_probe_ok [OF inv(1,3)] by (simp add: probe_base_def swim_inv_def)
  show "swim_view (probe_base sw) = swim_view sw" "eligible_indices (probe_base sw) = eligible_indices sw"
    by (simp_all add: probe_base_def)
qed

lemma next_probe_eq:
  assumes "swim_inv sw" "sw_alive_count sw \<noteq> 0"
  defines "b \<equiv> probe_base sw"
  shows "swim_next_probe sw = (Some (unat (sw_probe_order b ! unat (sw_probe_index b))),
                               b\<lparr>sw_probe_index := sw_probe_index b + 1\<rparr>)"
proof -
  have "members_ok b" "probe_ok b" "sw_probe_index b < sw_probe_size b"
    using probe_base_ok [OF assms(1,2)] by (auto simp: b_def swim_inv_def)
  from probe_scan_hit [OF this] this(3) assms(2) show ?thesis
    unfolding b_def probe_base_def swim_next_probe_def
    by (auto simp: Let_def split: if_splits)
qed

lemma next_probe_none: "sw_alive_count sw = 0 \<Longrightarrow> swim_next_probe sw = (None, sw)"
  by (simp add: swim_next_probe_def)

lemma swim_inv_next_probe:
  assumes "swim_inv sw"
  shows "swim_inv (snd (swim_next_probe sw))"
proof (cases "sw_alive_count sw = 0")
  case True
  with assms show ?thesis by (simp add: next_probe_none)
next
  case False
  have "swim_inv (sw\<lparr>sw_probe_index := k\<rparr>) = swim_inv sw" for sw k
    by (simp add: swim_inv_def)
  with probe_base_ok(1) [OF assms False] show ?thesis
    by (simp add: next_probe_eq [OF assms False])
qed

end
