(* ===== verification/Wake_Swim_Ops.thy ===== *)
theory Wake_Swim_Ops
  imports Wake_Swim_Inv
begin

text \<open>
  Every exported SWIM function keeps the invariant.
\<close>

section \<open>Every operation keeps the invariant\<close>

lemma enforce_minimums_nonzero:
  "sc_max_members (enforce_minimums c) \<noteq> 0" "sc_update_queue_size (enforce_minimums c) \<noteq> 0"
  "sc_suspicion_mult (enforce_minimums c) \<noteq> 0" "sc_protocol_period_ms (enforce_minimums c) \<noteq> 0"
  by (simp_all add: enforce_minimums_def)

lemma create_fields:
  assumes "wake_swim_create self addr port cfg al = Some sw"
  shows "\<exists>c. sw_config sw = enforce_minimums c
      \<and> sw_members sw = replicate (unat (sc_max_members (sw_config sw))) zero_member
      \<and> sw_probe_order sw = replicate (unat (sc_max_members (sw_config sw))) 0
      \<and> sw_updates sw = replicate (unat (sc_update_queue_size (sw_config sw))) zero_update
      \<and> sw_member_count sw = 0 \<and> sw_alive_count sw = 0 \<and> sw_probe_size sw = 0
      \<and> sw_update_count sw = 0 \<and> sw_health_score sw = 0 \<and> sw_rounds_completed sw = 0"
  using assms unfolding wake_swim_create_def Let_def
  by (cases self; cases "sa_handle al"; auto split: if_splits)

lemma swim_inv_create:
  assumes "wake_swim_create self addr port cfg al = Some sw"
  shows "swim_inv sw" and "swim_view sw = []" and "swim_queue sw = []"
proof -
  from create_fields [OF assms] obtain c where
    "sw_config sw = enforce_minimums c"
    "sw_members sw = replicate (unat (sc_max_members (sw_config sw))) zero_member"
    "sw_probe_order sw = replicate (unat (sc_max_members (sw_config sw))) 0"
    "sw_updates sw = replicate (unat (sc_update_queue_size (sw_config sw))) zero_update"
    "sw_member_count sw = 0" "sw_alive_count sw = 0" "sw_probe_size sw = 0"
    "sw_update_count sw = 0" "sw_health_score sw = 0" "sw_rounds_completed sw = 0" by blast
  note f = this
  show view: "swim_view sw = []" and queue: "swim_queue sw = []"
    by (simp_all add: swim_view_def swim_queue_def f)
  show "swim_inv sw"
    using f(2-4) enforce_minimums_nonzero [of c]
    by (simp add: swim_inv_def members_ok_def alive_ok_def queue_ok_def probe_ok_def view queue
        f(1) f(5-))
qed

lemma swim_inv_reset: "swim_inv sw \<Longrightarrow> swim_inv (swim_reset sw)"
  by (simp add: swim_reset_def swim_inv_def members_ok_def alive_ok_def queue_ok_def
      probe_ok_def swim_view_def swim_queue_def)

text \<open>Appending a member.\<close>

lemma swim_view_append:
  assumes "members_ok sw" "sw_member_count sw < ucast (sc_max_members (sw_config sw))"
  shows "swim_view (sw\<lparr>sw_members := (sw_members sw)[unat (sw_member_count sw) := m],
                     sw_member_count := sw_member_count sw + 1\<rparr>) = swim_view sw @ [m]"
proof -
  have "unat (sw_member_count sw) < length (sw_members sw)"
    using assms by (simp add: members_ok_def word_less_nat_alt)
  then show ?thesis
    by (simp add: swim_view_def unat_Suc_word_less [OF assms(2)])
qed

lemma add_member_cases:
  fixes sw nid addr port now
  defines "m \<equiv> \<lparr>sm_node_id = nid, sm_last_change_ms = now, sm_suspect_ms = 0, sm_addr = addr,
                sm_incarnation = 0, sm_port = port, sm_state = WAKE_SWIM_ALIVE\<rparr>"
  assumes inv: "swim_inv sw"
  shows "snd (swim_add_member sw nid addr port now) = sw
           \<and> fst (swim_add_member sw nid addr port now) \<in> {WAKE_SWIM_SELF, WAKE_SWIM_EXISTS, WAKE_SWIM_FULL}
       \<or> fst (swim_add_member sw nid addr port now) = WAKE_SWIM_OK
           \<and> nid \<noteq> sw_self_id sw \<and> nid \<notin> sm_node_id ` set (swim_view sw)
           \<and> swim_view (snd (swim_add_member sw nid addr port now)) = swim_view sw @ [m]
           \<and> swim_inv (snd (swim_add_member sw nid addr port now))"
proof (cases "fst (swim_add_member sw nid addr port now) = WAKE_SWIM_OK")
  case False
  then show ?thesis by (auto simp: swim_add_member_def Let_def split: if_splits)
next
  case True
  let ?c = "sw_member_count sw"
  define t where "t = sw\<lparr>sw_members := (sw_members sw)[unat ?c := m], sw_member_count := ?c + 1\<rparr>"
  have nself: "nid \<noteq> sw_self_id sw" and new: "find_member sw nid = None"
    and room: "?c < ucast (sc_max_members (sw_config sw))"
    using True by (auto simp: swim_add_member_def swim_is_self_def split: if_splits)
  have res: "snd (swim_add_member sw nid addr port now) =
      (queue_update (t\<lparr>sw_alive_count := sw_alive_count t + 1,
                       sw_state_changes := sw_state_changes t + 1\<rparr>) m)\<lparr>sw_probe_size := 0\<rparr>"
    using nself new room
    by (simp add: swim_add_member_def swim_is_self_def t_def m_def Let_def)
  from inv have ok: "members_ok sw" "alive_ok sw" "queue_ok sw" by (auto simp: swim_inv_def)
  have view: "swim_view t = swim_view sw @ [m]"
    using swim_view_append [OF ok(1) room] by (simp add: t_def)
  have fresh: "nid \<notin> sm_node_id ` set (swim_view sw)"
    using new by (auto simp: find_member_def find_index_None_iff)
  have "?c + 1 \<le> ucast (sc_max_members (sw_config sw))"
    using room by (simp add: word_le_nat_alt word_less_nat_alt unat_Suc_word_less [OF room])
  then have "members_ok t"
    using ok(1) view fresh nself by (auto simp: members_ok_def t_def [symmetric]) (auto simp: t_def m_def)
  moreover have "length (filter probe_eligible (swim_view sw)) \<le> 65535"
    using member_count_less [OF ok(1)] length_swim_view [OF ok(1)] length_filter_le order_trans by metis
  then have "alive_ok (t\<lparr>sw_alive_count := sw_alive_count t + 1\<rparr>)"
    using ok(2) view by (auto simp: alive_ok_def t_def m_def probe_eligible_def unat_word_ariths)
  moreover have "queue_ok t" using ok(3) by (simp add: t_def)
  moreover have "length (sw_probe_order t) = unat (sc_max_members (sw_config t))"
    "sw_health_score t \<le> WAKE_SWIM_HEALTH_MAX" "sw_rounds_completed t = 0"
    using inv by (auto simp: t_def swim_inv_def probe_ok_length)
  ultimately have "swim_inv (snd (swim_add_member sw nid addr port now))"
    by (simp add: res swim_inv_def)
  with True nself fresh view show ?thesis by (simp add: res)
qed

lemma swim_inv_add_member:
  "swim_inv sw \<Longrightarrow> swim_inv (snd (swim_add_member sw nid addr port now))"
  using add_member_cases [of sw nid addr port now] by auto

lemma swim_inv_members: "swim_inv sw \<Longrightarrow> members_ok sw"
  by (simp add: swim_inv_def)

lemmas swim_inv_found = find_member_SomeD [OF swim_inv_members]

lemma swim_inv_remove_member:
  "swim_inv sw \<Longrightarrow> swim_inv (snd (swim_remove_member sw nid now))"
  by (auto simp: swim_remove_member_def swim_inv_found split: option.split intro!: swim_inv_commit)

lemma swim_inv_suspect_member:
  "swim_inv sw \<Longrightarrow> swim_inv (snd (swim_suspect_member sw nid now))"
  by (auto simp: swim_suspect_member_def swim_inv_found Let_def split: option.split
      intro!: swim_inv_commit)

lemma swim_inv_apply_self:
  "swim_inv sw \<Longrightarrow> swim_inv (snd (apply_self_update sw u now))"
  by (auto simp: apply_self_update_def swim_inv_def Let_def)

lemma swim_inv_apply_known:
  "swim_inv sw \<Longrightarrow> find_member sw nid = Some i \<Longrightarrow> swim_inv (snd (apply_known_update sw i u now))"
  by (auto simp: apply_known_update_def swim_inv_found Let_def intro!: swim_inv_commit)

text \<open>Writing back a member that keeps its id and its state changes no part of the invariant.\<close>

lemma swim_inv_same_state:
  assumes inv: "swim_inv sw" and i: "i < unat (sw_member_count sw)"
    and m: "sm_node_id m = sm_node_id (sw_members sw ! i)"
      "sm_state m = sm_state (sw_members sw ! i)" "sm_suspect_ms m = sm_suspect_ms (sw_members sw ! i)"
  shows "swim_inv (sw\<lparr>sw_members := (sw_members sw)[i := m]\<rparr>)"
proof -
  let ?t = "sw\<lparr>sw_members := (sw_members sw)[i := m]\<rparr>"
  from inv have ok: "members_ok sw" "alive_ok sw" "probe_ok sw" by (auto simp: swim_inv_def)
  have "swim_view sw ! i \<in> set (swim_view sw)"
    using i length_swim_view [OF ok(1)] by simp
  then have susp: "sm_state m \<noteq> WAKE_SWIM_SUSPECT \<longrightarrow> sm_suspect_ms m = 0"
    using ok(1) m(2,3) by (simp add: members_ok_def swim_view_nth [OF ok(1) i])
  then have mem: "members_ok ?t"
    using ok i m by (intro members_ok_update_at) auto
  have "probe_eligible ((sw_members sw)[i := m] ! j) = probe_eligible (sw_members sw ! j)" for j
    using m(2) by (cases "i < length (sw_members sw)"; cases "i = j") (auto simp: probe_eligible_def not_less list_update_beyond)
  then have elig: "eligible_indices ?t = eligible_indices sw"
    by (simp add: eligible_indices_def)
  then have "alive_ok ?t"
    using length_eligible_indices [OF mem] length_eligible_indices [OF ok(1)] ok(2)
    by (simp add: alive_ok_def)
  moreover have "probe_ok ?t" using ok(3) elig by (auto simp: probe_ok_def)
  ultimately show ?thesis using inv mem by (simp add: swim_inv_def)
qed

lemma swim_inv_apply_unknown:
  assumes "swim_inv sw"
  shows "swim_inv (snd (apply_unknown_update sw u now))"
proof -
  obtain r t where rt: "swim_add_member sw (su_node_id u) (su_addr u) (su_port u) now = (r, t)" by force
  then have inv: "swim_inv t"
    using swim_inv_add_member [OF assms, of "su_node_id u" "su_addr u" "su_port u" now] by simp
  then have "find_member t (su_node_id u) = Some i \<Longrightarrow> swim_inv (t\<lparr>sw_members := (sw_members t)
      [i := (sw_members t ! i)\<lparr>sm_incarnation := su_incarnation u\<rparr>]\<rparr>)" for i
    by (intro swim_inv_same_state) (simp_all add: swim_inv_found)
  with inv assms rt show ?thesis
    by (simp add: apply_unknown_update_def split: option.split)
qed

lemma swim_inv_apply_update: "swim_inv sw \<Longrightarrow> swim_inv (snd (swim_apply_update sw u now))"
  by (simp add: swim_apply_update_def swim_inv_apply_self swim_inv_apply_known
      swim_inv_apply_unknown split: option.split)

lemma swim_inv_select_delegates:
  "swim_inv sw \<Longrightarrow> swim_inv (snd (swim_select_delegates sw ex n))"
  by (auto simp: swim_select_delegates_def swim_inv_def Let_def split: prod.split)

lemma report_health_clamp:
  "uint (sw_health_score (swim_report_health sw delta))
     = max 0 (min 8 (uint (sw_health_score sw) + delta))"
proof -
  define h where "h = max 0 (min 8 (uint (sw_health_score sw) + delta))"
  have "uint (of_int h :: u32) = h"
    unfolding uint_word_of_int_eq by (rule take_bit_int_eq_self) (auto simp: h_def)
  moreover have "sw_health_score (swim_report_health sw delta) = of_int h"
    by (auto simp: swim_report_health_def WAKE_SWIM_HEALTH_MAX_def h_def Let_def
        simp del: of_int_add)
  ultimately show ?thesis by (simp add: h_def)
qed

lemma report_health_bound: "sw_health_score (swim_report_health sw delta) \<le> WAKE_SWIM_HEALTH_MAX"
  by (simp add: word_le_def report_health_clamp WAKE_SWIM_HEALTH_MAX_def)

lemma swim_inv_report_health: "swim_inv sw \<Longrightarrow> swim_inv (swim_report_health sw delta)"
  using report_health_bound [of sw delta]
  by (simp add: swim_report_health_def swim_inv_def Let_def)

section \<open>Expiry of suspicions\<close>

definition suspicion_expired :: "u32 \<Rightarrow> u64 \<Rightarrow> wake_swim_member_t \<Rightarrow> bool" where
  "suspicion_expired timeout now m \<longleftrightarrow>
     sm_state m = WAKE_SWIM_SUSPECT \<and> sm_suspect_ms m \<noteq> 0 \<and> now - sm_suspect_ms m \<ge> ucast timeout"

definition expire_member :: "u32 \<Rightarrow> u64 \<Rightarrow> wake_swim_member_t \<Rightarrow> wake_swim_member_t" where
  "expire_member timeout now m =
     (if suspicion_expired timeout now m
      then m\<lparr>sm_state := WAKE_SWIM_DEAD, sm_last_change_ms := now, sm_suspect_ms := 0\<rparr> else m)"

lemma expire_member_id [simp]: "sm_node_id (expire_member timeout now m) = sm_node_id m"
  by (simp add: expire_member_def)

lemma check_suspect_at_members:
  assumes "i < length (sw_members sw)"
  shows "sw_members (snd (check_suspect_at timeout now i (e, sw)))
           = (sw_members sw)[i := expire_member timeout now (sw_members sw ! i)]"
    and "fst (check_suspect_at timeout now i (e, sw))
           = (if suspicion_expired timeout now (sw_members sw ! i) then e + 1 else e)"
  using assms
  by (auto simp: check_suspect_at_def expire_member_def suspicion_expired_def Let_def)

lemma check_suspect_at_frame [simp]:
  "sw_config (snd (check_suspect_at timeout now i (e, sw))) = sw_config sw"
  "sw_member_count (snd (check_suspect_at timeout now i (e, sw))) = sw_member_count sw"
  "sw_alive_count (snd (check_suspect_at timeout now i (e, sw))) = sw_alive_count sw"
  "sw_self_id (snd (check_suspect_at timeout now i (e, sw))) = sw_self_id sw"
  "sw_probe_order (snd (check_suspect_at timeout now i (e, sw))) = sw_probe_order sw"
  "sw_probe_size (snd (check_suspect_at timeout now i (e, sw))) = sw_probe_size sw"
  "sw_health_score (snd (check_suspect_at timeout now i (e, sw))) = sw_health_score sw"
  "sw_rounds_completed (snd (check_suspect_at timeout now i (e, sw))) = sw_rounds_completed sw"
  "queue_ok sw \<Longrightarrow> queue_ok (snd (check_suspect_at timeout now i (e, sw)))"
  by (simp_all add: check_suspect_at_def Let_def)

lemma check_suspects_fold:
  fixes sw timeout now n
  defines "r \<equiv> fold (check_suspect_at timeout now) [0..<n] (0, sw)"
  assumes "n \<le> length (sw_members sw)" "n < 2 ^ 32" "queue_ok sw"
  shows "sw_members (snd r) = map (expire_member timeout now) (take n (sw_members sw)) @ drop n (sw_members sw)
      \<and> unat (fst r) = length (filter (suspicion_expired timeout now) (take n (sw_members sw)))
      \<and> queue_ok (snd r)
      \<and> sw_config (snd r) = sw_config sw \<and> sw_member_count (snd r) = sw_member_count sw
      \<and> sw_alive_count (snd r) = sw_alive_count sw \<and> sw_self_id (snd r) = sw_self_id sw
      \<and> sw_probe_order (snd r) = sw_probe_order sw \<and> sw_probe_size (snd r) = sw_probe_size sw
      \<and> sw_health_score (snd r) = sw_health_score sw
      \<and> sw_rounds_completed (snd r) = sw_rounds_completed sw"
  using assms(2,3) unfolding r_def
proof (induction n)
  case 0
  then show ?case using \<open>queue_ok sw\<close> by simp
next
  case (Suc n)
  obtain e t where et: "fold (check_suspect_at timeout now) [0..<n] (0, sw) = (e, t)" by force
  let ?ms = "sw_members sw" and ?f = "filter (suspicion_expired timeout now)"
  have ms: "sw_members t = map (expire_member timeout now) (take n ?ms) @ drop n ?ms"
    and e: "unat e = length (?f (take n ?ms))"
    using Suc et by auto
  have n: "n < length ?ms" "n < length (sw_members t)" using Suc.prems ms by auto
  have at: "sw_members t ! n = ?ms ! n" using n(1) by (simp add: ms nth_append)
  have "(sw_members t)[n := expire_member timeout now (?ms ! n)]
      = map (expire_member timeout now) (take (Suc n) ?ms) @ drop (Suc n) ?ms"
    using n(1) by (simp add: ms list_update_append take_Suc_conv_app_nth Cons_nth_drop_Suc [symmetric])
  moreover have "length (?f (take n ?ms)) \<le> n"
    by (metis length_filter_le length_take min.absorb2 n(1) order_less_imp_le)
  then have "unat (e + 1) = Suc (unat e)"
    using Suc.prems e by (intro unat_Suc_less [of _ "Suc n"]) auto
  ultimately show ?case
    using Suc et check_suspect_at_members [OF n(2), of timeout now e] at e n(1)
    by (simp add: take_Suc_conv_app_nth)
qed

lemma members_ok_same_ids:
  assumes "members_ok sw" "sw_config t = sw_config sw" "sw_self_id t = sw_self_id sw"
    and "sw_member_count t = sw_member_count sw" "length (sw_members t) = length (sw_members sw)"
    and "map sm_node_id (swim_view t) = map sm_node_id (swim_view sw)"
    and "\<And>m. m \<in> set (swim_view t) \<Longrightarrow> sm_state m \<noteq> WAKE_SWIM_SUSPECT \<Longrightarrow> sm_suspect_ms m = 0"
  shows "members_ok t"
proof -
  have "sm_node_id ` set (swim_view t) = sm_node_id ` set (swim_view sw)"
    using assms(6) by (metis set_map)
  moreover have "sw_self_id sw \<notin> sm_node_id ` set (swim_view sw)"
    using assms(1) by (auto simp: members_ok_def)
  ultimately have "\<And>m. m \<in> set (swim_view t) \<Longrightarrow> sm_node_id m \<noteq> sw_self_id sw"
    by (metis imageI)
  with assms show ?thesis by (auto simp: members_ok_def)
qed

lemma check_suspects_spec:
  fixes sw now
  defines "T \<equiv> swim_suspect_timeout sw" and "t \<equiv> snd (swim_check_suspects sw now)"
  assumes inv: "swim_inv sw"
  shows "swim_view t = map (expire_member T now) (swim_view sw)"
    and "unat (fst (swim_check_suspects sw now)) = length (filter (suspicion_expired T now) (swim_view sw))"
    and "swim_inv t"
proof -
  let ?n = "unat (sw_member_count sw)" and ?ms = "sw_members sw"
  from inv have ok: "members_ok sw" "queue_ok sw" by (auto simp: swim_inv_def)
  have n: "?n \<le> length ?ms" "?n < 2 ^ 32"
    using ok(1) member_count_less [OF ok(1)] by (auto simp: members_ok_def word_le_nat_alt)
  obtain e u where eu: "fold (check_suspect_at T now) [0..<?n] (0, sw) = (e, u)" by force
  note F = check_suspects_fold [OF n ok(2), of T now, unfolded eu fst_conv snd_conv]
  have res: "swim_check_suspects sw now
      = (e, if e > 0 then (recount_alive u)\<lparr>sw_probe_size := 0\<rparr> else u)"
    by (simp add: swim_check_suspects_def Let_def eu flip: T_def)
  have view: "swim_view u = map (expire_member T now) (swim_view sw)"
    using F n(1) by (simp add: swim_view_def)
  then show "swim_view t = map (expire_member T now) (swim_view sw)"
    by (simp add: t_def res)
  show "unat (fst (swim_check_suspects sw now)) = length (filter (suspicion_expired T now) (swim_view sw))"
    using F by (simp add: res swim_view_def)
  have susp: "sm_suspect_ms m = 0"
    if m: "m \<in> set (swim_view u)" "sm_state m \<noteq> WAKE_SWIM_SUSPECT" for m
  proof -
    obtain x where "m = expire_member T now x" "x \<in> set (swim_view sw)"
      using m(1) view by auto
    with m(2) ok(1) show ?thesis
      by (auto simp: members_ok_def expire_member_def split: if_splits)
  qed
  have mem: "members_ok u"
    using F n(1) by (intro members_ok_same_ids [OF ok(1) _ _ _ _ _ susp]) (auto simp: view)
  show "swim_inv t"
  proof (cases "e > 0")
    case True
    then show ?thesis
      using F inv mem by (simp add: t_def res swim_inv_def probe_ok_length)
  next
    case False
    then have "unat e = 0" by (simp add: word_gt_0)
    then have "filter (suspicion_expired T now) (take ?n ?ms) = []"
      using F by (metis length_0_conv)
    then have "map (expire_member T now) (take ?n ?ms) = take ?n ?ms"
      by (auto simp: expire_member_def filter_empty_conv intro!: map_idI)
    with F have same: "sw_members u = ?ms" by simp
    then have "eligible_indices u = eligible_indices sw"
      using F by (simp add: eligible_indices_def)
    with F inv mem same False show ?thesis
      by (simp add: t_def res swim_inv_def alive_ok_def probe_ok_def swim_view_def)
  qed
qed

section \<open>Reaping\<close>

lemma reap_spec:
  fixes sw now retention
  defines "t \<equiv> snd (swim_reap sw now retention)"
  assumes inv: "swim_inv sw"
  shows "swim_view t = filter (\<lambda>m. \<not> reapable now retention m) (swim_view sw)"
    and "unat (fst (swim_reap sw now retention)) = length (filter (reapable now retention) (swim_view sw))"
    and "swim_inv t"
proof -
  let ?n = "unat (sw_member_count sw)" and ?keep = "\<lambda>m. \<not> reapable now retention m"
  from inv have ok: "members_ok sw" by (simp add: swim_inv_def)
  have n: "?n \<le> length (sw_members sw)" "?n \<le> 65535"
    using ok member_count_less [OF ok] by (auto simp: members_ok_def word_le_nat_alt)
  obtain ms k where c: "compact (reapable now retention) ?n (sw_members sw) = (ms, k)" by force
  note C = compact_spec [OF n(1) c]
  have k: "k = length (filter ?keep (swim_view sw))" "k \<le> ?n"
    using C(1) length_filter_le [of ?keep "swim_view sw"] length_swim_view [OF ok]
    by (auto simp: swim_view_def)
  have sum: "length (filter (reapable now retention) (swim_view sw)) = ?n - k"
    using sum_length_filter_compl [of ?keep "swim_view sw"] length_swim_view [OF ok] k(1) by simp
  define u where "u = sw\<lparr>sw_members := ms, sw_member_count := of_nat k\<rparr>"
  have res: "swim_reap sw now retention
      = (of_nat (?n - k), if ?n - k > 0 then (recount_alive u)\<lparr>sw_probe_size := 0\<rparr> else u)"
    by (simp add: swim_reap_def c u_def Let_def)
  have uk: "unat (of_nat k :: u32) = k" "unat (of_nat (?n - k) :: u32) = ?n - k"
    by (rule unat_of_nat_le [of _ 65535]; use k(2) n(2) in simp)+
  have view: "swim_view u = filter ?keep (swim_view sw)"
    using C(2) uk by (simp add: swim_view_def u_def)
  then show "swim_view t = filter ?keep (swim_view sw)" by (simp add: t_def res)
  show "unat (fst (swim_reap sw now retention)) = length (filter (reapable now retention) (swim_view sw))"
    using uk(2) sum by (simp add: res)
  have mem: "members_ok u"
    using ok C(3) uk(1) k(2) view distinct_map_filter
    by (auto simp: members_ok_def word_le_nat_alt) (auto simp: u_def)
  show "swim_inv t"
  proof (cases "?n - k > 0")
    case True
    then show ?thesis
      using inv mem by (simp add: t_def res swim_inv_def probe_ok_length) (simp add: u_def probe_ok_length)
  next
    case False
    then have kn: "k = ?n" using k(2) by simp
    then have "filter ?keep (swim_view sw) = swim_view sw"
      using sum by (auto simp: filter_empty_conv filter_id_conv)
    with C kn view have "ms = sw_members sw"
      by (metis append_take_drop_id swim_view_def)
    then have "u = sw" using kn by (simp add: u_def)
    with False inv show ?thesis by (simp add: t_def res)
  qed
qed

end
