(* ===== verification/Wake_Swim_Gossip.thy ===== *)
theory Wake_Swim_Gossip
  imports Wake_Swim_Ops
begin

text \<open>
  The dissemination side of SWIM: which updates \<open>wake_swim_get_updates\<close> selects, what it leaves
  in the queue, and, with that last operation, the invariant of every reachable instance.
\<close>

section \<open>Selection of the least disseminated updates\<close>

lemma best_unselected_upto:
  fixes us :: "wake_swim_update_t list"
  defines "step \<equiv> \<lambda>selected i (best, best_pb).
             if selected ! i then (best, best_pb)
             else if su_piggyback_count (us ! i) < best_pb
             then (Some i, su_piggyback_count (us ! i)) else (best, best_pb)"
  assumes "fold (step selected) [0..<n] (None, 0xFFFF) = (b, pb)"
  shows "(\<forall>i<n. \<not> selected ! i \<longrightarrow> pb \<le> su_piggyback_count (us ! i))
       \<and> (b = None \<longrightarrow> pb = 0xFFFF)
       \<and> (\<forall>j. b = Some j \<longrightarrow> j < n \<and> \<not> selected ! j \<and> su_piggyback_count (us ! j) = pb)"
  using assms(2)
proof (induction n arbitrary: b pb)
  case 0
  then show ?case by simp
next
  case (Suc n)
  obtain b' pb' where bp: "fold (step selected) [0..<n] (None, 0xFFFF) = (b', pb')" by force
  note IH = Suc.IH [OF bp]
  have "step selected n (b', pb') = (b, pb)" using Suc.prems bp by simp
  with IH show ?case
    by (auto simp: step_def less_Suc_eq split: if_splits)
qed

lemma best_unselected_spec:
  assumes "\<And>i. i < n \<Longrightarrow> \<not> selected ! i \<Longrightarrow> su_piggyback_count (us ! i) < 0xFFFF"
  shows "best_unselected us selected n = None \<longleftrightarrow> (\<forall>i<n. selected ! i)"
    and "best_unselected us selected n = Some j \<Longrightarrow> j < n \<and> \<not> selected ! j
           \<and> (\<forall>i<n. \<not> selected ! i \<longrightarrow> su_piggyback_count (us ! j) \<le> su_piggyback_count (us ! i))"
proof -
  obtain b pb where bp: "fold (\<lambda>i (best, best_pb).
             if selected ! i then (best, best_pb)
             else if su_piggyback_count (us ! i) < best_pb
             then (Some i, su_piggyback_count (us ! i)) else (best, best_pb))
         [0..<n] (None, 0xFFFF) = (b, pb)" by force
  have b: "best_unselected us selected n = b" by (simp add: best_unselected_def bp)
  note U = best_unselected_upto [OF bp]
  show "best_unselected us selected n = None \<longleftrightarrow> (\<forall>i<n. selected ! i)"
    using U assms b by (metis leD option.exhaust)
  show "best_unselected us selected n = Some j \<Longrightarrow> j < n \<and> \<not> selected ! j
           \<and> (\<forall>i<n. \<not> selected ! i \<longrightarrow> su_piggyback_count (us ! j) \<le> su_piggyback_count (us ! i))"
    using U b by metis
qed

text \<open>
  \<open>picked n us js\<close>: \<open>js\<close> are distinct positions below \<open>n\<close>, in the order of their piggyback
  counts, and no position left out has a smaller count than one of them.
\<close>

definition picked :: "nat \<Rightarrow> wake_swim_update_t list \<Rightarrow> nat list \<Rightarrow> bool" where
  "picked n us js \<longleftrightarrow> distinct js \<and> set js \<subseteq> {..<n}
     \<and> sorted (map (\<lambda>i. su_piggyback_count (us ! i)) js)
     \<and> (\<forall>i\<in>set js. \<forall>j<n. j \<notin> set js \<longrightarrow> su_piggyback_count (us ! i) \<le> su_piggyback_count (us ! j))"

definition bump :: "wake_swim_update_t \<Rightarrow> wake_swim_update_t" where
  "bump u = u\<lparr>su_piggyback_count := su_piggyback_count u + 1\<rparr>"

definition bump_at :: "nat set \<Rightarrow> wake_swim_update_t list \<Rightarrow> wake_swim_update_t list" where
  "bump_at J us = map (\<lambda>i. if i \<in> J then bump (us ! i) else us ! i) [0..<length us]"

lemma length_bump_at [simp]: "length (bump_at J us) = length us"
  by (simp add: bump_at_def)

lemma nth_bump_at [simp]:
  "i < length us \<Longrightarrow> bump_at J us ! i = (if i \<in> J then bump (us ! i) else us ! i)"
  by (simp add: bump_at_def)

lemma bump_at_empty [simp]: "bump_at {} us = us"
  by (intro nth_equalityI) auto

lemma bump_at_insert:
  "b < length us \<Longrightarrow> b \<notin> J \<Longrightarrow> (bump_at J us)[b := bump (us ! b)] = bump_at (insert b J) us"
  by (intro nth_equalityI) (auto simp: nth_list_update)

lemma bump_id [simp]: "su_node_id (bump u) = su_node_id u"
  by (simp add: bump_def)

lemma map_id_bump_at [simp]: "map su_node_id (bump_at J us) = map su_node_id us"
  by (intro nth_equalityI) auto

lemma picked_snoc:
  assumes "picked n us js" "b < n" "b \<notin> set js"
    and "\<forall>i<n. i \<notin> set js \<longrightarrow> su_piggyback_count (us ! b) \<le> su_piggyback_count (us ! i)"
  shows "picked n us (js @ [b])"
  using assms by (auto simp: picked_def sorted_append)

lemma pick_updates_spec:
  assumes "n \<le> length us" "\<And>i. i < n \<Longrightarrow> su_piggyback_count (us ! i) < 0xFFFF"
    and "picked n us js" "length sel = n" "\<And>i. i < n \<Longrightarrow> sel ! i \<longleftrightarrow> i \<in> set js"
  shows "\<exists>ks. picked n us (js @ ks) \<and> length (js @ ks) = min (length js + p) n
      \<and> pick_updates n p (bump_at (set js) us) sel (map (\<lambda>i. us ! i) js)
          = (bump_at (set (js @ ks)) us, map (\<lambda>i. us ! i) (js @ ks))"
  using assms(3-)
proof (induction p arbitrary: js sel)
  case 0
  have "card (set js) \<le> card {..<n}"
    using 0 by (intro card_mono) (auto simp: picked_def)
  then have "length js \<le> n"
    using 0 by (simp add: picked_def distinct_card)
  then show ?case using 0 by (intro exI [of _ "[]"]) simp
next
  case (Suc p)
  have unsel: "bump_at (set js) us ! i = us ! i" if "i < n" "\<not> sel ! i" for i
    using that Suc.prems assms(1) by auto
  note B = best_unselected_spec [of n sel "bump_at (set js) us"]
  have small: "su_piggyback_count (bump_at (set js) us ! i) < 0xFFFF" if "i < n" "\<not> sel ! i" for i
    using assms(2) [OF that(1)] unsel [OF that] by simp
  show ?case
  proof (cases "best_unselected (bump_at (set js) us) sel n")
    case None
    then have "set js = {..<n}"
      using B(1) [OF small] Suc.prems by (auto simp: picked_def)
    then have "length js = n"
      using Suc.prems(1) by (metis picked_def card_lessThan distinct_card)
    with None Suc.prems(1) show ?thesis
      by (intro exI [of _ "[]"]) simp
  next
    case (Some b)
    note b = B(2) [OF small Some]
    then have new: "b < n" "b \<notin> set js" "bump_at (set js) us ! b = us ! b" "b < length us"
      using Suc.prems(3) unsel assms(1) by auto
    have least: "\<forall>i<n. i \<notin> set js \<longrightarrow> su_piggyback_count (us ! b) \<le> su_piggyback_count (us ! i)"
      using b unsel Suc.prems(3) by metis
    have "picked n us (js @ [b])" by (rule picked_snoc [OF Suc.prems(1) new(1,2) least])
    moreover have "length (sel[b := True]) = n" using Suc.prems(2) by simp
    moreover have "sel[b := True] ! i \<longleftrightarrow> i \<in> set (js @ [b])" if "i < n" for i
      using that new(1) Suc.prems(2,3) by (auto simp: nth_list_update)
    ultimately obtain ks where ks: "picked n us ((js @ [b]) @ ks)"
      "length ((js @ [b]) @ ks) = min (length (js @ [b]) + p) n"
      "pick_updates n p (bump_at (set (js @ [b])) us) (sel[b := True]) (map (\<lambda>i. us ! i) (js @ [b]))
         = (bump_at (set ((js @ [b]) @ ks)) us, map (\<lambda>i. us ! i) ((js @ [b]) @ ks))"
      using Suc.IH by blast
    have "(bump_at (set js) us)[b := bump (us ! b)] = bump_at (set (js @ [b])) us"
      using bump_at_insert [OF new(4,2)] by simp
    then have "pick_updates n (Suc p) (bump_at (set js) us) sel (map (\<lambda>i. us ! i) js)
        = pick_updates n p (bump_at (set (js @ [b])) us) (sel[b := True]) (map (\<lambda>i. us ! i) (js @ [b]))"
      using Some new(3) by (simp flip: bump_def)
    with ks show ?thesis by (intro exI [of _ "b # ks"]) simp
  qed
qed

section \<open>Pruning and the queue\<close>

lemma dissemination_limit_bounds:
  assumes "swim_inv sw"
  shows "3 \<le> dissemination_limit sw" and "dissemination_limit sw \<le> 45"
proof -
  let ?n = "if sw_alive_count sw > 2 then sw_alive_count sw else 2"
  have inv: "members_ok sw" "alive_ok sw" using assms by (auto simp: swim_inv_def)
  have "unat (sw_alive_count sw) \<le> 65535"
    using inv member_count_less [OF inv(1)] length_swim_view [OF inv(1)]
      length_filter_le [of probe_eligible "swim_view sw"] by (simp add: alive_ok_def)
  then have n: "unat ?n < 2 ^ 16" by simp
  have "?n > 0" by (simp add: word_less_nat_alt)
  from ilog2_spec(1) [OF this] n have "(2::nat) ^ unat (ilog2 ?n) < 2 ^ 16" by linarith
  then have l: "unat (ilog2 ?n) < 16" by (rule power_less_imp_less_exp [rotated]) simp
  then have "unat (3 * ilog2 ?n) = 3 * unat (ilog2 ?n)"
    by (simp add: unat_word_ariths)
  with l have "3 * ilog2 ?n \<le> 45" by (simp add: word_le_nat_alt)
  then show "dissemination_limit sw \<le> 45" by (simp add: dissemination_limit_def Let_def)
  show "3 \<le> dissemination_limit sw" by (simp add: dissemination_limit_def Let_def not_less)
qed

lemma take_bump_at: "take n (bump_at J us) = bump_at J (take n us)"
  by (intro nth_equalityI) auto

lemma picked_cong:
  "(\<And>i. i < n \<Longrightarrow> us ! i = vs ! i) \<Longrightarrow> picked n us js \<longleftrightarrow> picked n vs js"
  unfolding picked_def
  by (intro conj_cong refl ball_cong arg_cong [where f = sorted] map_cong) auto

lemma get_updates_spec:
  fixes sw max_n
  defines "Q \<equiv> swim_queue sw" and "t \<equiv> snd (swim_get_updates sw max_n)"
  assumes inv: "swim_inv sw" and max_n: "max_n \<noteq> 0"
  shows "\<exists>js. picked (min 256 (length Q)) Q js \<and> length js = min (unat max_n) (min 256 (length Q))
     \<and> fst (swim_get_updates sw max_n) = map (\<lambda>i. Q ! i) js
     \<and> swim_queue t = filter (\<lambda>u. unat (su_piggyback_count u) < unat (dissemination_limit sw))
                              (bump_at (set js) Q)
     \<and> swim_inv t"
proof (cases "sw_update_count sw = 0")
  case True
  then have "Q = []" by (simp add: Q_def swim_queue_def)
  with True inv show ?thesis
    by (intro exI [of _ "[]"]) (simp add: picked_def t_def swim_get_updates_def flip: Q_def)
next
  case False
  let ?c = "unat (sw_update_count sw)" and ?us = "sw_updates sw" and ?L = "dissemination_limit sw"
  define n where "n = min 256 (length Q)"
  from inv have q: "queue_ok sw" by (simp add: swim_inv_def)
  have c: "?c = length Q" "?c \<le> length ?us" "?c \<le> 65535"
    using length_swim_queue [OF q] q unat_u16_less [of "sc_update_queue_size (sw_config sw)"]
    by (auto simp: Q_def queue_ok_def word_le_nat_alt)
  have cap: "(if sw_update_count sw < 256 then ?c else 256) = n"
    using c(1) by (simp add: n_def word_less_nat_alt min_def)
  have same: "?us ! i = Q ! i" if "i < n" for i
    using that by (simp add: Q_def swim_queue_def n_def)
  have small: "su_piggyback_count (?us ! i) < 0xFFFF" if "i < n" for i
  proof -
    have "Q ! i \<in> set Q" using that c(1) by (simp add: n_def)
    then have "su_piggyback_count (Q ! i) < 45" using q by (auto simp: Q_def queue_ok_def)
    then show ?thesis using same [OF that] by (auto simp: word_less_nat_alt)
  qed
  define p where "p = (if max_n < sw_update_count sw then unat max_n else ?c)"
  have p: "min p n = min (unat max_n) n"
    using c(1) by (auto simp: p_def n_def word_less_nat_alt)
  have "picked n ?us []" by (simp add: picked_def)
  moreover have "n \<le> length ?us" using c(1,2) by (simp add: n_def)
  ultimately
  obtain js where js: "picked n ?us js" "length js = min p n"
    "pick_updates n p ?us (replicate n False) [] = (bump_at (set js) ?us, map (\<lambda>i. ?us ! i) js)"
    using pick_updates_spec [OF _ small, where js = "[]" and sel = "replicate n False" and p = p] by auto
  obtain us' k where k: "compact (\<lambda>u. su_piggyback_count u \<ge> ucast ?L) ?c (bump_at (set js) ?us) = (us', k)"
    by force
  have res: "swim_get_updates sw max_n = (map (\<lambda>i. ?us ! i) js,
      sw\<lparr>sw_updates := us', sw_update_count := of_nat k,
         sw_updates_piggybacked := sw_updates_piggybacked sw + of_nat (length js)\<rparr>)"
    using False max_n js(3) k unfolding swim_get_updates_def Let_def cap
    by (simp flip: p_def)
  have L: "unat (ucast ?L :: u16) = unat ?L"
    using dissemination_limit_bounds(2) [OF inv]
    by (simp add: unsigned_ucast_eq word_le_nat_alt take_bit_nat_eq_self)
  have keep: "(\<lambda>u. \<not> su_piggyback_count u \<ge> ucast ?L)
      = (\<lambda>u. unat (su_piggyback_count u) < unat ?L)"
    by (simp add: word_le_nat_alt not_le L)
  have "?c \<le> length (bump_at (set js) ?us)" using c(2) by simp
  note C = compact_spec [OF this k, unfolded keep take_bump_at]
  have Q': "take k us' = filter (\<lambda>u. unat (su_piggyback_count u) < unat ?L) (bump_at (set js) Q)"
    using C(2) by (simp add: Q_def swim_queue_def)
  have "k \<le> ?c" using C(1) length_filter_le order_trans
    by (metis length_bump_at length_take c(2) min.absorb2)
  then have uk: "unat (of_nat k :: u32) = k"
    using c(3) by (intro unat_of_nat_le [of k 65535]) auto
  then have qt: "swim_queue t = filter (\<lambda>u. unat (su_piggyback_count u) < unat ?L) (bump_at (set js) Q)"
    by (simp add: t_def res swim_queue_def Q')
  have "queue_ok t"
    unfolding queue_ok_def qt
  proof (intro conjI)
    show "length (sw_updates t) = unat (sc_update_queue_size (sw_config t))"
      "sc_update_queue_size (sw_config t) \<noteq> 0"
      using q C(3) by (auto simp: t_def res queue_ok_def)
    show "sw_update_count t \<le> ucast (sc_update_queue_size (sw_config t))"
      using q \<open>k \<le> ?c\<close> by (simp add: t_def res queue_ok_def word_le_nat_alt uk)
    have "distinct (map su_node_id (bump_at (set js) Q))"
      using q by (simp add: Q_def queue_ok_def)
    then show "distinct (map su_node_id
        (filter (\<lambda>u. unat (su_piggyback_count u) < unat ?L) (bump_at (set js) Q)))"
      by (rule distinct_map_filter)
    show "\<forall>u\<in>set (filter (\<lambda>u. unat (su_piggyback_count u) < unat ?L) (bump_at (set js) Q)).
        su_piggyback_count u < 45"
      using dissemination_limit_bounds(2) [OF inv] by (auto simp: word_less_nat_alt word_le_nat_alt)
  qed
  then have "swim_inv t" using inv by (simp add: t_def res swim_inv_def)
  moreover have "picked n Q js" using js(1) picked_cong [OF same] by blast
  moreover have "map (\<lambda>i. ?us ! i) js = map (\<lambda>i. Q ! i) js"
    using js(1) same by (auto simp: picked_def)
  ultimately show ?thesis
    using qt js(2) p by (intro exI [of _ js]) (simp add: res n_def)
qed

lemma swim_inv_get_updates:
  assumes "swim_inv sw"
  shows "swim_inv (snd (swim_get_updates sw max_n))"
  using assms get_updates_spec [OF assms, of max_n]
  by (cases "max_n = 0") (auto simp: swim_get_updates_def)

section \<open>The invariant of every reachable instance\<close>

lemma swim_step_inv: "swim_inv sw \<Longrightarrow> swim_step sw t \<Longrightarrow> swim_inv t"
  by (erule swim_stepE)
    (simp_all add: swim_inv_reset swim_inv_add_member swim_inv_remove_member swim_inv_apply_update
      swim_inv_suspect_member swim_inv_next_probe swim_inv_select_delegates
      swim_inv_report_health check_suspects_spec(3) reap_spec(3) swim_inv_get_updates)

interpretation swim: invariant_machine swim_init swim_step swim_inv
  by unfold_locales (auto simp: swim_init_def swim_inv_create swim_step_inv)

end
