(* ===== verification/Wake_Swim_Props.thy ===== *)
theory Wake_Swim_Props
  imports Wake_Swim_Gossip
begin

text \<open>
  What SWIM promises, over the invariant: the membership map and its merge rule, convergence of
  gossip, refutation, the probe round, delegates, the suspicion timeout, expiry and reaping,
  dissemination.  The instances \<open>demo_*\<close> are the concrete inputs of the witnesses.
\<close>

section \<open>Concrete instances for the witnesses\<close>

definition demo_id :: "nat \<Rightarrow> bytes" where
  "demo_id n = of_nat n # replicate 31 0"

definition demo_config :: wake_swim_config_t where
  "demo_config = \<lparr>sc_max_members = 4, sc_update_queue_size = 4, sc_suspicion_mult = 5,
     sc_max_piggybacks = 8, sc_protocol_period_ms = 1000, sc_suspect_timeout_ms = 0,
     sc_prng_seed = 42\<rparr>"

definition demo_alloc :: swim_alloc where
  "demo_alloc = \<lparr>sa_handle = Some 4096, sa_members = True, sa_probe_order = True, sa_updates = True\<rparr>"

definition demo_empty :: wake_swim_t where
  "demo_empty = the (wake_swim_create (Some (demo_id 0)) 1 7946 (Some demo_config) demo_alloc)"

text \<open>Two members; the second one is suspected at time 10.\<close>

definition demo_two :: wake_swim_t where
  "demo_two = snd (swim_suspect_member
     (snd (swim_add_member (snd (swim_add_member demo_empty (demo_id 1) 1 1 5)) (demo_id 2) 2 2 6))
     (demo_id 2) 10)"

lemma demo_create:
  "wake_swim_create (Some (demo_id 0)) 1 7946 (Some demo_config) demo_alloc = Some demo_empty"
  by (simp add: demo_empty_def wake_swim_create_def demo_alloc_def Let_def)

lemma demo_empty_reachable: "swim_reachable demo_empty"
  using demo_create by (intro reach_init) (unfold swim_init_def, blast)

lemma demo_two_reachable: "swim_reachable demo_two"
  unfolding demo_two_def
  by (rule reach_step [OF reach_step [OF reach_step [OF demo_empty_reachable]]];
      rule swim_step.suspect_member swim_step.add_member)

lemma demo_two_inv: "swim_inv demo_two"
  by (rule swim.reach_inv [OF demo_two_reachable])

section \<open>The invariant\<close>

text \<open>
  C1. In every state that an instance can reach from \<open>wake_swim_create\<close> by any sequence of calls:
  the counts stay within the allocated arrays, no node id occurs twice among the members or in
  the update queue, the node itself is never a member, \<open>alive_count\<close> is exact, a valid probe
  order is a permutation of the eligible members, only suspects carry a suspicion timer, no
  update has been sent 45 times or more, and the health score is at most 8.
\<close>

theorem swim_reachable_inv: "swim_reachable sw \<Longrightarrow> swim_inv sw"
  by (rule swim.reach_inv)

theorem swim_reachable_inv_witness: "swim_inv demo_two"
  by (rule swim_reachable_inv [OF demo_two_reachable])

section \<open>The membership map\<close>

lemma swim_find_lookup: "swim_inv sw \<Longrightarrow> swim_find sw nid = members.lookup sw nid"
  using swim_inv_found(1) [of sw nid]
  by (cases "find_member sw nid") (auto simp: swim_find_def members.lookup_def swim_view_def)

lemma swim_find_Some_iff:
  "swim_inv sw \<Longrightarrow> swim_find sw nid = Some m \<longleftrightarrow> m \<in> set (swim_view sw) \<and> sm_node_id m = nid"
  by (simp add: swim_find_lookup members.lookup_Some_iff swim_inv_members)

lemma swim_find_None_iff:
  "swim_inv sw \<Longrightarrow> swim_find sw nid = None \<longleftrightarrow> nid \<notin> sm_node_id ` set (swim_view sw)"
  by (simp add: swim_find_lookup members.lookup_None_iff)

lemma find_member_find: "find_member sw nid = None \<longleftrightarrow> swim_find sw nid = None"
  by (simp add: swim_find_def)

text \<open>Committing a new version of a member changes the map at its id only.\<close>

lemma swim_find_same_view: "swim_view t = swim_view sw \<Longrightarrow> swim_inv sw \<Longrightarrow> swim_inv t \<Longrightarrow>
    swim_find t nid = swim_find sw nid"
  by (intro option_eqI) (simp add: swim_find_Some_iff)

lemma commit_member_view:
  "i < unat (sw_member_count sw) \<Longrightarrow> swim_view (commit_member sw i m) = (swim_view sw)[i := m]"
  by (simp add: commit_member_def Let_def swim_view_update_at)

lemma find_commit:
  assumes inv: "swim_inv sw" and f: "find_member sw nid = Some i"
    and m: "sm_node_id m = nid" "sm_state m \<noteq> WAKE_SWIM_SUSPECT \<longrightarrow> sm_suspect_ms m = 0"
  shows "swim_find (commit_member sw i m) k = (if k = nid then Some m else swim_find sw k)"
proof -
  note i = swim_inv_found [OF inv f]
  have inv': "swim_inv (commit_member sw i m)"
    using inv i m by (intro swim_inv_commit) auto
  have len: "i < length (swim_view sw)"
    using i(1) by (simp add: length_swim_view swim_inv_members inv)
  have dist: "distinct (map sm_node_id (swim_view sw))"
    using inv by (simp add: swim_inv_def members_ok_def)
  have at: "sm_node_id (swim_view sw ! i) = nid"
    using i by (simp add: swim_view_nth swim_inv_members inv)
  have mem: "x \<in> set ((swim_view sw)[i := m])
      \<longleftrightarrow> x = m \<or> x \<in> set (swim_view sw) \<and> sm_node_id x \<noteq> nid" for x
  proof -
    have "x \<in> set ((swim_view sw)[i := m])
        \<longleftrightarrow> x = m \<or> (\<exists>j<length (swim_view sw). j \<noteq> i \<and> swim_view sw ! j = x)"
      using len by (force simp: in_set_conv_nth nth_list_update)
    also have "(\<exists>j<length (swim_view sw). j \<noteq> i \<and> swim_view sw ! j = x)
        \<longleftrightarrow> x \<in> set (swim_view sw) \<and> sm_node_id x \<noteq> nid"
      using len at dist by (auto simp: in_set_conv_nth distinct_conv_nth)
    finally show ?thesis .
  qed
  show ?thesis
    using mem m(1) by (intro option_eqI)
      (auto simp: swim_find_Some_iff [OF inv'] swim_find_Some_iff [OF inv] commit_member_view i(1))
qed

lemma find_add_member:
  assumes "swim_inv sw" "fst (swim_add_member sw nid addr port now) = WAKE_SWIM_OK"
  shows "swim_find (snd (swim_add_member sw nid addr port now)) k =
    (if k = nid then Some \<lparr>sm_node_id = nid, sm_last_change_ms = now, sm_suspect_ms = 0,
                sm_addr = addr, sm_incarnation = 0, sm_port = port, sm_state = WAKE_SWIM_ALIVE\<rparr>
     else swim_find sw k)"
proof -
  from add_member_cases [OF assms(1), of nid addr port now] assms(2)
  have new: "nid \<notin> sm_node_id ` set (swim_view sw)"
    and view: "swim_view (snd (swim_add_member sw nid addr port now)) = swim_view sw @
      [\<lparr>sm_node_id = nid, sm_last_change_ms = now, sm_suspect_ms = 0, sm_addr = addr,
        sm_incarnation = 0, sm_port = port, sm_state = WAKE_SWIM_ALIVE\<rparr>]"
    and inv: "swim_inv (snd (swim_add_member sw nid addr port now))" by auto
  show ?thesis
    using new by (intro option_eqI)
      (auto simp: swim_find_Some_iff [OF inv] swim_find_Some_iff [OF assms(1)] view)
qed

lemma self_not_found: "swim_inv sw \<Longrightarrow> swim_find sw (sw_self_id sw) = None"
  by (auto simp: swim_find_None_iff swim_inv_def members_ok_def)

lemma not_found_self: "swim_inv sw \<Longrightarrow> swim_find sw nid = Some m \<Longrightarrow> nid \<noteq> sw_self_id sw"
  using self_not_found by force

lemma add_member_result:
  assumes "swim_inv sw"
  shows "fst (swim_add_member sw nid addr port now) =
     (if nid = sw_self_id sw then WAKE_SWIM_SELF
      else if swim_find sw nid \<noteq> None then WAKE_SWIM_EXISTS
      else if length (swim_view sw) = unat (sc_max_members (sw_config sw)) then WAKE_SWIM_FULL
      else WAKE_SWIM_OK)"
    and "length (swim_view sw) \<le> unat (sc_max_members (sw_config sw))"
    and "fst (swim_add_member sw nid addr port now) \<noteq> WAKE_SWIM_OK
      \<Longrightarrow> snd (swim_add_member sw nid addr port now) = sw"
proof -
  have mem: "members_ok sw" using assms by (rule swim_inv_members)
  have full: "sw_member_count sw \<ge> ucast (sc_max_members (sw_config sw))
      \<longleftrightarrow> length (swim_view sw) = unat (sc_max_members (sw_config sw))"
    using mem length_swim_view [OF mem] by (auto simp: members_ok_def word_le_nat_alt)
  show "length (swim_view sw) \<le> unat (sc_max_members (sw_config sw))"
    using mem length_swim_view [OF mem] by (simp add: members_ok_def word_le_nat_alt)
  show "fst (swim_add_member sw nid addr port now) =
     (if nid = sw_self_id sw then WAKE_SWIM_SELF
      else if swim_find sw nid \<noteq> None then WAKE_SWIM_EXISTS
      else if length (swim_view sw) = unat (sc_max_members (sw_config sw)) then WAKE_SWIM_FULL
      else WAKE_SWIM_OK)"
    unfolding swim_add_member_def swim_is_self_def full find_member_find by (auto simp: Let_def)
  show "fst (swim_add_member sw nid addr port now) \<noteq> WAKE_SWIM_OK
      \<Longrightarrow> snd (swim_add_member sw nid addr port now) = sw"
    using add_member_cases [OF assms, of nid addr port now] by auto
qed

text \<open>
  \<open>wake_swim_add_member\<close> on an instance that satisfies the invariant: the result code says
  exactly which of the four cases holds (the node itself, a known id, no room, added), a
  refused call changes nothing, and an accepted one extends the membership map at that id by an
  ALIVE member with incarnation 0 and leaves every other entry alone.
\<close>

theorem add_member_correct:
  assumes "swim_inv sw" and "swim_add_member sw nid addr port now = (r, t)"
  shows "(r = WAKE_SWIM_SELF \<longleftrightarrow> nid = sw_self_id sw)
    \<and> (r = WAKE_SWIM_EXISTS \<longleftrightarrow> nid \<noteq> sw_self_id sw \<and> swim_find sw nid \<noteq> None)
    \<and> (r = WAKE_SWIM_FULL \<longleftrightarrow> nid \<noteq> sw_self_id sw \<and> swim_find sw nid = None
          \<and> length (swim_view sw) = unat (sc_max_members (sw_config sw)))
    \<and> (r = WAKE_SWIM_OK \<longleftrightarrow> nid \<noteq> sw_self_id sw \<and> swim_find sw nid = None
          \<and> length (swim_view sw) < unat (sc_max_members (sw_config sw)))
    \<and> (r \<noteq> WAKE_SWIM_OK \<longrightarrow> t = sw)
    \<and> (r = WAKE_SWIM_OK \<longrightarrow> (\<forall>k. swim_find t k =
         (if k = nid then Some \<lparr>sm_node_id = nid, sm_last_change_ms = now, sm_suspect_ms = 0,
            sm_addr = addr, sm_incarnation = 0, sm_port = port, sm_state = WAKE_SWIM_ALIVE\<rparr>
          else swim_find sw k)))"
proof -
  have "r = fst (swim_add_member sw nid addr port now)"
    "t = snd (swim_add_member sw nid addr port now)" using assms(2) by auto
  with add_member_result(1,3) [OF assms(1), of nid addr port now] add_member_result(2) [OF assms(1)]
    find_add_member [OF assms(1), of nid addr port now]
  show ?thesis by auto
qed

theorem add_member_correct_witness:
  "swim_inv demo_two \<and> swim_find demo_two (demo_id 2) \<noteq> None
     \<and> fst (swim_add_member demo_two (demo_id 2) 1 1 7) = WAKE_SWIM_EXISTS
     \<and> snd (swim_add_member demo_two (demo_id 2) 1 1 7) = demo_two"
proof -
  have "demo_id 2 \<noteq> sw_self_id demo_two" "swim_find demo_two (demo_id 2) \<noteq> None" by code_simp+
  with add_member_correct [OF demo_two_inv surjective_pairing, of "demo_id 2" 1 1 7] demo_two_inv
  show ?thesis by auto
qed

section \<open>Gossip as a merge on the membership map\<close>

text \<open>
  Precedence of opinions \<open>(state, incarnation)\<close>, as the protocol states it: a departure is final
  and beats everything; otherwise the higher incarnation wins, and at equal incarnations the worse
  state.
\<close>

definition outranks :: "u8 \<times> u32 \<Rightarrow> u8 \<times> u32 \<Rightarrow> bool" where
  "outranks p q \<longleftrightarrow> fst p = WAKE_SWIM_LEFT
     \<or> fst q \<noteq> WAKE_SWIM_LEFT \<and> (snd q < snd p \<or> snd q = snd p \<and> fst q < fst p)"

lemma state_supersedes_iff: "state_supersedes ns ni os oi \<longleftrightarrow> outranks (ns, ni) (os, oi)"
  by (auto simp: state_supersedes_def outranks_def)

definition merge_member :: "wake_swim_member_t \<Rightarrow> wake_swim_update_t \<Rightarrow> u64 \<Rightarrow> wake_swim_member_t" where
  "merge_member m u now =
     (if outranks (su_state u, su_incarnation u) (sm_state m, sm_incarnation m)
      then m\<lparr>sm_state := su_state u, sm_incarnation := su_incarnation u, sm_addr := su_addr u,
             sm_port := su_port u, sm_last_change_ms := now,
             sm_suspect_ms := (if su_state u = WAKE_SWIM_SUSPECT then now else 0)\<rparr>
      else m)"

definition fresh_member :: "wake_swim_update_t \<Rightarrow> u64 \<Rightarrow> wake_swim_member_t" where
  "fresh_member u now = \<lparr>sm_node_id = su_node_id u, sm_last_change_ms = now, sm_suspect_ms = 0,
     sm_addr = su_addr u, sm_incarnation = su_incarnation u, sm_port = su_port u,
     sm_state = WAKE_SWIM_ALIVE\<rparr>"

lemma find_apply_known:
  assumes "swim_inv sw" "find_member sw (su_node_id u) = Some i"
  shows "swim_find (snd (apply_known_update sw i u now)) k =
    (if k = su_node_id u then Some (merge_member (sw_members sw ! i) u now) else swim_find sw k)"
proof (cases "state_supersedes (su_state u) (su_incarnation u)
                (sm_state (sw_members sw ! i)) (sm_incarnation (sw_members sw ! i))")
  case True
  then show ?thesis
    using find_commit [OF assms] swim_inv_found [OF assms]
    by (simp add: apply_known_update_def merge_member_def Let_def state_supersedes_iff)
next
  case False
  then show ?thesis
    using assms(2) by (auto simp: apply_known_update_def merge_member_def Let_def swim_find_def state_supersedes_iff)
qed

lemma find_set_incarnation:
  assumes inv: "swim_inv sw" and f: "find_member sw nid = Some i"
  shows "swim_find (sw\<lparr>sw_members := (sw_members sw)
           [i := (sw_members sw ! i)\<lparr>sm_incarnation := inc\<rparr>]\<rparr>) k
         = (if k = nid then map_option (\<lambda>m. m\<lparr>sm_incarnation := inc\<rparr>) (swim_find sw k)
            else swim_find sw k)"
proof -
  let ?m = "(sw_members sw ! i)\<lparr>sm_incarnation := inc\<rparr>"
  let ?t = "sw\<lparr>sw_members := (sw_members sw)[i := ?m]\<rparr>"
  note i = swim_inv_found [OF inv f]
  have inv': "swim_inv ?t" by (rule swim_inv_same_state [OF inv i(1)]) simp_all
  have susp: "sm_state ?m \<noteq> WAKE_SWIM_SUSPECT \<longrightarrow> sm_suspect_ms ?m = 0"
    using inv i(1) swim_find_Some_iff [OF inv, of nid "sw_members sw ! i"] f
    by (auto simp: swim_inv_def members_ok_def swim_find_def)
  have "swim_inv (commit_member sw i ?m)"
    by (rule swim_inv_commit [OF inv i(1)]) (use susp in simp_all)
  then have "swim_find ?t k = swim_find (commit_member sw i ?m) k"
    using inv' by (intro swim_find_same_view) (simp_all add: commit_member_view i(1) swim_view_update_at)
  then show ?thesis
    using find_commit [OF inv f _ susp] i(2) f by (simp add: swim_find_def)
qed

lemma apply_update_map:
  assumes "swim_inv sw"
  shows "swim_find (snd (swim_apply_update sw u now)) k =
    (if k \<noteq> su_node_id u \<or> k = sw_self_id sw then swim_find sw k
     else case swim_find sw k of
         Some m \<Rightarrow> Some (merge_member m u now)
       | None \<Rightarrow> if su_state u = WAKE_SWIM_ALIVE
                   \<and> length (swim_view sw) < unat (sc_max_members (sw_config sw))
                 then Some (fresh_member u now) else None)"
proof (cases "su_node_id u = sw_self_id sw")
  case True
  have "swim_view (snd (apply_self_update sw u now)) = swim_view sw"
    by (simp add: apply_self_update_def Let_def)
  with True show ?thesis
    using swim_find_same_view [OF _ assms swim_inv_apply_self [OF assms]]
    by (simp add: swim_apply_update_def swim_is_self_def)
next
  case ns: False
  show ?thesis
  proof (cases "find_member sw (su_node_id u)")
    case (Some i)
    then have "swim_find sw (su_node_id u) = Some (sw_members sw ! i)" by (simp add: swim_find_def)
    with Some ns show ?thesis
      by (simp add: swim_apply_update_def swim_is_self_def find_apply_known [OF assms])
  next
    case None
    then have nf: "swim_find sw (su_node_id u) = None" by (simp add: swim_find_def)
    let ?a = "swim_add_member sw (su_node_id u) (su_addr u) (su_port u) now"
    have app: "swim_apply_update sw u now = apply_unknown_update sw u now"
      using None ns by (simp add: swim_apply_update_def swim_is_self_def)
    show ?thesis
    proof (cases "su_state u = WAKE_SWIM_ALIVE \<and> fst ?a = WAKE_SWIM_OK")
      case True
      note inv = swim_inv_add_member [OF assms, of "su_node_id u" "su_addr u" "su_port u" now]
      note f = find_add_member [OF assms conjunct2 [OF True]]
      have room: "length (swim_view sw) < unat (sc_max_members (sw_config sw))"
        using True add_member_result(1) [OF assms, of "su_node_id u" "su_addr u" "su_port u" now] nf
          add_member_result(2) [OF assms]
        by (auto split: if_splits)
      from f [of "su_node_id u"] obtain i where i: "find_member (snd ?a) (su_node_id u) = Some i"
        by (auto simp: swim_find_def)
      have "snd (apply_unknown_update sw u now) = (snd ?a)\<lparr>sw_members := (sw_members (snd ?a))
              [i := (sw_members (snd ?a) ! i)\<lparr>sm_incarnation := su_incarnation u\<rparr>]\<rparr>"
        using True i by (simp add: apply_unknown_update_def case_prod_unfold Let_def)
      then show ?thesis
        using True ns nf room f find_set_incarnation [OF inv i]
        by (simp add: app fresh_member_def)
    next
      case False
      then have "snd (swim_apply_update sw u now) = sw"
        using add_member_result(3) [OF assms, of "su_node_id u" "su_addr u" "su_port u" now]
        by (auto simp: app apply_unknown_update_def split: prod.split)
      moreover have "\<not> (su_state u = WAKE_SWIM_ALIVE
            \<and> length (swim_view sw) < unat (sc_max_members (sw_config sw)))"
        using False nf ns add_member_result(1) [OF assms, of "su_node_id u" "su_addr u" "su_port u" now]
        by auto
      ultimately show ?thesis using nf by auto
    qed
  qed
qed

text \<open>
  C2. \<open>wake_swim_apply_update\<close> implements a merge on the membership map.  At the node the
  update names (never the local node) a known member is merged by precedence, an unknown one
  is added when the update says ALIVE and there is room, and is otherwise ignored; every other
  entry of the map is unchanged.
\<close>

theorem apply_update_refines_merge:
  assumes "swim_inv sw"
  shows "swim_find (snd (swim_apply_update sw u now)) k =
    (if k \<noteq> su_node_id u \<or> k = sw_self_id sw then swim_find sw k
     else case swim_find sw k of
         Some m \<Rightarrow> Some (merge_member m u now)
       | None \<Rightarrow> if su_state u = WAKE_SWIM_ALIVE
                   \<and> length (swim_view sw) < unat (sc_max_members (sw_config sw))
                 then Some (fresh_member u now) else None)"
  using assms by (rule apply_update_map)

theorem apply_update_refines_merge_witness:
  "swim_find (snd (swim_apply_update demo_two
      \<lparr>su_node_id = demo_id 2, su_addr = 9, su_port = 9, su_state = WAKE_SWIM_ALIVE,
       su_incarnation = 1, su_piggyback_count = 0\<rparr> 20)) (demo_id 2)
   = Some \<lparr>sm_node_id = demo_id 2, sm_last_change_ms = 20, sm_suspect_ms = 0, sm_addr = 9,
       sm_incarnation = 1, sm_port = 9, sm_state = WAKE_SWIM_ALIVE\<rparr>"
proof -
  have "swim_find demo_two (demo_id 2) = Some \<lparr>sm_node_id = demo_id 2, sm_last_change_ms = 10,
      sm_suspect_ms = 10, sm_addr = 2, sm_incarnation = 0, sm_port = 2,
      sm_state = WAKE_SWIM_SUSPECT\<rparr>" "demo_id 2 \<noteq> sw_self_id demo_two" by code_simp+
  then show ?thesis
    by (simp add: apply_update_refines_merge [OF demo_two_inv] merge_member_def outranks_def)
qed

section \<open>Convergence\<close>

text \<open>A node's opinion of another: state and incarnation.\<close>

definition status :: "wake_swim_member_t \<Rightarrow> u8 \<times> u32" where
  "status m = (sm_state m, sm_incarnation m)"

definition merge_status :: "wake_swim_update_t \<Rightarrow> u8 \<times> u32 \<Rightarrow> u8 \<times> u32" where
  "merge_status u p = (if outranks (su_state u, su_incarnation u) p
                       then (su_state u, su_incarnation u) else p)"

definition apply_all :: "(wake_swim_update_t \<times> u64) list \<Rightarrow> wake_swim_t \<Rightarrow> wake_swim_t" where
  "apply_all us sw = fold (\<lambda>(u, now) sw. snd (swim_apply_update sw u now)) us sw"

lemma status_merge: "status (merge_member m u now) = merge_status u (status m)"
  by (simp add: status_def merge_member_def merge_status_def)

lemma merge_status_commute:
  assumes "su_state u \<noteq> WAKE_SWIM_LEFT" "su_state v \<noteq> WAKE_SWIM_LEFT"
  shows "merge_status u \<circ> merge_status v = merge_status v \<circ> merge_status u"
  using assms by (auto simp: fun_eq_iff merge_status_def outranks_def)

lemma apply_update_status:
  assumes "swim_inv sw" "swim_find sw nid = Some m"
  shows "\<exists>m'. swim_find (snd (swim_apply_update sw u now)) nid = Some m'
     \<and> status m' = (if su_node_id u = nid then merge_status u (status m) else status m)"
  using assms not_found_self [OF assms]
  by (auto simp: apply_update_map [OF assms(1)] status_merge)

lemma apply_all_status:
  assumes "swim_inv sw" "swim_find sw nid = Some m"
  shows "map_option status (swim_find (apply_all us sw) nid)
     = Some (fold merge_status (filter (\<lambda>u. su_node_id u = nid) (map fst us)) (status m))"
  using assms
proof (induction us arbitrary: sw m)
  case Nil
  then show ?case by (simp add: apply_all_def)
next
  case (Cons x us)
  obtain u now where x: "x = (u, now)" by force
  let ?t = "snd (swim_apply_update sw u now)"
  obtain m' where m': "swim_find ?t nid = Some m'"
    "status m' = (if su_node_id u = nid then merge_status u (status m) else status m)"
    using apply_update_status [OF Cons.prems] by blast
  from Cons.IH [OF swim_inv_apply_update [OF Cons.prems(1)] m'(1)] m'(2) show ?case
    by (auto simp: x apply_all_def split: if_splits)
qed

text \<open>
  C24. Convergence of gossip.  Take a member the node knows and any batch of updates (about any
  nodes, at any times) among which none announces that this member left.  Whatever the order in
  which the batch arrives, the node ends with the same state and incarnation for the member.
\<close>

theorem gossip_order_irrelevant:
  assumes "swim_inv sw" and "swim_find sw nid \<noteq> None"
    and "\<forall>(u, now)\<in>set us. su_node_id u = nid \<longrightarrow> su_state u \<noteq> WAKE_SWIM_LEFT"
    and "mset (map fst us) = mset (map fst vs)"
  shows "map_option status (swim_find (apply_all us sw) nid)
       = map_option status (swim_find (apply_all vs sw) nid)"
proof -
  obtain m where m: "swim_find sw nid = Some m" using assms(2) by auto
  let ?F = "filter (\<lambda>u. su_node_id u = nid)"
  have "mset (?F (map fst us)) = mset (?F (map fst vs))"
    using assms(4) by (metis mset_filter)
  moreover have "u \<in> set (?F (map fst us)) \<Longrightarrow> su_state u \<noteq> WAKE_SWIM_LEFT" for u
    using assms(3) by auto
  ultimately have "fold merge_status (?F (map fst us)) = fold merge_status (?F (map fst vs))"
    by (intro fold_multiset_equiv merge_status_commute) auto
  then show ?thesis by (simp add: apply_all_status [OF assms(1) m])
qed

definition demo_update :: "nat \<Rightarrow> u8 \<Rightarrow> u32 \<Rightarrow> wake_swim_update_t" where
  "demo_update n st inc = \<lparr>su_node_id = demo_id n, su_addr = 2, su_port = 2, su_state = st,
     su_incarnation = inc, su_piggyback_count = 0\<rparr>"

theorem gossip_order_irrelevant_witness:
  "map_option status (swim_find (apply_all
      [(demo_update 2 WAKE_SWIM_DEAD 3, 20), (demo_update 1 WAKE_SWIM_LEFT 0, 21),
       (demo_update 2 WAKE_SWIM_ALIVE 4, 22)] demo_two) (demo_id 2))
   = map_option status (swim_find (apply_all
      [(demo_update 2 WAKE_SWIM_ALIVE 4, 30), (demo_update 2 WAKE_SWIM_DEAD 3, 31),
       (demo_update 1 WAKE_SWIM_LEFT 0, 32)] demo_two) (demo_id 2))"
proof (rule gossip_order_irrelevant [OF demo_two_inv])
  show "swim_find demo_two (demo_id 2) \<noteq> None" by code_simp
qed (simp_all add: demo_update_def demo_id_def add_mset_commute)

end
