(* ===== verification/Wake_Swim_Detect.thy ===== *)
theory Wake_Swim_Detect
  imports Wake_Swim_Props
begin

text \<open>
  Failure detection: refutation of suspicions about the local node, the probe round, delegates,
  the suspicion timeout and its expiry, reaping, and dissemination.
\<close>

section \<open>Refutation\<close>

lemma queue_update_queued:
  assumes "queue_ok sw"
  shows "update_of_member m \<in> set (swim_queue (queue_update sw m))"
proof (cases "find_index (\<lambda>u. su_node_id u = sm_node_id m) (swim_queue sw)")
  case (Some i)
  then have "i < unat (sw_update_count sw)" "i < length (sw_updates sw)"
    using length_swim_queue [OF assms] by (auto dest: find_index_SomeD simp: swim_queue_def)
  with Some show ?thesis
    by (auto simp: queue_update_def swim_queue_def in_set_conv_nth)
next
  case None
  show ?thesis
  proof (cases "sw_update_count sw < ucast (sc_update_queue_size (sw_config sw))")
    case True
    then have "unat (sw_update_count sw) < length (sw_updates sw)"
      using assms by (simp add: queue_ok_def word_less_nat_alt)
    with True None show ?thesis
      by (simp add: queue_update_def swim_queue_def unat_Suc_word_less [OF True])
  next
    case False
    have "swim_queue sw \<noteq> []"
      using False assms length_swim_queue [OF assms]
      by (auto simp: queue_ok_def word_less_nat_alt unat_eq_0)
    then have w: "worst_update (swim_queue sw) < length (swim_queue sw)"
      using scan_best_less by (metis worst_update_def)
    then have "worst_update (swim_queue sw) < unat (sw_update_count sw)"
      "worst_update (swim_queue sw) < length (sw_updates sw)" by (auto simp: swim_queue_def)
    with False None show ?thesis
      by (auto simp: queue_update_def swim_queue_def in_set_conv_nth)
  qed
qed

text \<open>
  Refutation.  When an update says that the local node is SUSPECT or DEAD at an incarnation
  below the maximum of the counter, the node answers with a queued ALIVE update about itself,
  never sent so far, at an incarnation above the accusation, which therefore supersedes it at
  every receiver that holds the accusation.
\<close>

theorem refutation_wins:
  assumes "swim_inv sw" and "su_node_id u = sw_self_id sw"
    and "su_state u = WAKE_SWIM_SUSPECT \<or> su_state u = WAKE_SWIM_DEAD"
    and "su_incarnation u \<noteq> 0xFFFFFFFF"
    and "swim_apply_update sw u now = (r, t)"
  shows "r = WAKE_SWIM_OK \<and> sw_self_incarnation t > su_incarnation u
     \<and> (\<exists>e\<in>set (swim_queue t). su_node_id e = sw_self_id sw \<and> su_state e = WAKE_SWIM_ALIVE
          \<and> su_incarnation e = sw_self_incarnation t \<and> su_piggyback_count e = 0
          \<and> state_supersedes (su_state e) (su_incarnation e) (su_state u) (su_incarnation u))"
proof -
  let ?i = "if su_incarnation u \<ge> sw_self_incarnation sw then su_incarnation u + 1
            else sw_self_incarnation sw"
  let ?m = "\<lparr>sm_node_id = sw_self_id sw, sm_last_change_ms = now, sm_suspect_ms = 0,
             sm_addr = sw_self_addr sw, sm_incarnation = ?i, sm_port = sw_self_port sw,
             sm_state = WAKE_SWIM_ALIVE\<rparr>"
  have t: "t = queue_update (sw\<lparr>sw_self_incarnation := ?i\<rparr>) ?m" and r: "r = WAKE_SWIM_OK"
    using assms(2,3,5) by (auto simp: swim_apply_update_def swim_is_self_def apply_self_update_def Let_def
        split: if_splits)
  have "su_incarnation u < 0xFFFFFFFF"
    using assms(4) word_le_max(3) [of "su_incarnation u"] by (simp add: order_le_less del: word_le_max)
  then have inc: "?i > su_incarnation u"
    using unat_Suc_word_less [of "su_incarnation u" "0xFFFFFFFF"]
    by (auto simp: word_less_nat_alt word_le_nat_alt)
  have "queue_ok (sw\<lparr>sw_self_incarnation := ?i\<rparr>)" using assms(1) by (simp add: swim_inv_def)
  from queue_update_queued [OF this, of ?m] have "update_of_member ?m \<in> set (swim_queue t)"
    by (simp only: t)
  with r t inc assms(3) show ?thesis
    by (intro conjI bexI [of _ "update_of_member ?m"])
      (auto simp: update_of_member_def state_supersedes_def)
qed

text \<open>
  At the maximum of the incarnation counter the refutation wraps: an accusation at
  \<open>UINT32_MAX\<close> is answered with incarnation 0, which supersedes nothing, so the node cannot
  clear the accusation.
\<close>

theorem refutation_wraps:
  assumes "swim_inv sw" and "su_node_id u = sw_self_id sw"
    and "su_state u = WAKE_SWIM_SUSPECT \<or> su_state u = WAKE_SWIM_DEAD"
    and "su_incarnation u = 0xFFFFFFFF"
    and "swim_apply_update sw u now = (r, t)"
  shows "sw_self_incarnation t = 0
     \<and> \<not> state_supersedes WAKE_SWIM_ALIVE (sw_self_incarnation t) (su_state u) (su_incarnation u)"
proof -
  from assms(2-5) have "sw_self_incarnation t = 0"
    by (auto simp: swim_apply_update_def swim_is_self_def apply_self_update_def Let_def
        split: if_splits)
  with assms(3,4) show ?thesis by (auto simp: state_supersedes_def)
qed

definition accuse :: "u32 \<Rightarrow> wake_swim_update_t" where
  "accuse inc = \<lparr>su_node_id = demo_id 0, su_addr = 1, su_port = 7946, su_state = WAKE_SWIM_DEAD,
     su_incarnation = inc, su_piggyback_count = 0\<rparr>"

lemma demo_two_self: "sw_self_id demo_two = demo_id 0"
  by code_simp

theorem refutation_wins_witness:
  "fst (swim_apply_update demo_two (accuse 6) 20) = WAKE_SWIM_OK
     \<and> sw_self_incarnation (snd (swim_apply_update demo_two (accuse 6) 20)) > 6"
  using refutation_wins [OF demo_two_inv _ _ _ surjective_pairing, of "accuse 6" 20] demo_two_self
  by (simp add: accuse_def)

theorem refutation_wraps_witness:
  "sw_self_incarnation (snd (swim_apply_update demo_two (accuse 0xFFFFFFFF) 20)) = 0"
  using refutation_wraps [OF demo_two_inv _ _ _ surjective_pairing, of "accuse 0xFFFFFFFF" 20]
    demo_two_self
  by (simp add: accuse_def)

section \<open>The probe round\<close>

fun probes :: "nat \<Rightarrow> wake_swim_t \<Rightarrow> nat option list \<times> wake_swim_t" where
  "probes 0 sw = ([], sw)"
| "probes (Suc k) sw =
     (let (p, sw1) = swim_next_probe sw; (ps, sw2) = probes k sw1 in (p # ps, sw2))"

lemma probe_base_current:
  "sw_probe_index sw < sw_probe_size sw \<Longrightarrow> probe_base sw = sw"
  by (auto simp: probe_base_def)

lemma probes_current:
  assumes "swim_inv sw" "sw_alive_count sw \<noteq> 0"
    and "unat (sw_probe_index sw) + k \<le> unat (sw_probe_size sw)"
  shows "fst (probes k sw)
    = map (Some \<circ> unat) (take k (drop (unat (sw_probe_index sw)) (sw_probe_order sw)))"
  using assms
proof (induction k arbitrary: sw)
  case 0
  then show ?case by simp
next
  case (Suc k)
  let ?i = "sw_probe_index sw"
  let ?t = "sw\<lparr>sw_probe_index := ?i + 1\<rparr>"
  have lt: "?i < sw_probe_size sw" using Suc.prems(3) by (simp add: word_less_nat_alt)
  have step: "swim_next_probe sw = (Some (unat (sw_probe_order sw ! unat ?i)), ?t)"
    using next_probe_eq [OF Suc.prems(1,2)] probe_base_current [OF lt] by simp
  have inv: "swim_inv ?t" using swim_inv_next_probe [OF Suc.prems(1)] step by simp
  have ok: "members_ok sw" "probe_ok sw" using Suc.prems(1) by (auto simp: swim_inv_def)
  have "sw_probe_size sw \<noteq> 0" using lt by auto
  then have len: "unat ?i < length (sw_probe_order sw)"
    using lt ok eligible_indices_le [OF ok(1)] by (auto simp: probe_ok_def word_less_nat_alt)
  have suc: "unat (?i + 1) = Suc (unat ?i)" by (rule unat_Suc_word_less [OF lt])
  have IH: "fst (probes k ?t) = map (Some \<circ> unat) (take k (drop (Suc (unat ?i)) (sw_probe_order sw)))"
    using Suc.IH [OF inv] Suc.prems(2,3) by (simp add: suc)
  have "take (Suc k) (drop (unat ?i) (sw_probe_order sw))
      = sw_probe_order sw ! unat ?i # take k (drop (Suc (unat ?i)) (sw_probe_order sw))"
    using len by (simp add: Cons_nth_drop_Suc [symmetric])
  with IH show ?case by (simp add: step case_prod_unfold)
qed

lemma probes_from_base:
  assumes "swim_inv sw" "sw_alive_count sw \<noteq> 0"
  shows "probes k (probe_base sw) = (if k = 0 then ([], probe_base sw) else probes k sw)"
proof -
  note b = probe_base_ok [OF assms]
  have "sw_alive_count (probe_base sw) \<noteq> 0" using assms(2) by (simp add: probe_base_def)
  then have "swim_next_probe (probe_base sw) = swim_next_probe sw"
    using next_probe_eq [OF assms] next_probe_eq [OF b(1)] probe_base_current [OF b(2)] by simp
  then show ?thesis by (cases k) auto
qed

text \<open>
  C36. A probe round.  When the probe order has to be rebuilt (it was invalidated, or the last
  round is over), the next \<open>alive_count\<close> calls of \<open>wake_swim_next_probe\<close> return the ALIVE and
  SUSPECT members, each exactly once, whatever the state of the generator.
\<close>

theorem probe_round_exact:
  assumes "swim_inv sw" and "sw_probe_size sw = 0 \<or> sw_probe_index sw \<ge> sw_probe_size sw"
  shows "mset (fst (probes (unat (sw_alive_count sw)) sw)) = mset (map Some (eligible_indices sw))"
proof (cases "sw_alive_count sw = 0")
  case True
  then have "eligible_indices sw = []"
    using assms(1) length_eligible_indices [of sw] by (simp add: swim_inv_def alive_ok_def)
  with True show ?thesis by simp
next
  case False
  let ?b = "rebuild_probe_order sw" and ?e = "eligible_indices sw"
  have b: "probe_base sw = ?b" using assms(2) by (auto simp: probe_base_def)
  have ok: "members_ok sw" "length (sw_probe_order sw) = unat (sc_max_members (sw_config sw))"
    using assms(1) by (auto simp: swim_inv_def probe_ok_length)
  have k: "unat (sw_alive_count sw) = length ?e"
    using assms(1) length_eligible_indices [OF ok(1)] by (simp add: swim_inv_def alive_ok_def)
  have "fst (probes (length ?e) ?b) = map (Some \<circ> unat) (take (length ?e) (sw_probe_order ?b))"
    using probes_current [of ?b "length ?e"] probe_base_ok(1) [OF assms(1) False] False
      rebuild_perm(1) [OF ok] by (simp add: b)
  moreover have "probes (length ?e) ?b = probes (length ?e) sw"
    using probes_from_base [OF assms(1) False, of "length ?e"] k False by (auto simp: b unat_eq_0)
  ultimately have "mset (fst (probes (length ?e) sw))
      = image_mset (Some \<circ> unat) (mset (map (of_nat :: nat \<Rightarrow> u32) ?e))"
    using rebuild_perm(3) [OF ok] by (metis mset_map)
  also have "\<dots> = mset (map (Some \<circ> unat \<circ> (of_nat :: nat \<Rightarrow> u32)) ?e)"
    by (simp add: multiset.map_comp comp_assoc)
  also have "map (Some \<circ> unat \<circ> (of_nat :: nat \<Rightarrow> u32)) ?e = map Some ?e"
    using member_count_less [OF ok(1)]
    by (intro map_cong refl) (auto simp: eligible_indices_def intro!: unat_of_nat_le [of _ 65535])
  finally show ?thesis by (simp add: k)
qed

theorem probe_round_exact_witness:
  "mset (fst (probes 2 demo_two)) = {#Some 0, Some 1#}"
proof -
  have "sw_probe_size demo_two = 0" "unat (sw_alive_count demo_two) = 2"
    "map Some (eligible_indices demo_two) = [Some 0, Some 1]" by code_simp+
  with probe_round_exact [OF demo_two_inv] show ?thesis by simp
qed

text \<open>
  \<open>wake_swim_next_probe\<close> returns a target exactly when some member is ALIVE or SUSPECT, and
  the target it returns is one of these members.
\<close>

theorem next_probe_live:
  assumes "swim_inv sw"
  shows "(fst (swim_next_probe sw) = None \<longleftrightarrow> (\<forall>m\<in>set (swim_view sw). \<not> probe_eligible m))
     \<and> (\<forall>i. fst (swim_next_probe sw) = Some i \<longrightarrow>
          i < length (swim_view sw) \<and> probe_eligible (swim_view sw ! i))"
proof (cases "sw_alive_count sw = 0")
  case True
  then have "filter probe_eligible (swim_view sw) = []"
    using assms by (simp add: swim_inv_def alive_ok_def)
  with True show ?thesis by (auto simp: next_probe_none filter_empty_conv)
next
  case False
  have ok: "members_ok sw" "alive_ok sw" using assms by (auto simp: swim_inv_def)
  note b = probe_base_ok [OF assms False]
  have "unat (sw_probe_order (probe_base sw) ! unat (sw_probe_index (probe_base sw)))
      \<in> set (eligible_indices sw)"
    using probe_entry [OF _ _ b(2)] b(1,4) by (simp add: swim_inv_def)
  moreover have "filter probe_eligible (swim_view sw) \<noteq> []"
    using False ok(2) by (auto simp: alive_ok_def unat_eq_0)
  ultimately show ?thesis
    using next_probe_eq [OF assms False] length_swim_view [OF ok(1)]
    by (auto simp: eligible_indices_def filter_empty_conv swim_view_nth [OF ok(1)])
qed

theorem next_probe_live_witness:
  "fst (swim_next_probe demo_two) \<noteq> None"
proof -
  have "\<not> (\<forall>m\<in>set (swim_view demo_two). \<not> probe_eligible m)" by code_simp
  with next_probe_live [OF demo_two_inv] show ?thesis by blast
qed

section \<open>Delegates\<close>

lemma delegate_loop_perm:
  assumes "i + k \<le> length elig" "length elig \<le> 512" "out = map ((!) ms) (take i elig)"
  shows "\<exists>elig'. mset elig' = mset elig
     \<and> fst (delegate_loop ms k i s elig out) = map ((!) ms) (take (i + k) elig')"
  using assms
proof (induction k arbitrary: i s elig out)
  case 0
  then show ?case by auto
next
  case (Suc k)
  obtain s' r where sr: "wake_splitmix64 s = (s', r)" by force
  define d where "d = length elig - i"
  have d: "0 < d" "d \<le> 512" using Suc.prems(1,2) by (auto simp: d_def)
  then have "unat (of_nat d :: u64) = d" by (intro unat_of_nat_le [of d 512]) auto
  then have "unat (r mod of_nat d) < d" using d(1) by (simp add: unat_mod)
  then have jd: "unat (ucast (r mod of_nat d) :: u32) < d"
    using d(2) by (simp add: unsigned_ucast_eq take_bit_nat_eq_self)
  define j where "j = i + unat (ucast (r mod of_nat d) :: u32)"
  have i: "i < length elig" and j: "j < length elig" "i \<le> j"
    using jd Suc.prems(1) by (auto simp: j_def d_def)
  let ?e = "swap elig i j"
  have "take (Suc i) ?e = take i elig @ [?e ! i]"
    using i j by (auto simp: swap_def take_Suc_conv_app_nth list_update_swap)
  then have "out @ [ms ! (?e ! i)] = map ((!) ms) (take (Suc i) ?e)"
    using Suc.prems(3) by simp
  from Suc.IH [OF _ _ this, of s'] Suc.prems(1,2) obtain elig' where
    "mset elig' = mset ?e"
    "fst (delegate_loop ms k (Suc i) s' ?e (out @ [ms ! (?e ! i)])) = map ((!) ms) (take (Suc i + k) elig')"
    by auto
  moreover have "mset ?e = mset elig" using i j by simp
  moreover have "delegate_loop ms (Suc k) i s elig out
      = delegate_loop ms k (Suc i) s' ?e (out @ [ms ! (?e ! i)])"
    by (simp add: sr j_def d_def Let_def)
  ultimately show ?case by auto
qed

text \<open>
  \<open>wake_swim_select_delegates\<close> returns pairwise different members, all ALIVE, none of them
  the local node or the excluded target, as many as asked for or as there are among the first
  512 members, and changes no member.
\<close>

theorem delegates_correct:
  assumes "swim_inv sw" and "swim_select_delegates sw ex n = (out, t)"
  shows "distinct (map sm_node_id out)
     \<and> (\<forall>m\<in>set out. m \<in> set (swim_view sw) \<and> sm_state m = WAKE_SWIM_ALIVE
          \<and> sm_node_id m \<noteq> sw_self_id sw \<and> ex \<noteq> Some (sm_node_id m))
     \<and> length out = min (unat n) (length (filter (delegate_eligible sw ex) (take 512 (swim_view sw))))
     \<and> swim_view t = swim_view sw"
proof -
  let ?v = "swim_view sw" and ?ms = "sw_members sw" and ?P = "delegate_eligible sw ex"
  define cap where "cap = (if sw_member_count sw < 512 then unat (sw_member_count sw) else 512)"
  define elig where "elig = filter (\<lambda>i. ?P (?ms ! i)) [0..<cap]"
  have ok: "members_ok sw" using assms(1) by (rule swim_inv_members)
  have cap: "cap = length (take 512 ?v)" "cap \<le> 512"
    using length_swim_view [OF ok] by (auto simp: cap_def word_less_nat_alt)
  have at: "i < cap \<Longrightarrow> ?ms ! i = take 512 ?v ! i" for i
    using cap length_swim_view [OF ok] by (simp add: swim_view_def)
  have "map (\<lambda>i. ?ms ! i) [0..<cap] = take 512 ?v"
    using cap at by (intro nth_equalityI) auto
  then have mapped: "map ((!) ?ms) elig = filter ?P (take 512 ?v)"
    by (metis (no_types, lifting) comp_apply elig_def filter_cong filter_map)
  then have len: "length elig = length (filter ?P (take 512 ?v))" by (metis length_map)
  have le: "length elig \<le> 512"
    using cap(2) length_filter_le [of "\<lambda>i. ?P (?ms ! i)" "[0..<cap]"] by (simp add: elig_def)
  define k where "k = min (unat n) (length elig)"
  have res: "\<exists>elig'. mset elig' = mset elig \<and> out = map ((!) ?ms) (take k elig')"
    and view: "swim_view t = ?v"
  proof -
    have pick: "(if unat n < length elig then unat n else length elig) = k" by (simp add: k_def)
    obtain o' s' where os: "delegate_loop ?ms k 0 (sw_prng_state sw) elig [] = (o', s')" by force
    with delegate_loop_perm [of 0 k elig "[]" ?ms "sw_prng_state sw"] le
    have *: "\<exists>elig'. mset elig' = mset elig \<and> o' = map ((!) ?ms) (take k elig')" by (auto simp: k_def)
    have "swim_select_delegates sw ex n = (if n = 0 \<or> elig = [] then ([], sw)
        else (o', sw\<lparr>sw_prng_state := s'\<rparr>))"
      unfolding swim_select_delegates_def Let_def cap_def [symmetric] elig_def [symmetric] pick os
      by simp
    with assms(2) * show "\<exists>elig'. mset elig' = mset elig \<and> out = map ((!) ?ms) (take k elig')"
      and "swim_view t = ?v" by (auto simp: k_def split: if_splits)
  qed
  then obtain elig' where e': "mset elig' = mset elig" "out = map ((!) ?ms) (take k elig')" by auto
  let ?all = "map ((!) ?ms) elig'"
  have "mset ?all = mset (filter ?P (take 512 ?v))" using e'(1) mapped by (metis mset_map)
  then have all: "mset (map sm_node_id ?all) = mset (map sm_node_id (filter ?P (take 512 ?v)))"
    "set ?all = set (filter ?P (take 512 ?v))" by (metis mset_map) (metis \<open>mset ?all = _\<close> set_mset_mset)
  have "distinct (map sm_node_id (filter ?P (take 512 ?v)))"
    using ok by (intro distinct_map_filter) (simp add: members_ok_def distinct_take flip: take_map)
  then have "distinct (map sm_node_id ?all)"
    using all(1) by (metis mset_eq_imp_distinct_iff)
  moreover have out: "out = take k ?all" using e'(2) by (simp add: take_map)
  ultimately have "distinct (map sm_node_id out)" by (metis distinct_take take_map)
  moreover have "\<forall>m\<in>set out. m \<in> set ?v \<and> ?P m"
    using all(2) out by (auto dest!: in_set_takeD) 
  moreover have "length out = k"
    using e' mset_eq_length [OF e'(1)] by (simp add: k_def)
  ultimately show ?thesis
    using view len by (auto simp: k_def delegate_eligible_def swim_is_self_def)
qed

theorem delegates_correct_witness:
  "length (fst (swim_select_delegates demo_two None 3)) = 1"
proof -
  have "min (unat (3 :: u32)) (length (filter (delegate_eligible demo_two None) (take 512 (swim_view demo_two)))) = 1"
    by code_simp
  with delegates_correct [OF demo_two_inv surjective_pairing, of None 3] show ?thesis by simp
qed

end
