(* ===== verification/Wake_Swim_Expiry.thy ===== *)
theory Wake_Swim_Expiry
  imports Wake_Swim_Detect
begin

text \<open>
  Timers and dissemination of SWIM: the suspicion timeout as a formula on naturals, what a sweep
  of the suspects and a reap do to the membership, and which updates a message carries.  The
  last section states where the code departs from its comments.
\<close>

section \<open>The suspicion timeout\<close>

lemma unat_mult_less: "unat a * unat b < 2 ^ LENGTH('a) \<Longrightarrow> unat (a * b :: 'a::len word) = unat a * unat b"
  by (simp add: unat_word_ariths)

lemma saturate_u32:
  "unat (if (x :: u64) > 0xFFFFFFFF then 0xFFFFFFFF else ucast x :: u32) = min (2 ^ 32 - 1) (unat x)"
  by (simp add: word_less_nat_alt unsigned_ucast_eq take_bit_nat_eq_self min_def)

text \<open>Neither product of the timeout reaches \<open>2 ^ 64\<close>: the suspicion base and its widening.\<close>

lemma unat_suspicion_product:
  fixes mult :: u16 and l period :: u32
  assumes "unat l < 32"
  shows "unat ((ucast mult :: u64) * ucast l * ucast period) = unat mult * unat l * unat period"
proof -
  have ml: "unat mult * unat l \<le> 65535 * 31"
    using unat_u16_less [of mult] assms by (intro mult_le_mono) auto
  then have "unat mult * unat l * unat period \<le> (65535 * 31) * (2 ^ 32 - 1)"
    by (rule mult_le_mono) (use unsigned_less [of period, where ?'a = nat] in simp)
  moreover have "unat ((ucast mult :: u64) * ucast l) = unat mult * unat l"
    using ml by (subst unat_mult_less) auto
  ultimately show ?thesis by (subst unat_mult_less) auto
qed

lemma unat_health_product:
  fixes base h :: u32
  assumes "unat h \<le> 8"
  shows "unat ((ucast base :: u64) * ucast (1 + h)) = unat base * (1 + unat h)"
proof -
  have h1: "unat (1 + h) = 1 + unat h" using assms by (simp add: unat_word_ariths)
  have "unat base * (1 + unat h) \<le> (2 ^ 32 - 1) * 9"
    using unsigned_less [of base, where ?'a = nat] assms by (intro mult_le_mono) auto
  then show ?thesis by (subst unat_mult_less) (simp_all add: h1)
qed

text \<open>
  The suspicion timeout is the configured value, or \<open>suspicion_mult * L * protocol_period\<close>
  with \<open>L\<close> the floor of the binary logarithm of \<open>max 2 alive_count\<close>, widened by
  \<open>1 + health_score\<close>; both products saturate at \<open>UINT32_MAX\<close> and neither wraps.
\<close>

theorem suspect_timeout_exact:
  assumes "swim_inv sw"
  shows "\<exists>L. 2 ^ L \<le> max 2 (unat (sw_alive_count sw)) \<and> max 2 (unat (sw_alive_count sw)) < 2 ^ Suc L
    \<and> unat (swim_suspect_timeout sw) =
        (let base = (if sc_suspect_timeout_ms (sw_config sw) \<noteq> 0
                     then unat (sc_suspect_timeout_ms (sw_config sw))
                     else min (2 ^ 32 - 1) (unat (sc_suspicion_mult (sw_config sw)) * L
                            * unat (sc_protocol_period_ms (sw_config sw))))
         in min (2 ^ 32 - 1) (base * (1 + unat (sw_health_score sw))))"
proof -
  let ?n = "if sw_alive_count sw > 2 then sw_alive_count sw else 2"
  let ?l = "ilog2 ?n" and ?c = "sw_config sw"
  define base where "base = (if sc_suspect_timeout_ms ?c \<noteq> 0 then sc_suspect_timeout_ms ?c
      else if (ucast (sc_suspicion_mult ?c) :: u64) * ucast ?l * ucast (sc_protocol_period_ms ?c) > 0xFFFFFFFF
        then 0xFFFFFFFF else ucast ((ucast (sc_suspicion_mult ?c) :: u64) * ucast ?l * ucast (sc_protocol_period_ms ?c)))"
  have n: "unat ?n = max 2 (unat (sw_alive_count sw))" by (auto simp: word_less_nat_alt)
  have "?n > 0" by (simp add: word_less_nat_alt)
  note L = ilog2_spec [OF this, unfolded n]
  have "(2::nat) ^ unat ?l < 2 ^ 32"
    using L(1) unsigned_less [of "sw_alive_count sw", where ?'a = nat] by simp
  then have l32: "unat ?l < 32" by (rule power_less_imp_less_exp [rotated]) simp
  have "?l \<noteq> 0" using L by (intro notI) simp
  then have log_n: "(if ?l = 0 then 1 else ?l) = ?l" by simp
  note unat_suspicion_product [OF l32, of "sc_suspicion_mult ?c" "sc_protocol_period_ms ?c"]
  then have base: "unat base = (if sc_suspect_timeout_ms ?c \<noteq> 0 then unat (sc_suspect_timeout_ms ?c)
      else min (2 ^ 32 - 1) (unat (sc_suspicion_mult ?c) * unat ?l * unat (sc_protocol_period_ms ?c)))"
    unfolding base_def
    by (cases "sc_suspect_timeout_ms ?c = 0") (simp_all only: simp_thms if_True if_False saturate_u32)
  have "unat (sw_health_score sw) \<le> 8"
    using assms by (simp add: swim_inv_def WAKE_SWIM_HEALTH_MAX_def word_le_nat_alt)
  note unat_health_product [OF this, of base]
  moreover have "swim_suspect_timeout sw = (if (ucast base :: u64) * ucast (1 + sw_health_score sw) > 0xFFFFFFFF
      then 0xFFFFFFFF else ucast ((ucast base :: u64) * ucast (1 + sw_health_score sw)))"
    unfolding swim_suspect_timeout_def base_def Let_def log_n ..
  ultimately have "unat (swim_suspect_timeout sw) = min (2 ^ 32 - 1) (unat base * (1 + unat (sw_health_score sw)))"
    by (simp only: saturate_u32)
  with L base show ?thesis by (intro exI [of _ "unat ?l"]) (simp only: Let_def simp_thms)
qed

theorem suspect_timeout_exact_witness: "swim_suspect_timeout demo_two = 5000"
proof -
  have c: "unat (sw_alive_count demo_two) = 2" "unat (sw_health_score demo_two) = 0"
    "sc_suspect_timeout_ms (sw_config demo_two) = 0"
    "unat (sc_suspicion_mult (sw_config demo_two)) = 5"
    "unat (sc_protocol_period_ms (sw_config demo_two)) = 1000" by code_simp+
  from suspect_timeout_exact [OF demo_two_inv] obtain L where
    L: "2 ^ L \<le> (2::nat)" and t: "unat (swim_suspect_timeout demo_two) = min (2 ^ 32 - 1) (5 * L * 1000)"
    and L2: "2 < (2::nat) ^ Suc L"
    by (auto simp: c Let_def)
  have "L \<le> 1" "1 < Suc L"
    using power_le_imp_le_exp [of "2::nat" L 1] power_less_imp_less_exp [of "2::nat" 1 "Suc L"] L L2
    by simp_all
  with t show ?thesis by (simp add: word_unat_eq_iff)
qed

section \<open>Expiry and reaping\<close>

text \<open>
  \<open>wake_swim_check_suspects\<close> turns exactly the suspects whose timer has run for the timeout
  of the call into DEAD members (with the time of death and no timer), leaves every other
  member as it is and in its place, and returns how many it expired.
\<close>

theorem check_suspects_exact:
  assumes "swim_inv sw" and "swim_check_suspects sw now = (e, t)"
  shows "swim_view t = map (expire_member (swim_suspect_timeout sw) now) (swim_view sw)
     \<and> unat e = length (filter (suspicion_expired (swim_suspect_timeout sw) now) (swim_view sw))
     \<and> (\<forall>m\<in>set (swim_view t). \<not> suspicion_expired (swim_suspect_timeout sw) now m)"
  using check_suspects_spec(1,2) [OF assms(1), of now] assms(2)
  by (auto simp: expire_member_def suspicion_expired_def)

theorem check_suspects_exact_witness:
  "fst (swim_check_suspects demo_two 5010) = 1
     \<and> map sm_state (swim_view (snd (swim_check_suspects demo_two 5010))) = [WAKE_SWIM_ALIVE, WAKE_SWIM_DEAD]"
proof -
  have "map sm_state (map (expire_member (swim_suspect_timeout demo_two) 5010) (swim_view demo_two))
      = [WAKE_SWIM_ALIVE, WAKE_SWIM_DEAD]"
    "length (filter (suspicion_expired (swim_suspect_timeout demo_two) 5010) (swim_view demo_two)) = 1"
    by code_simp+
  with check_suspects_exact [OF demo_two_inv surjective_pairing, of 5010] show ?thesis
    by (simp add: word_unat_eq_iff)
qed

text \<open>
  \<open>wake_swim_reap\<close> removes exactly the DEAD and LEFT members whose last change is at least
  \<open>retention_ms\<close> ago, keeps the others in their order, and returns how many it removed.
\<close>

theorem reap_exact:
  assumes "swim_inv sw" and "swim_reap sw now retention = (n, t)"
  shows "swim_view t = filter (\<lambda>m. \<not> reapable now retention m) (swim_view sw)
     \<and> unat n = length (filter (reapable now retention) (swim_view sw))"
  using reap_spec(1,2) [OF assms(1), of now retention] assms(2) by simp

definition demo_dead :: wake_swim_t where
  "demo_dead = snd (swim_check_suspects demo_two 5010)"

lemma demo_dead_inv: "swim_inv demo_dead"
  unfolding demo_dead_def by (rule check_suspects_spec(3) [OF demo_two_inv])

theorem reap_exact_witness:
  "map sm_node_id (swim_view (snd (swim_reap demo_dead 6010 1000))) = [demo_id 1]
     \<and> fst (swim_reap demo_dead 6010 1000) = 1"
proof -
  have "map sm_node_id (filter (\<lambda>m. \<not> reapable 6010 1000 m) (swim_view demo_dead)) = [demo_id 1]"
    "length (filter (reapable 6010 1000) (swim_view demo_dead)) = 1" by code_simp+
  with reap_exact [OF demo_dead_inv surjective_pairing, of 6010 1000] show ?thesis
    by (simp add: word_unat_eq_iff)
qed

section \<open>Dissemination\<close>

text \<open>
  \<open>wake_swim_get_updates\<close> selects the updates sent least often: as many as asked for, out of
  the first 256 entries of the queue, in the order of their piggyback counts, and no entry left
  out has been sent less often than one that was selected.  Then each selected entry counts one
  more transmission and every entry that reached the dissemination limit is dropped.
\<close>

theorem get_updates_least_first:
  assumes "swim_inv sw" and "n \<noteq> 0" and "swim_get_updates sw n = (out, t)"
  shows "\<exists>js. distinct js \<and> set js \<subseteq> {..<min 256 (length (swim_queue sw))}
     \<and> length js = min (unat n) (min 256 (length (swim_queue sw)))
     \<and> out = map (\<lambda>i. swim_queue sw ! i) js
     \<and> sorted (map su_piggyback_count out)
     \<and> (\<forall>u\<in>set out. \<forall>j<min 256 (length (swim_queue sw)). j \<notin> set js \<longrightarrow>
          su_piggyback_count u \<le> su_piggyback_count (swim_queue sw ! j))
     \<and> swim_queue t = filter (\<lambda>u. unat (su_piggyback_count u) < unat (dissemination_limit sw))
                              (bump_at (set js) (swim_queue sw))"
  using get_updates_spec [OF assms(1,2)] assms(3)
  by (auto simp: picked_def comp_def)

theorem get_updates_least_first_witness:
  "length (fst (swim_get_updates demo_two 1)) = 1
     \<and> fst (swim_get_updates demo_two 1) = [swim_queue demo_two ! 0]"
proof -
  have len: "min (unat (1::u32)) (min 256 (length (swim_queue demo_two))) = 1"
    and out: "fst (swim_get_updates demo_two 1) = [swim_queue demo_two ! 0]" by code_simp+
  from get_updates_least_first [OF demo_two_inv _ surjective_pairing, of 1] len
  have "length (fst (swim_get_updates demo_two 1)) = 1" by auto
  with out show ?thesis by simp
qed

section \<open>Where the code departs from its comments\<close>

text \<open>
  A node that learns of a member through gossip stores the incarnation of the update, but the
  update it queues for its own peers carries incarnation 0: \<open>queue_update\<close> runs inside
  \<open>wake_swim_add_member\<close>, before the incarnation is written.
\<close>

theorem learned_incarnation_not_gossiped:
  assumes "swim_inv sw" and "su_node_id u \<noteq> sw_self_id sw" and "swim_find sw (su_node_id u) = None"
    and "su_state u = WAKE_SWIM_ALIVE"
    and "length (swim_view sw) < unat (sc_max_members (sw_config sw))"
    and "swim_apply_update sw u now = (r, t)"
  shows "map_option sm_incarnation (swim_find t (su_node_id u)) = Some (su_incarnation u)
     \<and> (\<exists>e\<in>set (swim_queue t). su_node_id e = su_node_id u \<and> su_incarnation e = 0)"
proof
  show "map_option sm_incarnation (swim_find t (su_node_id u)) = Some (su_incarnation u)"
    using apply_update_map [OF assms(1), of u now "su_node_id u"] assms(2-6)
    by (simp add: fresh_member_def)
  let ?a = "swim_add_member sw (su_node_id u) (su_addr u) (su_port u) now"
  have ok: "fst ?a = WAKE_SWIM_OK"
    using add_member_result(1) [OF assms(1), of "su_node_id u" "su_addr u" "su_port u" now] assms(2,3,5)
    by simp
  have "\<exists>s m. snd ?a = (queue_update s m)\<lparr>sw_probe_size := 0\<rparr> \<and> queue_ok s
      \<and> sm_node_id m = su_node_id u \<and> sm_incarnation m = 0"
  proof -
    let ?m = "\<lparr>sm_node_id = su_node_id u, sm_last_change_ms = now, sm_suspect_ms = 0,
               sm_addr = su_addr u, sm_incarnation = 0, sm_port = su_port u,
               sm_state = WAKE_SWIM_ALIVE\<rparr>"
    let ?s = "sw\<lparr>sw_members := (sw_members sw)[unat (sw_member_count sw) := ?m],
                 sw_member_count := sw_member_count sw + 1, sw_alive_count := sw_alive_count sw + 1,
                 sw_state_changes := sw_state_changes sw + 1\<rparr>"
    have "snd ?a = (queue_update ?s ?m)\<lparr>sw_probe_size := 0\<rparr>"
      using ok by (auto simp: swim_add_member_def Let_def split: if_splits)
    moreover have "queue_ok ?s" using assms(1) by (simp add: swim_inv_def)
    ultimately show ?thesis by (intro exI [of _ ?s] exI [of _ ?m]) simp
  qed
  then obtain s m where sm: "snd ?a = (queue_update s m)\<lparr>sw_probe_size := 0\<rparr>" "queue_ok s"
    "sm_node_id m = su_node_id u" "sm_incarnation m = 0" by blast
  have "t = snd (apply_unknown_update sw u now)"
    using assms(2,3,6) by (simp add: swim_apply_update_def swim_is_self_def find_member_find [symmetric])
  moreover have "swim_queue (snd (apply_unknown_update sw u now)) = swim_queue (snd ?a)"
    by (simp add: apply_unknown_update_def case_prod_unfold Let_def assms(4) swim_queue_def split: option.split)
  ultimately have "swim_queue t = swim_queue (queue_update s m)"
    by (simp add: sm(1) swim_queue_def)
  with queue_update_queued [OF sm(2), of m] sm(3,4)
  show "\<exists>e\<in>set (swim_queue t). su_node_id e = su_node_id u \<and> su_incarnation e = 0"
    by (intro bexI [of _ "update_of_member m"]) (simp_all add: update_of_member_def)
qed

definition demo_news :: wake_swim_update_t where
  "demo_news = \<lparr>su_node_id = demo_id 3, su_addr = 3, su_port = 3, su_state = WAKE_SWIM_ALIVE,
     su_incarnation = 9, su_piggyback_count = 0\<rparr>"

theorem learned_incarnation_not_gossiped_witness:
  "\<exists>e\<in>set (swim_queue (snd (swim_apply_update demo_two demo_news 30))).
     su_node_id e = demo_id 3 \<and> su_incarnation e = 0"
proof -
  have "su_node_id demo_news \<noteq> sw_self_id demo_two" "swim_find demo_two (su_node_id demo_news) = None"
    "su_state demo_news = WAKE_SWIM_ALIVE"
    "length (swim_view demo_two) < unat (sc_max_members (sw_config demo_two))"
    "su_node_id demo_news = demo_id 3" by code_simp+
  with learned_incarnation_not_gossiped [OF demo_two_inv _ _ _ _ surjective_pairing, of demo_news 30]
  show ?thesis by simp
qed

text \<open>
  A LEFT update about a member that already left is not recognised as a duplicate: it returns
  OK, restarts the retention period of the member and queues the departure again as unsent.
\<close>

theorem left_reapplied:
  assumes "swim_inv sw" and "swim_find sw (su_node_id u) = Some m"
    and "sm_state m = WAKE_SWIM_LEFT" and "su_state u = WAKE_SWIM_LEFT"
    and "swim_apply_update sw u now = (r, t)"
  shows "r = WAKE_SWIM_OK \<and> map_option sm_last_change_ms (swim_find t (su_node_id u)) = Some now
     \<and> (\<exists>e\<in>set (swim_queue t). su_node_id e = su_node_id u \<and> su_state e = WAKE_SWIM_LEFT
          \<and> su_piggyback_count e = 0)"
proof -
  obtain i where i: "find_member sw (su_node_id u) = Some i" "sw_members sw ! i = m"
    using assms(2) by (auto simp: swim_find_def)
  have ns: "su_node_id u \<noteq> sw_self_id sw" by (rule not_found_self [OF assms(1,2)])
  have id: "sm_node_id m = su_node_id u" using swim_inv_found(2) [OF assms(1) i(1)] i(2) by simp
  let ?m = "merge_member m u now"
  have m: "sm_node_id ?m = su_node_id u" "sm_state ?m = WAKE_SWIM_LEFT" "sm_last_change_ms ?m = now"
    using id assms(4) by (simp_all add: merge_member_def outranks_def)
  have res: "swim_apply_update sw u now = (WAKE_SWIM_OK, commit_member sw i ?m)"
    using ns i assms(4)
    by (simp add: swim_apply_update_def swim_is_self_def apply_known_update_def Let_def
        state_supersedes_def merge_member_def outranks_def)
  have "queue_ok (recount_alive (sw\<lparr>sw_members := (sw_members sw)[i := ?m],
           sw_state_changes := sw_state_changes sw + 1\<rparr>))"
    using assms(1) by (simp add: swim_inv_def)
  from queue_update_queued [OF this, of ?m]
  have "update_of_member ?m \<in> set (swim_queue (commit_member sw i ?m))"
    by (simp add: commit_member_def Let_def swim_queue_def)
  moreover have "swim_find t (su_node_id u) = Some ?m"
    using apply_update_map [OF assms(1), of u now "su_node_id u"] ns assms(2,5) by simp
  ultimately show ?thesis
    using res assms(5) m
    by (intro conjI bexI [of _ "update_of_member ?m"]) (auto simp: update_of_member_def)
qed

definition demo_left :: wake_swim_t where
  "demo_left = snd (swim_remove_member demo_two (demo_id 2) 12)"

lemma demo_left_inv: "swim_inv demo_left"
  unfolding demo_left_def by (rule swim_inv_remove_member [OF demo_two_inv])

theorem left_reapplied_witness:
  "fst (swim_apply_update demo_left (demo_news\<lparr>su_node_id := demo_id 2, su_state := WAKE_SWIM_LEFT\<rparr>) 99)
     = WAKE_SWIM_OK"
proof -
  let ?u = "demo_news\<lparr>su_node_id := demo_id 2, su_state := WAKE_SWIM_LEFT\<rparr>"
  have "map_option sm_state (swim_find demo_left (su_node_id ?u)) = Some WAKE_SWIM_LEFT"
    "su_state ?u = WAKE_SWIM_LEFT" by code_simp+
  with left_reapplied [OF demo_left_inv _ _ _ surjective_pairing, of ?u _ 99] show ?thesis by auto
qed

text \<open>
  The state byte of an update is not checked.  An update with a value above LEFT supersedes
  whatever non-LEFT state is stored at the same or a lower incarnation, and the resulting
  member is neither probed nor ever reaped.
\<close>

theorem unknown_state_lingers:
  assumes "swim_inv sw" and "swim_find sw (su_node_id u) = Some m" and "sm_state m \<le> WAKE_SWIM_DEAD"
    and "su_state u > WAKE_SWIM_LEFT" and "su_incarnation u \<ge> sm_incarnation m"
    and "swim_apply_update sw u now = (r, t)"
  shows "\<exists>m'. swim_find t (su_node_id u) = Some m' \<and> sm_state m' = su_state u
     \<and> \<not> probe_eligible m' \<and> (\<forall>later retention. \<not> reapable later retention m')"
proof -
  have "su_state u \<notin> {WAKE_SWIM_ALIVE, WAKE_SWIM_SUSPECT, WAKE_SWIM_DEAD, WAKE_SWIM_LEFT}"
    using assms(4) by auto
  moreover have "sm_state m \<noteq> WAKE_SWIM_LEFT" "su_state u > sm_state m"
    using assms(3,4) by (auto simp: word_less_nat_alt word_le_nat_alt)
  then have "state_supersedes (su_state u) (su_incarnation u) (sm_state m) (sm_incarnation m)"
    using assms(5) by (auto simp: state_supersedes_def)
  ultimately show ?thesis
    using apply_update_map [OF assms(1), of u now "su_node_id u"] assms(2,6)
      not_found_self [OF assms(1,2)]
    by (simp add: merge_member_def state_supersedes_iff probe_eligible_def reapable_def)
qed

theorem unknown_state_lingers_witness:
  "\<exists>m'. swim_find (snd (swim_apply_update demo_two (demo_news\<lparr>su_node_id := demo_id 2, su_state := 77\<rparr>) 99))
      (demo_id 2) = Some m' \<and> \<not> probe_eligible m'"
proof -
  let ?u = "demo_news\<lparr>su_node_id := demo_id 2, su_state := 77\<rparr>"
  obtain m where m: "swim_find demo_two (su_node_id ?u) = Some m"
    "sm_state m = 1" "sm_incarnation m = 0"
  proof -
    have "map_option (\<lambda>m. (sm_state m, sm_incarnation m)) (swim_find demo_two (su_node_id ?u)) = Some (1, 0)"
      by code_simp
    with that show thesis by auto
  qed
  have "su_state ?u > WAKE_SWIM_LEFT" "su_node_id ?u = demo_id 2" by code_simp+
  with unknown_state_lingers [OF demo_two_inv m(1) _ _ _ surjective_pairing, of 99] m(2,3)
  show ?thesis by auto
qed

text \<open>
  \<open>rounds_completed\<close> is 0 in every reachable state: a rebuild resets the index, so the test
  that should count a finished round never holds, and a valid order has no stale entry.
\<close>

theorem rounds_never_counted: "swim_reachable sw \<Longrightarrow> ss_rounds_completed (swim_stats sw) = 0"
  using swim.reach_inv [of sw] by (simp add: swim_stats_def swim_inv_def)

theorem rounds_never_counted_witness:
  "ss_rounds_completed (swim_stats (snd (probes 5 demo_two))) = 0"
proof -
  have "swim_reachable (snd (probes k sw))" if "swim_reachable sw" for k sw
    using that by (induction k arbitrary: sw)
      (auto simp: case_prod_unfold Let_def intro: reach_step swim_step.next_probe)
  from rounds_never_counted [OF this [OF demo_two_reachable]] show ?thesis .
qed

end
