(* ===== verification/Wake_Dgram.thy ===== *)
theory Wake_Dgram
  imports Wake_Swim
begin

text \<open>
  The datagram codec (\<open>src/src/wake_dgram.c\<close>).  The decoder is the untrusted-input surface, so a
  read of the input buffer is fallible in the model: \<open>OutOfBounds\<close> is the value of a read past
  \<open>buf[len]\<close>, and a theorem says that no input reaches it.  The encoders write into a buffer of
  \<open>cap\<close> bytes and return the number of bytes written, 0 for failure, with the buffer.
\<close>

section \<open>Data\<close>

abbreviation WAKE_DGRAM_SWIM_PING :: u8 where "WAKE_DGRAM_SWIM_PING \<equiv> 0"
abbreviation WAKE_DGRAM_SWIM_ACK :: u8 where "WAKE_DGRAM_SWIM_ACK \<equiv> 1"
abbreviation WAKE_DGRAM_SWIM_PING_REQ :: u8 where "WAKE_DGRAM_SWIM_PING_REQ \<equiv> 2"
abbreviation WAKE_DGRAM_PT_GOSSIP :: u8 where "WAKE_DGRAM_PT_GOSSIP \<equiv> 3"
abbreviation WAKE_DGRAM_PT_IHAVE :: u8 where "WAKE_DGRAM_PT_IHAVE \<equiv> 4"
abbreviation WAKE_DGRAM_PT_GRAFT :: u8 where "WAKE_DGRAM_PT_GRAFT \<equiv> 5"
abbreviation WAKE_DGRAM_PT_PRUNE :: u8 where "WAKE_DGRAM_PT_PRUNE \<equiv> 6"

abbreviation WAKE_DGRAM_VERSION :: u8 where "WAKE_DGRAM_VERSION \<equiv> 1"
abbreviation WAKE_DGRAM_HDR_SIZE :: nat where "WAKE_DGRAM_HDR_SIZE \<equiv> 36"
abbreviation WAKE_DGRAM_NODE_ID_LEN :: nat where "WAKE_DGRAM_NODE_ID_LEN \<equiv> 32"
abbreviation WAKE_DGRAM_MSG_ID_LEN :: nat where "WAKE_DGRAM_MSG_ID_LEN \<equiv> 16"
abbreviation WAKE_DGRAM_SWIM_UPDATE_SIZE :: nat where "WAKE_DGRAM_SWIM_UPDATE_SIZE \<equiv> 48"
abbreviation WAKE_DGRAM_MAX_UPDATES :: nat where "WAKE_DGRAM_MAX_UPDATES \<equiv> 8"
abbreviation WAKE_DGRAM_MAX_PAYLOAD :: nat where "WAKE_DGRAM_MAX_PAYLOAD \<equiv> 256"

text \<open>The pointer \<open>payload\<close> aliases the input: it is NULL or an offset into the buffer.\<close>

record wake_dgram_t =
  dg_msg_type :: u8
  dg_sender_id :: bytes
  dg_target_id :: bytes
  dg_updates :: "wake_swim_update_t list"
  dg_n_updates :: u8
  dg_msg_id :: bytes
  dg_payload :: "nat option"
  dg_payload_len :: u16

datatype dgram_error = Malformed | OutOfBounds

definition zero_dgram :: wake_dgram_t where
  "zero_dgram = \<lparr>dg_msg_type = 0, dg_sender_id = replicate 32 0, dg_target_id = replicate 32 0,
     dg_updates = replicate 8 zero_update, dg_n_updates = 0, dg_msg_id = replicate 16 0,
     dg_payload = None, dg_payload_len = 0\<rparr>"

section \<open>Scalars\<close>

definition rd16 :: "bytes \<Rightarrow> u16" where
  "rd16 p = ucast (p ! 0) OR push_bit 8 (ucast (p ! 1))"

definition rd32 :: "bytes \<Rightarrow> u32" where
  "rd32 p = ucast (p ! 0) OR push_bit 8 (ucast (p ! 1)) OR push_bit 16 (ucast (p ! 2))
              OR push_bit 24 (ucast (p ! 3))"

definition wr16 :: "u16 \<Rightarrow> bytes" where
  "wr16 v = [ucast (v AND 0xFF), ucast (drop_bit 8 v AND 0xFF)]"

definition wr32 :: "u32 \<Rightarrow> bytes" where
  "wr32 v = [ucast (v AND 0xFF), ucast (drop_bit 8 v AND 0xFF), ucast (drop_bit 16 v AND 0xFF),
             ucast (drop_bit 24 v AND 0xFF)]"

section \<open>Fallible reads\<close>

definition and_then :: "'e + 'a \<Rightarrow> ('a \<Rightarrow> 'e + 'b) \<Rightarrow> 'e + 'b" where
  "and_then x f = (case x of Inl e \<Rightarrow> Inl e | Inr a \<Rightarrow> f a)"

lemma and_then_simps [simp]:
  "and_then (Inl e) f = Inl e" "and_then (Inr a) f = f a"
  by (simp_all add: and_then_def)

text \<open>The \<open>n\<close> bytes at \<open>off\<close>, read by \<open>memcpy\<close>, by index or by \<open>rd16\<close> and \<open>rd32\<close>.\<close>

definition read_bytes :: "bytes \<Rightarrow> nat \<Rightarrow> nat \<Rightarrow> dgram_error + bytes" where
  "read_bytes buf off n = (if off + n \<le> length buf then Inr (take n (drop off buf)) else Inl OutOfBounds)"

definition read_byte :: "bytes \<Rightarrow> nat \<Rightarrow> dgram_error + u8" where
  "read_byte buf off = (if off < length buf then Inr (buf ! off) else Inl OutOfBounds)"

section \<open>Decoder\<close>

definition dec_update :: "bytes \<Rightarrow> nat \<Rightarrow> dgram_error + wake_swim_update_t" where
  "dec_update buf p =
     and_then (read_bytes buf p 32) (\<lambda>node_id.
     and_then (read_bytes buf (p + 32) 4) (\<lambda>addr.
     and_then (read_bytes buf (p + 36) 2) (\<lambda>port.
     and_then (read_byte buf (p + 38)) (\<lambda>state.
     and_then (read_bytes buf (p + 40) 4) (\<lambda>inc.
     and_then (read_bytes buf (p + 44) 2) (\<lambda>pb.
       Inr \<lparr>su_node_id = node_id, su_addr = rd32 addr, su_port = rd16 port, su_state = state,
            su_incarnation = rd32 inc, su_piggyback_count = rd16 pb\<rparr>))))))"

text \<open>The loop of \<open>dec_updates\<close> from index \<open>i\<close> on, \<open>k\<close> updates to go.\<close>

fun dec_update_loop ::
  "bytes \<Rightarrow> nat \<Rightarrow> nat \<Rightarrow> nat \<Rightarrow> wake_swim_update_t list \<Rightarrow> dgram_error + wake_swim_update_t list" where
  "dec_update_loop buf 0 i off us = Inr us"
| "dec_update_loop buf (Suc k) i off us =
     and_then (dec_update buf off) (\<lambda>u.
       dec_update_loop buf k (Suc i) (off + WAKE_DGRAM_SWIM_UPDATE_SIZE) (us[i := u]))"

definition dec_updates :: "bytes \<Rightarrow> nat \<Rightarrow> wake_dgram_t \<Rightarrow> dgram_error + wake_dgram_t" where
  "dec_updates buf off out =
     (if off \<ge> length buf then Inr (out\<lparr>dg_n_updates := 0\<rparr>)
      else
        and_then (read_byte buf off) (\<lambda>count.
          if unat count > WAKE_DGRAM_MAX_UPDATES then Inl Malformed
          else if off + 1 + unat count * WAKE_DGRAM_SWIM_UPDATE_SIZE > length buf then Inl Malformed
          else
            and_then (dec_update_loop buf (unat count) 0 (off + 1) (dg_updates out)) (\<lambda>us.
              Inr (out\<lparr>dg_updates := us, dg_n_updates := count\<rparr>))))"

definition dec_ping_req :: "bytes \<Rightarrow> nat \<Rightarrow> wake_dgram_t \<Rightarrow> dgram_error + wake_dgram_t" where
  "dec_ping_req buf off out =
     (if length buf < off + WAKE_DGRAM_NODE_ID_LEN then Inl Malformed
      else
        and_then (read_bytes buf off WAKE_DGRAM_NODE_ID_LEN) (\<lambda>target.
          dec_updates buf (off + WAKE_DGRAM_NODE_ID_LEN) (out\<lparr>dg_target_id := target\<rparr>)))"

definition dec_gossip :: "bytes \<Rightarrow> nat \<Rightarrow> wake_dgram_t \<Rightarrow> dgram_error + wake_dgram_t" where
  "dec_gossip buf off out =
     (if length buf < off + WAKE_DGRAM_MSG_ID_LEN + 2 then Inl Malformed
      else
        and_then (read_bytes buf off WAKE_DGRAM_MSG_ID_LEN) (\<lambda>mid.
        and_then (read_bytes buf (off + WAKE_DGRAM_MSG_ID_LEN) 2) (\<lambda>pl.
          let plen = rd16 pl;
              body = off + WAKE_DGRAM_MSG_ID_LEN + 2
          in if unat plen > WAKE_DGRAM_MAX_PAYLOAD then Inl Malformed
             else if body + unat plen > length buf then Inl Malformed
             else Inr (out\<lparr>dg_msg_id := mid, dg_payload := Some body, dg_payload_len := plen\<rparr>))))"

definition dec_ctrl :: "bytes \<Rightarrow> nat \<Rightarrow> wake_dgram_t \<Rightarrow> dgram_error + wake_dgram_t" where
  "dec_ctrl buf off out =
     (if length buf < off + WAKE_DGRAM_MSG_ID_LEN then Inl Malformed
      else
        and_then (read_bytes buf off WAKE_DGRAM_MSG_ID_LEN) (\<lambda>mid. Inr (out\<lparr>dg_msg_id := mid\<rparr>)))"

definition dgram_decode :: "bytes \<Rightarrow> dgram_error + wake_dgram_t" where
  "dgram_decode buf =
     (if length buf < WAKE_DGRAM_HDR_SIZE then Inl Malformed
      else
        and_then (read_byte buf 0) (\<lambda>m0.
        and_then (read_byte buf 1) (\<lambda>m1.
        if m0 \<noteq> 87 \<or> m1 \<noteq> 68 then Inl Malformed
        else
          and_then (read_byte buf 2) (\<lambda>version.
          if version \<noteq> WAKE_DGRAM_VERSION then Inl Malformed
          else
            and_then (read_byte buf 3) (\<lambda>msg_type.
            and_then (read_bytes buf 4 WAKE_DGRAM_NODE_ID_LEN) (\<lambda>sender.
              let out = zero_dgram\<lparr>dg_msg_type := msg_type, dg_sender_id := sender\<rparr>;
                  off = WAKE_DGRAM_HDR_SIZE
              in if msg_type = WAKE_DGRAM_SWIM_PING \<or> msg_type = WAKE_DGRAM_SWIM_ACK
                 then dec_updates buf off out
                 else if msg_type = WAKE_DGRAM_SWIM_PING_REQ then dec_ping_req buf off out
                 else if msg_type = WAKE_DGRAM_PT_GOSSIP then dec_gossip buf off out
                 else if msg_type = WAKE_DGRAM_PT_IHAVE \<or> msg_type = WAKE_DGRAM_PT_GRAFT
                 then dec_ctrl buf off out
                 else if msg_type = WAKE_DGRAM_PT_PRUNE then Inr out
                 else Inl Malformed))))))"

definition wake_dgram_decode :: "bytes option \<Rightarrow> bool \<Rightarrow> dgram_error + wake_dgram_t" where
  "wake_dgram_decode buf out =
     (case buf of None \<Rightarrow> Inl Malformed
      | Some b \<Rightarrow> if \<not> out then Inl Malformed else dgram_decode b)"

section \<open>Encoders\<close>

definition enc_update :: "wake_swim_update_t \<Rightarrow> bytes" where
  "enc_update u = su_node_id u @ wr32 (su_addr u) @ wr16 (su_port u) @ [su_state u, 0]
                    @ wr32 (su_incarnation u) @ wr16 (su_piggyback_count u) @ wr16 0"

definition enc_header :: "bytes \<Rightarrow> u8 \<Rightarrow> bytes \<Rightarrow> nat \<times> bytes" where
  "enc_header buf type sender =
     (if length buf < WAKE_DGRAM_HDR_SIZE then (0, buf)
      else (WAKE_DGRAM_HDR_SIZE, arr_put buf 0 ([87, 68, WAKE_DGRAM_VERSION, type] @ sender)))"

text \<open>The loop that writes the updates, \<open>k\<close> to go from index \<open>i\<close>.\<close>

fun enc_update_loop :: "wake_swim_update_t list \<Rightarrow> nat \<Rightarrow> bytes \<Rightarrow> nat \<times> bytes" where
  "enc_update_loop [] off buf = (off, buf)"
| "enc_update_loop (u # us) off buf =
     enc_update_loop us (off + WAKE_DGRAM_SWIM_UPDATE_SIZE) (arr_put buf off (enc_update u))"

definition enc_updates :: "nat \<Rightarrow> bytes \<Rightarrow> wake_swim_update_t list \<Rightarrow> nat \<times> bytes" where
  "enc_updates off buf us =
     (if length buf < off + 1 + length us * WAKE_DGRAM_SWIM_UPDATE_SIZE then (0, buf)
      else enc_update_loop us (off + 1) (arr_put buf off [of_nat (length us)]))"

definition wake_dgram_encode_swim ::
  "bytes \<Rightarrow> u8 \<Rightarrow> bytes \<Rightarrow> bytes option \<Rightarrow> wake_swim_update_t list \<Rightarrow> nat \<times> bytes" where
  "wake_dgram_encode_swim buf type sender target_id updates =
     (let us = take WAKE_DGRAM_MAX_UPDATES updates;
          (off, buf1) = enc_header buf type sender
      in if off = 0 then (0, buf1)
         else if type = WAKE_DGRAM_SWIM_PING_REQ
         then (case target_id of
                 None \<Rightarrow> (0, buf1)
               | Some t \<Rightarrow>
                   if length buf1 < off + WAKE_DGRAM_NODE_ID_LEN then (0, buf1)
                   else enc_updates (off + WAKE_DGRAM_NODE_ID_LEN) (arr_put buf1 off t) us)
         else enc_updates off buf1 us)"

definition wake_dgram_encode_pt_gossip :: "bytes \<Rightarrow> bytes \<Rightarrow> bytes \<Rightarrow> bytes \<Rightarrow> nat \<times> bytes" where
  "wake_dgram_encode_pt_gossip buf sender msg_id payload =
     (if length payload > WAKE_DGRAM_MAX_PAYLOAD then (0, buf)
      else
        let (off, buf1) = enc_header buf WAKE_DGRAM_PT_GOSSIP sender
        in if off = 0 then (0, buf1)
           else if length buf1 < off + WAKE_DGRAM_MSG_ID_LEN + 2 + length payload then (0, buf1)
           else
             let buf2 = arr_put buf1 off msg_id;
                 buf3 = arr_put buf2 (off + WAKE_DGRAM_MSG_ID_LEN) (wr16 (of_nat (length payload)));
                 body = off + WAKE_DGRAM_MSG_ID_LEN + 2
             in (body + length payload, arr_put buf3 body payload))"

definition wake_dgram_encode_pt_ctrl :: "bytes \<Rightarrow> u8 \<Rightarrow> bytes \<Rightarrow> bytes \<Rightarrow> nat \<times> bytes" where
  "wake_dgram_encode_pt_ctrl buf type sender msg_id =
     (let (off, buf1) = enc_header buf type sender
      in if off = 0 then (0, buf1)
         else if type = WAKE_DGRAM_PT_PRUNE then (off, buf1)
         else if length buf1 < off + WAKE_DGRAM_MSG_ID_LEN then (0, buf1)
         else (off + WAKE_DGRAM_MSG_ID_LEN, arr_put buf1 off msg_id))"

section \<open>Scalars: round trips\<close>

lemma length_wr [simp]: "length (wr16 v) = 2" "length (wr32 w) = 4"
  by (simp_all add: wr16_def wr32_def)

lemma ucast_low_byte [simp]: "ucast (v AND 0xFF) = (ucast (v :: 'a::len word) :: u8)"
proof -
  have m: "(0xFF :: 'a word) = mask 8" by (simp add: mask_eq_exp_minus_1)
  have "ucast (v AND mask 8) = (ucast v :: u8)"
    by (rule bit_word_eqI) (auto simp: bit_ucast_iff bit_and_iff bit_mask_iff dest: bit_imp_le_length)
  then show ?thesis by (simp only: m)
qed

lemma wr_le_bytes: "wr16 v = le_bytes 2 v" "wr32 w = le_bytes 4 w"
  by (simp_all add: wr16_def wr32_def le_bytes_def upt_conv_Cons)

lemma rd_le_load:
  "length bs = 2 \<Longrightarrow> rd16 bs = le_load bs" "length cs = 4 \<Longrightarrow> rd32 cs = le_load cs"
proof -
  assume "length bs = 2"
  then obtain a b where "bs = [a, b]" by (auto simp: length_Suc_conv numeral_2_eq_2)
  then show "rd16 bs = le_load bs" by (simp add: rd16_def le_load_def)
next
  assume "length cs = 4"
  then obtain a b c d where "cs = [a, b, c, d]"
    by (auto simp: length_Suc_conv numeral_eq_Suc)
  then show "rd32 cs = le_load cs"
    by (simp add: rd32_def le_load_def push_bit_or push_bit_push_bit)
qed

lemma rd_wr [simp]: "rd16 (wr16 v) = v" "rd32 (wr32 w) = w"
  by (simp_all add: rd_le_load wr_le_bytes)

section \<open>Safety of the decoder\<close>

definition in_bounds :: "dgram_error + 'a \<Rightarrow> bool" where
  "in_bounds r \<longleftrightarrow> r \<noteq> Inl OutOfBounds"

lemma in_bounds_simps [simp]: "in_bounds (Inr a)" "in_bounds (Inl Malformed)"
  by (simp_all add: in_bounds_def)

lemma in_bounds_and_then:
  "in_bounds x \<Longrightarrow> (\<And>a. x = Inr a \<Longrightarrow> in_bounds (f a)) \<Longrightarrow> in_bounds (and_then x f)"
  by (cases x) (auto simp: in_bounds_def)

lemma in_bounds_read [simp]:
  "off + n \<le> length buf \<Longrightarrow> in_bounds (read_bytes buf off n)"
  "off < length buf \<Longrightarrow> in_bounds (read_byte buf off)"
  by (simp_all add: read_bytes_def read_byte_def)

lemma in_bounds_read_first [simp]: "\<not> length buf < 36 \<Longrightarrow> in_bounds (read_byte buf 0)"
  by (cases buf) (simp_all add: read_byte_def)

lemma in_bounds_dec_update: "p + 48 \<le> length buf \<Longrightarrow> in_bounds (dec_update buf p)"
  unfolding dec_update_def by (intro in_bounds_and_then) auto

lemma in_bounds_dec_update_loop:
  "off + k * 48 \<le> length buf \<Longrightarrow> in_bounds (dec_update_loop buf k i off us)"
  by (induction k arbitrary: i off us) (auto intro!: in_bounds_and_then in_bounds_dec_update)

lemma in_bounds_dec_updates: "in_bounds (dec_updates buf off out)"
  unfolding dec_updates_def
  by (auto intro!: in_bounds_and_then in_bounds_dec_update_loop)

lemma in_bounds_decode: "in_bounds (dgram_decode buf)"
  unfolding dgram_decode_def dec_ping_req_def dec_gossip_def dec_ctrl_def Let_def
  by (auto intro!: in_bounds_and_then in_bounds_dec_updates)

text \<open>
  C25. Whatever bytes arrive, and however many, \<open>wake_dgram_decode\<close> never reads outside the
  buffer: every read it makes is within \<open>buf[0..len)\<close>, and the result is a datagram or a
  rejection.
\<close>

theorem decode_never_overreads: "wake_dgram_decode buf out \<noteq> Inl OutOfBounds"
  using in_bounds_decode by (auto simp: wake_dgram_decode_def in_bounds_def split: option.split)

section \<open>What a decoded datagram guarantees\<close>

lemma and_then_Inr: "and_then x f = Inr b \<longleftrightarrow> (\<exists>a. x = Inr a \<and> f a = Inr b)"
  by (cases x) auto

lemma read_bytes_Inr:
  "read_bytes buf off n = Inr bs \<longleftrightarrow> off + n \<le> length buf \<and> bs = take n (drop off buf)"
  by (auto simp: read_bytes_def)

lemma read_byte_Inr: "read_byte buf off = Inr b \<longleftrightarrow> off < length buf \<and> b = buf ! off"
  by (auto simp: read_byte_def)

lemmas read_Inr = and_then_Inr read_bytes_Inr read_byte_Inr

lemma dec_update_loop_length:
  "dec_update_loop buf k i off us = Inr vs \<Longrightarrow> length vs = length us"
  by (induction k arbitrary: i off us) (auto simp: and_then_Inr)

definition dgram_ok :: "bytes \<Rightarrow> wake_dgram_t \<Rightarrow> bool" where
  "dgram_ok buf d \<longleftrightarrow>
     dg_msg_type d \<le> 6 \<and> length (dg_sender_id d) = 32 \<and> length (dg_target_id d) = 32
   \<and> length (dg_msg_id d) = 16 \<and> length (dg_updates d) = 8 \<and> unat (dg_n_updates d) \<le> 8
   \<and> unat (dg_payload_len d) \<le> 256
   \<and> (\<forall>off. dg_payload d = Some off \<longrightarrow> off + unat (dg_payload_len d) \<le> length buf)
   \<and> (dg_payload d \<noteq> None \<longleftrightarrow> dg_msg_type d = WAKE_DGRAM_PT_GOSSIP)"

lemma dec_updates_ok:
  assumes "dec_updates buf off out = Inr d" "dgram_ok buf out"
  shows "dgram_ok buf d"
  using assms by (auto simp: dec_updates_def dgram_ok_def and_then_Inr dest: dec_update_loop_length
      split: if_splits)

lemma dec_ping_req_ok: "dec_ping_req buf off out = Inr d \<Longrightarrow> dgram_ok buf out \<Longrightarrow> dgram_ok buf d"
  unfolding dec_ping_req_def
  by (auto simp: read_Inr split: if_splits elim!: dec_updates_ok) (simp add: dgram_ok_def)

lemma dec_ctrl_ok: "dec_ctrl buf off out = Inr d \<Longrightarrow> dgram_ok buf out \<Longrightarrow> dgram_ok buf d"
  by (auto simp: dec_ctrl_def read_Inr dgram_ok_def split: if_splits)

lemma header_ok:
  assumes "\<not> length buf < 36" "msg_type \<le> 6" "msg_type \<noteq> WAKE_DGRAM_PT_GOSSIP"
  shows "dgram_ok buf (zero_dgram\<lparr>dg_msg_type := msg_type, dg_sender_id := take 32 (drop 4 buf)\<rparr>)"
  using assms by (simp add: dgram_ok_def zero_dgram_def)

text \<open>
  A datagram that \<open>wake_dgram_decode\<close> accepts starts with the magic and the version, is of one
  of the seven types, has at most 8 updates in its array of 8 and, exactly for a GOSSIP, a
  payload of at most 256 bytes that lies within the input buffer.
\<close>

theorem decode_bounded:
  assumes "wake_dgram_decode (Some buf) True = Inr d"
  shows "take 3 buf = [87, 68, WAKE_DGRAM_VERSION] \<and> dgram_ok buf d"
proof -
  from assms have dec: "dgram_decode buf = Inr d" by (simp add: wake_dgram_decode_def)
  let ?out = "zero_dgram\<lparr>dg_msg_type := buf ! 3, dg_sender_id := take 32 (drop 4 buf)\<rparr>"
  have hdr: "\<not> length buf < 36" "buf ! 0 = 87" "buf ! 1 = 68" "buf ! 2 = WAKE_DGRAM_VERSION"
    using dec by (auto simp: dgram_decode_def read_Inr split: if_splits)
  have body: "(if buf ! 3 = WAKE_DGRAM_SWIM_PING \<or> buf ! 3 = WAKE_DGRAM_SWIM_ACK
                 then dec_updates buf 36 ?out
                 else if buf ! 3 = WAKE_DGRAM_SWIM_PING_REQ then dec_ping_req buf 36 ?out
                 else if buf ! 3 = WAKE_DGRAM_PT_GOSSIP then dec_gossip buf 36 ?out
                 else if buf ! 3 = WAKE_DGRAM_PT_IHAVE \<or> buf ! 3 = WAKE_DGRAM_PT_GRAFT
                 then dec_ctrl buf 36 ?out
                 else if buf ! 3 = WAKE_DGRAM_PT_PRUNE then Inr ?out
                 else Inl Malformed) = Inr d"
    using dec hdr by (simp add: dgram_decode_def read_Inr Let_def)
  have "Suc (Suc (Suc 0)) \<le> length buf" using hdr(1) by simp
  then obtain a b c r where "buf = a # b # c # r" by (auto simp: Suc_le_length_iff)
  with hdr(2-4) have "take 3 buf = [87, 68, WAKE_DGRAM_VERSION]" by simp
  moreover have "dgram_ok buf d"
  proof (cases "buf ! 3 = WAKE_DGRAM_PT_GOSSIP")
    case True
    with body show ?thesis
      by (auto simp: dec_gossip_def read_Inr Let_def dgram_ok_def zero_dgram_def split: if_splits)
  next
    case False
    have "buf ! 3 \<le> 6" using body by (auto split: if_splits)
    note ok = header_ok [OF hdr(1) this False]
    with body False show ?thesis
      by (auto split: if_splits intro: dec_updates_ok dec_ping_req_ok dec_ctrl_ok)
  qed
  ultimately show ?thesis by simp
qed

theorem decode_bounded_witness:
  "take 3 ([87, 68, 1, 6] @ replicate 32 9) = [87, 68, WAKE_DGRAM_VERSION :: u8]"
proof -
  have "wake_dgram_decode (Some ([87, 68, 1, 6] @ replicate 32 9)) True
      = Inr (zero_dgram\<lparr>dg_msg_type := 6, dg_sender_id := replicate 32 9\<rparr>)" by code_simp
  from decode_bounded [OF this] show ?thesis by blast
qed

end
