(* ===== verification/Wake_Dgram_Props.thy ===== *)
theory Wake_Dgram_Props
  imports Wake_Dgram
begin

text \<open>
  The encoders write exactly their message into the buffer, and decoding what an encoder wrote
  gives back its arguments.
\<close>

section \<open>Writing\<close>

lemma arr_put_written:
  "n = length w \<Longrightarrow> arr_put (w @ drop n buf) n zs = (w @ zs) @ drop (n + length zs) buf"
  by (simp add: arr_put_def add.commute)

definition update_ok :: "wake_swim_update_t \<Rightarrow> bool" where
  "update_ok u \<longleftrightarrow> length (su_node_id u) = 32"

lemma length_enc_update [simp]: "update_ok u \<Longrightarrow> length (enc_update u) = 48"
  by (simp add: enc_update_def update_ok_def)

lemma length_enc_updates [simp]:
  "\<forall>u\<in>set us. update_ok u \<Longrightarrow> length (concat (map enc_update us)) = 48 * length us"
  by (induction us) auto

lemma enc_update_loop_eq:
  assumes "\<forall>u\<in>set us. update_ok u" "off = length w"
  shows "enc_update_loop us off (w @ drop off buf)
    = (off + 48 * length us, (w @ concat (map enc_update us)) @ drop (off + 48 * length us) buf)"
  using assms
proof (induction us arbitrary: off w)
  case Nil
  then show ?case by simp
next
  case (Cons u us)
  have "arr_put (w @ drop off buf) off (enc_update u) = (w @ enc_update u) @ drop (off + 48) buf"
    using Cons.prems by (subst arr_put_written) simp_all
  with Cons.IH [of "off + 48" "w @ enc_update u"] Cons.prems show ?case by (simp add: algebra_simps)
qed

lemma enc_updates_eq:
  assumes "\<forall>u\<in>set us. update_ok u" "off = length w" "off + 1 + 48 * length us \<le> length (w @ drop off buf)"
  shows "enc_updates off (w @ drop off buf) us
    = (off + 1 + 48 * length us,
       (w @ of_nat (length us) # concat (map enc_update us)) @ drop (off + 1 + 48 * length us) buf)"
proof -
  have "arr_put (w @ drop off buf) off [of_nat (length us)] = (w @ [of_nat (length us)]) @ drop (off + 1) buf"
    using assms(2) by (subst arr_put_written) simp_all
  with enc_update_loop_eq [OF assms(1), of "off + 1" "w @ [of_nat (length us)]" buf] assms
  show ?thesis by (simp add: enc_updates_def algebra_simps)
qed

definition dgram_header :: "u8 \<Rightarrow> bytes \<Rightarrow> bytes" where
  "dgram_header type sender = [87, 68, WAKE_DGRAM_VERSION, type] @ sender"

lemma enc_header_eq:
  "36 \<le> length buf \<Longrightarrow> length sender = 32 \<Longrightarrow>
     enc_header buf type sender = (36, dgram_header type sender @ drop 36 buf)"
  by (simp add: enc_header_def arr_put_def dgram_header_def)

lemma length_dgram_header [simp]: "length (dgram_header type sender) = 4 + length sender"
  by (simp add: dgram_header_def)

text \<open>The SWIM message: header, target of a PING_REQ, number of updates, updates.\<close>

definition swim_body :: "bytes \<Rightarrow> wake_swim_update_t list \<Rightarrow> bytes" where
  "swim_body target us = target @ of_nat (length us) # concat (map enc_update us)"

lemma encode_swim_eq:
  assumes "length sender = 32" "\<forall>u\<in>set us. update_ok u" "length us \<le> 8"
    and "type = WAKE_DGRAM_SWIM_PING_REQ \<Longrightarrow> target = Some t \<and> length t = 32"
    and "type \<noteq> WAKE_DGRAM_SWIM_PING_REQ \<Longrightarrow> t = []"
  defines "msg \<equiv> dgram_header type sender @ swim_body t us"
  assumes "length msg \<le> length buf"
  shows "wake_dgram_encode_swim buf type sender target us = (length msg, msg @ drop (length msg) buf)"
proof -
  have len: "length msg = 36 + length t + 1 + 48 * length us"
    using assms(1,2) by (simp add: msg_def swim_body_def)
  then have hdr: "enc_header buf type sender = (36, dgram_header type sender @ drop 36 buf)"
    using assms(1,7) by (intro enc_header_eq) auto
  show ?thesis
  proof (cases "type = WAKE_DGRAM_SWIM_PING_REQ")
    case True
    with assms(4) have t: "target = Some t" "length t = 32" by auto
    have "arr_put (dgram_header type sender @ drop 36 buf) 36 t
        = (dgram_header type sender @ t) @ drop (36 + length t) buf"
      using assms(1) by (subst arr_put_written) simp_all
    with True t hdr assms(1-3,7) len enc_updates_eq [OF assms(2), of "68" "dgram_header type sender @ t" buf]
    show ?thesis by (simp add: wake_dgram_encode_swim_def msg_def swim_body_def)
  next
    case False
    with hdr assms(1-3,5,7) len enc_updates_eq [OF assms(2), of "36" "dgram_header type sender" buf]
    show ?thesis by (simp add: wake_dgram_encode_swim_def msg_def swim_body_def)
  qed
qed

section \<open>Reading back\<close>

lemma dec_update_enc:
  assumes "update_ok u"
  shows "dec_update (pre @ enc_update u @ post) (length pre) = Inr u"
  using assms
  by (simp add: dec_update_def read_bytes_def read_byte_def enc_update_def update_ok_def nth_append)

lemma dec_update_loop_enc:
  assumes "\<forall>u\<in>set us. update_ok u" "i + length us \<le> length vs"
  shows "dec_update_loop (pre @ concat (map enc_update us) @ post) (length us) i (length pre) vs
     = Inr (take i vs @ us @ drop (i + length us) vs)"
  using assms
proof (induction us arbitrary: pre i vs)
  case Nil
  then show ?case by simp
next
  case (Cons u us)
  have d: "dec_update (pre @ enc_update u @ (concat (map enc_update us) @ post)) (length pre) = Inr u"
    using Cons.prems by (intro dec_update_enc) simp
  have l: "length (pre @ enc_update u) = length pre + 48" using Cons.prems by simp
  have "take (Suc i) (vs[i := u]) = take i vs @ [u]" using Cons.prems(2) by simp
  with Cons.IH [of "Suc i" "vs[i := u]" "pre @ enc_update u"] Cons.prems d l show ?case by simp
qed

lemma dec_updates_enc:
  assumes "\<forall>u\<in>set us. update_ok u" "length us \<le> 8" "length (dg_updates out) = 8"
  shows "dec_updates (pre @ of_nat (length us) # concat (map enc_update us)) (length pre) out
    = Inr (out\<lparr>dg_updates := us @ drop (length us) (dg_updates out), dg_n_updates := of_nat (length us)\<rparr>)"
proof -
  have n: "unat (of_nat (length us) :: u8) = length us"
    using assms(2) by (intro unat_of_nat_le [of _ 8]) auto
  have "dec_update_loop ((pre @ [of_nat (length us)]) @ concat (map enc_update us) @ []) (length us) 0
      (length (pre @ [of_nat (length us)])) (dg_updates out)
    = Inr (us @ drop (length us) (dg_updates out))"
    using dec_update_loop_enc [OF assms(1), of 0 "dg_updates out" "pre @ [of_nat (length us)]" "[]"] assms(2,3)
    by simp
  with n assms show ?thesis by (simp add: dec_updates_def read_byte_def nth_append)
qed

lemma decode_header:
  fixes type
  assumes "length sender = 32"
  defines "out \<equiv> zero_dgram\<lparr>dg_msg_type := type, dg_sender_id := sender\<rparr>"
  shows "dgram_decode (dgram_header type sender @ body) =
    (let buf = dgram_header type sender @ body
     in if type = WAKE_DGRAM_SWIM_PING \<or> type = WAKE_DGRAM_SWIM_ACK then dec_updates buf 36 out
        else if type = WAKE_DGRAM_SWIM_PING_REQ then dec_ping_req buf 36 out
        else if type = WAKE_DGRAM_PT_GOSSIP then dec_gossip buf 36 out
        else if type = WAKE_DGRAM_PT_IHAVE \<or> type = WAKE_DGRAM_PT_GRAFT then dec_ctrl buf 36 out
        else if type = WAKE_DGRAM_PT_PRUNE then Inr out
        else Inl Malformed)"
  using assms(1) unfolding out_def dgram_decode_def
  by (simp add: read_byte_def read_bytes_def dgram_header_def Let_def)

text \<open>The wire format of a SWIM message is read back as it was written.\<close>

lemma decode_swim_msg:
  fixes type
  assumes "type \<in> {WAKE_DGRAM_SWIM_PING, WAKE_DGRAM_SWIM_ACK, WAKE_DGRAM_SWIM_PING_REQ}"
    and "length sender = 32" and "length t = 32"
    and "\<forall>u\<in>set us. update_ok u" and "length us \<le> WAKE_DGRAM_MAX_UPDATES"
  defines "out \<equiv> (if type = WAKE_DGRAM_SWIM_PING_REQ
      then zero_dgram\<lparr>dg_msg_type := type, dg_sender_id := sender, dg_target_id := t\<rparr>
      else zero_dgram\<lparr>dg_msg_type := type, dg_sender_id := sender\<rparr>)"
  shows "dgram_decode (dgram_header type sender
        @ swim_body (if type = WAKE_DGRAM_SWIM_PING_REQ then t else []) us)
    = Inr (out\<lparr>dg_updates := us @ drop (length us) (replicate 8 zero_update),
               dg_n_updates := of_nat (length us)\<rparr>)"
proof (cases "type = WAKE_DGRAM_SWIM_PING_REQ")
  case True
  then have o: "out = zero_dgram\<lparr>dg_msg_type := type, dg_sender_id := sender, dg_target_id := t\<rparr>"
    by (simp add: out_def)
  have "read_bytes (dgram_header type sender @ swim_body t us) 36 32 = Inr t"
    using assms(2,3) by (simp add: read_bytes_def swim_body_def)
  moreover have "dec_updates ((dgram_header type sender @ t) @ of_nat (length us) # concat (map enc_update us))
      (length (dgram_header type sender @ t)) out
    = Inr (out\<lparr>dg_updates := us @ drop (length us) (replicate 8 zero_update), dg_n_updates := of_nat (length us)\<rparr>)"
    using dec_updates_enc [OF assms(4,5), of out "dgram_header type sender @ t"]
    by (simp add: o zero_dgram_def)
  ultimately show ?thesis
    using True assms(2,3) by (simp add: decode_header Let_def dec_ping_req_def swim_body_def o)
next
  case False
  with dec_updates_enc [OF assms(4,5), of out "dgram_header type sender"] assms(1,2) show ?thesis
    by (auto simp: decode_header Let_def swim_body_def zero_dgram_def out_def)
qed

text \<open>
  SWIM messages survive the wire.  A PING, ACK or PING_REQ whose node ids have 32 bytes, with
  up to 8 updates and a buffer that is large enough, is written as a prefix of the buffer,
  nothing behind that prefix is touched, the prefix has at most 453 bytes, and decoding the
  prefix gives back type, sender, target and updates.
\<close>

theorem swim_roundtrip:
  assumes "type \<in> {WAKE_DGRAM_SWIM_PING, WAKE_DGRAM_SWIM_ACK, WAKE_DGRAM_SWIM_PING_REQ}"
    and "length sender = 32" and "length t = 32"
    and "\<forall>u\<in>set us. update_ok u" and "length us \<le> WAKE_DGRAM_MAX_UPDATES"
    and "453 \<le> length buf"
    and "wake_dgram_encode_swim buf type sender (Some t) us = (n, buf')"
  shows "0 < n \<and> n \<le> 453 \<and> length buf' = length buf \<and> drop n buf' = drop n buf
     \<and> (\<exists>d. wake_dgram_decode (Some (take n buf')) True = Inr d
          \<and> dg_msg_type d = type \<and> dg_sender_id d = sender
          \<and> (type = WAKE_DGRAM_SWIM_PING_REQ \<longrightarrow> dg_target_id d = t)
          \<and> unat (dg_n_updates d) = length us \<and> take (length us) (dg_updates d) = us)"
proof -
  let ?t = "if type = WAKE_DGRAM_SWIM_PING_REQ then t else []"
  let ?msg = "dgram_header type sender @ swim_body ?t us"
  have len: "length ?msg = 37 + length ?t + 48 * length us" "length ?msg \<le> 453"
    using assms(2-5) by (simp_all add: swim_body_def)
  have "wake_dgram_encode_swim buf type sender (Some t) us = (length ?msg, ?msg @ drop (length ?msg) buf)"
    using assms(2-6) len by (intro encode_swim_eq) auto
  with assms(7) have n: "n = length ?msg" and b: "buf' = ?msg @ drop n buf" by auto
  have cnt: "unat (of_nat (length us) :: u8) = length us"
    using assms(5) by (intro unat_of_nat_le [of _ 8]) auto
  from n b len cnt assms(6) decode_swim_msg [OF assms(1-5)] show ?thesis
    by (simp add: wake_dgram_decode_def)
qed

text \<open>The PlumTree messages on the wire.\<close>

definition gossip_msg :: "bytes \<Rightarrow> bytes \<Rightarrow> bytes \<Rightarrow> bytes" where
  "gossip_msg sender mid payload =
     dgram_header WAKE_DGRAM_PT_GOSSIP sender @ mid @ wr16 (of_nat (length payload)) @ payload"

lemma encode_gossip_eq:
  assumes "length sender = 32" "length mid = 16" "length payload \<le> 256" "54 + length payload \<le> length buf"
  defines "msg \<equiv> gossip_msg sender mid payload"
  shows "wake_dgram_encode_pt_gossip buf sender mid payload = (length msg, msg @ drop (length msg) buf)"
    and "length msg = 54 + length payload"
proof -
  let ?h = "dgram_header WAKE_DGRAM_PT_GOSSIP sender" and ?l = "wr16 (of_nat (length payload))"
  have hdr: "enc_header buf WAKE_DGRAM_PT_GOSSIP sender = (36, ?h @ drop 36 buf)"
    using assms(1,4) by (intro enc_header_eq) auto
  have p1: "arr_put (?h @ drop 36 buf) 36 mid = (?h @ mid) @ drop 52 buf"
    using assms(1,2) by (subst arr_put_written) simp_all
  have p2: "arr_put ((?h @ mid) @ drop 52 buf) 52 ?l = (?h @ mid @ ?l) @ drop 54 buf"
    using assms(1,2) by (subst arr_put_written) simp_all
  have p3: "arr_put ((?h @ mid @ ?l) @ drop 54 buf) 54 payload = msg @ drop (54 + length payload) buf"
    using assms(1,2) by (subst arr_put_written) (simp_all add: msg_def gossip_msg_def)
  show len: "length msg = 54 + length payload" using assms(1,2) by (simp add: msg_def gossip_msg_def)
  show "wake_dgram_encode_pt_gossip buf sender mid payload = (length msg, msg @ drop (length msg) buf)"
    using assms(1,3,4) p1 p2 p3 len by (auto simp: wake_dgram_encode_pt_gossip_def hdr Let_def)
qed

lemma decode_gossip_msg:
  assumes "length sender = 32" "length mid = 16" "length payload \<le> 256"
  shows "dgram_decode (gossip_msg sender mid payload)
    = Inr (zero_dgram\<lparr>dg_msg_type := WAKE_DGRAM_PT_GOSSIP, dg_sender_id := sender,
        dg_msg_id := mid, dg_payload := Some 54, dg_payload_len := of_nat (length payload)\<rparr>)"
    and "drop 54 (gossip_msg sender mid payload) = payload"
proof -
  have pl: "unat (of_nat (length payload) :: u16) = length payload"
    using assms(3) by (intro unat_of_nat_le [of _ 256]) auto
  with assms show "dgram_decode (gossip_msg sender mid payload)
    = Inr (zero_dgram\<lparr>dg_msg_type := WAKE_DGRAM_PT_GOSSIP, dg_sender_id := sender,
        dg_msg_id := mid, dg_payload := Some 54, dg_payload_len := of_nat (length payload)\<rparr>)"
    unfolding gossip_msg_def by (simp add: decode_header dec_gossip_def read_bytes_def Let_def)
  show "drop 54 (gossip_msg sender mid payload) = payload"
    using assms(1,2) by (simp add: gossip_msg_def)
qed

lemma encode_ctrl_eq:
  assumes "length sender = 32" "length mid = 16" "52 \<le> length buf"
    and "type \<noteq> WAKE_DGRAM_PT_PRUNE \<Longrightarrow> m = mid" "type = WAKE_DGRAM_PT_PRUNE \<Longrightarrow> m = []"
  defines "msg \<equiv> dgram_header type sender @ m"
  shows "wake_dgram_encode_pt_ctrl buf type sender mid = (length msg, msg @ drop (length msg) buf)"
proof -
  have p1: "arr_put (dgram_header type sender @ drop 36 buf) 36 mid = (dgram_header type sender @ mid) @ drop 52 buf"
    using assms(1,2) by (subst arr_put_written) simp_all
  show ?thesis
    using assms(1-5) p1
    by (cases "type = WAKE_DGRAM_PT_PRUNE") (auto simp: wake_dgram_encode_pt_ctrl_def enc_header_eq msg_def)
qed

lemma decode_ctrl_msg:
  assumes "length sender = 32" "length mid = 16"
  shows "type \<in> {WAKE_DGRAM_PT_IHAVE, WAKE_DGRAM_PT_GRAFT} \<Longrightarrow> dgram_decode (dgram_header type sender @ mid)
      = Inr (zero_dgram\<lparr>dg_msg_type := type, dg_sender_id := sender, dg_msg_id := mid\<rparr>)"
    and "dgram_decode (dgram_header WAKE_DGRAM_PT_PRUNE sender)
      = Inr (zero_dgram\<lparr>dg_msg_type := WAKE_DGRAM_PT_PRUNE, dg_sender_id := sender\<rparr>)"
  using assms decode_header [of sender WAKE_DGRAM_PT_PRUNE "[]"]
  by (auto simp: decode_header dec_ctrl_def read_bytes_def Let_def)

text \<open>
  GOSSIP messages survive the wire.  With ids of the right length, a payload of at most 256
  bytes and enough room, the message written decodes to the same sender, message id and
  payload, the payload as an alias of the input.
\<close>

theorem gossip_roundtrip:
  assumes "length sender = 32" and "length mid = 16" and "length payload \<le> WAKE_DGRAM_MAX_PAYLOAD"
    and "54 + length payload \<le> length buf"
    and "wake_dgram_encode_pt_gossip buf sender mid payload = (n, buf')"
  shows "n = 54 + length payload \<and> length buf' = length buf \<and> drop n buf' = drop n buf
     \<and> (\<exists>d off. wake_dgram_decode (Some (take n buf')) True = Inr d
          \<and> dg_msg_type d = WAKE_DGRAM_PT_GOSSIP \<and> dg_sender_id d = sender \<and> dg_msg_id d = mid
          \<and> dg_payload d = Some off
          \<and> take (unat (dg_payload_len d)) (drop off (take n buf')) = payload)"
proof -
  have pl: "unat (of_nat (length payload) :: u16) = length payload"
    using assms(3) by (intro unat_of_nat_le [of _ 256]) auto
  with encode_gossip_eq [OF assms(1-4)] decode_gossip_msg [OF assms(1-3)] assms(4,5) show ?thesis
    by (auto simp: wake_dgram_decode_def)
qed

section \<open>Witnesses\<close>

definition wire_update :: wake_swim_update_t where
  "wire_update = \<lparr>su_node_id = replicate 32 7, su_addr = 0x0A000001, su_port = 7946, su_state = 1,
     su_incarnation = 513, su_piggyback_count = 2\<rparr>"

theorem swim_roundtrip_witness:
  "\<exists>n buf'. wake_dgram_encode_swim (replicate 500 0) WAKE_DGRAM_SWIM_PING_REQ (replicate 32 1)
        (Some (replicate 32 2)) [wire_update] = (n, buf')
     \<and> (\<exists>d. wake_dgram_decode (Some (take n buf')) True = Inr d \<and> take 1 (dg_updates d) = [wire_update])"
proof -
  obtain n buf' where e: "wake_dgram_encode_swim (replicate 500 0) WAKE_DGRAM_SWIM_PING_REQ (replicate 32 1)
        (Some (replicate 32 2)) [wire_update] = (n, buf')" by force
  have "\<forall>u\<in>set [wire_update]. update_ok u" by (simp add: update_ok_def wire_update_def)
  from swim_roundtrip [OF _ _ _ this _ _ e] e show ?thesis by auto
qed

theorem gossip_roundtrip_witness:
  "\<exists>n buf'. wake_dgram_encode_pt_gossip (replicate 100 0) (replicate 32 1) (replicate 16 2) [5, 6, 7] = (n, buf')
     \<and> n = 57"
proof -
  obtain n buf' where e: "wake_dgram_encode_pt_gossip (replicate 100 0) (replicate 32 1) (replicate 16 2) [5, 6, 7]
      = (n, buf')" by force
  from gossip_roundtrip [OF _ _ _ _ e] e show ?thesis by simp
qed

end
