(* ===== verification/Wake_Exchange.thy ===== *)
theory Wake_Exchange
  imports Wake_Swim_Detect Wake_Dgram_Props
begin

text \<open>
  SWIM over the datagram codec: the composition of \<open>wake_swim.c\<close> and \<open>wake_dgram.c\<close>.  A node
  fills a PING or ACK with the updates \<open>wake_swim_get_updates\<close> hands out and encodes it; the
  receiver decodes the bytes and applies every update it finds, as the headers of the two modules
  ask the host to do.  The theory follows a suspicion from the node that raises it through the wire
  to the accused node, and its refutation back.  \<open>swim_send\<close> and \<open>swim_recv\<close> are that host: the
  library leaves the sockets and these few calls to its user.
\<close>

section \<open>Sending and receiving\<close>

definition swim_send :: "u8 \<Rightarrow> wake_swim_t \<Rightarrow> bytes \<times> wake_swim_t" where
  "swim_send type sw =
     (let (us, sw') = swim_get_updates sw 8;
          (n, buf) = wake_dgram_encode_swim (replicate 1200 0) type (sw_self_id sw) None us
      in (take n buf, sw'))"

definition swim_recv :: "bytes \<Rightarrow> u64 \<Rightarrow> wake_swim_t \<Rightarrow> wake_swim_t" where
  "swim_recv dgram now_ms sw =
     (case wake_dgram_decode (Some dgram) True of
        Inl _ \<Rightarrow> sw
      | Inr d \<Rightarrow> apply_all (map (\<lambda>u. (u, now_ms)) (take (unat (dg_n_updates d)) (dg_updates d))) sw)"

text \<open>Node ids have 32 bytes, everywhere in the instance.\<close>

definition ids_ok :: "wake_swim_t \<Rightarrow> bool" where
  "ids_ok sw \<longleftrightarrow> length (sw_self_id sw) = 32 \<and> (\<forall>m\<in>set (swim_view sw). length (sm_node_id m) = 32)
     \<and> (\<forall>u\<in>set (swim_queue sw). update_ok u)"

section \<open>The dissemination queue under updates\<close>

lemma queue_update_mem:
  assumes "queue_ok sw" "q \<in> set (swim_queue (queue_update sw m))"
  shows "q = update_of_member m \<or> q \<in> set (swim_queue sw) \<and> su_node_id q \<noteq> sm_node_id m"
proof (cases "find_index (\<lambda>u. su_node_id u = sm_node_id m) (swim_queue sw)")
  case (Some i)
  then have i: "i < length (swim_queue sw)" "su_node_id (swim_queue sw ! i) = sm_node_id m"
    by (auto dest: find_index_SomeD)
  have q: "swim_queue (queue_update sw m) = (swim_queue sw)[i := update_of_member m]"
    using Some by (simp add: queue_update_def swim_queue_def take_update_swap)
  from assms(2) obtain j where j: "j < length (swim_queue sw)" "q = (swim_queue sw)[i := update_of_member m] ! j"
    by (auto simp: q in_set_conv_nth)
  show ?thesis
  proof (cases "i = j")
    case False
    moreover have "distinct (map su_node_id (swim_queue sw))" using assms(1) by (simp add: queue_ok_def)
    ultimately have "su_node_id (swim_queue sw ! j) \<noteq> sm_node_id m"
      using i j(1) by (metis length_map nth_eq_iff_index_eq nth_map)
    with False j show ?thesis by simp
  qed (use i j in simp)
next
  case None
  then have fresh: "su_node_id u \<noteq> sm_node_id m" if "u \<in> set (swim_queue sw)" for u
    using that by (auto simp: find_index_None_iff)
  show ?thesis
  proof (cases "sw_update_count sw < ucast (sc_update_queue_size (sw_config sw))")
    case True
    then have "unat (sw_update_count sw) < length (sw_updates sw)"
      using assms(1) by (simp add: queue_ok_def word_less_nat_alt)
    with True None assms(2) fresh show ?thesis
      by (auto simp: queue_update_def swim_queue_def unat_Suc_word_less [OF True])
  next
    case False
    with None assms(2) fresh show ?thesis
      by (auto simp: queue_update_def swim_queue_def take_update_swap dest!: set_update_subset_insert [THEN subsetD])
  qed
qed

lemma swim_queue_frame [simp]:
  "swim_queue (sw\<lparr>sw_members := ms\<rparr>) = swim_queue sw"
  "swim_queue (sw\<lparr>sw_state_changes := c\<rparr>) = swim_queue sw"
  "swim_queue (sw\<lparr>sw_probe_size := p\<rparr>) = swim_queue sw"
  "swim_queue (sw\<lparr>sw_member_count := n\<rparr>) = swim_queue sw"
  "swim_queue (sw\<lparr>sw_alive_count := n\<rparr>) = swim_queue sw"
  "swim_queue (sw\<lparr>sw_self_incarnation := i\<rparr>) = swim_queue sw"
  "swim_queue (recount_alive sw) = swim_queue sw"
  by (simp_all add: swim_queue_def recount_alive_def)

lemma commit_queue_mem:
  assumes "swim_inv sw" "q \<in> set (swim_queue (commit_member sw i m))"
  shows "q = update_of_member m \<or> q \<in> set (swim_queue sw) \<and> su_node_id q \<noteq> sm_node_id m"
proof -
  have "queue_ok (recount_alive (sw\<lparr>sw_members := (sw_members sw)[i := m], sw_state_changes := sw_state_changes sw + 1\<rparr>))"
    using assms(1) by (simp add: swim_inv_def recount_alive_def)
  from queue_update_mem [OF this] assms(2) show ?thesis by (simp add: commit_member_def Let_def)
qed

text \<open>An update about another node puts nothing into the queue that is not about that node.\<close>

lemma apply_other_queue:
  assumes "swim_inv sw" "su_node_id u \<noteq> sw_self_id sw"
    and "q \<in> set (swim_queue (snd (swim_apply_update sw u now)))"
  shows "q \<in> set (swim_queue sw) \<or> su_node_id q = su_node_id u"
proof (cases "find_member sw (su_node_id u)")
  case (Some i)
  then have id: "sm_node_id (sw_members sw ! i) = su_node_id u" using swim_inv_found [OF assms(1)] by simp
  from Some assms(2,3) have "q \<in> set (swim_queue (snd (apply_known_update sw i u now)))"
    by (simp add: swim_apply_update_def swim_is_self_def)
  then show ?thesis
    using id commit_queue_mem [OF assms(1), of q i]
    by (auto simp: apply_known_update_def Let_def update_of_member_def split: if_splits dest!: commit_queue_mem [OF assms(1)])
next
  case None
  from None assms(2,3) have q: "q \<in> set (swim_queue (snd (apply_unknown_update sw u now)))"
    by (simp add: swim_apply_update_def swim_is_self_def)
  have "q \<in> set (swim_queue (snd (swim_add_member sw (su_node_id u) (su_addr u) (su_port u) now))) \<or> q \<in> set (swim_queue sw)"
    using q by (auto simp: apply_unknown_update_def Let_def case_prod_unfold split: if_splits option.splits)
  moreover have "q \<in> set (swim_queue (snd (swim_add_member sw (su_node_id u) (su_addr u) (su_port u) now)))
      \<Longrightarrow> q \<in> set (swim_queue sw) \<or> su_node_id q = su_node_id u"
    using assms(1)
    by (auto simp: swim_add_member_def Let_def swim_inv_def update_of_member_def split: if_splits dest!: queue_update_mem [rotated])
  ultimately show ?thesis by blast
qed


section \<open>The refutation in the queue of the accused\<close>

text \<open>What the node disseminates about itself says that it is alive, at an incarnation above \<open>k\<close>.\<close>

definition self_refuted :: "u32 \<Rightarrow> wake_swim_t \<Rightarrow> bool" where
  "self_refuted k sw \<longleftrightarrow>
     (\<forall>q\<in>set (swim_queue sw). su_node_id q = sw_self_id sw \<longrightarrow> su_state q = WAKE_SWIM_ALIVE \<and> k < su_incarnation q)"

lemma commit_member_self [simp]: "sw_self_id (commit_member sw i m) = sw_self_id sw"
  by (simp add: commit_member_def recount_alive_def Let_def)

lemma add_member_self [simp]: "sw_self_id (snd (swim_add_member sw nid addr port now)) = sw_self_id sw"
  by (simp add: swim_add_member_def Let_def)

lemma apply_unknown_self [simp]: "sw_self_id (snd (apply_unknown_update sw u now)) = sw_self_id sw"
  by (simp add: apply_unknown_update_def Let_def case_prod_unfold split: option.split)

lemma apply_update_self [simp]: "sw_self_id (snd (swim_apply_update sw u now)) = sw_self_id sw"
  by (auto simp: swim_apply_update_def apply_self_update_def apply_known_update_def Let_def split: option.split)

lemma self_refuted_accused:
  assumes "swim_inv sw" "su_node_id u = sw_self_id sw"
    and "su_state u = WAKE_SWIM_SUSPECT \<or> su_state u = WAKE_SWIM_DEAD" "su_incarnation u \<noteq> 0xFFFFFFFF"
  shows "self_refuted (su_incarnation u) (snd (swim_apply_update sw u now))"
proof -
  define k where "k = (if su_incarnation u \<ge> sw_self_incarnation sw then su_incarnation u + 1
    else sw_self_incarnation sw)"
  define m where "m = \<lparr>sm_node_id = sw_self_id sw, sm_last_change_ms = now, sm_suspect_ms = 0,
    sm_addr = sw_self_addr sw, sm_incarnation = k, sm_port = sw_self_port sw, sm_state = WAKE_SWIM_ALIVE\<rparr>"
  have "snd (swim_apply_update sw u now) = queue_update (sw\<lparr>sw_self_incarnation := k\<rparr>) m"
    using assms(2,3) by (auto simp: swim_apply_update_def swim_is_self_def apply_self_update_def Let_def k_def m_def)
  moreover have "su_incarnation u < k"
  proof -
    have "su_incarnation u < 0xFFFFFFFF"
      using assms(4) word_le_max(3) [of "su_incarnation u"] by (simp add: order_le_less del: word_le_max)
    then show ?thesis
      using unat_Suc_word_less [of "su_incarnation u" "0xFFFFFFFF"]
      by (auto simp: k_def word_less_nat_alt word_le_nat_alt)
  qed
  moreover have "queue_ok (sw\<lparr>sw_self_incarnation := k\<rparr>)" using assms(1) by (simp add: swim_inv_def)
  moreover note queue_update_mem [OF this, of _ m]
  moreover have "sm_node_id m = sw_self_id sw" "su_state (update_of_member m) = WAKE_SWIM_ALIVE"
    "su_incarnation (update_of_member m) = k"
    by (simp_all add: m_def update_of_member_def)
  ultimately show ?thesis unfolding self_refuted_def by (metis apply_update_self)
qed

lemma self_refuted_other:
  assumes "swim_inv sw" "su_node_id u \<noteq> sw_self_id sw" "self_refuted k sw"
  shows "self_refuted k (snd (swim_apply_update sw u now))"
  using apply_other_queue [OF assms(1,2)] assms(2,3) unfolding self_refuted_def by (metis apply_update_self)

lemma apply_all_simps:
  "apply_all [] sw = sw" "apply_all (x # us) sw = apply_all us (snd (swim_apply_update sw (fst x) (snd x)))"
  by (simp_all add: apply_all_def case_prod_unfold)

lemma apply_all_self [simp]: "sw_self_id (apply_all us sw) = sw_self_id sw"
  by (induction us arbitrary: sw) (simp_all add: apply_all_simps)

lemma swim_inv_apply_all: "swim_inv sw \<Longrightarrow> swim_inv (apply_all us sw)"
  by (induction us arbitrary: sw) (simp_all add: apply_all_simps swim_inv_apply_update)

lemma self_refuted_all_other:
  assumes "swim_inv sw" "sw_self_id sw \<notin> su_node_id ` fst ` set us" "self_refuted k sw"
  shows "self_refuted k (apply_all us sw)"
  using assms
  by (induction us arbitrary: sw) (auto simp: apply_all_simps swim_inv_apply_update self_refuted_other)

text \<open>A batch about distinct nodes that accuses the node leaves it with a refutation.\<close>

lemma self_refuted_batch:
  assumes "swim_inv sw" "distinct (map su_node_id us)" "u \<in> set us" "su_node_id u = sw_self_id sw"
    and "su_state u = WAKE_SWIM_SUSPECT \<or> su_state u = WAKE_SWIM_DEAD" "su_incarnation u \<noteq> 0xFFFFFFFF"
  shows "self_refuted (su_incarnation u) (apply_all (map (\<lambda>u. (u, now)) us) sw)"
proof -
  obtain xs ys where us: "us = xs @ u # ys" using assms(3) by (meson split_list)
  define t where "t = apply_all (map (\<lambda>u. (u, now)) xs) sw"
  have t: "swim_inv t" "sw_self_id t = sw_self_id sw" using assms(1) by (simp_all add: t_def swim_inv_apply_all)
  have "apply_all (map (\<lambda>u. (u, now)) us) sw
      = apply_all (map (\<lambda>u. (u, now)) ys) (snd (swim_apply_update t u now))"
    by (simp add: us apply_all_def t_def)
  moreover have "self_refuted (su_incarnation u) (snd (swim_apply_update t u now))"
    using t assms(4-6) by (intro self_refuted_accused) auto
  ultimately show ?thesis
    using assms(2,4) t by (simp add: us) (intro self_refuted_all_other; auto simp: swim_inv_apply_update)
qed

section \<open>Through the wire\<close>

lemma get_updates_mem:
  assumes "swim_inv sw"
  shows "set (fst (swim_get_updates sw 8)) \<subseteq> set (swim_queue sw)"
    and "distinct (map su_node_id (fst (swim_get_updates sw 8)))"
    and "length (fst (swim_get_updates sw 8)) \<le> 8"
proof -
  obtain js where js: "picked (min 256 (length (swim_queue sw))) (swim_queue sw) js"
    "length js = min (unat (8 :: u32)) (min 256 (length (swim_queue sw)))"
    "fst (swim_get_updates sw 8) = map (\<lambda>i. swim_queue sw ! i) js"
    using get_updates_spec [OF assms, of 8] by auto
  have sub: "set js \<subseteq> {..<length (swim_queue sw)}" "distinct js" using js(1) by (auto simp: picked_def)
  show "set (fst (swim_get_updates sw 8)) \<subseteq> set (swim_queue sw)" using js(3) sub(1) by auto
  show "length (fst (swim_get_updates sw 8)) \<le> 8" using js(2,3) by simp
  have "distinct (map su_node_id (swim_queue sw))" using assms by (simp add: swim_inv_def queue_ok_def)
  then have "x = y" if "x \<in> set js" "y \<in> set js"
      "su_node_id (swim_queue sw ! x) = su_node_id (swim_queue sw ! y)" for x y
    using that sub(1) nth_eq_iff_index_eq [of "map su_node_id (swim_queue sw)" x y] by auto
  then show "distinct (map su_node_id (fst (swim_get_updates sw 8)))"
    using sub(2) by (simp add: js(3) comp_def distinct_map inj_on_def)
qed

lemma get_updates_frame [simp]:
  "swim_view (snd (swim_get_updates sw n)) = swim_view sw"
  "sw_self_id (snd (swim_get_updates sw n)) = sw_self_id sw"
  by (simp_all add: swim_get_updates_def swim_view_def Let_def case_prod_unfold)

text \<open>What the receiver of a PING or ACK applies is what the sender put into it.\<close>

lemma swim_transport:
  assumes "swim_inv sw" "ids_ok sw" "type = WAKE_DGRAM_SWIM_PING \<or> type = WAKE_DGRAM_SWIM_ACK"
  shows "swim_recv (fst (swim_send type sw)) now t
    = apply_all (map (\<lambda>u. (u, now)) (fst (swim_get_updates sw 8))) t"
proof -
  define us where "us = fst (swim_get_updates sw 8)"
  define msg where "msg = dgram_header type (sw_self_id sw) @ swim_body [] us"
  have us: "\<forall>u\<in>set us. update_ok u" "length us \<le> 8" "length (sw_self_id sw) = 32"
    using get_updates_mem [OF assms(1)] assms(2) by (auto simp: us_def ids_ok_def)
  then have "length msg \<le> 1200" by (simp add: msg_def swim_body_def)
  then have "wake_dgram_encode_swim (replicate 1200 0) type (sw_self_id sw) None us
      = (length msg, msg @ drop (length msg) (replicate 1200 0))"
    unfolding msg_def using us assms(3) by (intro encode_swim_eq) auto
  then have "fst (swim_send type sw) = msg"
    by (simp add: swim_send_def us_def case_prod_unfold)
  moreover have "unat (of_nat (length us) :: u8) = length us"
    using us(2) by (intro unat_of_nat_le [of _ 8]) auto
  ultimately show ?thesis
    using decode_swim_msg [of type "sw_self_id sw" "replicate 32 0" us] us assms(3)
    by (auto simp: swim_recv_def wake_dgram_decode_def msg_def us_def [symmetric])
qed


text \<open>Node ids keep their length.\<close>

lemma apply_queue_mem:
  assumes "swim_inv sw" "q \<in> set (swim_queue (snd (swim_apply_update sw u now)))"
  shows "q \<in> set (swim_queue sw) \<or> su_node_id q = su_node_id u"
proof (cases "su_node_id u = sw_self_id sw")
  case True
  have "queue_ok (sw\<lparr>sw_self_incarnation := k\<rparr>)" for k using assms(1) by (simp add: swim_inv_def)
  from queue_update_mem [OF this] queue_update_mem [of sw] True assms show ?thesis
    by (fastforce simp: swim_apply_update_def swim_is_self_def apply_self_update_def Let_def swim_inv_def
        split: if_splits)
qed (use apply_other_queue assms in blast)

lemma ids_ok_apply:
  assumes "swim_inv sw" "ids_ok sw" "update_ok u"
  shows "ids_ok (snd (swim_apply_update sw u now))"
proof -
  define t where "t = snd (swim_apply_update sw u now)"
  have inv: "swim_inv t" using assms(1) by (simp add: t_def swim_inv_apply_update)
  have "length (sm_node_id m) = 32" if m: "m \<in> set (swim_view t)" for m
  proof (cases "sm_node_id m = su_node_id u")
    case False
    have "swim_find t (sm_node_id m) = Some m" using m by (simp add: swim_find_Some_iff [OF inv])
    with False have "swim_find sw (sm_node_id m) = Some m" by (simp add: t_def apply_update_map [OF assms(1)])
    with assms(2) show ?thesis by (auto simp: swim_find_Some_iff [OF assms(1)] ids_ok_def)
  qed (use assms(3) in \<open>simp add: update_ok_def\<close>)
  moreover have "update_ok q" if "q \<in> set (swim_queue t)" for q
    using apply_queue_mem [OF assms(1) that [unfolded t_def]] assms(2,3) by (auto simp: ids_ok_def update_ok_def)
  ultimately show ?thesis using assms(2) by (simp add: ids_ok_def t_def)
qed

lemma ids_ok_apply_all:
  assumes "swim_inv sw" "ids_ok sw" "\<forall>u\<in>set us. update_ok u"
  shows "ids_ok (apply_all (map (\<lambda>u. (u, now)) us) sw)"
  using assms by (induction us arbitrary: sw) (auto simp: apply_all_simps swim_inv_apply_update ids_ok_apply)

lemma ids_ok_suspect:
  assumes "swim_inv sw" "ids_ok sw"
  shows "ids_ok (snd (swim_suspect_member sw nid now))"
proof (cases "find_member sw nid")
  case (Some i)
  define m where "m = (sw_members sw ! i)\<lparr>sm_state := WAKE_SWIM_SUSPECT, sm_suspect_ms := now, sm_last_change_ms := now\<rparr>"
  note i = swim_inv_found [OF assms(1) Some]
  have id: "sm_node_id m = sm_node_id (swim_view sw ! i)"
    using i(1) by (simp add: m_def swim_view_nth swim_inv_members assms(1))
  have "swim_view sw ! i \<in> set (swim_view sw)"
    using i(1) by (simp add: length_swim_view swim_inv_members assms(1))
  then have len: "length (sm_node_id m) = 32" using assms(2) by (simp add: id ids_ok_def)
  have "swim_view (commit_member sw i m) = (swim_view sw)[i := m]" using i(1) by (rule commit_member_view)
  then have "\<forall>x\<in>set (swim_view (commit_member sw i m)). length (sm_node_id x) = 32"
    using assms(2) len by (auto simp: ids_ok_def dest!: set_update_subset_insert [THEN subsetD])
  moreover have "\<forall>u\<in>set (swim_queue (commit_member sw i m)). update_ok u"
    using commit_queue_mem [OF assms(1), of _ i m] assms(2) len unfolding ids_ok_def update_ok_def
    by (metis update_of_member_id(1))
  ultimately have "ids_ok (commit_member sw i m)" using assms(2) by (simp add: ids_ok_def)
  with Some assms(2) show ?thesis by (simp add: swim_suspect_member_def m_def Let_def)
qed (use assms(2) in \<open>simp add: swim_suspect_member_def\<close>)

section \<open>End to end\<close>

lemma swim_send_state: "snd (swim_send type sw) = snd (swim_get_updates sw 8)"
  by (simp add: swim_send_def case_prod_unfold Let_def)

text \<open>After a suspicion the member is SUSPECT, and so says what is disseminated about it.\<close>

lemma suspect_member_spec:
  assumes inv: "swim_inv a" and m: "swim_find a nid = Some m"
    and s: "swim_suspect_member a nid now = (WAKE_SWIM_OK, a1)"
  shows "map_option status (swim_find a1 nid) = Some (WAKE_SWIM_SUSPECT, sm_incarnation m)"
    and "\<And>q. q \<in> set (swim_queue a1) \<Longrightarrow> su_node_id q = nid \<Longrightarrow>
           su_state q = WAKE_SWIM_SUSPECT \<and> su_incarnation q = sm_incarnation m"
proof -
  obtain i where i: "find_member a nid = Some i" and mi: "m = sw_members a ! i"
    using m by (auto simp: swim_find_def)
  define m1 where "m1 = m\<lparr>sm_state := WAKE_SWIM_SUSPECT, sm_suspect_ms := now, sm_last_change_ms := now\<rparr>"
  have a1: "a1 = commit_member a i m1"
    using s i by (auto simp: swim_suspect_member_def Let_def m1_def mi split: if_splits)
  have id: "sm_node_id m1 = nid" using swim_inv_found(2) [OF inv i] by (simp add: m1_def mi)
  show "map_option status (swim_find a1 nid) = Some (WAKE_SWIM_SUSPECT, sm_incarnation m)"
    using find_commit [OF inv i id, of nid] by (simp add: a1 m1_def status_def)
  fix q
  assume "q \<in> set (swim_queue a1)" "su_node_id q = nid"
  with commit_queue_mem [OF inv, of q i m1] id have "q = update_of_member m1" by (auto simp: a1)
  then show "su_state q = WAKE_SWIM_SUSPECT \<and> su_incarnation q = sm_incarnation m"
    by (simp add: update_of_member_def m1_def)
qed

text \<open>A batch with one update about a member merges that update into it.\<close>

lemma apply_all_single:
  assumes "swim_inv sw" "map_option status (swim_find sw nid) = Some p"
    and "distinct (map su_node_id us)" "u \<in> set us" "su_node_id u = nid"
  shows "map_option status (swim_find (apply_all (map (\<lambda>u. (u, now)) us) sw) nid) = Some (merge_status u p)"
proof -
  obtain m where m: "swim_find sw nid = Some m" "status m = p" using assms(2) by auto
  obtain xs ys where us: "us = xs @ u # ys" using assms(4) by (meson split_list)
  have "nid \<notin> su_node_id ` set xs" "nid \<notin> su_node_id ` set ys" using assms(3,5) by (auto simp: us)
  then have "filter (\<lambda>v. su_node_id v = nid) xs = []" "filter (\<lambda>v. su_node_id v = nid) ys = []"
    by (auto simp: filter_empty_conv)
  then have "filter (\<lambda>v. su_node_id v = nid) us = [u]" using assms(5) by (simp add: us)
  with apply_all_status [OF assms(1) m(1), of "map (\<lambda>u. (u, now)) us"] m(2) show ?thesis
    by (simp add: comp_def)
qed

text \<open>
  C13. A false suspicion is cleared by one exchange.  Node \<open>a\<close> suspects the live node \<open>b\<close>, which
  it holds at an incarnation below the largest 32-bit value (at that value the refutation wraps to 0),
  and sends it a PING; \<open>b\<close> answers with an ACK.  If the PING carries the suspicion and the ACK an
  update of \<open>b\<close> about itself, then, after encoding, decoding and applying both, \<open>a\<close> holds \<open>b\<close>
  ALIVE at an incarnation above the one it suspected, whatever else the two messages carry and
  whatever else \<open>a\<close> and \<open>b\<close> know.
\<close>

theorem suspicion_refuted:
  assumes "swim_inv a" and "ids_ok a" and "swim_inv b" and "ids_ok b"
    and "swim_find a (sw_self_id b) = Some m" and "sm_incarnation m \<noteq> 0xFFFFFFFF"
    and "swim_suspect_member a (sw_self_id b) t0 = (WAKE_SWIM_OK, a1)"
    and "swim_send WAKE_DGRAM_SWIM_PING a1 = (ping, a2)"
    and "sw_self_id b \<in> su_node_id ` set (fst (swim_get_updates a1 8))"
    and "swim_recv ping t1 b = b1"
    and "swim_send WAKE_DGRAM_SWIM_ACK b1 = (ack, b2)"
    and "sw_self_id b \<in> su_node_id ` set (fst (swim_get_updates b1 8))"
    and "swim_recv ack t2 a2 = a3"
  shows "\<exists>m'. swim_find a3 (sw_self_id b) = Some m' \<and> sm_state m' = WAKE_SWIM_ALIVE
    \<and> sm_incarnation m < sm_incarnation m'"
proof -
  define nid k where "nid = sw_self_id b" and "k = sm_incarnation m"
  define us vs where "us = fst (swim_get_updates a1 8)" and "vs = fst (swim_get_updates b1 8)"
  have a1: "swim_inv a1" "ids_ok a1"
    using swim_inv_suspect_member [OF assms(1)] ids_ok_suspect [OF assms(1,2)] assms(7) by (metis snd_conv)+
  note accused = suspect_member_spec [OF assms(1,5,7), folded nid_def k_def]
  note us = get_updates_mem [OF a1(1), folded us_def]
  from assms(9) obtain u where u: "u \<in> set us" "su_node_id u = nid" by (auto simp: us_def nid_def)
  with us(1) accused(2) have uk: "su_state u = WAKE_SWIM_SUSPECT" "su_incarnation u = k" by auto
  have b1: "b1 = apply_all (map (\<lambda>u. (u, t1)) us) b"
    using swim_transport [OF a1, of WAKE_DGRAM_SWIM_PING t1 b] assms(8,10) by (simp add: us_def)
  have ids: "\<forall>u\<in>set us. update_ok u" using us(1) a1(2) by (auto simp: ids_ok_def)
  have b1': "swim_inv b1" "ids_ok b1" "sw_self_id b1 = nid"
    using swim_inv_apply_all [OF assms(3)] ids_ok_apply_all [OF assms(3,4) ids] by (simp_all add: b1 nid_def)
  have "self_refuted k b1"
    using self_refuted_batch [OF assms(3) us(2) u(1), of t1] u(2) uk assms(6) by (simp add: b1 nid_def k_def)
  note vs = get_updates_mem [OF b1'(1), folded vs_def]
  from assms(12) obtain v where v: "v \<in> set vs" "su_node_id v = nid" by (auto simp: vs_def nid_def)
  with vs(1) \<open>self_refuted k b1\<close> b1'(3) have vk: "su_state v = WAKE_SWIM_ALIVE" "k < su_incarnation v"
    by (auto simp: self_refuted_def)
  have a2: "a2 = snd (swim_get_updates a1 8)" using swim_send_state [of WAKE_DGRAM_SWIM_PING a1] assms(8) by simp
  have a2': "swim_inv a2" unfolding a2 by (rule swim_inv_get_updates [OF a1(1)])
  have "swim_find a2 nid = swim_find a1 nid"
    by (rule swim_find_same_view [OF _ a1(1) a2']) (simp add: a2)
  with accused(1) have "map_option status (swim_find a2 nid) = Some (WAKE_SWIM_SUSPECT, k)" by simp
  moreover have "a3 = apply_all (map (\<lambda>u. (u, t2)) vs) a2"
    using swim_transport [OF b1'(1,2), of WAKE_DGRAM_SWIM_ACK t2 a2] assms(11,13) by (simp add: vs_def)
  ultimately have "map_option status (swim_find a3 nid) = Some (merge_status v (WAKE_SWIM_SUSPECT, k))"
    using apply_all_single [OF a2' _ vs(2) v] by simp
  with vk show ?thesis by (auto simp: merge_status_def outranks_def status_def nid_def k_def)
qed


text \<open>Node 0 has node 1 as a member; node 1 knows nobody.\<close>

definition exch_a :: wake_swim_t where
  "exch_a = snd (swim_add_member demo_empty (demo_id 1) 1 1 5)"

definition exch_b :: wake_swim_t where
  "exch_b = the (wake_swim_create (Some (demo_id 1)) 1 1 (Some demo_config) demo_alloc)"

definition exch_a1 :: wake_swim_t where
  "exch_a1 = snd (swim_suspect_member exch_a (demo_id 1) 10)"

lemma exch_ok:
  "swim_inv exch_a" "ids_ok exch_a" "swim_inv exch_b" "ids_ok exch_b" "sw_self_id exch_b = demo_id 1"
proof -
  show "swim_inv exch_a"
    unfolding exch_a_def
    by (intro swim_inv_add_member swim.reach_inv demo_empty_reachable)
  have "wake_swim_create (Some (demo_id 1)) 1 1 (Some demo_config) demo_alloc = Some exch_b"
    by (simp add: exch_b_def wake_swim_create_def demo_alloc_def Let_def)
  then show "swim_inv exch_b" by (rule swim_inv_create)
  show "ids_ok exch_a" "ids_ok exch_b" "sw_self_id exch_b = demo_id 1" unfolding ids_ok_def update_ok_def by code_simp+
qed

theorem suspicion_refuted_witness:
  "\<exists>m'. swim_find
       (swim_recv (fst (swim_send WAKE_DGRAM_SWIM_ACK
            (swim_recv (fst (swim_send WAKE_DGRAM_SWIM_PING exch_a1)) 20 exch_b))) 30
          (snd (swim_send WAKE_DGRAM_SWIM_PING exch_a1))) (demo_id 1) = Some m'
     \<and> sm_state m' = WAKE_SWIM_ALIVE \<and> 0 < sm_incarnation m'"
proof -
  define m where "m = the (swim_find exch_a (demo_id 1))"
  have m: "swim_find exch_a (sw_self_id exch_b) = Some m" "sm_incarnation m = 0" unfolding m_def by code_simp+
  have s: "swim_suspect_member exch_a (sw_self_id exch_b) 10 = (WAKE_SWIM_OK, exch_a1)"
    unfolding exch_ok(5) exch_a1_def by (rule prod_eqI) (simp_all, code_simp)
  have a1: "swim_inv exch_a1" "ids_ok exch_a1"
    unfolding exch_a1_def by (intro swim_inv_suspect_member ids_ok_suspect exch_ok)+
  have c1: "sw_self_id exch_b \<in> su_node_id ` set (fst (swim_get_updates exch_a1 8))" by code_simp
  have "sw_self_id exch_b \<in> su_node_id ` set (fst (swim_get_updates
      (apply_all (map (\<lambda>u. (u, 20)) (fst (swim_get_updates exch_a1 8))) exch_b) 8))" by code_simp
  then have c2: "sw_self_id exch_b \<in> su_node_id ` set (fst (swim_get_updates
      (swim_recv (fst (swim_send WAKE_DGRAM_SWIM_PING exch_a1)) 20 exch_b) 8))"
    by (simp add: swim_transport [OF a1])
  have "sm_incarnation m \<noteq> 0xFFFFFFFF" by (simp add: m(2))
  from suspicion_refuted [OF exch_ok(1-4) m(1) this s prod.collapse [symmetric] c1 refl prod.collapse [symmetric] c2 refl]
  show ?thesis by (simp add: m(2) exch_ok(5))
qed

end
