(* ===== verification/Wake_Plumtree.thy ===== *)
theory Wake_Plumtree
  imports Wake_Prelude
begin

text \<open>
  PlumTree epidemic broadcast (\<open>src/src/wake_plumtree.c\<close>, \<open>src/src/wake_plumtree.h\<close>).  The state
  record mirrors \<open>wake_plumtree_t\<close>.  The send and deliver callbacks of the host are recorded: a
  handler returns the list of the calls it makes, in order, and a flag says whether the callback
  pointer is non-NULL.  A payload buffer of \<open>payload_len\<close> bytes is a list of that length.
\<close>

section \<open>Data\<close>

datatype wake_plumtree_link_t = WAKE_PT_EAGER | WAKE_PT_LAZY

datatype wake_plumtree_msg_type_t = WAKE_PT_GOSSIP | WAKE_PT_IHAVE | WAKE_PT_GRAFT | WAKE_PT_PRUNE

datatype wake_plumtree_result_t =
    WAKE_PT_OK | WAKE_PT_EXISTS | WAKE_PT_NOT_FOUND | WAKE_PT_FULL | WAKE_PT_SELF | WAKE_PT_DUP

definition WAKE_PLUMTREE_MAX_PAYLOAD :: nat where
  "WAKE_PLUMTREE_MAX_PAYLOAD = 256"

record wake_plumtree_peer_t =
  pe_node_id :: bytes
  pe_last_active_ms :: u64
  pe_link_type :: wake_plumtree_link_t

record wake_plumtree_cache_entry_t =
  ce_msg_id :: bytes
  ce_received_ms :: u64
  ce_payload_len :: u16
  ce_occupied :: bool
  ce_payload :: bytes

record wake_plumtree_pending_t =
  pn_msg_id :: bytes
  pn_from_id :: bytes
  pn_received_ms :: u64
  pn_active :: bool

record wake_plumtree_config_t =
  pc_max_peers :: u16
  pc_cache_size :: u16
  pc_pending_size :: u16
  pc_lazy_timeout_ms :: u32
  pc_cache_ttl_ms :: u32

record wake_plumtree_stats_t =
  ps_peer_count :: u32
  ps_eager_count :: u32
  ps_lazy_count :: u32
  ps_cache_entries :: u32
  ps_pending_ihaves :: u32
  ps_messages_received :: u64
  ps_messages_broadcast :: u64
  ps_duplicates :: u64
  ps_grafts_sent :: u64
  ps_prunes_sent :: u64
  ps_repairs :: u64
  ps_cache_evictions :: u64

record wake_plumtree_t =
  pt_config :: wake_plumtree_config_t
  pt_self_id :: bytes
  pt_peers :: "wake_plumtree_peer_t list"
  pt_peer_count :: u32
  pt_cache :: "wake_plumtree_cache_entry_t list"
  pt_cache_count :: u32
  pt_pending :: "wake_plumtree_pending_t list"
  pt_pending_count :: u32
  pt_messages_received :: u64
  pt_messages_broadcast :: u64
  pt_duplicates :: u64
  pt_grafts_sent :: u64
  pt_prunes_sent :: u64
  pt_repairs :: u64
  pt_cache_evictions :: u64

text \<open>
  The calls of the host's callbacks.  \<open>Send type target msg_id payload\<close> has payload \<open>None\<close> where
  the code passes \<open>NULL, 0\<close>.
\<close>

datatype pt_event =
    Send wake_plumtree_msg_type_t bytes bytes "bytes option"
  | Deliver bytes bytes bytes

definition zero_peer :: wake_plumtree_peer_t where
  "zero_peer = \<lparr>pe_node_id = replicate 32 0, pe_last_active_ms = 0, pe_link_type = WAKE_PT_EAGER\<rparr>"

definition zero_cache :: wake_plumtree_cache_entry_t where
  "zero_cache = \<lparr>ce_msg_id = replicate 16 0, ce_received_ms = 0, ce_payload_len = 0,
     ce_occupied = False, ce_payload = replicate 256 0\<rparr>"

definition zero_pending :: wake_plumtree_pending_t where
  "zero_pending = \<lparr>pn_msg_id = replicate 16 0, pn_from_id = replicate 32 0, pn_received_ms = 0,
     pn_active = False\<rparr>"

section \<open>Internal helpers\<close>

definition pt_view :: "wake_plumtree_t \<Rightarrow> wake_plumtree_peer_t list" where
  "pt_view pt = take (unat (pt_peer_count pt)) (pt_peers pt)"

definition wake_plumtree_msg_id_eq :: "bytes \<Rightarrow> bytes \<Rightarrow> bool" where
  "wake_plumtree_msg_id_eq a b \<longleftrightarrow> a = b"

definition pt_is_self :: "wake_plumtree_t \<Rightarrow> bytes \<Rightarrow> bool" where
  "pt_is_self pt node_id \<longleftrightarrow> pt_self_id pt = node_id"

definition find_peer :: "wake_plumtree_t \<Rightarrow> bytes \<Rightarrow> nat option" where
  "find_peer pt node_id = find_index (\<lambda>p. pe_node_id p = node_id) (pt_view pt)"

definition cache_find :: "wake_plumtree_t \<Rightarrow> bytes \<Rightarrow> nat option" where
  "cache_find pt msg_id =
     find_index (\<lambda>e. ce_occupied e \<and> wake_plumtree_msg_id_eq (ce_msg_id e) msg_id) (pt_cache pt)"

text \<open>The entry both branches of \<open>cache_insert\<close> write: the payload cut at the maximum, zero-filled.\<close>

definition cache_entry :: "bytes \<Rightarrow> bytes \<Rightarrow> u64 \<Rightarrow> wake_plumtree_cache_entry_t" where
  "cache_entry msg_id payload now_ms =
     (let payload_len = (if length payload > WAKE_PLUMTREE_MAX_PAYLOAD
                         then WAKE_PLUMTREE_MAX_PAYLOAD else length payload)
      in \<lparr>ce_msg_id = msg_id, ce_received_ms = now_ms, ce_payload_len = of_nat payload_len,
          ce_occupied = True,
          ce_payload = take payload_len payload
                         @ replicate (WAKE_PLUMTREE_MAX_PAYLOAD - payload_len) 0\<rparr>)"

definition oldest_cache :: "wake_plumtree_cache_entry_t list \<Rightarrow> nat" where
  "oldest_cache es = scan_best (\<lambda>e old. ce_occupied e \<and> ce_received_ms e < ce_received_ms old) es"

definition cache_insert :: "wake_plumtree_t \<Rightarrow> bytes \<Rightarrow> bytes \<Rightarrow> u64 \<Rightarrow> wake_plumtree_t" where
  "cache_insert pt msg_id payload now_ms =
     (case find_index (\<lambda>e. \<not> ce_occupied e) (pt_cache pt) of
        Some i \<Rightarrow> pt\<lparr>pt_cache := (pt_cache pt)[i := cache_entry msg_id payload now_ms],
                     pt_cache_count := pt_cache_count pt + 1\<rparr>
      | None \<Rightarrow> pt\<lparr>pt_cache := (pt_cache pt)
                       [oldest_cache (pt_cache pt) := cache_entry msg_id payload now_ms],
                   pt_cache_evictions := pt_cache_evictions pt + 1\<rparr>)"

definition pending_find :: "wake_plumtree_t \<Rightarrow> bytes \<Rightarrow> nat option" where
  "pending_find pt msg_id =
     find_index (\<lambda>p. pn_active p \<and> wake_plumtree_msg_id_eq (pn_msg_id p) msg_id) (pt_pending pt)"

text \<open>The scan for the oldest active entry; \<open>None\<close> is \<open>found == false\<close>.\<close>

definition oldest_pending :: "wake_plumtree_pending_t list \<Rightarrow> nat option" where
  "oldest_pending ps =
     fold (\<lambda>i b. if pn_active (ps ! i)
                 then (case b of None \<Rightarrow> Some i
                       | Some old \<Rightarrow> if pn_received_ms (ps ! i) < pn_received_ms (ps ! old)
                                   then Some i else b)
                 else b)
          [0..<length ps] None"

definition pending_add :: "wake_plumtree_t \<Rightarrow> bytes \<Rightarrow> bytes \<Rightarrow> u64 \<Rightarrow> wake_plumtree_t" where
  "pending_add pt msg_id from_id now_ms =
     (let p = \<lparr>pn_msg_id = msg_id, pn_from_id = from_id, pn_received_ms = now_ms, pn_active = True\<rparr>
      in case pending_find pt msg_id of
           Some i \<Rightarrow> pt\<lparr>pt_pending := (pt_pending pt)
              [i := (pt_pending pt ! i)\<lparr>pn_from_id := from_id, pn_received_ms := now_ms\<rparr>]\<rparr>
         | None \<Rightarrow>
             (case find_index (\<lambda>p. \<not> pn_active p) (pt_pending pt) of
                Some i \<Rightarrow> pt\<lparr>pt_pending := (pt_pending pt)[i := p],
                             pt_pending_count := pt_pending_count pt + 1\<rparr>
              | None \<Rightarrow>
                  (case oldest_pending (pt_pending pt) of
                     Some old \<Rightarrow> pt\<lparr>pt_pending := (pt_pending pt)[old := p]\<rparr>
                   | None \<Rightarrow> pt)))"

text \<open>\<open>if (count > 0) count--\<close>.\<close>

definition dec_count :: "u32 \<Rightarrow> u32" where
  "dec_count c = (if c > 0 then c - 1 else c)"

definition pending_remove_msg :: "wake_plumtree_t \<Rightarrow> bytes \<Rightarrow> wake_plumtree_t" where
  "pending_remove_msg pt msg_id =
     (case pending_find pt msg_id of
        Some i \<Rightarrow> pt\<lparr>pt_pending := (pt_pending pt)[i := (pt_pending pt ! i)\<lparr>pn_active := False\<rparr>],
                     pt_pending_count := dec_count (pt_pending_count pt)\<rparr>
      | None \<Rightarrow> pt)"

definition set_link ::
  "wake_plumtree_link_t \<Rightarrow> wake_plumtree_t \<Rightarrow> bytes \<Rightarrow> u64 \<Rightarrow> wake_plumtree_t" where
  "set_link l pt node_id now_ms =
     (case find_peer pt node_id of
        Some i \<Rightarrow> pt\<lparr>pt_peers := (pt_peers pt)
           [i := (pt_peers pt ! i)\<lparr>pe_link_type := l, pe_last_active_ms := now_ms\<rparr>]\<rparr>
      | None \<Rightarrow> pt)"

definition promote_eager :: "wake_plumtree_t \<Rightarrow> bytes \<Rightarrow> u64 \<Rightarrow> wake_plumtree_t" where
  "promote_eager = set_link WAKE_PT_EAGER"

definition demote_lazy :: "wake_plumtree_t \<Rightarrow> bytes \<Rightarrow> u64 \<Rightarrow> wake_plumtree_t" where
  "demote_lazy = set_link WAKE_PT_LAZY"

section \<open>Lifecycle\<close>

definition wake_plumtree_default_config :: wake_plumtree_config_t where
  "wake_plumtree_default_config = \<lparr>pc_max_peers = 512, pc_cache_size = 1024, pc_pending_size = 256,
     pc_lazy_timeout_ms = 5000, pc_cache_ttl_ms = 60000\<rparr>"

definition pt_enforce_minimums :: "wake_plumtree_config_t \<Rightarrow> wake_plumtree_config_t" where
  "pt_enforce_minimums c =
     \<lparr>pc_max_peers = (if pc_max_peers c = 0 then 512 else pc_max_peers c),
      pc_cache_size = (if pc_cache_size c = 0 then 1024 else pc_cache_size c),
      pc_pending_size = (if pc_pending_size c = 0 then 256 else pc_pending_size c),
      pc_lazy_timeout_ms = (if pc_lazy_timeout_ms c = 0 then 5000 else pc_lazy_timeout_ms c),
      pc_cache_ttl_ms = (if pc_cache_ttl_ms c = 0 then 60000 else pc_cache_ttl_ms c)\<rparr>"

text \<open>The flags say which of the four allocations succeed.\<close>

definition wake_plumtree_create ::
  "bytes option \<Rightarrow> wake_plumtree_config_t option \<Rightarrow> bool \<Rightarrow> bool \<Rightarrow> bool \<Rightarrow> bool
     \<Rightarrow> wake_plumtree_t option" where
  "wake_plumtree_create self_id cfg a_handle a_peers a_cache a_pending =
     (case self_id of None \<Rightarrow> None | Some self \<Rightarrow>
      (if \<not> a_handle then None
       else
         let config = pt_enforce_minimums
               (case cfg of Some c \<Rightarrow> c | None \<Rightarrow> wake_plumtree_default_config)
         in if \<not> (a_peers \<and> a_cache \<and> a_pending) then None
            else Some \<lparr>pt_config = config, pt_self_id = self,
                   pt_peers = replicate (unat (pc_max_peers config)) zero_peer, pt_peer_count = 0,
                   pt_cache = replicate (unat (pc_cache_size config)) zero_cache, pt_cache_count = 0,
                   pt_pending = replicate (unat (pc_pending_size config)) zero_pending,
                   pt_pending_count = 0,
                   pt_messages_received = 0, pt_messages_broadcast = 0, pt_duplicates = 0,
                   pt_grafts_sent = 0, pt_prunes_sent = 0, pt_repairs = 0,
                   pt_cache_evictions = 0\<rparr>))"

definition pt_reset :: "wake_plumtree_t \<Rightarrow> wake_plumtree_t" where
  "pt_reset pt = pt\<lparr>
     pt_peers := replicate (unat (pc_max_peers (pt_config pt))) zero_peer,
     pt_cache := replicate (unat (pc_cache_size (pt_config pt))) zero_cache,
     pt_pending := replicate (unat (pc_pending_size (pt_config pt))) zero_pending,
     pt_peer_count := 0, pt_cache_count := 0, pt_pending_count := 0,
     pt_messages_received := 0, pt_messages_broadcast := 0, pt_duplicates := 0,
     pt_grafts_sent := 0, pt_prunes_sent := 0, pt_repairs := 0, pt_cache_evictions := 0\<rparr>"

section \<open>Peer management\<close>

definition pt_add_peer ::
  "wake_plumtree_t \<Rightarrow> bytes \<Rightarrow> u64 \<Rightarrow> wake_plumtree_result_t \<times> wake_plumtree_t" where
  "pt_add_peer pt node_id now_ms =
     (if pt_is_self pt node_id then (WAKE_PT_SELF, pt)
      else if find_peer pt node_id \<noteq> None then (WAKE_PT_EXISTS, pt)
      else if pt_peer_count pt \<ge> ucast (pc_max_peers (pt_config pt)) then (WAKE_PT_FULL, pt)
      else (WAKE_PT_OK,
            pt\<lparr>pt_peers := (pt_peers pt)[unat (pt_peer_count pt) :=
                 \<lparr>pe_node_id = node_id, pe_last_active_ms = now_ms, pe_link_type = WAKE_PT_EAGER\<rparr>],
               pt_peer_count := pt_peer_count pt + 1\<rparr>))"

definition pt_remove_peer ::
  "wake_plumtree_t \<Rightarrow> bytes \<Rightarrow> wake_plumtree_result_t \<times> wake_plumtree_t" where
  "pt_remove_peer pt node_id =
     (case find_peer pt node_id of
        None \<Rightarrow> (WAKE_PT_NOT_FOUND, pt)
      | Some i \<Rightarrow>
          let last = unat (pt_peer_count pt - 1);
              ps = (if i \<noteq> last then (pt_peers pt)[i := pt_peers pt ! last] else pt_peers pt)
          in (WAKE_PT_OK, pt\<lparr>pt_peers := ps[last := zero_peer],
                             pt_peer_count := pt_peer_count pt - 1\<rparr>))"

definition link_code :: "wake_plumtree_link_t \<Rightarrow> int" where
  "link_code l = (case l of WAKE_PT_EAGER \<Rightarrow> 0 | WAKE_PT_LAZY \<Rightarrow> 1)"

definition pt_peer_link :: "wake_plumtree_t \<Rightarrow> bytes \<Rightarrow> int" where
  "pt_peer_link pt node_id =
     (case find_peer pt node_id of
        None \<Rightarrow> - 1 | Some i \<Rightarrow> link_code (pe_link_type (pt_peers pt ! i)))"

section \<open>Broadcast and message handlers\<close>

text \<open>What one peer is sent: the message on a tree edge, its id on a backup edge.\<close>

definition push_to :: "bytes \<Rightarrow> bytes \<Rightarrow> wake_plumtree_peer_t \<Rightarrow> pt_event" where
  "push_to msg_id payload p =
     (if pe_link_type p = WAKE_PT_EAGER
      then Send WAKE_PT_GOSSIP (pe_node_id p) msg_id (Some payload)
      else Send WAKE_PT_IHAVE (pe_node_id p) msg_id None)"

definition pt_broadcast ::
  "wake_plumtree_t \<Rightarrow> bytes \<Rightarrow> bytes \<Rightarrow> u64 \<Rightarrow> bool \<Rightarrow> pt_event list \<times> wake_plumtree_t" where
  "pt_broadcast pt msg_id payload now_ms send_fn =
     (if payload = [] then ([], pt)
      else
        let pt1 = cache_insert pt msg_id payload now_ms;
            pt2 = pt1\<lparr>pt_messages_broadcast := pt_messages_broadcast pt1 + 1\<rparr>
        in (if send_fn then map (push_to msg_id payload) (pt_view pt2) else [], pt2))"

definition pt_recv_gossip ::
  "wake_plumtree_t \<Rightarrow> bytes \<Rightarrow> bytes \<Rightarrow> bytes \<Rightarrow> u64 \<Rightarrow> bool \<Rightarrow> bool
     \<Rightarrow> (bool \<times> pt_event list) \<times> wake_plumtree_t" where
  "pt_recv_gossip pt from_id msg_id payload now_ms send_fn deliver_fn =
     (let pt1 = pt\<lparr>pt_messages_received := pt_messages_received pt + 1\<rparr>
      in if cache_find pt1 msg_id \<noteq> None
         then
           let pt2 = pt1\<lparr>pt_duplicates := pt_duplicates pt1 + 1,
                         pt_prunes_sent := pt_prunes_sent pt1 + 1\<rparr>
           in ((False, if send_fn then [Send WAKE_PT_PRUNE from_id msg_id None] else []),
               demote_lazy pt2 from_id now_ms)
         else
           let pt2 = cache_insert pt1 msg_id payload now_ms;
               pt3 = pending_remove_msg pt2 msg_id;
               pt4 = promote_eager pt3 from_id now_ms;
               others = filter (\<lambda>p. pe_node_id p \<noteq> from_id) (pt_view pt4)
           in ((True, (if deliver_fn then [Deliver msg_id payload from_id] else [])
                      @ (if send_fn then map (push_to msg_id payload) others else [])),
               pt4))"

definition pt_recv_ihave ::
  "wake_plumtree_t \<Rightarrow> bytes \<Rightarrow> bytes \<Rightarrow> u64 \<Rightarrow> wake_plumtree_t" where
  "pt_recv_ihave pt from_id msg_id now_ms =
     (if cache_find pt msg_id \<noteq> None then pt else pending_add pt msg_id from_id now_ms)"

definition pt_recv_graft ::
  "wake_plumtree_t \<Rightarrow> bytes \<Rightarrow> bytes \<Rightarrow> u64 \<Rightarrow> bool \<Rightarrow> pt_event list \<times> wake_plumtree_t" where
  "pt_recv_graft pt from_id msg_id now_ms send_fn =
     (let pt1 = promote_eager pt from_id now_ms;
          out = (case cache_find pt1 msg_id of
                   Some i \<Rightarrow>
                     (let e = pt_cache pt1 ! i
                      in if send_fn
                         then [Send WAKE_PT_GOSSIP from_id msg_id
                                (Some (take (unat (ce_payload_len e)) (ce_payload e)))]
                         else [])
                 | None \<Rightarrow> [])
      in (out, pt1\<lparr>pt_repairs := pt_repairs pt1 + 1\<rparr>))"

definition pt_recv_prune :: "wake_plumtree_t \<Rightarrow> bytes \<Rightarrow> u64 \<Rightarrow> wake_plumtree_t" where
  "pt_recv_prune pt from_id now_ms = demote_lazy pt from_id now_ms"

section \<open>Timer tick\<close>

definition pending_due :: "wake_plumtree_t \<Rightarrow> u64 \<Rightarrow> wake_plumtree_pending_t \<Rightarrow> bool" where
  "pending_due pt now_ms p \<longleftrightarrow>
     pn_active p \<and> now_ms - pn_received_ms p \<ge> ucast (pc_lazy_timeout_ms (pt_config pt))"

definition tick_pending_at ::
  "u64 \<Rightarrow> bool \<Rightarrow> nat \<Rightarrow> pt_event list \<times> u32 \<times> wake_plumtree_t
     \<Rightarrow> pt_event list \<times> u32 \<times> wake_plumtree_t" where
  "tick_pending_at now_ms send_fn i st =
     (case st of (out, grafts, pt) \<Rightarrow>
        let p = pt_pending pt ! i
        in if pending_due pt now_ms p
           then
             let out' = (if send_fn
                         then out @ [Send WAKE_PT_GRAFT (pn_from_id p) (pn_msg_id p) None] else out);
                 pt1 = promote_eager pt (pn_from_id p) now_ms;
                 pt2 = pt1\<lparr>pt_grafts_sent := pt_grafts_sent pt1 + 1,
                           pt_pending := (pt_pending pt1)[i := (pt_pending pt1 ! i)\<lparr>pn_active := False\<rparr>],
                           pt_pending_count := dec_count (pt_pending_count pt1)\<rparr>
             in (out', grafts + 1, pt2)
           else (out, grafts, pt))"

definition cache_expired :: "wake_plumtree_t \<Rightarrow> u64 \<Rightarrow> wake_plumtree_cache_entry_t \<Rightarrow> bool" where
  "cache_expired pt now_ms e \<longleftrightarrow>
     ce_occupied e \<and> now_ms - ce_received_ms e \<ge> ucast (pc_cache_ttl_ms (pt_config pt))"

definition tick_cache_at :: "u64 \<Rightarrow> nat \<Rightarrow> wake_plumtree_t \<Rightarrow> wake_plumtree_t" where
  "tick_cache_at now_ms i pt =
     (if cache_expired pt now_ms (pt_cache pt ! i)
      then pt\<lparr>pt_cache := (pt_cache pt)[i := (pt_cache pt ! i)\<lparr>ce_occupied := False\<rparr>],
              pt_cache_count := dec_count (pt_cache_count pt),
              pt_cache_evictions := pt_cache_evictions pt + 1\<rparr>
      else pt)"

definition pt_tick ::
  "wake_plumtree_t \<Rightarrow> u64 \<Rightarrow> bool \<Rightarrow> (u32 \<times> pt_event list) \<times> wake_plumtree_t" where
  "pt_tick pt now_ms send_fn =
     (let (out, grafts, pt1) =
            fold (tick_pending_at now_ms send_fn)
              [0..<unat (pc_pending_size (pt_config pt))] ([], 0, pt);
          pt2 = (if pc_cache_ttl_ms (pt_config pt1) > 0
                 then fold (tick_cache_at now_ms) [0..<unat (pc_cache_size (pt_config pt1))] pt1
                 else pt1)
      in ((grafts, out), pt2))"

section \<open>Inspection\<close>

definition pt_stats :: "wake_plumtree_t \<Rightarrow> wake_plumtree_stats_t" where
  "pt_stats pt =
     \<lparr>ps_peer_count = pt_peer_count pt,
      ps_eager_count = of_nat (length (filter (\<lambda>p. pe_link_type p = WAKE_PT_EAGER) (pt_view pt))),
      ps_lazy_count = of_nat (length (filter (\<lambda>p. pe_link_type p \<noteq> WAKE_PT_EAGER) (pt_view pt))),
      ps_cache_entries = pt_cache_count pt,
      ps_pending_ihaves = pt_pending_count pt,
      ps_messages_received = pt_messages_received pt,
      ps_messages_broadcast = pt_messages_broadcast pt,
      ps_duplicates = pt_duplicates pt,
      ps_grafts_sent = pt_grafts_sent pt,
      ps_prunes_sent = pt_prunes_sent pt,
      ps_repairs = pt_repairs pt,
      ps_cache_evictions = pt_cache_evictions pt\<rparr>"

definition pt_has_msg :: "wake_plumtree_t \<Rightarrow> bytes \<Rightarrow> bool" where
  "pt_has_msg pt msg_id \<longleftrightarrow> cache_find pt msg_id \<noteq> None"

definition wake_plumtree_link_name :: "u32 \<Rightarrow> string" where
  "wake_plumtree_link_name l = (if l \<le> 1 then [''EAGER'', ''LAZY''] ! unat l else ''UNKNOWN'')"

definition wake_plumtree_msg_type_name :: "u32 \<Rightarrow> string" where
  "wake_plumtree_msg_type_name t =
     (if t < 4 then [''GOSSIP'', ''IHAVE'', ''GRAFT'', ''PRUNE''] ! unat t else ''UNKNOWN'')"

definition wake_plumtree_result_name :: "u32 \<Rightarrow> string" where
  "wake_plumtree_result_name r =
     (if r \<le> 5 then [''OK'', ''EXISTS'', ''NOT_FOUND'', ''FULL'', ''SELF'', ''DUP''] ! unat r
      else ''UNKNOWN'')"

section \<open>Entry points\<close>

definition wake_plumtree_reset :: "wake_plumtree_t option \<Rightarrow> wake_plumtree_t option" where
  "wake_plumtree_reset pt = map_option pt_reset pt"

definition wake_plumtree_add_peer ::
  "wake_plumtree_t option \<Rightarrow> bytes option \<Rightarrow> u64 \<Rightarrow> wake_plumtree_result_t \<times> wake_plumtree_t option" where
  "wake_plumtree_add_peer pt node_id now_ms =
     (case node_id of None \<Rightarrow> (WAKE_PT_NOT_FOUND, pt)
      | Some nid \<Rightarrow> on_handle pt WAKE_PT_NOT_FOUND (\<lambda>s. pt_add_peer s nid now_ms))"

definition wake_plumtree_remove_peer ::
  "wake_plumtree_t option \<Rightarrow> bytes option \<Rightarrow> wake_plumtree_result_t \<times> wake_plumtree_t option" where
  "wake_plumtree_remove_peer pt node_id =
     (case node_id of None \<Rightarrow> (WAKE_PT_NOT_FOUND, pt)
      | Some nid \<Rightarrow> on_handle pt WAKE_PT_NOT_FOUND (\<lambda>s. pt_remove_peer s nid))"

definition wake_plumtree_peer_link :: "wake_plumtree_t option \<Rightarrow> bytes option \<Rightarrow> int" where
  "wake_plumtree_peer_link pt node_id =
     (case (pt, node_id) of (Some s, Some nid) \<Rightarrow> pt_peer_link s nid | _ \<Rightarrow> - 1)"

definition wake_plumtree_broadcast ::
  "wake_plumtree_t option \<Rightarrow> bytes option \<Rightarrow> bytes option \<Rightarrow> u64 \<Rightarrow> bool
     \<Rightarrow> pt_event list \<times> wake_plumtree_t option" where
  "wake_plumtree_broadcast pt msg_id payload now_ms send_fn =
     (case (msg_id, payload) of
        (Some mid, Some pl) \<Rightarrow> on_handle pt [] (\<lambda>s. pt_broadcast s mid pl now_ms send_fn)
      | _ \<Rightarrow> ([], pt))"

definition wake_plumtree_recv_gossip ::
  "wake_plumtree_t option \<Rightarrow> bytes option \<Rightarrow> bytes option \<Rightarrow> bytes option \<Rightarrow> u64 \<Rightarrow> bool \<Rightarrow> bool
     \<Rightarrow> (bool \<times> pt_event list) \<times> wake_plumtree_t option" where
  "wake_plumtree_recv_gossip pt from_id msg_id payload now_ms send_fn deliver_fn =
     (case (from_id, msg_id, payload) of
        (Some f, Some mid, Some pl) \<Rightarrow>
          on_handle pt (False, []) (\<lambda>s. pt_recv_gossip s f mid pl now_ms send_fn deliver_fn)
      | _ \<Rightarrow> ((False, []), pt))"

definition wake_plumtree_recv_ihave ::
  "wake_plumtree_t option \<Rightarrow> bytes option \<Rightarrow> bytes option \<Rightarrow> u64 \<Rightarrow> wake_plumtree_t option" where
  "wake_plumtree_recv_ihave pt from_id msg_id now_ms =
     (case (from_id, msg_id) of
        (Some f, Some mid) \<Rightarrow> map_option (\<lambda>s. pt_recv_ihave s f mid now_ms) pt
      | _ \<Rightarrow> pt)"

definition wake_plumtree_recv_graft ::
  "wake_plumtree_t option \<Rightarrow> bytes option \<Rightarrow> bytes option \<Rightarrow> u64 \<Rightarrow> bool
     \<Rightarrow> pt_event list \<times> wake_plumtree_t option" where
  "wake_plumtree_recv_graft pt from_id msg_id now_ms send_fn =
     (case (from_id, msg_id) of
        (Some f, Some mid) \<Rightarrow> on_handle pt [] (\<lambda>s. pt_recv_graft s f mid now_ms send_fn)
      | _ \<Rightarrow> ([], pt))"

definition wake_plumtree_recv_prune ::
  "wake_plumtree_t option \<Rightarrow> bytes option \<Rightarrow> u64 \<Rightarrow> wake_plumtree_t option" where
  "wake_plumtree_recv_prune pt from_id now_ms =
     (case from_id of Some f \<Rightarrow> map_option (\<lambda>s. pt_recv_prune s f now_ms) pt | None \<Rightarrow> pt)"

definition wake_plumtree_tick ::
  "wake_plumtree_t option \<Rightarrow> u64 \<Rightarrow> bool \<Rightarrow> (u32 \<times> pt_event list) \<times> wake_plumtree_t option" where
  "wake_plumtree_tick pt now_ms send_fn = on_handle pt (0, []) (\<lambda>s. pt_tick s now_ms send_fn)"

definition zero_pt_stats :: wake_plumtree_stats_t where
  "zero_pt_stats = \<lparr>ps_peer_count = 0, ps_eager_count = 0, ps_lazy_count = 0, ps_cache_entries = 0,
     ps_pending_ihaves = 0, ps_messages_received = 0, ps_messages_broadcast = 0,
     ps_duplicates = 0, ps_grafts_sent = 0, ps_prunes_sent = 0, ps_repairs = 0,
     ps_cache_evictions = 0\<rparr>"

definition wake_plumtree_stats :: "wake_plumtree_t option \<Rightarrow> bool \<Rightarrow> wake_plumtree_stats_t option" where
  "wake_plumtree_stats pt out =
     (if \<not> out then None
      else Some (case pt of None \<Rightarrow> zero_pt_stats | Some s \<Rightarrow> pt_stats s))"

definition wake_plumtree_has_msg :: "wake_plumtree_t option \<Rightarrow> bytes option \<Rightarrow> bool" where
  "wake_plumtree_has_msg pt msg_id =
     (case (pt, msg_id) of (Some s, Some mid) \<Rightarrow> pt_has_msg s mid | _ \<Rightarrow> False)"

end
