(* ===== verification/Wake_Plumtree_Inv.thy ===== *)
theory Wake_Plumtree_Inv
  imports Wake_Plumtree
begin

text \<open>
  The invariant of a PlumTree instance and its preservation by every exported function; the peer
  list is an interpretation of \<^const>\<open>keyed_store\<close> and the instance one of
  \<^const>\<open>invariant_machine\<close>.
\<close>

section \<open>The invariant\<close>

definition pt_peers_ok :: "wake_plumtree_t \<Rightarrow> bool" where
  "pt_peers_ok pt \<longleftrightarrow>
     length (pt_peers pt) = unat (pc_max_peers (pt_config pt))
   \<and> pt_peer_count pt \<le> ucast (pc_max_peers (pt_config pt))
   \<and> distinct (map pe_node_id (pt_view pt))
   \<and> pt_self_id pt \<notin> pe_node_id ` set (pt_view pt)"

text \<open>The cache: the counter is the number of occupied slots, a payload fits its slot.\<close>

definition pt_cache_ok :: "wake_plumtree_t \<Rightarrow> bool" where
  "pt_cache_ok pt \<longleftrightarrow>
     length (pt_cache pt) = unat (pc_cache_size (pt_config pt))
   \<and> pc_cache_size (pt_config pt) \<noteq> 0
   \<and> unat (pt_cache_count pt) = length (filter ce_occupied (pt_cache pt))
   \<and> (\<forall>e\<in>set (pt_cache pt). length (ce_payload e) = 256 \<and> unat (ce_payload_len e) \<le> 256)"

definition active_unique :: "wake_plumtree_pending_t list \<Rightarrow> bool" where
  "active_unique ps \<longleftrightarrow> (\<forall>i<length ps. \<forall>j<length ps.
     pn_active (ps ! i) \<and> pn_active (ps ! j) \<and> pn_msg_id (ps ! i) = pn_msg_id (ps ! j) \<longrightarrow> i = j)"

text \<open>The pending announcements: an exact counter, and at most one active entry per message.\<close>

definition pt_pending_ok :: "wake_plumtree_t \<Rightarrow> bool" where
  "pt_pending_ok pt \<longleftrightarrow>
     length (pt_pending pt) = unat (pc_pending_size (pt_config pt))
   \<and> pc_pending_size (pt_config pt) \<noteq> 0
   \<and> unat (pt_pending_count pt) = length (filter pn_active (pt_pending pt))
   \<and> active_unique (pt_pending pt)"

definition pt_inv :: "wake_plumtree_t \<Rightarrow> bool" where
  "pt_inv pt \<longleftrightarrow> pt_peers_ok pt \<and> pt_cache_ok pt \<and> pt_pending_ok pt
     \<and> pc_cache_ttl_ms (pt_config pt) \<noteq> 0"

section \<open>The machine\<close>

definition pt_init :: "wake_plumtree_t \<Rightarrow> bool" where
  "pt_init pt \<longleftrightarrow> (\<exists>self cfg h a b c. wake_plumtree_create self cfg h a b c = Some pt)"

inductive pt_step :: "wake_plumtree_t \<Rightarrow> wake_plumtree_t \<Rightarrow> bool" where
  reset: "pt_step pt (pt_reset pt)"
| add_peer: "pt_step pt (snd (pt_add_peer pt nid now))"
| remove_peer: "pt_step pt (snd (pt_remove_peer pt nid))"
| broadcast: "pt_step pt (snd (pt_broadcast pt mid pl now send))"
| recv_gossip: "pt_step pt (snd (pt_recv_gossip pt frm mid pl now send deliver))"
| recv_ihave: "pt_step pt (pt_recv_ihave pt frm mid now)"
| recv_graft: "pt_step pt (snd (pt_recv_graft pt frm mid now send))"
| recv_prune: "pt_step pt (pt_recv_prune pt frm now)"
| tick: "pt_step pt (snd (pt_tick pt now send))"

inductive_cases pt_stepE: "pt_step pt t"

abbreviation pt_reachable :: "wake_plumtree_t \<Rightarrow> bool" where
  "pt_reachable \<equiv> reach pt_init pt_step"

section \<open>Frames\<close>

lemma pt_peers_ok_frame [simp]:
  "pt_peers_ok (pt_cache_update f1 pt) = pt_peers_ok pt"
  "pt_peers_ok (pt_cache_count_update f2 pt) = pt_peers_ok pt"
  "pt_peers_ok (pt_pending_update f3 pt) = pt_peers_ok pt"
  "pt_peers_ok (pt_pending_count_update f4 pt) = pt_peers_ok pt"
  "pt_peers_ok (pt_messages_received_update f5 pt) = pt_peers_ok pt"
  "pt_peers_ok (pt_messages_broadcast_update f6 pt) = pt_peers_ok pt"
  "pt_peers_ok (pt_duplicates_update f7 pt) = pt_peers_ok pt"
  "pt_peers_ok (pt_grafts_sent_update f8 pt) = pt_peers_ok pt"
  "pt_peers_ok (pt_prunes_sent_update f9 pt) = pt_peers_ok pt"
  "pt_peers_ok (pt_repairs_update f10 pt) = pt_peers_ok pt"
  "pt_peers_ok (pt_cache_evictions_update f11 pt) = pt_peers_ok pt"
  by (simp_all add: pt_peers_ok_def pt_view_def)

lemma pt_cache_ok_frame [simp]:
  "pt_cache_ok (pt_peers_update f12 pt) = pt_cache_ok pt"
  "pt_cache_ok (pt_peer_count_update f13 pt) = pt_cache_ok pt"
  "pt_cache_ok (pt_pending_update f14 pt) = pt_cache_ok pt"
  "pt_cache_ok (pt_pending_count_update f15 pt) = pt_cache_ok pt"
  "pt_cache_ok (pt_messages_received_update f16 pt) = pt_cache_ok pt"
  "pt_cache_ok (pt_messages_broadcast_update f17 pt) = pt_cache_ok pt"
  "pt_cache_ok (pt_duplicates_update f18 pt) = pt_cache_ok pt"
  "pt_cache_ok (pt_grafts_sent_update f19 pt) = pt_cache_ok pt"
  "pt_cache_ok (pt_prunes_sent_update f20 pt) = pt_cache_ok pt"
  "pt_cache_ok (pt_repairs_update f21 pt) = pt_cache_ok pt"
  "pt_cache_ok (pt_cache_evictions_update f22 pt) = pt_cache_ok pt"
  by (simp_all add: pt_cache_ok_def)

lemma pt_pending_ok_frame [simp]:
  "pt_pending_ok (pt_peers_update f23 pt) = pt_pending_ok pt"
  "pt_pending_ok (pt_peer_count_update f24 pt) = pt_pending_ok pt"
  "pt_pending_ok (pt_cache_update f25 pt) = pt_pending_ok pt"
  "pt_pending_ok (pt_cache_count_update f26 pt) = pt_pending_ok pt"
  "pt_pending_ok (pt_messages_received_update f27 pt) = pt_pending_ok pt"
  "pt_pending_ok (pt_messages_broadcast_update f28 pt) = pt_pending_ok pt"
  "pt_pending_ok (pt_duplicates_update f29 pt) = pt_pending_ok pt"
  "pt_pending_ok (pt_grafts_sent_update f30 pt) = pt_pending_ok pt"
  "pt_pending_ok (pt_prunes_sent_update f31 pt) = pt_pending_ok pt"
  "pt_pending_ok (pt_repairs_update f32 pt) = pt_pending_ok pt"
  "pt_pending_ok (pt_cache_evictions_update f33 pt) = pt_pending_ok pt"
  by (simp_all add: pt_pending_ok_def)

lemma pt_view_frame [simp]:
  "pt_view (pt_cache_update f34 pt) = pt_view pt"
  "pt_view (pt_cache_count_update f35 pt) = pt_view pt"
  "pt_view (pt_pending_update f36 pt) = pt_view pt"
  "pt_view (pt_pending_count_update f37 pt) = pt_view pt"
  "pt_view (pt_messages_received_update f38 pt) = pt_view pt"
  "pt_view (pt_messages_broadcast_update f39 pt) = pt_view pt"
  "pt_view (pt_duplicates_update f40 pt) = pt_view pt"
  "pt_view (pt_grafts_sent_update f41 pt) = pt_view pt"
  "pt_view (pt_prunes_sent_update f42 pt) = pt_view pt"
  "pt_view (pt_repairs_update f43 pt) = pt_view pt"
  "pt_view (pt_cache_evictions_update f44 pt) = pt_view pt"
  by (simp_all add: pt_view_def)

lemma cache_insert_frame [simp]:
  "pt_config (cache_insert pt mid pl now) = pt_config pt"
  "pt_self_id (cache_insert pt mid pl now) = pt_self_id pt"
  "pt_peers (cache_insert pt mid pl now) = pt_peers pt"
  "pt_peer_count (cache_insert pt mid pl now) = pt_peer_count pt"
  "pt_pending (cache_insert pt mid pl now) = pt_pending pt"
  "pt_pending_count (cache_insert pt mid pl now) = pt_pending_count pt"
  by (simp_all add: cache_insert_def Let_def split: option.split)

lemma pending_add_frame [simp]:
  "pt_config (pending_add pt mid frm now) = pt_config pt"
  "pt_self_id (pending_add pt mid frm now) = pt_self_id pt"
  "pt_peers (pending_add pt mid frm now) = pt_peers pt"
  "pt_peer_count (pending_add pt mid frm now) = pt_peer_count pt"
  "pt_cache (pending_add pt mid frm now) = pt_cache pt"
  "pt_cache_count (pending_add pt mid frm now) = pt_cache_count pt"
  by (simp_all add: pending_add_def Let_def split: option.split)

lemma pending_remove_msg_frame [simp]:
  "pt_config (pending_remove_msg pt mid) = pt_config pt"
  "pt_self_id (pending_remove_msg pt mid) = pt_self_id pt"
  "pt_peers (pending_remove_msg pt mid) = pt_peers pt"
  "pt_peer_count (pending_remove_msg pt mid) = pt_peer_count pt"
  "pt_cache (pending_remove_msg pt mid) = pt_cache pt"
  "pt_cache_count (pending_remove_msg pt mid) = pt_cache_count pt"
  by (simp_all add: pending_remove_msg_def Let_def split: option.split)

lemma set_link_frame [simp]:
  "pt_config (set_link l pt nid now) = pt_config pt"
  "pt_self_id (set_link l pt nid now) = pt_self_id pt"
  "pt_peer_count (set_link l pt nid now) = pt_peer_count pt"
  "pt_cache (set_link l pt nid now) = pt_cache pt"
  "pt_cache_count (set_link l pt nid now) = pt_cache_count pt"
  "pt_pending (set_link l pt nid now) = pt_pending pt"
  "pt_pending_count (set_link l pt nid now) = pt_pending_count pt"
  by (simp_all add: set_link_def Let_def split: option.split)


section \<open>Peers\<close>

interpretation peers: keyed_store pt_view pe_node_id find_peer pt_peers_ok
  by unfold_locales (auto simp: pt_peers_ok_def find_peer_def)

lemma length_pt_view: "pt_peers_ok pt \<Longrightarrow> length (pt_view pt) = unat (pt_peer_count pt)"
  by (simp add: pt_peers_ok_def pt_view_def word_le_nat_alt)

lemma pt_view_nth: "i < unat (pt_peer_count pt) \<Longrightarrow> pt_view pt ! i = pt_peers pt ! i"
  by (simp add: pt_view_def)

lemma find_peer_SomeD:
  assumes "pt_peers_ok pt" "find_peer pt nid = Some i"
  shows "i < unat (pt_peer_count pt)" and "pe_node_id (pt_peers pt ! i) = nid"
  using assms peers.locate_Some_iff [OF assms(1)] length_pt_view [OF assms(1)]
  by (auto simp: pt_view_nth)

text \<open>Setting a link keeps the ids, and changes the link of that peer alone.\<close>

lemma set_link_view:
  assumes "pt_peers_ok pt"
  shows "pt_view (set_link l pt nid now)
    = map (\<lambda>p. if pe_node_id p = nid then p\<lparr>pe_link_type := l, pe_last_active_ms := now\<rparr> else p) (pt_view pt)"
proof (cases "find_peer pt nid")
  case None
  then have "\<forall>p\<in>set (pt_view pt). pe_node_id p \<noteq> nid"
    by (simp add: find_peer_def find_index_None_iff)
  then have "map (\<lambda>p. if pe_node_id p = nid then p\<lparr>pe_link_type := l, pe_last_active_ms := now\<rparr> else p)
      (pt_view pt) = pt_view pt" by (intro map_idI) auto
  with None show ?thesis by (simp add: set_link_def)
next
  case (Some i)
  note i = find_peer_SomeD [OF assms Some]
  have len: "i < length (pt_view pt)" using i(1) length_pt_view [OF assms] by simp
  have other: "j < length (pt_view pt) \<Longrightarrow> pe_node_id (pt_view pt ! j) = nid \<longleftrightarrow> j = i" for j
    using peers.locate_Some_iff [OF assms, of nid] Some len i(2) pt_view_nth [OF i(1)]
    by (metis option.inject)
  show ?thesis
    using Some i len other
    by (intro nth_equalityI)
      (auto simp: set_link_def pt_view_def take_update_swap nth_list_update)
qed

lemma set_link_ids:
  "pt_peers_ok pt \<Longrightarrow> map pe_node_id (pt_view (set_link l pt nid now)) = map pe_node_id (pt_view pt)"
  by (simp add: set_link_view)

lemma set_link_peers_ok [simp]:
  assumes "pt_peers_ok pt"
  shows "pt_peers_ok (set_link l pt nid now)"
proof -
  have "pe_node_id ` set (pt_view (set_link l pt nid now)) = pe_node_id ` set (pt_view pt)"
    using set_link_ids [OF assms] by (metis set_map)
  moreover have "length (pt_peers (set_link l pt nid now)) = length (pt_peers pt)"
    by (simp add: set_link_def split: option.split)
  ultimately show ?thesis
    using assms set_link_ids [OF assms, of l nid now] unfolding pt_peers_ok_def by simp
qed

lemma set_link_parts [simp]:
  "pt_cache_ok (set_link l pt nid now) = pt_cache_ok pt"
  "pt_pending_ok (set_link l pt nid now) = pt_pending_ok pt"
  by (simp_all add: pt_cache_ok_def pt_pending_ok_def)

lemma pt_inv_set_link [simp]: "pt_inv pt \<Longrightarrow> pt_inv (set_link l pt nid now)"
  by (simp add: pt_inv_def)

lemma pt_inv_counters [simp]:
  "pt_inv (pt_messages_received_update f1 pt) = pt_inv pt"
  "pt_inv (pt_messages_broadcast_update f2 pt) = pt_inv pt"
  "pt_inv (pt_duplicates_update f3 pt) = pt_inv pt"
  "pt_inv (pt_grafts_sent_update f4 pt) = pt_inv pt"
  "pt_inv (pt_prunes_sent_update f5 pt) = pt_inv pt"
  "pt_inv (pt_repairs_update f6 pt) = pt_inv pt"
  "pt_inv (pt_cache_evictions_update f7 pt) = pt_inv pt"
  by (simp_all add: pt_inv_def)

section \<open>The message cache\<close>

lemma cache_entry_fields [simp]:
  "ce_msg_id (cache_entry mid pl now) = mid" "ce_occupied (cache_entry mid pl now)"
  "ce_received_ms (cache_entry mid pl now) = now"
  "length (ce_payload (cache_entry mid pl now)) = 256"
  "unat (ce_payload_len (cache_entry mid pl now)) = min 256 (length pl)"
  "take (min 256 (length pl)) (ce_payload (cache_entry mid pl now)) = take 256 pl"
  by (auto simp: cache_entry_def WAKE_PLUMTREE_MAX_PAYLOAD_def Let_def unat_of_nat min_def)

lemma length_cache_filter:
  assumes "pt_cache_ok pt"
  shows "length (filter ce_occupied (pt_cache pt)) \<le> 65535"
  using assms length_filter_le [of ce_occupied "pt_cache pt"]
    unat_u16_less [of "pc_cache_size (pt_config pt)"]
  by (simp add: pt_cache_ok_def)

lemma oldest_cache_less: "es \<noteq> [] \<Longrightarrow> oldest_cache es < length es"
  by (simp add: oldest_cache_def scan_best_less)

text \<open>The slot an insertion writes, and the invariant after it.\<close>

lemma cache_insert_slot:
  assumes "pt_cache_ok pt"
  shows "\<exists>i<length (pt_cache pt).
     pt_cache (cache_insert pt mid pl now) = (pt_cache pt)[i := cache_entry mid pl now]
     \<and> (unat (pt_cache_count pt) < length (pt_cache pt) \<longrightarrow> \<not> ce_occupied (pt_cache pt ! i)
          \<and> unat (pt_cache_count (cache_insert pt mid pl now)) = Suc (unat (pt_cache_count pt)))
     \<and> (unat (pt_cache_count pt) = length (pt_cache pt) \<longrightarrow> ce_occupied (pt_cache pt ! i)
          \<and> pt_cache_count (cache_insert pt mid pl now) = pt_cache_count pt)"
proof (cases "find_index (\<lambda>e. \<not> ce_occupied e) (pt_cache pt)")
  case (Some i)
  then have i: "i < length (pt_cache pt)" "\<not> ce_occupied (pt_cache pt ! i)"
    by (auto dest: find_index_SomeD)
  then have "length (filter ce_occupied (pt_cache pt)) < length (pt_cache pt)"
    by (intro length_filter_less [of "pt_cache pt ! i"]) auto
  moreover have "unat (pt_cache_count pt + 1) = Suc (unat (pt_cache_count pt))"
    using length_cache_filter [OF assms] assms
    by (intro unat_Suc_less [of _ 65536]) (auto simp: pt_cache_ok_def)
  ultimately show ?thesis
    using Some i assms by (intro exI [of _ i]) (simp add: cache_insert_def pt_cache_ok_def)
next
  case None
  then have full: "\<forall>e\<in>set (pt_cache pt). ce_occupied e" by (simp add: find_index_None_iff)
  then have all: "filter ce_occupied (pt_cache pt) = pt_cache pt" by (simp add: filter_id_conv)
  have "pt_cache pt \<noteq> []" using assms by (auto simp: pt_cache_ok_def unat_eq_0)
  from oldest_cache_less [OF this] full all None assms show ?thesis
    by (intro exI [of _ "oldest_cache (pt_cache pt)"]) (simp add: cache_insert_def pt_cache_ok_def)
qed

lemma cache_insert_ok [simp]:
  assumes "pt_cache_ok pt"
  shows "pt_cache_ok (cache_insert pt mid pl now)"
proof -
  let ?t = "cache_insert pt mid pl now" and ?e = "cache_entry mid pl now"
  obtain i where i: "i < length (pt_cache pt)" "pt_cache ?t = (pt_cache pt)[i := ?e]"
    and room: "unat (pt_cache_count pt) < length (pt_cache pt) \<longrightarrow> \<not> ce_occupied (pt_cache pt ! i)
          \<and> unat (pt_cache_count ?t) = Suc (unat (pt_cache_count pt))"
    and full: "unat (pt_cache_count pt) = length (pt_cache pt) \<longrightarrow> ce_occupied (pt_cache pt ! i)
          \<and> pt_cache_count ?t = pt_cache_count pt"
    using cache_insert_slot [OF assms, of mid pl now] by blast
  have cnt: "unat (pt_cache_count pt) = length (filter ce_occupied (pt_cache pt))"
    using assms by (simp add: pt_cache_ok_def)
  then have "unat (pt_cache_count pt) < length (pt_cache pt) \<or> unat (pt_cache_count pt) = length (pt_cache pt)"
    using length_filter_le [of ce_occupied "pt_cache pt"] by linarith
  then have "unat (pt_cache_count ?t) = length (filter ce_occupied (pt_cache ?t))"
    using length_filter_update [OF i(1), of ce_occupied ?e] i(2) room full cnt
    by (elim disjE) auto
  moreover have "\<forall>e\<in>set (pt_cache ?t). length (ce_payload e) = 256 \<and> unat (ce_payload_len e) \<le> 256"
    using assms set_update_subset_insert [of "pt_cache pt" i ?e] i(2)
    by (auto simp: pt_cache_ok_def)
  ultimately show ?thesis using assms i(2) by (simp add: pt_cache_ok_def)
qed

lemma cache_insert_parts [simp]:
  "pt_peers_ok (cache_insert pt mid pl now) = pt_peers_ok pt"
  "pt_pending_ok (cache_insert pt mid pl now) = pt_pending_ok pt"
  "pt_view (cache_insert pt mid pl now) = pt_view pt"
  by (simp_all add: pt_peers_ok_def pt_pending_ok_def pt_view_def)

lemma pt_inv_cache_insert [simp]: "pt_inv pt \<Longrightarrow> pt_inv (cache_insert pt mid pl now)"
  by (simp add: pt_inv_def)

lemma has_msg_iff: "pt_has_msg pt mid \<longleftrightarrow> (\<exists>e\<in>set (pt_cache pt). ce_occupied e \<and> ce_msg_id e = mid)"
  by (auto simp: pt_has_msg_def cache_find_def wake_plumtree_msg_id_eq_def find_index_None_iff)

lemma has_msg_inserted: "pt_cache_ok pt \<Longrightarrow> pt_has_msg (cache_insert pt mid pl now) mid"
  using cache_insert_slot [of pt mid pl now]
  by (auto simp: has_msg_iff intro!: bexI [of _ "cache_entry mid pl now"] set_update_memI)

lemma has_msg_kept:
  assumes "pt_cache_ok pt" "unat (pt_cache_count pt) < length (pt_cache pt)" "pt_has_msg pt k"
  shows "pt_has_msg (cache_insert pt mid pl now) k"
proof -
  obtain i where i: "i < length (pt_cache pt)" "\<not> ce_occupied (pt_cache pt ! i)"
    "pt_cache (cache_insert pt mid pl now) = (pt_cache pt)[i := cache_entry mid pl now]"
    using cache_insert_slot [OF assms(1), of mid pl now] assms(2) by blast
  obtain j where j: "j < length (pt_cache pt)" "ce_occupied (pt_cache pt ! j)" "ce_msg_id (pt_cache pt ! j) = k"
    using assms(3) by (auto simp: has_msg_iff in_set_conv_nth)
  with i have "j \<noteq> i" by auto
  then have "pt_cache pt ! j \<in> set (pt_cache (cache_insert pt mid pl now))"
    using i j by (metis length_list_update nth_list_update_neq nth_mem)
  with j show ?thesis by (auto simp: has_msg_iff)
qed

section \<open>Pending announcements\<close>

lemma dec_count_filter: "unat c = Suc n \<Longrightarrow> unat (dec_count c) = n"
  by (cases "c = 0") (simp_all add: dec_count_def word_gt_0 unat_minus_one)

lemma pending_filter_le:
  assumes "pt_pending_ok pt"
  shows "length (filter pn_active (pt_pending pt)) \<le> 65535"
  using assms length_filter_le [of pn_active "pt_pending pt"]
    unat_u16_less [of "pc_pending_size (pt_config pt)"]
  by (simp add: pt_pending_ok_def)

lemma pending_find_SomeD:
  assumes "pending_find pt mid = Some i"
  shows "i < length (pt_pending pt)" "pn_active (pt_pending pt ! i)" "pn_msg_id (pt_pending pt ! i) = mid"
  using find_index_SomeD [OF assms [unfolded pending_find_def]]
  by (auto simp: wake_plumtree_msg_id_eq_def)

lemma pending_find_None:
  "pending_find pt mid = None \<longleftrightarrow> (\<forall>p\<in>set (pt_pending pt). pn_active p \<longrightarrow> pn_msg_id p \<noteq> mid)"
  by (auto simp: pending_find_def find_index_None_iff wake_plumtree_msg_id_eq_def)

lemma oldest_pending_Some:
  assumes "\<forall>p\<in>set ps. pn_active p" "ps \<noteq> []"
  shows "\<exists>i<length ps. oldest_pending ps = Some i"
proof -
  have "n \<le> length ps \<Longrightarrow> 0 < n \<Longrightarrow> \<exists>i<n. fold (\<lambda>i b. if pn_active (ps ! i)
                 then (case b of None \<Rightarrow> Some i
                       | Some old \<Rightarrow> if pn_received_ms (ps ! i) < pn_received_ms (ps ! old)
                                   then Some i else b)
                 else b) [0..<n] None = Some i" for n
  proof (induction n)
    case 0
    then show ?case by simp
  next
    case (Suc n)
    have "pn_active (ps ! n)" using Suc.prems(1) assms(1) by simp
    with Suc show ?case by (cases "n = 0") (auto simp: less_Suc_eq)
  qed
  from this [of "length ps"] assms(2) show ?thesis by (simp add: oldest_pending_def)
qed

text \<open>Three ways to change one slot: refresh it, fill it, clear it.\<close>

lemma active_unique_update:
  assumes "active_unique ps"
    and "\<And>j. j < length ps \<Longrightarrow> j \<noteq> i \<Longrightarrow> pn_active p \<Longrightarrow> pn_active (ps ! j) \<Longrightarrow> pn_msg_id (ps ! j) \<noteq> pn_msg_id p"
  shows "active_unique (ps[i := p])"
  unfolding active_unique_def
proof (intro allI impI)
  fix a b
  assume ab: "a < length (ps[i := p])" "b < length (ps[i := p])"
    and same: "pn_active (ps[i := p] ! a) \<and> pn_active (ps[i := p] ! b)
      \<and> pn_msg_id (ps[i := p] ! a) = pn_msg_id (ps[i := p] ! b)"
  consider "a = i" "b = i" | "a \<noteq> i" "b = i" | "a = i" "b \<noteq> i" | "a \<noteq> i" "b \<noteq> i" by blast
  then show "a = b"
  proof cases
    case 2
    with assms(2) [of a] ab same show ?thesis by simp
  next
    case 3
    with assms(2) [of b] ab same show ?thesis by simp
  next
    case 4
    with assms(1) ab same show ?thesis by (simp add: active_unique_def)
  qed simp
qed

lemma active_uniqueD:
  "active_unique ps \<Longrightarrow> i < length ps \<Longrightarrow> j < length ps \<Longrightarrow> pn_active (ps ! i) \<Longrightarrow> pn_active (ps ! j)
     \<Longrightarrow> pn_msg_id (ps ! i) = pn_msg_id (ps ! j) \<Longrightarrow> i = j"
  by (simp add: active_unique_def)

lemma pending_refresh_ok:
  assumes "pt_pending_ok pt" "i < length (pt_pending pt)"
    and "pn_active p = pn_active (pt_pending pt ! i)" "pn_msg_id p = pn_msg_id (pt_pending pt ! i)"
  shows "pt_pending_ok (pt\<lparr>pt_pending := (pt_pending pt)[i := p]\<rparr>)"
proof -
  have u: "active_unique (pt_pending pt)" using assms(1) by (simp add: pt_pending_ok_def)
  have "active_unique ((pt_pending pt)[i := p])"
    using u by (rule active_unique_update) (use active_uniqueD [OF u _ assms(2)] assms(3,4) in metis)
  then show ?thesis
    using assms(1,3) length_filter_update [OF assms(2), of pn_active p]
    by (cases "pn_active p") (simp_all add: pt_pending_ok_def)
qed

lemma pending_fill_ok:
  assumes "pt_pending_ok pt" "i < length (pt_pending pt)" "pn_active p"
    and "\<forall>q\<in>set (pt_pending pt). pn_active q \<longrightarrow> pn_msg_id q \<noteq> pn_msg_id p"
    and "unat c = length (filter pn_active (pt_pending pt)) + (if pn_active (pt_pending pt ! i) then 0 else 1)"
  shows "pt_pending_ok (pt\<lparr>pt_pending := (pt_pending pt)[i := p], pt_pending_count := c\<rparr>)"
proof -
  have "active_unique ((pt_pending pt)[i := p])"
    using assms(1,4) by (intro active_unique_update) (auto simp: pt_pending_ok_def)
  moreover have "unat c = length (filter pn_active ((pt_pending pt)[i := p]))"
    using length_filter_update [OF assms(2), of pn_active p] assms(3,5) by (simp split: if_splits)
  ultimately show ?thesis using assms(1) by (simp add: pt_pending_ok_def)
qed

lemma pending_clear_ok:
  assumes "pt_pending_ok pt" "i < length (pt_pending pt)" "pn_active (pt_pending pt ! i)"
  shows "pt_pending_ok (pt\<lparr>pt_pending := (pt_pending pt)[i := (pt_pending pt ! i)\<lparr>pn_active := False\<rparr>],
                           pt_pending_count := dec_count (pt_pending_count pt)\<rparr>)"
proof -
  let ?ps = "(pt_pending pt)[i := (pt_pending pt ! i)\<lparr>pn_active := False\<rparr>]"
  have "Suc (length (filter pn_active ?ps)) = length (filter pn_active (pt_pending pt))"
    using length_filter_update [OF assms(2), of pn_active "(pt_pending pt ! i)\<lparr>pn_active := False\<rparr>"] assms(3)
    by simp
  then have "unat (dec_count (pt_pending_count pt)) = length (filter pn_active ?ps)"
    using assms(1) by (intro dec_count_filter) (simp add: pt_pending_ok_def)
  moreover have "active_unique ?ps"
    using assms(1) by (intro active_unique_update) (auto simp: pt_pending_ok_def)
  ultimately show ?thesis using assms(1) by (simp add: pt_pending_ok_def)
qed

lemma pending_add_ok [simp]:
  assumes "pt_pending_ok pt"
  shows "pt_pending_ok (pending_add pt mid frm now)"
proof (cases "pending_find pt mid")
  case (Some i)
  then show ?thesis
    using pending_find_SomeD [OF Some] assms
    by (simp add: pending_add_def Let_def pending_refresh_ok)
next
  case None
  note new = None [unfolded pending_find_None]
  let ?p = "\<lparr>pn_msg_id = mid, pn_from_id = frm, pn_received_ms = now, pn_active = True\<rparr>"
  show ?thesis
  proof (cases "find_index (\<lambda>p. \<not> pn_active p) (pt_pending pt)")
    case (Some i)
    then have i: "i < length (pt_pending pt)" "\<not> pn_active (pt_pending pt ! i)"
      by (auto dest: find_index_SomeD)
    have "unat (pt_pending_count pt + 1) = Suc (unat (pt_pending_count pt))"
      using pending_filter_le [OF assms] assms
      by (intro unat_Suc_less [of _ 65536]) (auto simp: pt_pending_ok_def)
    then show ?thesis
      using Some None i new assms pending_fill_ok [OF assms i(1), of ?p "pt_pending_count pt + 1"]
      by (simp add: pending_add_def pt_pending_ok_def)
  next
    case full: None
    then have act: "\<forall>p\<in>set (pt_pending pt). pn_active p" by (simp add: find_index_None_iff)
    have "pt_pending pt \<noteq> []" using assms by (auto simp: pt_pending_ok_def unat_eq_0)
    with act obtain i where i: "i < length (pt_pending pt)" "oldest_pending (pt_pending pt) = Some i"
      using oldest_pending_Some by blast
    have "pt_pending_ok (pt\<lparr>pt_pending := (pt_pending pt)[i := ?p], pt_pending_count := pt_pending_count pt\<rparr>)"
      using act i(1) new assms
      by (intro pending_fill_ok [OF assms]) (auto simp: pt_pending_ok_def)
    then show ?thesis using None full i(2) by (simp add: pending_add_def)
  qed
qed

lemma pending_add_parts [simp]:
  "pt_peers_ok (pending_add pt mid frm now) = pt_peers_ok pt"
  "pt_cache_ok (pending_add pt mid frm now) = pt_cache_ok pt"
  by (simp_all add: pt_peers_ok_def pt_cache_ok_def pt_view_def)

lemma pt_inv_pending_add [simp]: "pt_inv pt \<Longrightarrow> pt_inv (pending_add pt mid frm now)"
  by (simp add: pt_inv_def)

lemma pending_remove_ok [simp]:
  assumes "pt_pending_ok pt"
  shows "pt_pending_ok (pending_remove_msg pt mid)"
  using pending_clear_ok [OF assms] assms
  by (auto simp: pending_remove_msg_def pending_find_SomeD split: option.split)

lemma pending_remove_parts [simp]:
  "pt_peers_ok (pending_remove_msg pt mid) = pt_peers_ok pt"
  "pt_cache_ok (pending_remove_msg pt mid) = pt_cache_ok pt"
  "pt_view (pending_remove_msg pt mid) = pt_view pt"
  by (simp_all add: pt_peers_ok_def pt_cache_ok_def pt_view_def)

lemma pt_inv_pending_remove [simp]: "pt_inv pt \<Longrightarrow> pt_inv (pending_remove_msg pt mid)"
  by (simp add: pt_inv_def)

text \<open>After \<open>pending_remove_msg\<close> no announcement of the message is pending.\<close>

lemma pending_removed:
  assumes "pt_pending_ok pt"
  shows "pending_find (pending_remove_msg pt mid) mid = None"
proof (cases "pending_find pt mid")
  case None
  then show ?thesis by (simp add: pending_remove_msg_def)
next
  case (Some i)
  note i = pending_find_SomeD [OF Some]
  have "pn_active (pt_pending pt ! j) \<Longrightarrow> pn_msg_id (pt_pending pt ! j) = mid \<Longrightarrow> j = i"
    if "j < length (pt_pending pt)" for j
    using assms i that active_uniqueD [of "pt_pending pt" j i] by (simp add: pt_pending_ok_def)
  then have "\<forall>j<length (pt_pending pt). pn_active ((pt_pending pt)[i := (pt_pending pt ! i)\<lparr>pn_active := False\<rparr>] ! j)
      \<longrightarrow> pn_msg_id ((pt_pending pt)[i := (pt_pending pt ! i)\<lparr>pn_active := False\<rparr>] ! j) \<noteq> mid"
    using i(1) by (auto simp: nth_list_update)
  with Some show ?thesis
    by (auto simp: pending_remove_msg_def pending_find_None in_set_conv_nth)
qed

end
