(* ===== verification/Wake_Plumtree_Tick.thy ===== *)
theory Wake_Plumtree_Tick
  imports Wake_Plumtree_Inv
begin

text \<open>
  The timer tick, loop by loop, then the preservation of the invariant by every exported function.
\<close>

section \<open>The loop over the pending announcements\<close>

definition clear_due :: "wake_plumtree_t \<Rightarrow> u64 \<Rightarrow> wake_plumtree_pending_t \<Rightarrow> wake_plumtree_pending_t" where
  "clear_due pt now p = (if pending_due pt now p then p\<lparr>pn_active := False\<rparr> else p)"

definition graft_event :: "wake_plumtree_pending_t \<Rightarrow> pt_event" where
  "graft_event p = Send WAKE_PT_GRAFT (pn_from_id p) (pn_msg_id p) None"

definition promote_in :: "bytes set \<Rightarrow> u64 \<Rightarrow> wake_plumtree_peer_t \<Rightarrow> wake_plumtree_peer_t" where
  "promote_in S now p =
     (if pe_node_id p \<in> S then p\<lparr>pe_link_type := WAKE_PT_EAGER, pe_last_active_ms := now\<rparr> else p)"

lemma promote_in_id [simp]: "pe_node_id (promote_in S now p) = pe_node_id p"
  by (simp add: promote_in_def)

lemma promote_in_insert: "promote_in {k} now (promote_in S now p) = promote_in (insert k S) now p"
  by (simp add: promote_in_def)

lemma promote_eager_view:
  "pt_peers_ok pt \<Longrightarrow> pt_view (promote_eager pt nid now) = map (promote_in {nid} now) (pt_view pt)"
  by (simp add: promote_eager_def set_link_view promote_in_def)

lemma pending_due_cong: "pt_config t = pt_config pt \<Longrightarrow> pending_due t = pending_due pt"
  by (intro ext) (simp add: pending_due_def)

definition tick_pending_post ::
  "wake_plumtree_t \<Rightarrow> u64 \<Rightarrow> bool \<Rightarrow> nat \<Rightarrow> pt_event list \<times> u32 \<times> wake_plumtree_t \<Rightarrow> bool" where
  "tick_pending_post pt now send n r \<longleftrightarrow>
     (case r of (out, grafts, t) \<Rightarrow>
        let due = filter (pending_due pt now) (take n (pt_pending pt))
        in pt_pending t = map (clear_due pt now) (take n (pt_pending pt)) @ drop n (pt_pending pt)
         \<and> unat grafts = length due
         \<and> out = (if send then map graft_event due else [])
         \<and> pt_view t = map (promote_in (pn_from_id ` set due) now) (pt_view pt)
         \<and> pt_inv t \<and> pt_config t = pt_config pt \<and> pt_self_id t = pt_self_id pt
         \<and> pt_cache t = pt_cache pt \<and> pt_cache_count t = pt_cache_count pt)"

lemma tick_pending_step:
  assumes post: "tick_pending_post pt now send n (out, grafts, t)"
    and n: "n < length (pt_pending pt)" "n \<le> 65535"
  shows "tick_pending_post pt now send (Suc n) (tick_pending_at now send n (out, grafts, t))"
proof -
  let ?ps = "pt_pending pt" and ?p = "pt_pending pt ! n"
  let ?D = "\<lambda>n. filter (pending_due pt now) (take n ?ps)"
  from post have P: "pt_pending t = map (clear_due pt now) (take n ?ps) @ drop n ?ps"
    "unat grafts = length (?D n)" "out = (if send then map graft_event (?D n) else [])"
    "pt_view t = map (promote_in (pn_from_id ` set (?D n)) now) (pt_view pt)"
    "pt_inv t" "pt_config t = pt_config pt" "pt_self_id t = pt_self_id pt"
    "pt_cache t = pt_cache pt" "pt_cache_count t = pt_cache_count pt"
    by (auto simp: tick_pending_post_def Let_def)
  have take: "take (Suc n) ?ps = take n ?ps @ [?p]" using n(1) by (rule take_Suc_conv_app_nth)
  have at: "pt_pending t ! n = ?p" "n < length (pt_pending t)" using P(1) n(1) by (auto simp: nth_append)
  have upd: "(pt_pending t)[n := x] = map (clear_due pt now) (take n ?ps) @ x # drop (Suc n) ?ps" for x
    using n(1) by (simp add: P(1) list_update_append Cons_nth_drop_Suc [symmetric])
  note due_eq = pending_due_cong [OF P(6)]
  show ?thesis
  proof (cases "pending_due pt now ?p")
    case True
    then have act: "pn_active (pt_pending t ! n)" by (simp add: at pending_due_def)
    let ?t1 = "promote_eager t (pn_from_id ?p) now"
    have inv1: "pt_inv ?t1" using P(5) by (simp add: promote_eager_def)
    have pend: "pt_pending ?t1 = pt_pending t" by (simp add: promote_eager_def)
    let ?t2 = "?t1\<lparr>pt_grafts_sent := pt_grafts_sent ?t1 + 1,
         pt_pending := (pt_pending ?t1)[n := (pt_pending ?t1 ! n)\<lparr>pn_active := False\<rparr>],
         pt_pending_count := dec_count (pt_pending_count ?t1)\<rparr>"
    have "pt_pending_ok ?t2"
      using pending_clear_ok [of "?t1\<lparr>pt_grafts_sent := pt_grafts_sent ?t1 + 1\<rparr>" n] inv1 pend at(2) act
      by (simp add: pt_inv_def)
    then have inv2: "pt_inv ?t2" using inv1 by (simp add: pt_inv_def)
    have "length (?D n) \<le> n"
      by (metis length_filter_le length_take min.absorb2 n(1) order_less_imp_le)
    then have "unat (grafts + 1) = Suc (unat grafts)"
      using P(2) n(2) by (intro unat_Suc_less [of _ "65536"]) auto
    moreover have "pt_view ?t1 = map (promote_in (insert (pn_from_id ?p) (pn_from_id ` set (?D n))) now) (pt_view pt)"
      using P(4,5) by (simp add: promote_eager_view pt_inv_def promote_in_insert comp_def)
    moreover have "tick_pending_at now send n (out, grafts, t)
        = (if send then out @ [graft_event ?p] else out, grafts + 1, ?t2)"
      using True by (simp add: tick_pending_at_def Let_def at due_eq graft_event_def)
    moreover have "(?t1, pt_config ?t1, pt_self_id ?t1, pt_cache ?t1, pt_cache_count ?t1)
        = (?t1, pt_config pt, pt_self_id pt, pt_cache pt, pt_cache_count pt)"
      using P by (simp add: promote_eager_def)
    ultimately show ?thesis
      using True P(2,3) inv2 upd [of "?p\<lparr>pn_active := False\<rparr>"]
      by (simp add: tick_pending_post_def Let_def take pend at clear_due_def)
  next
    case False
    then have "tick_pending_at now send n (out, grafts, t) = (out, grafts, t)"
      by (simp add: tick_pending_at_def Let_def at due_eq)
    with False P n(1) show ?thesis
      by (simp add: tick_pending_post_def Let_def take clear_due_def Cons_nth_drop_Suc)
  qed
qed

lemma tick_pending_fold:
  assumes "pt_inv pt" "n \<le> length (pt_pending pt)" "n \<le> 65535"
  shows "tick_pending_post pt now send n (fold (tick_pending_at now send) [0..<n] ([], 0, pt))"
  using assms(2,3)
proof (induction n)
  case 0
  have "map (promote_in {} now) (pt_view pt) = pt_view pt" by (simp add: promote_in_def map_idI)
  with assms(1) show ?case by (simp add: tick_pending_post_def)
next
  case (Suc n)
  obtain out g t where r: "fold (tick_pending_at now send) [0..<n] ([], 0, pt) = (out, g, t)"
    by (metis prod_cases3)
  with Suc have "tick_pending_post pt now send n (out, g, t)" by simp
  from tick_pending_step [OF this] Suc.prems r show ?case by simp
qed

section \<open>The loop over the cache\<close>

definition evict_expired :: "wake_plumtree_t \<Rightarrow> u64 \<Rightarrow> wake_plumtree_cache_entry_t \<Rightarrow> wake_plumtree_cache_entry_t" where
  "evict_expired pt now e = (if cache_expired pt now e then e\<lparr>ce_occupied := False\<rparr> else e)"

lemma cache_expired_cong: "pt_config t = pt_config pt \<Longrightarrow> cache_expired t = cache_expired pt"
  by (intro ext) (simp add: cache_expired_def)

lemma tick_cache_at_frame [simp]:
  "pt_config (tick_cache_at now i pt) = pt_config pt"
  "pt_self_id (tick_cache_at now i pt) = pt_self_id pt"
  "pt_view (tick_cache_at now i pt) = pt_view pt"
  "pt_pending (tick_cache_at now i pt) = pt_pending pt"
  by (simp_all add: tick_cache_at_def)

lemma tick_cache_at_inv:
  assumes "pt_inv pt" "i < length (pt_cache pt)"
  shows "pt_inv (tick_cache_at now i pt)"
    and "pt_cache (tick_cache_at now i pt) = (pt_cache pt)[i := evict_expired pt now (pt_cache pt ! i)]"
proof -
  let ?e = "(pt_cache pt ! i)\<lparr>ce_occupied := False\<rparr>"
  have ok: "pt_cache_ok pt" using assms(1) by (simp add: pt_inv_def)
  show "pt_inv (tick_cache_at now i pt)"
  proof (cases "cache_expired pt now (pt_cache pt ! i)")
    case True
    then have "Suc (length (filter ce_occupied ((pt_cache pt)[i := ?e]))) = length (filter ce_occupied (pt_cache pt))"
      using length_filter_update [OF assms(2), of ce_occupied ?e] by (simp add: cache_expired_def)
    then have "unat (dec_count (pt_cache_count pt)) = length (filter ce_occupied ((pt_cache pt)[i := ?e]))"
      using ok by (intro dec_count_filter) (simp add: pt_cache_ok_def)
    moreover have "length (ce_payload (pt_cache pt ! i)) = 256 \<and> unat (ce_payload_len (pt_cache pt ! i)) \<le> 256"
      using ok assms(2) by (simp add: pt_cache_ok_def)
    then have "\<forall>e\<in>set ((pt_cache pt)[i := ?e]). length (ce_payload e) = 256 \<and> unat (ce_payload_len e) \<le> 256"
      using ok set_update_subset_insert [of "pt_cache pt" i ?e] by (auto simp: pt_cache_ok_def)
    ultimately have "pt_cache_ok (tick_cache_at now i pt)"
      using ok True by (simp add: tick_cache_at_def pt_cache_ok_def)
    with True assms(1) show ?thesis by (simp add: pt_inv_def tick_cache_at_def)
  next
    case False
    with assms show ?thesis by (simp add: tick_cache_at_def)
  qed
  show "pt_cache (tick_cache_at now i pt) = (pt_cache pt)[i := evict_expired pt now (pt_cache pt ! i)]"
    by (simp add: tick_cache_at_def evict_expired_def)
qed

lemma tick_cache_fold:
  fixes now
  assumes "pt_inv pt" "n \<le> length (pt_cache pt)"
  defines "t \<equiv> fold (tick_cache_at now) [0..<n] pt"
  shows "pt_cache t = map (evict_expired pt now) (take n (pt_cache pt)) @ drop n (pt_cache pt)
     \<and> pt_inv t \<and> pt_config t = pt_config pt \<and> pt_self_id t = pt_self_id pt
     \<and> pt_view t = pt_view pt \<and> pt_pending t = pt_pending pt"
  using assms(2) unfolding t_def
proof (induction n)
  case 0
  then show ?case using assms(1) by simp
next
  case (Suc n)
  let ?u = "fold (tick_cache_at now) [0..<n] pt" and ?c = "pt_cache pt"
  have U: "pt_cache ?u = map (evict_expired pt now) (take n ?c) @ drop n ?c" "pt_inv ?u"
    "pt_config ?u = pt_config pt" "pt_self_id ?u = pt_self_id pt" "pt_view ?u = pt_view pt"
    "pt_pending ?u = pt_pending pt" using Suc by simp_all
  have n: "n < length (pt_cache ?u)" "pt_cache ?u ! n = ?c ! n"
    using Suc.prems U(1) by (auto simp: nth_append)
  have ev: "evict_expired ?u now = evict_expired pt now"
    using cache_expired_cong [OF U(3)] by (intro ext) (simp add: evict_expired_def)
  have "(pt_cache ?u)[n := evict_expired pt now (?c ! n)]
      = map (evict_expired pt now) (take (Suc n) ?c) @ drop (Suc n) ?c"
    using Suc.prems by (simp add: U(1) list_update_append take_Suc_conv_app_nth
        Cons_nth_drop_Suc [symmetric] Suc_le_eq)
  with tick_cache_at_inv [OF U(2) n(1), of now] n(2) ev U(3-6) show ?case by simp
qed

section \<open>The whole tick\<close>

lemma tick_spec:
  fixes pt now send
  defines "due \<equiv> filter (pending_due pt now) (pt_pending pt)" and "t \<equiv> snd (pt_tick pt now send)"
  assumes inv: "pt_inv pt"
  shows "unat (fst (fst (pt_tick pt now send))) = length due"
    and "snd (fst (pt_tick pt now send)) = (if send then map graft_event due else [])"
    and "pt_pending t = map (clear_due pt now) (pt_pending pt)"
    and "pt_cache t = map (evict_expired pt now) (pt_cache pt)"
    and "pt_view t = map (promote_in (pn_from_id ` set due) now) (pt_view pt)"
    and "pt_inv t" and "pt_config t = pt_config pt"
proof -
  have len: "length (pt_pending pt) = unat (pc_pending_size (pt_config pt))"
    "length (pt_cache pt) = unat (pc_cache_size (pt_config pt))" "pc_cache_ttl_ms (pt_config pt) \<noteq> 0"
    using inv by (auto simp: pt_inv_def pt_pending_ok_def pt_cache_ok_def)
  let ?n = "length (pt_pending pt)"
  obtain out g u where r: "fold (tick_pending_at now send) [0..<?n] ([], 0, pt) = (out, g, u)"
    by (metis prod_cases3)
  have "?n \<le> 65535" using unat_u16_less [of "pc_pending_size (pt_config pt)"] len(1) by simp
  from tick_pending_fold [OF inv order_refl this, of now send] r
  have U: "pt_pending u = map (clear_due pt now) (pt_pending pt)" "unat g = length due"
    "out = (if send then map graft_event due else [])"
    "pt_view u = map (promote_in (pn_from_id ` set due) now) (pt_view pt)"
    "pt_inv u" "pt_config u = pt_config pt" "pt_cache u = pt_cache pt"
    by (auto simp: tick_pending_post_def due_def Let_def)
  let ?v = "fold (tick_cache_at now) [0..<length (pt_cache u)] u"
  have res: "pt_tick pt now send = ((g, out), ?v)"
    using r len U(6,7) by (simp add: pt_tick_def word_gt_0)
  have ev: "evict_expired u now = evict_expired pt now"
    using cache_expired_cong [OF U(6)] by (intro ext) (simp add: evict_expired_def)
  note V = tick_cache_fold [OF U(5) order_refl, of now]
  show "unat (fst (fst (pt_tick pt now send))) = length due"
    "snd (fst (pt_tick pt now send)) = (if send then map graft_event due else [])"
    using res U by simp_all
  show "pt_pending t = map (clear_due pt now) (pt_pending pt)"
    "pt_cache t = map (evict_expired pt now) (pt_cache pt)"
    "pt_view t = map (promote_in (pn_from_id ` set due) now) (pt_view pt)"
    "pt_inv t" "pt_config t = pt_config pt"
    using V U ev by (simp_all add: t_def res)
qed

section \<open>Every operation keeps the invariant\<close>

lemma pt_enforce_minimums_nonzero:
  "pc_cache_size (pt_enforce_minimums c) \<noteq> 0" "pc_pending_size (pt_enforce_minimums c) \<noteq> 0"
  "pc_cache_ttl_ms (pt_enforce_minimums c) \<noteq> 0" "pc_lazy_timeout_ms (pt_enforce_minimums c) \<noteq> 0"
  by (simp_all add: pt_enforce_minimums_def)

lemma active_unique_inactive: "(\<forall>p\<in>set ps. \<not> pn_active p) \<Longrightarrow> active_unique ps"
  by (simp add: active_unique_def)

lemma pt_inv_empty:
  assumes "pt_peers pt = replicate (unat (pc_max_peers (pt_config pt))) zero_peer"
    "pt_cache pt = replicate (unat (pc_cache_size (pt_config pt))) zero_cache"
    "pt_pending pt = replicate (unat (pc_pending_size (pt_config pt))) zero_pending"
    "pt_peer_count pt = 0" "pt_cache_count pt = 0" "pt_pending_count pt = 0"
    "pc_cache_size (pt_config pt) \<noteq> 0" "pc_pending_size (pt_config pt) \<noteq> 0"
    "pc_cache_ttl_ms (pt_config pt) \<noteq> 0"
  shows "pt_inv pt"
  using assms
  by (auto simp: pt_inv_def pt_peers_ok_def pt_cache_ok_def pt_pending_ok_def pt_view_def
      zero_cache_def zero_pending_def intro!: active_unique_inactive)

lemma pt_inv_create:
  assumes "wake_plumtree_create self cfg h a b c = Some pt"
  shows "pt_inv pt"
  using assms
  by (auto simp: wake_plumtree_create_def Let_def pt_enforce_minimums_nonzero
      split: option.splits if_splits intro!: pt_inv_empty)

lemma pt_inv_reset: "pt_inv pt \<Longrightarrow> pt_inv (pt_reset pt)"
  by (rule pt_inv_empty) (simp_all add: pt_reset_def pt_inv_def pt_cache_ok_def pt_pending_ok_def)

lemma pt_inv_add_peer:
  assumes "pt_inv pt"
  shows "pt_inv (snd (pt_add_peer pt nid now))"
proof (cases "fst (pt_add_peer pt nid now) = WAKE_PT_OK")
  case False
  then have "snd (pt_add_peer pt nid now) = pt" by (auto simp: pt_add_peer_def split: if_splits)
  with assms show ?thesis by simp
next
  case True
  let ?p = "\<lparr>pe_node_id = nid, pe_last_active_ms = now, pe_link_type = WAKE_PT_EAGER\<rparr>"
  let ?c = "pt_peer_count pt"
  from True have ns: "nid \<noteq> pt_self_id pt" and new: "find_peer pt nid = None"
    and room: "?c < ucast (pc_max_peers (pt_config pt))"
    by (auto simp: pt_add_peer_def pt_is_self_def split: if_splits)
  have ok: "pt_peers_ok pt" using assms by (simp add: pt_inv_def)
  let ?t = "pt\<lparr>pt_peers := (pt_peers pt)[unat ?c := ?p], pt_peer_count := ?c + 1\<rparr>"
  have res: "snd (pt_add_peer pt nid now) = ?t"
    using ns new room by (simp add: pt_add_peer_def pt_is_self_def)
  have len: "unat ?c < length (pt_peers pt)" using ok room by (simp add: pt_peers_ok_def word_less_nat_alt)
  then have view: "pt_view ?t = pt_view pt @ [?p]"
    by (simp add: pt_view_def unat_Suc_word_less [OF room])
  have "nid \<notin> pe_node_id ` set (pt_view pt)"
    using new by (auto simp: find_peer_def find_index_None_iff)
  moreover have "?c + 1 \<le> ucast (pc_max_peers (pt_config pt))"
    using room by (simp add: word_le_nat_alt word_less_nat_alt unat_Suc_word_less [OF room])
  ultimately have "pt_peers_ok ?t"
    using ok ns view by (auto simp: pt_peers_ok_def)
  with assms show ?thesis by (simp add: res pt_inv_def)
qed

text \<open>Removal moves the last peer into the gap.\<close>

lemma remove_peer_view:
  assumes "pt_peers_ok pt" "find_peer pt nid = Some i"
  shows "mset (pt_view (snd (pt_remove_peer pt nid))) = mset (pt_view pt) - {#pt_view pt ! i#}"
proof -
  note i = find_peer_SomeD [OF assms]
  let ?v = "pt_view pt" and ?n = "unat (pt_peer_count pt)"
  obtain k where k: "?n = Suc k" using i(1) by (cases ?n) auto
  have last: "unat (pt_peer_count pt - 1) = k"
    using k by (cases "pt_peer_count pt = 0") (simp_all add: unat_minus_one)
  have len: "length ?v = Suc k" "Suc k \<le> length (pt_peers pt)"
    using length_pt_view [OF assms(1)] k by (auto simp: pt_view_def)
  have "pt_view (snd (pt_remove_peer pt nid)) = take k (?v[i := ?v ! k])"
    using assms(2) last i(1) len k
    by (auto simp: pt_remove_peer_def Let_def pt_view_def take_update_swap list_update_beyond min_def)
  moreover have "take k (?v[i := ?v ! k]) @ [?v[i := ?v ! k] ! k] = ?v[i := ?v ! k]"
    using len(1) by (metis length_list_update lessI order_refl take_Suc_conv_app_nth take_all)
  moreover have "?v[i := ?v ! k] ! k = ?v ! k"
    using len(1) by (cases "i = k") auto
  ultimately have "mset (pt_view (snd (pt_remove_peer pt nid))) + {#?v ! k#} = mset (?v[i := ?v ! k])"
    by (metis mset_append mset_single_iff_right)
  also have "\<dots> = mset ?v - {#?v ! i#} + {#?v ! k#}"
    using i(1) len(1) k by (simp add: mset_update)
  finally show ?thesis by simp
qed

lemma distinct_sub_mset:
  assumes "mset xs \<subseteq># mset ys" "distinct (map f ys)"
  shows "distinct (map f xs)"
proof -
  obtain zs where "mset ys = mset (xs @ zs)"
    using assms(1) by (metis ex_mset mset_append mset_subset_eq_exists_conv)
  then have "mset (map f ys) = mset (map f (xs @ zs))" by (metis mset_map)
  then have "distinct (map f (xs @ zs))" using assms(2) by (metis mset_eq_imp_distinct_iff)
  then show ?thesis by simp
qed

lemma pt_inv_remove_peer:
  assumes "pt_inv pt"
  shows "pt_inv (snd (pt_remove_peer pt nid))"
proof (cases "find_peer pt nid")
  case None
  with assms show ?thesis by (simp add: pt_remove_peer_def)
next
  case (Some i)
  let ?t = "snd (pt_remove_peer pt nid)"
  have ok: "pt_peers_ok pt" using assms by (simp add: pt_inv_def)
  note i = find_peer_SomeD [OF ok Some]
  have cnt: "unat (pt_peer_count pt - 1) = unat (pt_peer_count pt) - 1"
    using i(1) by (simp add: unat_minus_one unat_gt_0 flip: unat_eq_0)
  have sub: "mset (pt_view ?t) \<subseteq># mset (pt_view pt)"
    using remove_peer_view [OF ok Some] by simp
  then have "set (pt_view ?t) \<subseteq> set (pt_view pt)" by (metis set_mset_mono set_mset_mset)
  moreover have "pt_config ?t = pt_config pt" "pt_self_id ?t = pt_self_id pt"
    "length (pt_peers ?t) = length (pt_peers pt)" "pt_peer_count ?t = pt_peer_count pt - 1"
    using Some by (simp_all add: pt_remove_peer_def Let_def)
  ultimately have "pt_peers_ok ?t"
    using ok distinct_sub_mset [OF sub, of pe_node_id] cnt
    by (auto simp: pt_peers_ok_def word_le_nat_alt)
  moreover have "pt_cache_ok ?t = pt_cache_ok pt" "pt_pending_ok ?t = pt_pending_ok pt"
    "pt_config ?t = pt_config pt"
    using Some by (simp_all add: pt_remove_peer_def Let_def)
  ultimately show ?thesis using assms by (simp add: pt_inv_def)
qed

lemma pt_inv_broadcast: "pt_inv pt \<Longrightarrow> pt_inv (snd (pt_broadcast pt mid pl now send))"
  by (simp add: pt_broadcast_def Let_def)

lemma pt_inv_recv_gossip:
  "pt_inv pt \<Longrightarrow> pt_inv (snd (pt_recv_gossip pt frm mid pl now send deliver))"
  by (simp add: pt_recv_gossip_def Let_def demote_lazy_def promote_eager_def)

lemma pt_inv_recv_ihave: "pt_inv pt \<Longrightarrow> pt_inv (pt_recv_ihave pt frm mid now)"
  by (simp add: pt_recv_ihave_def)

lemma pt_inv_recv_graft: "pt_inv pt \<Longrightarrow> pt_inv (snd (pt_recv_graft pt frm mid now send))"
  by (simp add: pt_recv_graft_def Let_def promote_eager_def)

lemma pt_inv_recv_prune: "pt_inv pt \<Longrightarrow> pt_inv (pt_recv_prune pt frm now)"
  by (simp add: pt_recv_prune_def demote_lazy_def)

lemma pt_step_inv: "pt_inv pt \<Longrightarrow> pt_step pt t \<Longrightarrow> pt_inv t"
  by (erule pt_stepE)
    (simp_all add: pt_inv_reset pt_inv_add_peer pt_inv_remove_peer pt_inv_broadcast
      pt_inv_recv_gossip pt_inv_recv_ihave pt_inv_recv_graft pt_inv_recv_prune tick_spec(6))

interpretation plumtree: invariant_machine pt_init pt_step pt_inv
  by unfold_locales (auto simp: pt_init_def pt_inv_create pt_step_inv)

end
