(* ===== verification/Wake_Plumtree_Props.thy ===== *)
theory Wake_Plumtree_Props
  imports Wake_Plumtree_Tick
begin

text \<open>
  What PlumTree promises: delivery and forwarding of new messages, pruning on duplicates,
  exactly-once delivery while the cache has room, answers to GRAFT, and repair by IHAVE and the
  timer.
\<close>

section \<open>A concrete instance for the witnesses\<close>

definition pt_demo_config :: wake_plumtree_config_t where
  "pt_demo_config = \<lparr>pc_max_peers = 4, pc_cache_size = 3, pc_pending_size = 2,
     pc_lazy_timeout_ms = 100, pc_cache_ttl_ms = 1000\<rparr>"

definition pt_node :: "nat \<Rightarrow> bytes" where
  "pt_node n = of_nat n # replicate 31 0"

definition pt_msg :: "nat \<Rightarrow> bytes" where
  "pt_msg n = of_nat n # replicate 15 0"

definition pt_demo_empty :: wake_plumtree_t where
  "pt_demo_empty = the (wake_plumtree_create (Some (pt_node 0)) (Some pt_demo_config) True True True True)"

definition pt_demo :: wake_plumtree_t where
  "pt_demo = snd (pt_add_peer (snd (pt_add_peer pt_demo_empty (pt_node 1) 1)) (pt_node 2) 2)"

lemma pt_demo_create:
  "wake_plumtree_create (Some (pt_node 0)) (Some pt_demo_config) True True True True = Some pt_demo_empty"
  by (simp add: pt_demo_empty_def wake_plumtree_create_def Let_def)

lemma pt_demo_reachable: "pt_reachable pt_demo"
proof -
  have init: "pt_reachable pt_demo_empty"
    using pt_demo_create by (intro reach_init) (unfold pt_init_def, blast)
  show ?thesis
    unfolding pt_demo_def by (rule reach_step [OF reach_step [OF init]]; rule pt_step.add_peer)
qed

lemma pt_demo_inv: "pt_inv pt_demo"
  by (rule plumtree.reach_inv [OF pt_demo_reachable])

text \<open>
  C8. In every state an instance reaches from \<open>wake_plumtree_create\<close> by any sequence of calls:
  peers have distinct ids and never the node's own, the counters of the cache and of the pending
  announcements equal the number of slots in use, a cached payload fits its slot, and no message
  is pending twice.
\<close>

theorem plumtree_reachable_inv: "pt_reachable pt \<Longrightarrow> pt_inv pt"
  by (rule plumtree.reach_inv)

theorem plumtree_reachable_inv_witness: "pt_inv pt_demo"
  by (rule plumtree_reachable_inv [OF pt_demo_reachable])

section \<open>GOSSIP\<close>

lemma has_msg_frame [simp]:
  "pt_has_msg (pt_messages_received_update f pt) k = pt_has_msg pt k"
  "pt_has_msg (pending_remove_msg pt mid) k = pt_has_msg pt k"
  "pt_has_msg (set_link l pt nid now) k = pt_has_msg pt k"
  by (simp_all add: pt_has_msg_def cache_find_def)

lemma pending_find_set_link [simp]: "pending_find (set_link l pt nid now) mid = pending_find pt mid"
  by (simp add: pending_find_def)

lemma cache_find_received [simp]:
  "cache_find (pt_messages_received_update f pt) mid = cache_find pt mid"
  by (simp add: cache_find_def)

text \<open>The instance after a new message.\<close>

definition accept_gossip :: "wake_plumtree_t \<Rightarrow> bytes \<Rightarrow> bytes \<Rightarrow> bytes \<Rightarrow> u64 \<Rightarrow> wake_plumtree_t" where
  "accept_gossip pt frm mid pl now = promote_eager (pending_remove_msg
     (cache_insert (pt\<lparr>pt_messages_received := pt_messages_received pt + 1\<rparr>) mid pl now) mid) frm now"

lemma accept_gossip_simps:
  assumes "pt_inv pt"
  shows "pt_view (accept_gossip pt frm mid pl now) = map (promote_in {frm} now) (pt_view pt)"
    and "pt_cache (accept_gossip pt frm mid pl now) = pt_cache (cache_insert pt mid pl now)"
    and "pending_find (accept_gossip pt frm mid pl now) mid = None"
    and "pt_has_msg (accept_gossip pt frm mid pl now) k = pt_has_msg (cache_insert pt mid pl now) k"
    and "pt_inv (accept_gossip pt frm mid pl now)"
    and "pt_cache_count (accept_gossip pt frm mid pl now) = pt_cache_count (cache_insert pt mid pl now)"
    and "pt_config (accept_gossip pt frm mid pl now) = pt_config pt"
proof -
  let ?r = "pt\<lparr>pt_messages_received := pt_messages_received pt + 1\<rparr>"
  let ?i = "cache_insert ?r mid pl now"
  have inv: "pt_inv ?i" using assms by simp
  then have ok: "pt_peers_ok (pending_remove_msg ?i mid)" "pt_pending_ok ?i" by (auto simp: pt_inv_def)
  have c: "pt_cache ?i = pt_cache (cache_insert pt mid pl now)"
    "pt_cache_count ?i = pt_cache_count (cache_insert pt mid pl now)"
    by (simp_all add: cache_insert_def split: option.split)
  show "pt_view (accept_gossip pt frm mid pl now) = map (promote_in {frm} now) (pt_view pt)"
    using promote_eager_view [OF ok(1)] by (simp add: accept_gossip_def)
  show cache: "pt_cache (accept_gossip pt frm mid pl now) = pt_cache (cache_insert pt mid pl now)"
    "pt_cache_count (accept_gossip pt frm mid pl now) = pt_cache_count (cache_insert pt mid pl now)"
    using c by (simp_all add: accept_gossip_def promote_eager_def)
  show "pending_find (accept_gossip pt frm mid pl now) mid = None"
    using pending_removed [OF ok(2)] by (simp add: accept_gossip_def promote_eager_def)
  show "pt_has_msg (accept_gossip pt frm mid pl now) k = pt_has_msg (cache_insert pt mid pl now) k"
    using cache by (simp add: has_msg_iff)
  show "pt_inv (accept_gossip pt frm mid pl now)" using inv by (simp add: accept_gossip_def promote_eager_def)
  show "pt_config (accept_gossip pt frm mid pl now) = pt_config pt"
    by (simp add: accept_gossip_def promote_eager_def)
qed

lemma recv_gossip_new:
  assumes "pt_inv pt" "\<not> pt_has_msg pt mid"
  shows "pt_recv_gossip pt frm mid pl now send deliver =
    ((True, (if deliver then [Deliver mid pl frm] else [])
        @ (if send then map (push_to mid pl) (filter (\<lambda>p. pe_node_id p \<noteq> frm) (pt_view pt)) else [])),
     accept_gossip pt frm mid pl now)"
proof -
  have "filter (\<lambda>p. pe_node_id p \<noteq> frm) (pt_view (accept_gossip pt frm mid pl now))
      = filter (\<lambda>p. pe_node_id p \<noteq> frm) (pt_view pt)"
    unfolding accept_gossip_simps(1) [OF assms(1)] filter_map
    by (auto simp: comp_def promote_in_def intro!: map_idI)
  with assms(2) show ?thesis
    by (simp add: pt_recv_gossip_def pt_has_msg_def Let_def flip: accept_gossip_def)
qed

text \<open>
  A GOSSIP whose message is not in the cache returns true, delivers the message to the
  application once and before any forwarding, then pushes it to every peer but the sender (in
  full on eager links, its id on lazy ones), and leaves the message in the cache, no pending
  announcement of it, and the link to the sender eager.
\<close>

theorem gossip_new_message:
  assumes "pt_inv pt" and "\<not> pt_has_msg pt mid"
    and "pt_recv_gossip pt frm mid pl now True True = ((r, events), t)"
  shows "r \<and> events = Deliver mid pl frm
           # map (push_to mid pl) (filter (\<lambda>p. pe_node_id p \<noteq> frm) (pt_view pt))
     \<and> pt_has_msg t mid \<and> pending_find t mid = None
     \<and> pt_view t = map (promote_in {frm} now) (pt_view pt)"
  using recv_gossip_new [OF assms(1,2)] assms(1,3) accept_gossip_simps [OF assms(1)]
  by (auto simp: has_msg_inserted pt_inv_def)

theorem gossip_new_message_witness:
  "snd (fst (pt_recv_gossip pt_demo (pt_node 1) (pt_msg 7) [1, 2] 50 True True))
     = [Deliver (pt_msg 7) [1, 2] (pt_node 1), Send WAKE_PT_GOSSIP (pt_node 2) (pt_msg 7) (Some [1, 2])]"
proof -
  have new: "\<not> pt_has_msg pt_demo (pt_msg 7)"
    and fw: "map (push_to (pt_msg 7) [1, 2]) (filter (\<lambda>p. pe_node_id p \<noteq> pt_node 1) (pt_view pt_demo))
      = [Send WAKE_PT_GOSSIP (pt_node 2) (pt_msg 7) (Some [1, 2])]" by code_simp+
  obtain r ev t where "pt_recv_gossip pt_demo (pt_node 1) (pt_msg 7) [1, 2] 50 True True = ((r, ev), t)"
    by (metis prod_cases3 prod.collapse)
  with gossip_new_message [OF pt_demo_inv new this] fw show ?thesis by simp
qed

text \<open>
  A GOSSIP whose message is in the cache returns false, delivers and forwards nothing, answers
  with one PRUNE to the sender, and leaves the link to the sender lazy; cache and pending
  announcements are untouched.
\<close>

theorem gossip_duplicate:
  assumes "pt_inv pt" and "pt_has_msg pt mid"
    and "pt_recv_gossip pt frm mid pl now True True = ((r, events), t)"
  shows "\<not> r \<and> events = [Send WAKE_PT_PRUNE frm mid None]
     \<and> pt_cache t = pt_cache pt \<and> pt_pending t = pt_pending pt
     \<and> pt_view t = map (\<lambda>p. if pe_node_id p = frm
          then p\<lparr>pe_link_type := WAKE_PT_LAZY, pe_last_active_ms := now\<rparr> else p) (pt_view pt)"
  using assms
  by (auto simp: pt_recv_gossip_def pt_has_msg_def demote_lazy_def set_link_view pt_inv_def Let_def)

theorem gossip_duplicate_witness:
  "snd (fst (pt_recv_gossip (snd (pt_broadcast pt_demo (pt_msg 7) [1] 50 True)) (pt_node 1) (pt_msg 7) [1] 60 True True))
     = [Send WAKE_PT_PRUNE (pt_node 1) (pt_msg 7) None]"
proof -
  let ?pt = "snd (pt_broadcast pt_demo (pt_msg 7) [1] 50 True)"
  have inv: "pt_inv ?pt" by (rule pt_inv_broadcast [OF pt_demo_inv])
  have dup: "pt_has_msg ?pt (pt_msg 7)" by code_simp
  obtain r ev t where "pt_recv_gossip ?pt (pt_node 1) (pt_msg 7) [1] 60 True True = ((r, ev), t)"
    by (metis prod_cases3 prod.collapse)
  with gossip_duplicate [OF inv dup this] show ?thesis by simp
qed

section \<open>Exactly-once delivery\<close>

text \<open>A run of received GOSSIPs \<open>(from, message, payload, time)\<close> and the messages it delivers.\<close>

definition delivered :: "pt_event list \<Rightarrow> bytes list" where
  "delivered es = concat (map (\<lambda>e. case e of Deliver mid _ _ \<Rightarrow> [mid] | Send _ _ _ _ \<Rightarrow> []) es)"

fun gossip_run :: "wake_plumtree_t \<Rightarrow> (bytes \<times> bytes \<times> bytes \<times> u64) list \<Rightarrow> bytes list \<times> wake_plumtree_t" where
  "gossip_run pt [] = ([], pt)"
| "gossip_run pt ((frm, mid, pl, now) # ms) =
     (let ((r, es), pt1) = pt_recv_gossip pt frm mid pl now True True;
          (ds, pt2) = gossip_run pt1 ms
      in (delivered es @ ds, pt2))"

lemma delivered_push [simp]: "delivered (map (push_to mid pl) ps) = []"
  by (induction ps) (auto simp: delivered_def push_to_def)

lemma delivered_Cons [simp]: "delivered (Deliver mid pl frm # es) = mid # delivered es"
  by (simp add: delivered_def)

lemma gossip_run_exact:
  assumes "pt_inv pt" "unat (pt_cache_count pt) + length ms \<le> length (pt_cache pt)"
  shows "distinct (fst (gossip_run pt ms))
     \<and> set (fst (gossip_run pt ms)) = {mid \<in> (fst \<circ> snd) ` set ms. \<not> pt_has_msg pt mid}"
  using assms
proof (induction ms arbitrary: pt)
  case Nil
  then show ?case by simp
next
  case (Cons x ms)
  obtain frm mid pl now where x: "x = (frm, mid, pl, now)" by (metis prod_cases4)
  note inv = Cons.prems(1)
  have cok: "pt_cache_ok pt" using inv by (simp add: pt_inv_def)
  show ?case
  proof (cases "pt_has_msg pt mid")
    case True
    obtain r es t where g: "pt_recv_gossip pt frm mid pl now True True = ((r, es), t)"
      by (metis prod_cases3 prod.collapse)
    have t: "es = [Send WAKE_PT_PRUNE frm mid None]" "pt_cache t = pt_cache pt"
      "pt_cache_count t = pt_cache_count pt"
      using True g by (auto simp: pt_recv_gossip_def pt_has_msg_def demote_lazy_def Let_def)
    have "pt_inv t" using pt_inv_recv_gossip [OF inv, of frm mid pl now True True] g by simp
    moreover have "pt_has_msg t k = pt_has_msg pt k" for k by (simp add: has_msg_iff t(2))
    ultimately show ?thesis
      using Cons.IH [of t] Cons.prems(2) True g t by (auto simp: x delivered_def case_prod_unfold Let_def)
  next
    case False
    let ?t = "accept_gossip pt frm mid pl now"
    note T = accept_gossip_simps [OF inv, of frm mid pl now]
    have room: "unat (pt_cache_count pt) < length (pt_cache pt)" using Cons.prems(2) by simp
    obtain i where i: "i < length (pt_cache pt)" "\<not> ce_occupied (pt_cache pt ! i)"
      "pt_cache (cache_insert pt mid pl now) = (pt_cache pt)[i := cache_entry mid pl now]"
      "unat (pt_cache_count (cache_insert pt mid pl now)) = Suc (unat (pt_cache_count pt))"
      using cache_insert_slot [OF cok, of mid pl now] room by blast
    have has: "pt_has_msg ?t k \<longleftrightarrow> k = mid \<or> pt_has_msg pt k" for k
    proof -
      have "e \<in> set ((pt_cache pt)[i := cache_entry mid pl now]) \<Longrightarrow> e = cache_entry mid pl now \<or> e \<in> set (pt_cache pt)" for e
        using set_update_subset_insert by fastforce
      then have "pt_has_msg (cache_insert pt mid pl now) k \<Longrightarrow> k = mid \<or> pt_has_msg pt k"
        unfolding has_msg_iff i(3) by (metis cache_entry_fields(1))
      then show ?thesis
        using T(4) has_msg_inserted [OF cok] has_msg_kept [OF cok room] by blast
    qed
    have len: "unat (pt_cache_count ?t) + length ms \<le> length (pt_cache ?t)"
      using Cons.prems(2) T(2,6) i(3,4) by simp
    have run: "fst (gossip_run pt (x # ms)) = mid # fst (gossip_run ?t ms)"
      using recv_gossip_new [OF inv False, of frm pl now True True] by (simp add: x case_prod_unfold Let_def)
    note IH = Cons.IH [OF T(5) len]
    show ?thesis
      unfolding run using IH False by (auto simp: x has)
  qed
qed

text \<open>
  C9. As long as the cache has room for the run, a sequence of GOSSIPs from any senders, with any
  repetitions, delivers each message that was not cached before exactly once, and no other.
\<close>

theorem exactly_once_delivery:
  assumes "pt_inv pt" and "unat (pt_cache_count pt) + length ms \<le> length (pt_cache pt)"
  shows "distinct (fst (gossip_run pt ms))
     \<and> set (fst (gossip_run pt ms)) = {mid \<in> (fst \<circ> snd) ` set ms. \<not> pt_has_msg pt mid}"
  using assms by (rule gossip_run_exact)

theorem exactly_once_delivery_witness:
  "set (fst (gossip_run pt_demo [(pt_node 1, pt_msg 7, [1], 5), (pt_node 2, pt_msg 7, [1], 6), (pt_node 2, pt_msg 8, [2], 7)]))
     = {pt_msg 7, pt_msg 8}"
proof -
  let ?ms = "[(pt_node 1, pt_msg 7, [1], 5), (pt_node 2, pt_msg 7, [1], 6), (pt_node 2, pt_msg 8, [2], 7)]
     :: (bytes \<times> bytes \<times> bytes \<times> u64) list"
  have "unat (pt_cache_count pt_demo) + length ?ms \<le> length (pt_cache pt_demo)"
    "\<not> pt_has_msg pt_demo (pt_msg 7)" "\<not> pt_has_msg pt_demo (pt_msg 8)" by code_simp+
  with exactly_once_delivery [OF pt_demo_inv, of ?ms] show ?thesis by auto
qed

section \<open>GRAFT\<close>

lemma cache_find_accepted:
  assumes "pt_inv pt" "\<not> pt_has_msg pt mid"
  shows "\<exists>i. cache_find (accept_gossip pt frm mid pl now) mid = Some i
     \<and> pt_cache (accept_gossip pt frm mid pl now) ! i = cache_entry mid pl now"
proof -
  let ?t = "accept_gossip pt frm mid pl now"
  have cok: "pt_cache_ok pt" using assms(1) by (simp add: pt_inv_def)
  obtain i where i: "i < length (pt_cache pt)"
    "pt_cache (cache_insert pt mid pl now) = (pt_cache pt)[i := cache_entry mid pl now]"
    using cache_insert_slot [OF cok, of mid pl now] by blast
  have c: "pt_cache ?t = (pt_cache pt)[i := cache_entry mid pl now]"
    using accept_gossip_simps(2) [OF assms(1)] i(2) by simp
  have "\<not> (ce_occupied (pt_cache pt ! j) \<and> ce_msg_id (pt_cache pt ! j) = mid)" if "j < length (pt_cache pt)" for j
    using assms(2) that by (auto simp: has_msg_iff)
  then have "cache_find ?t mid = Some i"
    using i(1) by (auto simp: cache_find_def c find_index_Some_iff wake_plumtree_msg_id_eq_def nth_list_update)
  with c i(1) show ?thesis by simp
qed

text \<open>
  A GRAFT for a message accepted before is answered with one GOSSIP to the requester.  The
  payload sent is the first 256 bytes of the payload received: a longer payload, which the
  forwarding of the original GOSSIP passed on whole, is cut.  The link to the requester becomes
  eager.
\<close>

theorem graft_answers_from_cache:
  assumes "pt_inv pt" and "\<not> pt_has_msg pt mid"
    and "pt_recv_gossip pt frm mid pl now True True = (re, t)"
    and "pt_recv_graft t requester mid later True = (events, u)"
  shows "events = [Send WAKE_PT_GOSSIP requester mid (Some (take 256 pl))]
     \<and> pt_view u = map (promote_in {requester} later) (pt_view t)"
proof -
  have t: "t = accept_gossip pt frm mid pl now"
    using recv_gossip_new [OF assms(1,2)] assms(3) by simp
  then have inv: "pt_inv t" using accept_gossip_simps(5) [OF assms(1)] by simp
  obtain i where i: "cache_find t mid = Some i" "pt_cache t ! i = cache_entry mid pl now"
    using cache_find_accepted [OF assms(1,2)] t by blast
  have "cache_find (promote_eager t requester later) mid = Some i"
    "pt_cache (promote_eager t requester later) = pt_cache t"
    using i(1) by (simp_all add: promote_eager_def cache_find_def)
  with assms(4) i(2) promote_eager_view [of t] inv show ?thesis
    by (auto simp: pt_recv_graft_def Let_def pt_inv_def)
qed

theorem graft_answers_from_cache_witness:
  "fst (pt_recv_graft (snd (pt_recv_gossip pt_demo (pt_node 1) (pt_msg 7) [1, 2] 5 True True)) (pt_node 2) (pt_msg 7) 9 True)
     = [Send WAKE_PT_GOSSIP (pt_node 2) (pt_msg 7) (Some [1, 2])]"
proof -
  have "\<not> pt_has_msg pt_demo (pt_msg 7)" by code_simp
  from graft_answers_from_cache [OF pt_demo_inv this surjective_pairing surjective_pairing,
      of "pt_node 1" "[1, 2]" 5 "pt_node 2" 9] show ?thesis by simp
qed

section \<open>The timer and lazy repair\<close>

text \<open>
  One tick: a GRAFT goes out for exactly the announcements pending for the timeout or longer,
  in slot order, to the peer that announced them; these entries become inactive and their
  sources eager, and the returned number is their count.  Cache entries past their lifetime are
  freed, all others kept; afterwards nothing is overdue.
\<close>

theorem tick_exact:
  assumes "pt_inv pt" and "pt_tick pt now True = ((grafts, events), t)"
  shows "unat grafts = length (filter (pending_due pt now) (pt_pending pt))
     \<and> events = map graft_event (filter (pending_due pt now) (pt_pending pt))
     \<and> pt_pending t = map (clear_due pt now) (pt_pending pt)
     \<and> pt_cache t = map (evict_expired pt now) (pt_cache pt)
     \<and> pt_view t = map (promote_in (pn_from_id ` set (filter (pending_due pt now) (pt_pending pt))) now) (pt_view pt)
     \<and> (\<forall>p\<in>set (pt_pending t). \<not> pending_due t now p)
     \<and> (\<forall>e\<in>set (pt_cache t). \<not> cache_expired t now e)"
  using tick_spec [OF assms(1), of now True] assms(2)
  by (auto simp: clear_due_def evict_expired_def pending_due_def cache_expired_def)

lemma pending_added:
  assumes "pt_inv pt"
  shows "\<exists>p\<in>set (pt_pending (pending_add pt mid frm now)).
     pn_active p \<and> pn_msg_id p = mid \<and> pn_from_id p = frm \<and> pn_received_ms p = now"
proof (cases "pending_find pt mid")
  case (Some i)
  note i = pending_find_SomeD [OF Some]
  show ?thesis
    using i Some
    by (intro bexI [of _ "(pt_pending pt ! i)\<lparr>pn_from_id := frm, pn_received_ms := now\<rparr>"])
      (auto simp: pending_add_def Let_def intro: set_update_memI)
next
  case None
  let ?p = "\<lparr>pn_msg_id = mid, pn_from_id = frm, pn_received_ms = now, pn_active = True\<rparr>"
  have ok: "pt_pending_ok pt" using assms by (simp add: pt_inv_def)
  have "\<exists>i<length (pt_pending pt). pt_pending (pending_add pt mid frm now) = (pt_pending pt)[i := ?p]"
  proof (cases "find_index (\<lambda>p. \<not> pn_active p) (pt_pending pt)")
    case (Some i)
    with None show ?thesis
      by (intro exI [of _ i]) (auto simp: pending_add_def dest: find_index_SomeD)
  next
    case full: None
    have "pt_pending pt \<noteq> []" using ok by (auto simp: pt_pending_ok_def unat_eq_0)
    with full oldest_pending_Some [of "pt_pending pt"] obtain i where
      "i < length (pt_pending pt)" "oldest_pending (pt_pending pt) = Some i"
      by (auto simp: find_index_None_iff)
    with None full show ?thesis by (intro exI [of _ i]) (simp add: pending_add_def)
  qed
  then show ?thesis by (force intro: set_update_memI)
qed

text \<open>
  Lazy repair.  An IHAVE for a message the node does not have, followed by a tick once the lazy
  timeout has passed, sends a GRAFT for this message to the announcing peer, and makes the link
  to that peer eager if it is a peer; this holds even when the table of pending announcements
  was full.
\<close>

theorem lazy_repair:
  assumes "pt_inv pt" and "\<not> pt_has_msg pt mid"
    and "now - t0 \<ge> ucast (pc_lazy_timeout_ms (pt_config pt))"
    and "pt_tick (pt_recv_ihave pt frm mid t0) now True = ((grafts, events), t)"
  shows "Send WAKE_PT_GRAFT frm mid None \<in> set events
     \<and> (\<forall>p\<in>set (pt_view t). pe_node_id p = frm \<longrightarrow> pe_link_type p = WAKE_PT_EAGER)"
proof -
  let ?u = "pending_add pt mid frm t0"
  have u: "pt_recv_ihave pt frm mid t0 = ?u" using assms(2) by (simp add: pt_recv_ihave_def pt_has_msg_def)
  have inv: "pt_inv ?u" using assms(1) by simp
  obtain p where p: "p \<in> set (pt_pending ?u)" "pn_active p" "pn_msg_id p = mid" "pn_from_id p = frm"
    "pn_received_ms p = t0" using pending_added [OF assms(1)] by blast
  then have due: "p \<in> set (filter (pending_due ?u now) (pt_pending ?u))"
    using assms(3) by (simp add: pending_due_def)
  note T = tick_spec [OF inv, of now True]
  have "graft_event p \<in> set events" using T(2) assms(4) due by (simp add: u)
  moreover have "pt_view t = map (promote_in (pn_from_id ` set (filter (pending_due ?u now) (pt_pending ?u))) now) (pt_view ?u)"
    using T(5) assms(4) by (simp add: u)
  moreover have "frm \<in> pn_from_id ` set (filter (pending_due ?u now) (pt_pending ?u))"
    by (rule rev_image_eqI [OF due]) (simp add: p(4))
  ultimately show ?thesis using p(3,4) by (auto simp: graft_event_def promote_in_def)
qed

text \<open>
  A further IHAVE for the same message restarts its timer: however old the first announcement
  is, a tick sooner than the lazy timeout after the last one sends no GRAFT for the message, so
  announcements that keep arriving postpone the repair.
\<close>

theorem ihave_restarts_timer:
  assumes "pt_inv pt" and "\<not> pt_has_msg pt mid"
    and "now - t1 < ucast (pc_lazy_timeout_ms (pt_config pt))"
    and "pt_tick (pt_recv_ihave (pt_recv_ihave pt frm mid t0) frm' mid t1) now True = ((grafts, events), t)"
  shows "Send WAKE_PT_GRAFT k mid None \<notin> set events"
proof
  assume in_ev: "Send WAKE_PT_GRAFT k mid None \<in> set events"
  let ?v = "pending_add pt mid frm t0" and ?u = "pending_add (pending_add pt mid frm t0) mid frm' t1"
  have u: "pt_recv_ihave (pt_recv_ihave pt frm mid t0) frm' mid t1 = ?u"
    using assms(2) by (simp add: pt_recv_ihave_def pt_has_msg_def cache_find_def)
  have inv: "pt_inv ?v" "pt_inv ?u" using assms(1) by simp_all
  obtain p where p: "p \<in> set (pt_pending ?u)" "pn_active p" "pn_msg_id p = mid" "pn_received_ms p = t1"
    using pending_added [OF inv(1), of mid frm' t1] by blast
  from in_ev tick_spec(2) [OF inv(2), of now True] assms(4)
  obtain q where q: "q \<in> set (pt_pending ?u)" "pending_due ?u now q" "pn_msg_id q = mid"
    by (auto simp: u graft_event_def)
  have "active_unique (pt_pending ?u)" using inv(2) by (simp add: pt_inv_def pt_pending_ok_def)
  then have "q = p"
    using p q by (metis active_uniqueD in_set_conv_nth pending_due_def)
  with q(2) p(4) assms(3) show False by (auto simp: pending_due_def)
qed

lemma pt_demo_timeout: "pc_lazy_timeout_ms (pt_config pt_demo) = 100" "\<not> pt_has_msg pt_demo (pt_msg 7)"
  by code_simp+

theorem tick_exact_witness:
  "snd (fst (pt_tick (pt_recv_ihave pt_demo (pt_node 1) (pt_msg 7) 5) 105 True))
     = [Send WAKE_PT_GRAFT (pt_node 1) (pt_msg 7) None]"
proof -
  let ?pt = "pt_recv_ihave pt_demo (pt_node 1) (pt_msg 7) 5"
  have ev: "map graft_event (filter (pending_due ?pt 105) (pt_pending ?pt))
      = [Send WAKE_PT_GRAFT (pt_node 1) (pt_msg 7) None]" by code_simp
  obtain g e t where r: "pt_tick ?pt 105 True = ((g, e), t)" by (metis prod_cases3 prod.collapse)
  from tick_exact [OF pt_inv_recv_ihave [OF pt_demo_inv] r] ev r show ?thesis by simp
qed

theorem lazy_repair_witness:
  "Send WAKE_PT_GRAFT (pt_node 2) (pt_msg 7) None
     \<in> set (snd (fst (pt_tick (pt_recv_ihave pt_demo (pt_node 2) (pt_msg 7) 5) 200 True)))"
proof -
  obtain g e t where r: "pt_tick (pt_recv_ihave pt_demo (pt_node 2) (pt_msg 7) 5) 200 True = ((g, e), t)"
    by (metis prod_cases3 prod.collapse)
  from lazy_repair [OF pt_demo_inv pt_demo_timeout(2) _ r] r show ?thesis by (simp add: pt_demo_timeout(1))
qed

theorem ihave_restarts_timer_witness:
  "Send WAKE_PT_GRAFT (pt_node 2) (pt_msg 7) None
     \<notin> set (snd (fst (pt_tick (pt_recv_ihave (pt_recv_ihave pt_demo (pt_node 1) (pt_msg 7) 5) (pt_node 2) (pt_msg 7) 150) 200 True)))"
proof -
  obtain g e t where r: "pt_tick (pt_recv_ihave (pt_recv_ihave pt_demo (pt_node 1) (pt_msg 7) 5) (pt_node 2) (pt_msg 7) 150) 200 True
      = ((g, e), t)" by (metis prod_cases3 prod.collapse)
  from ihave_restarts_timer [OF pt_demo_inv pt_demo_timeout(2) _ r] r show ?thesis
    by (simp add: pt_demo_timeout(1))
qed

section \<open>Broadcast\<close>

text \<open>
  \<open>wake_plumtree_broadcast\<close> does not look into the cache: originating a message that is already
  cached, while there is room, occupies a second slot for the same message and pushes it to
  every peer again.
\<close>

theorem broadcast_not_deduplicated:
  assumes "pt_inv pt" and "pl \<noteq> []"
    and "unat (pt_cache_count pt) < length (pt_cache pt)"
    and "pt_broadcast pt mid pl now True = (events, t)"
  shows "events = map (push_to mid pl) (pt_view pt)
     \<and> length (filter (\<lambda>e. ce_occupied e \<and> ce_msg_id e = mid) (pt_cache t))
         = Suc (length (filter (\<lambda>e. ce_occupied e \<and> ce_msg_id e = mid) (pt_cache pt)))"
proof -
  have cok: "pt_cache_ok pt" using assms(1) by (simp add: pt_inv_def)
  obtain i where i: "i < length (pt_cache pt)" "\<not> ce_occupied (pt_cache pt ! i)"
    "pt_cache (cache_insert pt mid pl now) = (pt_cache pt)[i := cache_entry mid pl now]"
    using cache_insert_slot [OF cok, of mid pl now] assms(3) by blast
  then show ?thesis
    using assms(2,4) length_filter_update [OF i(1), of "\<lambda>e. ce_occupied e \<and> ce_msg_id e = mid" "cache_entry mid pl now"]
    by (auto simp: pt_broadcast_def Let_def)
qed

theorem broadcast_not_deduplicated_witness:
  "length (filter (\<lambda>e. ce_occupied e \<and> ce_msg_id e = pt_msg 7)
     (pt_cache (snd (pt_broadcast (snd (pt_broadcast pt_demo (pt_msg 7) [1] 5 True)) (pt_msg 7) [1] 6 True)))) = 2"
proof -
  let ?pt = "snd (pt_broadcast pt_demo (pt_msg 7) [1] 5 True)"
  have "unat (pt_cache_count ?pt) < length (pt_cache ?pt)"
    "length (filter (\<lambda>e. ce_occupied e \<and> ce_msg_id e = pt_msg 7) (pt_cache ?pt)) = 1" by code_simp+
  with broadcast_not_deduplicated [OF pt_inv_broadcast [OF pt_demo_inv] _ _ surjective_pairing, of "[1]"]
  show ?thesis by simp
qed

end
