(* ===== verification/Wake_Plumtree_Repair.thy ===== *)
theory Wake_Plumtree_Repair
  imports Wake_Plumtree_Props
begin

text \<open>
  Repair over a lazy link, from end to end: announcement, timeout, request, answer, delivery, with
  each handler of \<open>src/src/wake_plumtree.c\<close> applied to what the one before has sent.
\<close>

text \<open>Neither the announcement nor the tick puts a message into the cache.\<close>

lemma ihave_tick_has_msg:
  assumes "pt_inv pt" "\<not> pt_has_msg pt mid"
  shows "\<not> pt_has_msg (snd (pt_tick (pt_recv_ihave pt frm mid t0) now True)) mid"
proof -
  have u: "pt_recv_ihave pt frm mid t0 = pending_add pt mid frm t0"
    using assms(2) by (simp add: pt_recv_ihave_def pt_has_msg_def)
  have "pt_cache (pending_add pt mid frm t0) = pt_cache pt"
    by (simp add: pending_add_def Let_def split: option.split)
  with assms tick_spec(4) [of "pending_add pt mid frm t0" now True] show ?thesis
    by (auto simp: has_msg_iff u evict_expired_def split: if_splits)
qed

lemma promoted_eager:
  assumes "q \<in> set (map (promote_in {nid} t) ps)" "pe_node_id q = nid"
  shows "pe_link_type q = WAKE_PT_EAGER"
proof -
  from assms(1) obtain p where q: "q = promote_in {nid} t p" unfolding set_map by blast
  with assms(2) have "pe_node_id p = nid" by (simp only: promote_in_id)
  with q show ?thesis by (simp add: promote_in_def)
qed

text \<open>
  Repair.  Node \<open>u\<close> accepts a message; its link to \<open>v\<close> is lazy, so it only announces the
  message.  Node \<open>v\<close>, which does not have it, hears the announcement and no copy until its timeout
  has passed: its tick requests the message from \<open>u\<close>, \<open>u\<close> answers from its cache, and \<open>v\<close> delivers the
  message, cut at 256 bytes, and has it.  Both ends of the link are eager afterwards.
\<close>

theorem lost_push_repaired:
  assumes "pt_inv u" and "\<not> pt_has_msg u mid" and "pt_inv v" and "\<not> pt_has_msg v mid"
    and "p \<in> set (pt_view u)" and "pe_node_id p = vid" and "pe_link_type p \<noteq> WAKE_PT_EAGER" and "vid \<noteq> src"
    and "pt_recv_gossip u src mid pl t0 True True = ((r0, ann), u1)"
    and "now - t1 \<ge> ucast (pc_lazy_timeout_ms (pt_config v))"
    and "pt_tick (pt_recv_ihave v uid mid t1) now True = ((g, req), v1)"
    and "pt_recv_graft u1 vid mid t2 True = (answer, u2)"
    and "pt_recv_gossip v1 uid mid (take 256 pl) t3 True True = ((r, out), v2)"
  shows "Send WAKE_PT_IHAVE vid mid None \<in> set ann
    \<and> Send WAKE_PT_GRAFT uid mid None \<in> set req
    \<and> answer = [Send WAKE_PT_GOSSIP vid mid (Some (take 256 pl))]
    \<and> r \<and> hd out = Deliver mid (take 256 pl) uid \<and> pt_has_msg v2 mid
    \<and> (\<forall>q\<in>set (pt_view u2). pe_node_id q = vid \<longrightarrow> pe_link_type q = WAKE_PT_EAGER)
    \<and> (\<forall>q\<in>set (pt_view v2). pe_node_id q = uid \<longrightarrow> pe_link_type q = WAKE_PT_EAGER)"
proof -
  have "ann = Deliver mid pl src # map (push_to mid pl) (filter (\<lambda>q. pe_node_id q \<noteq> src) (pt_view u))"
    using gossip_new_message [OF assms(1,2,9)] by simp
  moreover have "p \<in> set (filter (\<lambda>q. pe_node_id q \<noteq> src) (pt_view u))" using assms(5,6,8) by simp
  ultimately have "push_to mid pl p \<in> set ann" by simp
  then have ann: "Send WAKE_PT_IHAVE vid mid None \<in> set ann" using assms(6,7) by (simp add: push_to_def)
  have req: "Send WAKE_PT_GRAFT uid mid None \<in> set req" using lazy_repair [OF assms(3,4,10,11)] by simp
  note ans = graft_answers_from_cache [OF assms(1,2,9,12)]
  have v1: "\<not> pt_has_msg v1 mid" using ihave_tick_has_msg [OF assms(3,4), of uid t1 now] assms(11) by simp
  have "pt_inv v1"
    using tick_spec(6) [OF pt_inv_recv_ihave [OF assms(3)], of uid mid t1 now True] assms(11) by simp
  note got = gossip_new_message [OF this v1 assms(13)]
  have "pe_link_type q = WAKE_PT_EAGER" if "q \<in> set (pt_view u2)" "pe_node_id q = vid" for q
    by (rule promoted_eager [of q vid t2 "pt_view u1"]) (use ans that in simp_all)
  moreover have "pe_link_type q = WAKE_PT_EAGER" if "q \<in> set (pt_view v2)" "pe_node_id q = uid" for q
    by (rule promoted_eager [of q uid t3 "pt_view v1"]) (use got that in simp_all)
  moreover have "r" "hd out = Deliver mid (take 256 pl) uid" "pt_has_msg v2 mid" using got by simp_all
  ultimately show ?thesis using ann req ans by blast
qed

text \<open>Node 2 has pruned its link to the demo node, and hears of a message of 300 bytes.\<close>

theorem lost_push_repaired_witness:
  "pt_has_msg (snd (pt_recv_gossip (snd (pt_tick (pt_recv_ihave pt_demo (pt_node 9) (pt_msg 7) 5) 200 True))
     (pt_node 9) (pt_msg 7) (take 256 (replicate 300 1)) 300 True True)) (pt_msg 7)"
proof -
  let ?u = "pt_recv_prune pt_demo (pt_node 2) 3"
  have inv: "pt_inv ?u" using pt_demo_reachable by (intro plumtree.reach_inv) (rule reach_step, simp, rule pt_step.recv_prune)
  have new: "\<not> pt_has_msg ?u (pt_msg 7)" by code_simp
  have "filter (\<lambda>p. pe_node_id p = pt_node 2 \<and> pe_link_type p \<noteq> WAKE_PT_EAGER) (pt_view ?u) \<noteq> []" by code_simp
  then obtain p where p: "p \<in> set (pt_view ?u)" "pe_node_id p = pt_node 2" "pe_link_type p \<noteq> WAKE_PT_EAGER"
    by (auto simp: filter_empty_conv)
  have ne: "pt_node 2 \<noteq> pt_node 1" by code_simp
  have late: "200 - 5 \<ge> (ucast (pc_lazy_timeout_ms (pt_config pt_demo)) :: u64)" by (simp add: pt_demo_timeout(1))
  obtain r0 ann u1 where a: "pt_recv_gossip ?u (pt_node 1) (pt_msg 7) (replicate 300 1) 4 True True = ((r0, ann), u1)"
    by (metis prod_cases3 prod.collapse)
  obtain g req v1 where b: "pt_tick (pt_recv_ihave pt_demo (pt_node 9) (pt_msg 7) 5) 200 True = ((g, req), v1)"
    by (metis prod_cases3 prod.collapse)
  obtain ans u2 where c: "pt_recv_graft u1 (pt_node 2) (pt_msg 7) 210 True = (ans, u2)" by force
  obtain r out v2 where d: "pt_recv_gossip v1 (pt_node 9) (pt_msg 7) (take 256 (replicate 300 1)) 300 True True
      = ((r, out), v2)" by (metis prod_cases3 prod.collapse)
  from lost_push_repaired [OF inv new pt_demo_inv pt_demo_timeout(2) p ne a late b c d] b d show ?thesis by simp
qed

end
