(* ===== verification/Wake_Plumtree_Net.thy ===== *)
theory Wake_Plumtree_Net
  imports Wake_Plumtree_Props
begin

text \<open>
  A network of PlumTree instances (\<open>src/src/wake_plumtree.c\<close>), one per node id.  What an instance
  hands to its send callback becomes a packet; a packet may be processed by its addressee at any
  time, in any order, any number of times or never, so that loss, reordering and duplication are
  covered.  The log records the calls of the deliver callbacks.
\<close>

section \<open>The network\<close>

record packet =
  pk_from :: bytes
  pk_to :: bytes
  pk_type :: wake_plumtree_msg_type_t
  pk_msg :: bytes
  pk_payload :: "bytes option"

record pt_net =
  nn_node :: "bytes \<Rightarrow> wake_plumtree_t"
  nn_sent :: "packet set"
  nn_done :: "packet set"
  nn_log :: "(bytes \<times> bytes \<times> bytes) list"
  nn_origin :: "(bytes \<times> bytes) set"

text \<open>The packets and the deliveries among the callbacks of node \<open>u\<close>.\<close>

primrec sends_of :: "bytes \<Rightarrow> pt_event \<Rightarrow> packet set" where
  "sends_of u (Send ty target mid pl) =
     {\<lparr>pk_from = u, pk_to = target, pk_type = ty, pk_msg = mid, pk_payload = pl\<rparr>}"
| "sends_of u (Deliver mid pl frm) = {}"

primrec delivers_of :: "bytes \<Rightarrow> pt_event \<Rightarrow> (bytes \<times> bytes \<times> bytes) list" where
  "delivers_of u (Send ty target mid pl) = []"
| "delivers_of u (Deliver mid pl frm) = [(u, mid, pl)]"

text \<open>Node \<open>u\<close> has made the calls \<open>es\<close> and is now \<open>pt\<close>.\<close>

definition net_emit :: "bytes \<Rightarrow> pt_event list \<times> wake_plumtree_t \<Rightarrow> pt_net \<Rightarrow> pt_net" where
  "net_emit u r N = N\<lparr>nn_node := (nn_node N)(u := snd r),
     nn_sent := nn_sent N \<union> (\<Union>e\<in>set (fst r). sends_of u e),
     nn_log := nn_log N @ concat (map (delivers_of u) (fst r))\<rparr>"

text \<open>The handler the host calls for a packet, by its type.\<close>

definition handle_packet :: "packet \<Rightarrow> u64 \<Rightarrow> wake_plumtree_t \<Rightarrow> pt_event list \<times> wake_plumtree_t" where
  "handle_packet k now_ms pt =
     (case pk_type k of
        WAKE_PT_GOSSIP \<Rightarrow>
          (case pk_payload k of
             None \<Rightarrow> ([], pt)
           | Some pl \<Rightarrow> (let ((_, es), pt') = pt_recv_gossip pt (pk_from k) (pk_msg k) pl now_ms True True
                        in (es, pt')))
      | WAKE_PT_IHAVE \<Rightarrow> ([], pt_recv_ihave pt (pk_from k) (pk_msg k) now_ms)
      | WAKE_PT_GRAFT \<Rightarrow> pt_recv_graft pt (pk_from k) (pk_msg k) now_ms True
      | WAKE_PT_PRUNE \<Rightarrow> ([], pt_recv_prune pt (pk_from k) now_ms))"

inductive net_recv :: "pt_net \<Rightarrow> pt_net \<Rightarrow> bool" where
  recv: "k \<in> nn_sent N \<Longrightarrow>
    net_recv N (net_emit (pk_to k) (handle_packet k now (nn_node N (pk_to k))) (N\<lparr>nn_done := insert k (nn_done N)\<rparr>))"

inductive net_step :: "pt_net \<Rightarrow> pt_net \<Rightarrow> bool" where
  receive: "net_recv N N' \<Longrightarrow> net_step N N'"
| broadcast: "net_step N (net_emit u (pt_broadcast (nn_node N u) mid pl now True)
    (N\<lparr>nn_origin := insert (mid, pl) (nn_origin N)\<rparr>))"
| tick: "net_step N (net_emit u (let ((_, es), pt') = pt_tick (nn_node N u) now True in (es, pt')) N)"
| add_peer: "net_step N (net_emit u ([], snd (pt_add_peer (nn_node N u) nid now)) N)"
| remove_peer: "net_step N (net_emit u ([], snd (pt_remove_peer (nn_node N u) nid)) N)"
| reset: "net_step N (net_emit u ([], pt_reset (nn_node N u)) N)"

definition net_init :: "pt_net \<Rightarrow> bool" where
  "net_init N \<longleftrightarrow> (\<forall>u. \<exists>cfg. wake_plumtree_create (Some u) cfg True True True True = Some (nn_node N u))
     \<and> nn_sent N = {} \<and> nn_done N = {} \<and> nn_log N = [] \<and> nn_origin N = {}"

section \<open>Integrity\<close>

text \<open>A payload that was broadcast under this id, or its first 256 bytes.\<close>

definition genuine :: "(bytes \<times> bytes) set \<Rightarrow> bytes \<Rightarrow> bytes \<Rightarrow> bool" where
  "genuine org mid pl \<longleftrightarrow> (\<exists>P. (mid, P) \<in> org \<and> (pl = P \<or> pl = take 256 P))"

lemma genuine_take: "genuine org mid pl \<Longrightarrow> genuine org mid (take 256 pl)"
  by (auto simp: genuine_def)

lemma genuine_mono: "genuine org mid pl \<Longrightarrow> org \<subseteq> org' \<Longrightarrow> genuine org' mid pl"
  by (auto simp: genuine_def)

definition cache_genuine :: "(bytes \<times> bytes) set \<Rightarrow> wake_plumtree_cache_entry_t list \<Rightarrow> bool" where
  "cache_genuine org es \<longleftrightarrow> (\<forall>e\<in>set es. ce_occupied e \<longrightarrow>
     genuine org (ce_msg_id e) (take (unat (ce_payload_len e)) (ce_payload e)))"

definition event_genuine :: "(bytes \<times> bytes) set \<Rightarrow> pt_event \<Rightarrow> bool" where
  "event_genuine org ev = (case ev of
     Send ty _ mid pl \<Rightarrow> ty = WAKE_PT_GOSSIP \<longrightarrow> (case pl of Some p \<Rightarrow> genuine org mid p | None \<Rightarrow> True)
   | Deliver mid pl _ \<Rightarrow> genuine org mid pl)"

definition packet_genuine :: "(bytes \<times> bytes) set \<Rightarrow> packet \<Rightarrow> bool" where
  "packet_genuine org k \<longleftrightarrow> (pk_type k = WAKE_PT_GOSSIP \<longrightarrow>
     (case pk_payload k of Some p \<Rightarrow> genuine org (pk_msg k) p | None \<Rightarrow> True))"

definition net_ok :: "pt_net \<Rightarrow> bool" where
  "net_ok N \<longleftrightarrow> (\<forall>u. pt_inv (nn_node N u) \<and> cache_genuine (nn_origin N) (pt_cache (nn_node N u)))
     \<and> (\<forall>k\<in>nn_sent N. packet_genuine (nn_origin N) k)
     \<and> (\<forall>(u, mid, pl)\<in>set (nn_log N). genuine (nn_origin N) mid pl)"

lemma cache_genuine_insert:
  assumes "pt_inv pt" "cache_genuine org (pt_cache pt)" "genuine org mid pl"
  shows "cache_genuine org (pt_cache (cache_insert pt mid pl now))"
proof -
  obtain i where i: "pt_cache (cache_insert pt mid pl now) = (pt_cache pt)[i := cache_entry mid pl now]"
    using cache_insert_slot [of pt mid pl now] assms(1) by (auto simp: pt_inv_def)
  have "genuine org mid (take (unat (ce_payload_len (cache_entry mid pl now))) (ce_payload (cache_entry mid pl now)))"
    using genuine_take [OF assms(3)] by simp
  with assms(2) show ?thesis
    by (auto simp: cache_genuine_def i dest!: set_update_subset_insert [THEN subsetD])
qed

lemma push_genuine:
  "genuine org mid pl \<Longrightarrow> e \<in> set (map (push_to mid pl) ps) \<Longrightarrow> event_genuine org e"
  by (auto simp: push_to_def event_genuine_def)

text \<open>What a node may do in a genuine network: keep its invariant, cache and send genuine payloads.\<close>

definition node_genuine :: "(bytes \<times> bytes) set \<Rightarrow> pt_event list \<times> wake_plumtree_t \<Rightarrow> bool" where
  "node_genuine org r \<longleftrightarrow> pt_inv (snd r) \<and> cache_genuine org (pt_cache (snd r)) \<and> (\<forall>e\<in>set (fst r). event_genuine org e)"

lemma sends_genuine: "k \<in> sends_of u e \<Longrightarrow> event_genuine org e \<Longrightarrow> packet_genuine org k"
  by (cases e) (auto simp: event_genuine_def packet_genuine_def split: option.splits)

lemma delivers_genuine: "(v, mid, pl) \<in> set (delivers_of u e) \<Longrightarrow> event_genuine org e \<Longrightarrow> genuine org mid pl"
  by (cases e) (auto simp: event_genuine_def)

lemma net_emit_ok:
  assumes "net_ok N" "node_genuine (nn_origin N) r"
  shows "net_ok (net_emit u r N)"
  using assms by (auto simp: net_ok_def net_emit_def node_genuine_def intro: sends_genuine delivers_genuine)

lemma net_ok_frame [simp]:
  "net_ok (N\<lparr>nn_done := d\<rparr>) = net_ok N"
  by (simp add: net_ok_def)

lemma net_ok_origin: "net_ok N \<Longrightarrow> net_ok (N\<lparr>nn_origin := insert x (nn_origin N)\<rparr>)"
  unfolding net_ok_def cache_genuine_def packet_genuine_def
  by (fastforce intro: genuine_mono split: option.splits)


lemma recv_gossip_genuine:
  assumes "pt_inv pt" "cache_genuine org (pt_cache pt)" "genuine org mid pl"
    and "pt_recv_gossip pt frm mid pl now True True = ((r, es), pt')"
  shows "node_genuine org (es, pt')"
proof (cases "pt_has_msg pt mid")
  case True
  have "pt_inv pt'" using pt_inv_recv_gossip [OF assms(1), of frm mid pl now True True] assms(4) by simp
  moreover have "pt_cache pt' = pt_cache pt" "es = [Send WAKE_PT_PRUNE frm mid None]"
    using True assms(4) by (auto simp: pt_recv_gossip_def pt_has_msg_def demote_lazy_def Let_def)
  ultimately show ?thesis using assms(2) by (simp add: node_genuine_def event_genuine_def)
next
  case False
  note T = accept_gossip_simps [OF assms(1), of frm mid pl now]
  from recv_gossip_new [OF assms(1) False, of frm pl now True True] assms(4)
  have r: "pt' = accept_gossip pt frm mid pl now"
    "es = Deliver mid pl frm # map (push_to mid pl) (filter (\<lambda>p. pe_node_id p \<noteq> frm) (pt_view pt))"
    by auto
  have "event_genuine org e" if "e \<in> set es" for e
    using that push_genuine [OF assms(3)] assms(3) by (auto simp: r(2) event_genuine_def)
  with T(2,5) cache_genuine_insert [OF assms(1-3)] show ?thesis by (simp add: node_genuine_def r(1))
qed

lemma recv_graft_genuine:
  assumes "pt_inv pt" "cache_genuine org (pt_cache pt)"
  shows "node_genuine org (pt_recv_graft pt frm mid now True)"
proof -
  define pt1 where "pt1 = promote_eager pt frm now"
  have c: "pt_cache pt1 = pt_cache pt" by (simp add: pt1_def promote_eager_def)
  have "event_genuine org e" if e: "e \<in> set (fst (pt_recv_graft pt frm mid now True))" for e
  proof (cases "cache_find pt1 mid")
    case (Some i)
    then have i: "i < length (pt_cache pt)" "ce_occupied (pt_cache pt ! i)" "ce_msg_id (pt_cache pt ! i) = mid"
      using c by (auto simp: cache_find_def wake_plumtree_msg_id_eq_def dest: find_index_SomeD)
    with assms(2) have "genuine org mid (take (unat (ce_payload_len (pt_cache pt ! i))) (ce_payload (pt_cache pt ! i)))"
      by (auto simp: cache_genuine_def)
    with e Some c show ?thesis
      by (auto simp: pt_recv_graft_def Let_def pt1_def [symmetric] event_genuine_def)
  qed (use e in \<open>auto simp: pt_recv_graft_def Let_def pt1_def [symmetric]\<close>)
  moreover have "pt_cache (snd (pt_recv_graft pt frm mid now True)) = pt_cache pt"
    by (simp add: pt_recv_graft_def Let_def promote_eager_def)
  ultimately show ?thesis
    using assms pt_inv_recv_graft [OF assms(1)] by (simp add: node_genuine_def)
qed

lemma handle_genuine:
  assumes "pt_inv pt" "cache_genuine org (pt_cache pt)" "packet_genuine org k"
  shows "node_genuine org (handle_packet k now pt)"
proof (cases "pk_type k")
  case WAKE_PT_GOSSIP
  show ?thesis
  proof (cases "pk_payload k")
    case None
    with WAKE_PT_GOSSIP assms show ?thesis by (simp add: handle_packet_def node_genuine_def)
  next
    case (Some pl)
    with WAKE_PT_GOSSIP assms(3) have g: "genuine org (pk_msg k) pl" by (simp add: packet_genuine_def)
    obtain r es pt' where "pt_recv_gossip pt (pk_from k) (pk_msg k) pl now True True = ((r, es), pt')"
      by (metis prod_cases3 prod.collapse)
    with recv_gossip_genuine [OF assms(1,2) g this] WAKE_PT_GOSSIP Some show ?thesis
      by (simp add: handle_packet_def)
  qed
next
  case WAKE_PT_IHAVE
  have "pt_cache (pt_recv_ihave pt (pk_from k) (pk_msg k) now) = pt_cache pt" by (simp add: pt_recv_ihave_def)
  with WAKE_PT_IHAVE assms pt_inv_recv_ihave [OF assms(1)] show ?thesis
    by (simp add: handle_packet_def node_genuine_def)
next
  case WAKE_PT_GRAFT
  with recv_graft_genuine [OF assms(1,2)] show ?thesis by (simp add: handle_packet_def)
next
  case WAKE_PT_PRUNE
  have "pt_cache (pt_recv_prune pt (pk_from k) now) = pt_cache pt" by (simp add: pt_recv_prune_def demote_lazy_def)
  with WAKE_PT_PRUNE assms pt_inv_recv_prune [OF assms(1)] show ?thesis
    by (simp add: handle_packet_def node_genuine_def)
qed

lemma broadcast_genuine:
  assumes "pt_inv pt" "cache_genuine org (pt_cache pt)" "(mid, pl) \<in> org"
  shows "node_genuine org (pt_broadcast pt mid pl now True)"
proof (cases "pl = []")
  case True
  with assms show ?thesis by (simp add: pt_broadcast_def node_genuine_def)
next
  case False
  have g: "genuine org mid pl" using assms(3) by (auto simp: genuine_def)
  have "event_genuine org e" if "e \<in> set (fst (pt_broadcast pt mid pl now True))" for e
    using that False push_genuine [OF g] by (simp add: pt_broadcast_def Let_def)
  moreover have "pt_cache (snd (pt_broadcast pt mid pl now True)) = pt_cache (cache_insert pt mid pl now)"
    using False by (simp add: pt_broadcast_def Let_def)
  ultimately show ?thesis
    using pt_inv_broadcast [OF assms(1)] cache_genuine_insert [OF assms(1,2) g] by (simp add: node_genuine_def)
qed

lemma tick_genuine:
  assumes "pt_inv pt" "cache_genuine org (pt_cache pt)" "pt_tick pt now True = ((g, es), pt')"
  shows "node_genuine org (es, pt')"
proof -
  note T = tick_spec [OF assms(1), of now True, unfolded assms(3)]
  have "cache_genuine org (map (evict_expired pt now) (pt_cache pt))"
    using assms(2) by (auto simp: cache_genuine_def evict_expired_def)
  then show ?thesis
    using T(2,4,6) by (auto simp: node_genuine_def event_genuine_def graft_event_def)
qed


lemma create_cache_empty:
  "wake_plumtree_create self cfg h a b c = Some pt \<Longrightarrow> e \<in> set (pt_cache pt) \<Longrightarrow> \<not> ce_occupied e"
  by (auto simp: wake_plumtree_create_def Let_def zero_cache_def split: option.splits if_splits)

lemma net_ok_init:
  assumes "net_init N"
  shows "net_ok N"
proof -
  have "pt_inv (nn_node N u) \<and> cache_genuine (nn_origin N) (pt_cache (nn_node N u))" for u
  proof -
    obtain cfg where c: "wake_plumtree_create (Some u) cfg True True True True = Some (nn_node N u)"
      using assms unfolding net_init_def by blast
    with pt_inv_create [OF c] create_cache_empty [OF c] show ?thesis by (auto simp: cache_genuine_def)
  qed
  with assms show ?thesis by (simp add: net_ok_def net_init_def)
qed

lemma peers_genuine:
  assumes "pt_inv pt" "cache_genuine org (pt_cache pt)"
  shows "node_genuine org ([], snd (pt_add_peer pt nid now))" "node_genuine org ([], snd (pt_remove_peer pt nid))"
    "node_genuine org ([], pt_reset pt)"
proof -
  have "pt_cache (snd (pt_add_peer pt nid now)) = pt_cache pt" "pt_cache (snd (pt_remove_peer pt nid)) = pt_cache pt"
    by (simp_all add: pt_add_peer_def pt_remove_peer_def Let_def split: option.split)
  moreover have "cache_genuine org (pt_cache (pt_reset pt))"
    by (auto simp: cache_genuine_def pt_reset_def zero_cache_def)
  ultimately show "node_genuine org ([], snd (pt_add_peer pt nid now))"
    "node_genuine org ([], snd (pt_remove_peer pt nid))" "node_genuine org ([], pt_reset pt)"
    using assms by (simp_all add: node_genuine_def pt_inv_add_peer pt_inv_remove_peer pt_inv_reset)
qed

lemma net_ok_node: "net_ok N \<Longrightarrow> pt_inv (nn_node N u)" "net_ok N \<Longrightarrow> cache_genuine (nn_origin N) (pt_cache (nn_node N u))"
  by (simp_all add: net_ok_def)

lemma net_ok_step:
  assumes "net_ok N" "net_step N N'"
  shows "net_ok N'"
  using assms(2)
proof cases
  case receive
  then obtain k now where k: "k \<in> nn_sent N"
    "N' = net_emit (pk_to k) (handle_packet k now (nn_node N (pk_to k))) (N\<lparr>nn_done := insert k (nn_done N)\<rparr>)"
    by (auto elim: net_recv.cases)
  have "packet_genuine (nn_origin N) k" using assms(1) k(1) by (auto simp: net_ok_def)
  with assms(1) show ?thesis
    unfolding k(2) by (intro net_emit_ok) (auto intro!: handle_genuine simp: net_ok_node)
next
  case (broadcast u mid pl now)
  define M where "M = N\<lparr>nn_origin := insert (mid, pl) (nn_origin N)\<rparr>"
  have "net_ok M" unfolding M_def by (rule net_ok_origin [OF assms(1)])
  then show ?thesis
    unfolding broadcast(1) M_def [symmetric]
    using broadcast_genuine [OF net_ok_node [OF \<open>net_ok M\<close>], of mid pl u now]
    by (intro net_emit_ok) (simp_all add: M_def)
next
  case (tick u now)
  obtain g es pt' where t: "pt_tick (nn_node N u) now True = ((g, es), pt')" by (metis prod_cases3 prod.collapse)
  show ?thesis
    unfolding tick using tick_genuine [OF net_ok_node [OF assms(1)] t] assms(1)
    by (simp add: t net_emit_ok)
qed (use peers_genuine [OF net_ok_node [OF assms(1)]] assms(1) in \<open>simp_all add: net_emit_ok\<close>)

interpretation net: invariant_machine net_init net_step net_ok
  by unfold_locales (auto intro: net_ok_init net_ok_step)

text \<open>
  C14. Integrity of the broadcast.  In a network of any size, under loss, duplication and
  reordering, with peers joining, leaving and resetting, whatever a node delivers to its
  application under a message id is a payload that some node broadcast under that id, or its first
  256 bytes.
\<close>

theorem no_fabrication:
  assumes "reach net_init net_step N" and "(u, mid, pl) \<in> set (nn_log N)"
  shows "\<exists>P. (mid, P) \<in> nn_origin N \<and> (pl = P \<or> pl = take 256 P)"
  using net.reach_inv [OF assms(1)] assms(2) by (auto simp: net_ok_def genuine_def)


text \<open>Node 0 adds node 1 as a peer and broadcasts; node 1 receives the GOSSIP.\<close>

definition pair_node :: "bytes \<Rightarrow> wake_plumtree_t" where
  "pair_node u = the (wake_plumtree_create (Some u) (Some pt_demo_config) True True True True)"

definition pair_net :: "nat \<Rightarrow> pt_net" where
  "pair_net n =
     (let N0 = \<lparr>nn_node = pair_node, nn_sent = {}, nn_done = {}, nn_log = [], nn_origin = {}\<rparr>;
          N1 = net_emit (pt_node 0) ([], snd (pt_add_peer (nn_node N0 (pt_node 0)) (pt_node 1) 1)) N0;
          N2 = net_emit (pt_node 0) (pt_broadcast (nn_node N1 (pt_node 0)) (pt_msg 7) [1, 2] 5 True)
                 (N1\<lparr>nn_origin := insert (pt_msg 7, [1, 2]) (nn_origin N1)\<rparr>);
          k = \<lparr>pk_from = pt_node 0, pk_to = pt_node 1, pk_type = WAKE_PT_GOSSIP, pk_msg = pt_msg 7,
               pk_payload = Some [1, 2]\<rparr>;
          N3 = net_emit (pk_to k) (handle_packet k 6 (nn_node N2 (pk_to k))) (N2\<lparr>nn_done := insert k (nn_done N2)\<rparr>)
      in [N0, N1, N2, N3] ! n)"

lemma pair_node_create:
  "wake_plumtree_create (Some u) (Some pt_demo_config) True True True True = Some (pair_node u)"
  by (simp add: pair_node_def wake_plumtree_create_def Let_def)

lemma pair_net_reach: "reach net_init net_step (pair_net 3)"
proof -
  define k where "k = \<lparr>pk_from = pt_node 0, pk_to = pt_node 1, pk_type = WAKE_PT_GOSSIP, pk_msg = pt_msg 7,
    pk_payload = Some [1, 2 :: u8]\<rparr>"
  have "net_init (pair_net 0)"
    using pair_node_create by (auto simp: net_init_def pair_net_def Let_def)
  then have 0: "reach net_init net_step (pair_net 0)" by (rule reach_init)
  have 1: "pair_net 1 = net_emit (pt_node 0) ([], snd (pt_add_peer (nn_node (pair_net 0) (pt_node 0)) (pt_node 1) 1)) (pair_net 0)"
    and 2: "pair_net 2 = net_emit (pt_node 0) (pt_broadcast (nn_node (pair_net 1) (pt_node 0)) (pt_msg 7) [1, 2] 5 True)
      ((pair_net 1)\<lparr>nn_origin := insert (pt_msg 7, [1, 2]) (nn_origin (pair_net 1))\<rparr>)"
    and 3: "pair_net 3 = net_emit (pk_to k) (handle_packet k 6 (nn_node (pair_net 2) (pk_to k)))
      ((pair_net 2)\<lparr>nn_done := insert k (nn_done (pair_net 2))\<rparr>)"
    by (simp_all add: pair_net_def k_def Let_def)
  have "k \<in> nn_sent (pair_net 2)" unfolding k_def by code_simp
  then have "net_step (pair_net 2) (pair_net 3)" unfolding 3 by (intro receive recv)
  moreover have "net_step (pair_net 1) (pair_net 2)" unfolding 2 by (rule broadcast)
  moreover have "net_step (pair_net 0) (pair_net 1)" unfolding 1 by (rule add_peer)
  ultimately show ?thesis using 0 by (blast intro: reach_step)
qed

theorem no_fabrication_witness:
  "(pt_node 1, pt_msg 7, [1, 2]) \<in> set (nn_log (pair_net 3))
     \<and> (\<exists>P. (pt_msg 7, P) \<in> nn_origin (pair_net 3) \<and> ([1, 2] = P \<or> [1, 2] = take 256 P))"
proof -
  have "(pt_node 1, pt_msg 7, [1, 2]) \<in> set (nn_log (pair_net 3))" by code_simp
  with no_fabrication [OF pair_net_reach this] show ?thesis by simp
qed

end
