(* ===== verification/Wake_Plumtree_Flood.thy ===== *)
theory Wake_Plumtree_Flood
  imports Wake_Plumtree_Net
begin

text \<open>
  Coverage of the eager push.  From a network whose links are all eager and whose caches are
  empty, one broadcast reaches every node to which a path of peer links leads, exactly once, by
  the time all packets have been processed; in which order, and how often each, does not matter.
\<close>

definition peers_of :: "pt_net \<Rightarrow> bytes \<Rightarrow> bytes set" where
  "peers_of N u = pe_node_id ` set (pt_view (nn_node N u))"

definition links :: "pt_net \<Rightarrow> (bytes \<times> bytes) set" where
  "links N = {(u, v). v \<in> peers_of N u}"

definition holds :: "pt_net \<Rightarrow> bytes \<Rightarrow> bytes \<Rightarrow> bool" where
  "holds N mid u \<longleftrightarrow> pt_has_msg (nn_node N u) mid"

definition log_of :: "pt_net \<Rightarrow> bytes \<Rightarrow> (bytes \<times> bytes \<times> bytes) list" where
  "log_of N u = filter (\<lambda>x. fst x = u) (nn_log N)"

definition quiet_net :: "pt_net \<Rightarrow> bool" where
  "quiet_net N \<longleftrightarrow> (\<forall>u. pt_inv (nn_node N u) \<and> (\<forall>e\<in>set (pt_cache (nn_node N u)). \<not> ce_occupied e)
       \<and> (\<forall>p\<in>set (pt_view (nn_node N u)). pe_link_type p = WAKE_PT_EAGER))
     \<and> nn_sent N = {} \<and> nn_done N = {} \<and> nn_log N = []"

text \<open>The state after node \<open>src\<close> has broadcast the message.\<close>

definition flood_init :: "bytes \<Rightarrow> bytes \<Rightarrow> bytes \<Rightarrow> pt_net \<Rightarrow> bool" where
  "flood_init src mid pl N \<longleftrightarrow> pl \<noteq> [] \<and> (\<exists>N0 now. quiet_net N0
     \<and> N = net_emit src (pt_broadcast (nn_node N0 src) mid pl now True) N0)"

definition gossip_packet :: "bytes \<Rightarrow> bytes \<Rightarrow> bytes \<Rightarrow> bytes \<Rightarrow> packet" where
  "gossip_packet u v mid pl =
     \<lparr>pk_from = u, pk_to = v, pk_type = WAKE_PT_GOSSIP, pk_msg = mid, pk_payload = Some pl\<rparr>"

text \<open>
  The invariant of the flood.  Only GOSSIPs of the message from nodes that hold it and PRUNEs to
  nodes that hold it are under way; a node without the message has eager links only and has
  delivered nothing; a node with it has delivered it once (unless it is the source) and has told
  every peer that does not hold it; whoever processed a GOSSIP holds the message.
\<close>

definition flood_packet :: "bytes \<Rightarrow> bytes \<Rightarrow> pt_net \<Rightarrow> packet \<Rightarrow> bool" where
  "flood_packet mid pl N k \<longleftrightarrow> pk_msg k = mid
     \<and> (pk_type k = WAKE_PT_GOSSIP \<and> pk_payload k = Some pl \<and> holds N mid (pk_from k)
        \<or> pk_type k = WAKE_PT_PRUNE \<and> holds N mid (pk_to k))"

definition flood_node :: "bytes \<Rightarrow> bytes \<Rightarrow> bytes \<Rightarrow> pt_net \<Rightarrow> bytes \<Rightarrow> bool" where
  "flood_node src mid pl N u \<longleftrightarrow> pt_inv (nn_node N u)
     \<and> (\<not> holds N mid u \<longrightarrow> log_of N u = [] \<and> (\<forall>p\<in>set (pt_view (nn_node N u)). pe_link_type p = WAKE_PT_EAGER))
     \<and> (holds N mid u \<longrightarrow> log_of N u = (if u = src then [] else [(u, mid, pl)])
          \<and> (\<forall>v\<in>peers_of N u. holds N mid v \<or> gossip_packet u v mid pl \<in> nn_sent N))"

definition flood_ok :: "bytes \<Rightarrow> bytes \<Rightarrow> bytes \<Rightarrow> pt_net \<Rightarrow> bool" where
  "flood_ok src mid pl N \<longleftrightarrow> holds N mid src \<and> (\<forall>u. flood_node src mid pl N u)
     \<and> (\<forall>k\<in>nn_sent N. flood_packet mid pl N k)
     \<and> (\<forall>k\<in>nn_done N. pk_type k = WAKE_PT_GOSSIP \<longrightarrow> holds N mid (pk_to k))"

section \<open>The broadcast starts the flood\<close>

lemma emit_fields [simp]:
  "nn_node (net_emit u r N) = (nn_node N)(u := snd r)"
  "nn_sent (net_emit u r N) = nn_sent N \<union> (\<Union>e\<in>set (fst r). sends_of u e)"
  "nn_done (net_emit u r N) = nn_done N"
  "nn_log (net_emit u r N) = nn_log N @ concat (map (delivers_of u) (fst r))"
  "nn_origin (net_emit u r N) = nn_origin N"
  by (simp_all add: net_emit_def)

lemma pushes_deliver_nothing [simp]: "delivers_of u (push_to mid pl p) = []"
  by (simp add: push_to_def)

lemma eager_sends:
  assumes "\<forall>p\<in>set ps. pe_link_type p = WAKE_PT_EAGER"
  shows "(\<Union>e\<in>set (map (push_to mid pl) ps). sends_of u e) = (\<lambda>p. gossip_packet u (pe_node_id p) mid pl) ` set ps"
  using assms by (force simp: push_to_def gossip_packet_def)

lemma flood_start:
  assumes "flood_init src mid pl N"
  shows "flood_ok src mid pl N"
proof -
  obtain N0 now where q: "quiet_net N0" and pl: "pl \<noteq> []"
    and N: "N = net_emit src (pt_broadcast (nn_node N0 src) mid pl now True) N0"
    using assms by (auto simp: flood_init_def)
  define pt where "pt = nn_node N0 src"
  have pt: "pt_inv pt" "\<forall>p\<in>set (pt_view pt). pe_link_type p = WAKE_PT_EAGER"
    using q by (auto simp: quiet_net_def pt_def)
  define pt' where "pt' = snd (pt_broadcast pt mid pl now True)"
  have b: "fst (pt_broadcast pt mid pl now True) = map (push_to mid pl) (pt_view pt)"
    "pt_view pt' = pt_view pt" "pt_has_msg pt' mid" "pt_inv pt'"
    using pl pt(1) has_msg_inserted [of pt mid pl now]
    by (auto simp: pt'_def pt_broadcast_def Let_def pt_inv_def has_msg_iff)
  have node: "nn_node N = (nn_node N0)(src := pt')" by (simp add: N pt_def pt'_def)
  have sent: "nn_sent N = (\<lambda>p. gossip_packet src (pe_node_id p) mid pl) ` set (pt_view pt)"
    using q eager_sends [OF pt(2)] by (simp add: N pt_def [symmetric] b(1) quiet_net_def)
  have log: "nn_log N = []" "nn_done N = {}" using q by (simp_all add: N pt_def [symmetric] b(1) quiet_net_def)
  have hold: "holds N mid u \<longleftrightarrow> u = src" for u
    using q b(3) by (auto simp: holds_def node has_msg_iff quiet_net_def)
  have "flood_node src mid pl N u" for u
    using q b hold by (auto simp: flood_node_def node log_of_def log quiet_net_def peers_of_def sent)
  then show ?thesis
    using hold by (auto simp: flood_ok_def log sent flood_packet_def gossip_packet_def)
qed


section \<open>Processing a packet keeps it going\<close>

lemma view_ids: "map pe_node_id (pt_view pt') = map pe_node_id (pt_view pt) \<Longrightarrow>
    pe_node_id ` set (pt_view pt') = pe_node_id ` set (pt_view pt)"
  by (metis set_map)

text \<open>A GOSSIP at a node that holds the message: one PRUNE, and the link changes.\<close>

lemma handle_duplicate:
  assumes "pt_inv pt" "pt_has_msg pt mid" "pk_type k = WAKE_PT_GOSSIP" "pk_msg k = mid" "pk_payload k = Some pl"
  obtains pt' where "handle_packet k now pt = ([Send WAKE_PT_PRUNE (pk_from k) mid None], pt')"
    "pt_inv pt'" "pt_has_msg pt' mid" "pe_node_id ` set (pt_view pt') = pe_node_id ` set (pt_view pt)"
proof -
  define r where "r = pt_recv_gossip pt (pk_from k) mid pl now True True"
  have ev: "snd (fst r) = [Send WAKE_PT_PRUNE (pk_from k) mid None]" "pt_cache (snd r) = pt_cache pt"
    using assms(2) by (auto simp: r_def pt_recv_gossip_def pt_has_msg_def demote_lazy_def Let_def)
  have "map pe_node_id (pt_view (snd r)) = map pe_node_id (pt_view pt)"
    using assms(1,2)
    by (simp add: r_def pt_recv_gossip_def pt_has_msg_def demote_lazy_def Let_def pt_inv_def set_link_ids)
  moreover have "pt_inv (snd r)" unfolding r_def by (rule pt_inv_recv_gossip [OF assms(1)])
  moreover have "handle_packet k now pt = (snd (fst r), snd r)"
    using assms(3-5) by (simp add: handle_packet_def r_def case_prod_unfold Let_def)
  moreover have "pt_has_msg (snd r) mid" using assms(2) by (simp add: has_msg_iff ev(2))
  ultimately show thesis using that [of "snd r"] ev(1) view_ids by metis
qed

text \<open>A GOSSIP at a node that does not: delivery, and a push to every other peer.\<close>

lemma handle_new:
  assumes "pt_inv pt" "\<not> pt_has_msg pt mid" "pk_type k = WAKE_PT_GOSSIP" "pk_msg k = mid" "pk_payload k = Some pl"
  obtains pt' where "handle_packet k now pt = (Deliver mid pl (pk_from k)
      # map (push_to mid pl) (filter (\<lambda>p. pe_node_id p \<noteq> pk_from k) (pt_view pt)), pt')"
    "pt_inv pt'" "pt_has_msg pt' mid" "pe_node_id ` set (pt_view pt') = pe_node_id ` set (pt_view pt)"
proof -
  note T = accept_gossip_simps [OF assms(1), of "pk_from k" mid pl now]
  have "pt_has_msg (accept_gossip pt (pk_from k) mid pl now) mid"
    using T(4) has_msg_inserted [of pt mid pl now] assms(1) by (simp add: pt_inv_def)
  moreover have "pe_node_id ` set (pt_view (accept_gossip pt (pk_from k) mid pl now)) = pe_node_id ` set (pt_view pt)"
    by (simp add: T(1) image_image)
  moreover have "handle_packet k now pt = (Deliver mid pl (pk_from k)
      # map (push_to mid pl) (filter (\<lambda>p. pe_node_id p \<noteq> pk_from k) (pt_view pt)), accept_gossip pt (pk_from k) mid pl now)"
    using assms(3-5) recv_gossip_new [OF assms(1,2), of "pk_from k" pl now True True]
    by (simp add: handle_packet_def)
  ultimately show thesis using that T(5) by blast
qed

lemma handle_prune:
  assumes "pt_inv pt" "pk_type k = WAKE_PT_PRUNE"
  obtains pt' where "handle_packet k now pt = ([], pt')" "pt_inv pt'" "pt_has_msg pt' mid = pt_has_msg pt mid"
    "pe_node_id ` set (pt_view pt') = pe_node_id ` set (pt_view pt)"
proof
  show "handle_packet k now pt = ([], pt_recv_prune pt (pk_from k) now)" using assms(2) by (simp add: handle_packet_def)
  show "pt_inv (pt_recv_prune pt (pk_from k) now)" by (rule pt_inv_recv_prune [OF assms(1)])
  show "pt_has_msg (pt_recv_prune pt (pk_from k) now) mid = pt_has_msg pt mid"
    by (simp add: pt_recv_prune_def demote_lazy_def)
  show "pe_node_id ` set (pt_view (pt_recv_prune pt (pk_from k) now)) = pe_node_id ` set (pt_view pt)"
    using assms(1) by (intro view_ids) (simp add: pt_recv_prune_def demote_lazy_def set_link_ids pt_inv_def)
qed

text \<open>
  A step at a node that already holds the message: its links may change and it may send PRUNEs to
  nodes that hold the message.
\<close>

lemma flood_holder_step:
  assumes ok: "flood_ok src mid pl N" and v: "holds N mid v"
    and pt': "pt_inv pt'" "pt_has_msg pt' mid" "pe_node_id ` set (pt_view pt') = peers_of N v"
    and M: "nn_node M = (nn_node N)(v := pt')" "nn_sent M = nn_sent N \<union> K" "nn_log M = nn_log N"
      "nn_done M = insert k (nn_done N)" and k: "pk_to k = v"
    and K: "\<And>x. x \<in> K \<Longrightarrow> pk_msg x = mid \<and> pk_type x = WAKE_PT_PRUNE \<and> holds N mid (pk_to x)"
  shows "flood_ok src mid pl M"
proof -
  have hold: "holds M mid u = holds N mid u" for u using v pt'(2) by (auto simp: holds_def M(1))
  have peers: "peers_of M u = peers_of N u" for u using pt'(3) by (auto simp: peers_of_def M(1))
  have "flood_node src mid pl M u" for u
    using ok v pt'(1) hold peers by (auto simp: flood_ok_def flood_node_def log_of_def M)
  then show ?thesis
    using ok v k K by (auto simp: flood_ok_def M flood_packet_def hold)
qed


text \<open>The step at which a node gets the message.\<close>

lemma flood_new_step:
  assumes ok: "flood_ok src mid pl N" and v: "\<not> holds N mid v" and f: "holds N mid f"
    and pt': "pt_inv pt'" "pt_has_msg pt' mid" "pe_node_id ` set (pt_view pt') = peers_of N v"
    and M: "nn_node M = (nn_node N)(v := pt')" "nn_log M = nn_log N @ [(v, mid, pl)]"
      "nn_sent M = nn_sent N \<union> (\<lambda>w. gossip_packet v w mid pl) ` (peers_of N v - {f})"
      "nn_done M = insert k (nn_done N)" and k: "pk_to k = v"
  shows "flood_ok src mid pl M"
proof -
  have hold: "holds M mid u \<longleftrightarrow> u = v \<or> holds N mid u" for u using pt'(2) by (auto simp: holds_def M(1))
  have peers: "peers_of M u = peers_of N u" for u using pt'(3) by (auto simp: peers_of_def M(1))
  have src: "v \<noteq> src" using ok v by (auto simp: flood_ok_def)
  have log: "log_of M u = (if u = v then log_of N v @ [(v, mid, pl)] else log_of N u)" for u
    by (simp add: log_of_def M(2))
  have node: "flood_node src mid pl N u" for u using ok by (simp add: flood_ok_def)
  have "flood_node src mid pl M u" for u
  proof (cases "u = v")
    case True
    with node [of v] v f pt'(1) src show ?thesis
      by (auto simp: flood_node_def hold peers log M(1,3))
  next
    case False
    with node [of u] show ?thesis by (auto simp: flood_node_def hold peers log M(1,3))
  qed
  then show ?thesis
    using ok k by (auto simp: flood_ok_def M flood_packet_def hold gossip_packet_def)
qed

lemma flood_step:
  assumes ok: "flood_ok src mid pl N" and "net_recv N M"
  shows "flood_ok src mid pl M"
proof -
  obtain k now where k: "k \<in> nn_sent N" and M:
    "M = net_emit (pk_to k) (handle_packet k now (nn_node N (pk_to k))) (N\<lparr>nn_done := insert k (nn_done N)\<rparr>)"
    using assms(2) by (auto elim: net_recv.cases)
  define v where "v = pk_to k"
  have fp: "flood_packet mid pl N k" and node: "flood_node src mid pl N v" using ok k by (auto simp: flood_ok_def)
  then have inv: "pt_inv (nn_node N v)" by (simp add: flood_node_def)
  from fp consider
    (new) "pk_type k = WAKE_PT_GOSSIP" "pk_msg k = mid" "pk_payload k = Some pl" "holds N mid (pk_from k)" "\<not> holds N mid v"
  | (dup) "pk_type k = WAKE_PT_GOSSIP" "pk_msg k = mid" "pk_payload k = Some pl" "holds N mid (pk_from k)" "holds N mid v"
  | (prune) "pk_type k = WAKE_PT_PRUNE" "holds N mid v"
    by (auto simp: flood_packet_def v_def)
  then show ?thesis
  proof cases
    case new
    obtain pt' where h: "handle_packet k now (nn_node N v) = (Deliver mid pl (pk_from k)
        # map (push_to mid pl) (filter (\<lambda>p. pe_node_id p \<noteq> pk_from k) (pt_view (nn_node N v))), pt')"
      "pt_inv pt'" "pt_has_msg pt' mid" "pe_node_id ` set (pt_view pt') = pe_node_id ` set (pt_view (nn_node N v))"
      using handle_new [OF inv _ new(1-3)] new(5) by (metis holds_def)
    define ps where "ps = filter (\<lambda>p. pe_node_id p \<noteq> pk_from k) (pt_view (nn_node N v))"
    have eager: "\<forall>p\<in>set ps. pe_link_type p = WAKE_PT_EAGER" using node new(5) by (auto simp: flood_node_def ps_def)
    have "(\<lambda>p. gossip_packet v (pe_node_id p) mid pl) ` set ps
        = (\<lambda>w. gossip_packet v w mid pl) ` (peers_of N v - {pk_from k})"
      by (auto simp: ps_def peers_of_def)
    with eager_sends [OF eager, of v mid pl] show ?thesis
      using h by (intro flood_new_step [OF ok new(5,4) h(2,3), of M k])
        (simp_all add: M v_def [symmetric] ps_def [symmetric] peers_of_def comp_def)
  next
    case dup
    obtain pt' where h: "handle_packet k now (nn_node N v) = ([Send WAKE_PT_PRUNE (pk_from k) mid None], pt')"
      "pt_inv pt'" "pt_has_msg pt' mid" "pe_node_id ` set (pt_view pt') = pe_node_id ` set (pt_view (nn_node N v))"
      using handle_duplicate [OF inv _ dup(1-3)] dup(5) by (metis holds_def)
    show ?thesis
      using h dup(4)
      by (intro flood_holder_step [OF ok dup(5) h(2,3), of M "sends_of v (Send WAKE_PT_PRUNE (pk_from k) mid None)" k])
        (auto simp: M v_def [symmetric] peers_of_def)
  next
    case prune
    obtain pt' where h: "handle_packet k now (nn_node N v) = ([], pt')" "pt_inv pt'"
      "pt_has_msg pt' mid = pt_has_msg (nn_node N v) mid"
      "pe_node_id ` set (pt_view pt') = pe_node_id ` set (pt_view (nn_node N v))"
      using handle_prune [OF inv prune(1)] by metis
    have "pt_has_msg pt' mid" using h(3) prune(2) by (simp add: holds_def)
    then show ?thesis
      using h(1,4) by (intro flood_holder_step [OF ok prune(2) h(2), of M "{}" k])
        (auto simp: M v_def [symmetric] peers_of_def)
  qed
qed

interpretation flood: invariant_machine "flood_init src mid pl" net_recv "flood_ok src mid pl"
  for src mid pl
  by unfold_locales (auto intro: flood_start flood_step)

text \<open>
  C11. Coverage.  Take a network of any size whose links are eager and whose caches are empty, and
  let one node broadcast a message.  Process packets in any order and any number of times.  Once
  every packet sent has been processed, every node to which a path of peer links leads from the
  source has delivered the message exactly once, with the payload that was broadcast, and the
  source has delivered nothing.
\<close>

theorem broadcast_reaches_all:
  assumes "reach (flood_init src mid pl) net_recv N" and "nn_sent N \<subseteq> nn_done N"
    and "(src, v) \<in> (links N)\<^sup>*"
  shows "log_of N v = (if v = src then [] else [(v, mid, pl)])"
proof -
  have ok: "flood_ok src mid pl N" by (rule flood.reach_inv [OF assms(1)])
  have "holds N mid v"
    using assms(3)
  proof (induction rule: rtrancl_induct)
    case base
    then show ?case using ok by (simp add: flood_ok_def)
  next
    case (step u w)
    then have w: "w \<in> peers_of N u" by (simp add: links_def)
    with ok step.IH have "holds N mid w \<or> gossip_packet u w mid pl \<in> nn_sent N"
      by (auto simp: flood_ok_def flood_node_def)
    moreover have "holds N mid w" if "gossip_packet u w mid pl \<in> nn_sent N"
    proof -
      have "gossip_packet u w mid pl \<in> nn_done N" using that assms(2) by blast
      then show ?thesis using ok by (force simp: flood_ok_def gossip_packet_def)
    qed
    ultimately show ?case by blast
  qed
  with ok show ?thesis by (simp add: flood_ok_def flood_node_def)
qed


text \<open>Three nodes in a line; node 0 broadcasts and both GOSSIPs are processed.\<close>

definition line_node :: "bytes \<Rightarrow> wake_plumtree_t" where
  "line_node u =
     (if u = pt_node 1 then snd (pt_add_peer (snd (pt_add_peer (pair_node u) (pt_node 0) 1)) (pt_node 2) 1)
      else if u = pt_node 0 \<or> u = pt_node 2 then snd (pt_add_peer (pair_node u) (pt_node 1) 1)
      else pair_node u)"

definition line_start :: pt_net where
  "line_start = \<lparr>nn_node = line_node, nn_sent = {}, nn_done = {}, nn_log = [], nn_origin = {}\<rparr>"

definition line_recv :: "packet \<Rightarrow> u64 \<Rightarrow> pt_net \<Rightarrow> pt_net" where
  "line_recv k now N = net_emit (pk_to k) (handle_packet k now (nn_node N (pk_to k))) (N\<lparr>nn_done := insert k (nn_done N)\<rparr>)"

definition line_end :: pt_net where
  "line_end =
     line_recv (gossip_packet (pt_node 1) (pt_node 2) (pt_msg 7) [1, 2]) 7
       (line_recv (gossip_packet (pt_node 0) (pt_node 1) (pt_msg 7) [1, 2]) 6
          (net_emit (pt_node 0) (pt_broadcast (line_node (pt_node 0)) (pt_msg 7) [1, 2] 5 True) line_start))"

lemma pair_node_fresh:
  "pt_inv (pair_node u)" "e \<in> set (pt_cache (pair_node u)) \<Longrightarrow> \<not> ce_occupied e" "pt_view (pair_node u) = []"
proof -
  show "pt_inv (pair_node u)" "e \<in> set (pt_cache (pair_node u)) \<Longrightarrow> \<not> ce_occupied e"
    by (rule pt_inv_create [OF pair_node_create], rule create_cache_empty [OF pair_node_create])
  show "pt_view (pair_node u) = []" by (simp add: pair_node_def wake_plumtree_create_def Let_def pt_view_def)
qed

lemma line_quiet: "quiet_net line_start"
proof -
  have c: "pt_cache (snd (pt_add_peer pt nid now)) = pt_cache pt" for pt nid now
    by (simp add: pt_add_peer_def)
  have "pt_inv (line_node u)" for u
    by (simp add: line_node_def pt_inv_add_peer pair_node_fresh(1))
  moreover have "\<forall>e\<in>set (pt_cache (line_node u)). \<not> ce_occupied e" for u
    using pair_node_fresh(2) by (simp add: line_node_def c)
  moreover have "\<forall>p\<in>set (pt_view (line_node u)). pe_link_type p = WAKE_PT_EAGER" for u
  proof -
    have 0: "\<forall>p\<in>set (pt_view (line_node (pt_node 0))). pe_link_type p = WAKE_PT_EAGER" by code_simp
    have 1: "\<forall>p\<in>set (pt_view (line_node (pt_node 1))). pe_link_type p = WAKE_PT_EAGER" by code_simp
    have 2: "\<forall>p\<in>set (pt_view (line_node (pt_node 2))). pe_link_type p = WAKE_PT_EAGER" by code_simp
    consider "u = pt_node 0" | "u = pt_node 1" | "u = pt_node 2" | "u \<noteq> pt_node 0" "u \<noteq> pt_node 1" "u \<noteq> pt_node 2"
      by blast
    then show ?thesis
    proof cases
      case 4
      then have "line_node u = pair_node u" by (simp add: line_node_def)
      then show ?thesis by (simp add: pair_node_fresh(3))
    qed (use 0 1 2 in \<open>simp_all only:\<close>)
  qed
  ultimately show ?thesis by (simp add: quiet_net_def line_start_def)
qed

lemma line_recv_step: "reach init net_recv N \<Longrightarrow> k \<in> nn_sent N \<Longrightarrow> reach init net_recv (line_recv k now N)"
  unfolding line_recv_def by (erule reach_step) (rule recv)

lemma line_events:
  "fst (pt_broadcast (line_node (pt_node 0)) (pt_msg 7) [1, 2] 5 True)
     = [Send WAKE_PT_GOSSIP (pt_node 1) (pt_msg 7) (Some [1, 2])]"
  "fst (handle_packet (gossip_packet (pt_node 0) (pt_node 1) (pt_msg 7) [1, 2]) 6 (line_node (pt_node 1)))
     = [Deliver (pt_msg 7) [1, 2] (pt_node 0), Send WAKE_PT_GOSSIP (pt_node 2) (pt_msg 7) (Some [1, 2])]"
  "fst (handle_packet (gossip_packet (pt_node 1) (pt_node 2) (pt_msg 7) [1, 2]) 7 (line_node (pt_node 2)))
     = [Deliver (pt_msg 7) [1, 2] (pt_node 1)]"
  by code_simp+

lemma line_peers:
  "pt_node 1 \<in> pe_node_id ` set (pt_view (snd (pt_broadcast (line_node (pt_node 0)) (pt_msg 7) [1, 2] 5 True)))"
  "pt_node 2 \<in> pe_node_id ` set (pt_view (snd (handle_packet
      (gossip_packet (pt_node 0) (pt_node 1) (pt_msg 7) [1, 2]) 6 (line_node (pt_node 1)))))"
  "pt_node 0 \<noteq> pt_node 1" "pt_node 0 \<noteq> pt_node 2" "pt_node 1 \<noteq> pt_node 2"
  by code_simp+

lemma gossip_packet_to [simp]: "pk_to (gossip_packet u v mid pl) = v"
  by (simp add: gossip_packet_def)

lemma sends_of_gossip: "sends_of u (Send WAKE_PT_GOSSIP v mid (Some pl)) = {gossip_packet u v mid pl}"
  by (simp add: gossip_packet_def)

lemmas line_simps = sends_of_gossip line_recv_def line_start_def line_events line_peers line_peers(3-5) [symmetric]

lemma line_reach: "reach (flood_init (pt_node 0) (pt_msg 7) [1, 2]) net_recv line_end"
proof -
  define N where "N = net_emit (pt_node 0) (pt_broadcast (line_node (pt_node 0)) (pt_msg 7) [1, 2] 5 True) line_start"
  have "flood_init (pt_node 0) (pt_msg 7) [1, 2] N"
    unfolding flood_init_def N_def using line_quiet
    by (intro conjI exI [of _ line_start] exI [of _ 5]) (simp_all add: line_start_def)
  then have r: "reach (flood_init (pt_node 0) (pt_msg 7) [1, 2]) net_recv N" by (rule reach_init)
  have s: "gossip_packet (pt_node 0) (pt_node 1) (pt_msg 7) [1, 2] \<in> nn_sent N"
    "gossip_packet (pt_node 1) (pt_node 2) (pt_msg 7) [1, 2]
       \<in> nn_sent (line_recv (gossip_packet (pt_node 0) (pt_node 1) (pt_msg 7) [1, 2]) 6 N)"
    by (simp_all add: N_def line_simps del: One_nat_def sends_of.simps(1))
  show ?thesis
    unfolding line_end_def N_def [symmetric] by (intro line_recv_step r s)
qed

theorem broadcast_reaches_all_witness: "log_of line_end (pt_node 2) = [(pt_node 2, pt_msg 7, [1, 2])]"
proof -
  have "pt_node 1 \<in> peers_of line_end (pt_node 0)" "pt_node 2 \<in> peers_of line_end (pt_node 1)"
    by (simp_all add: line_end_def peers_of_def line_simps del: One_nat_def)
  then have "(pt_node 0, pt_node 2) \<in> (links line_end)\<^sup>*"
    by (intro rtrancl_into_rtrancl [OF r_into_rtrancl]) (simp_all add: links_def)
  moreover have "nn_sent line_end \<subseteq> nn_done line_end"
    by (simp add: line_end_def line_simps del: One_nat_def sends_of.simps(1))
  ultimately show ?thesis using broadcast_reaches_all [OF line_reach, of "pt_node 2"] line_peers by simp
qed

end
