(* ===== verification/Wake_Plumtree_Mend.thy ===== *)
theory Wake_Plumtree_Mend
  imports Wake_Plumtree_Flood
begin

text \<open>
  Coverage with lazy links and lost pushes.  The links of the network are eager or lazy as they may
  be; one node broadcasts; packets are processed in any order and any number of times, and timers tick
  at any node as long as no cached message expires.  Announcements wait in the pending lists, a tick
  requests what is overdue, the request is answered from the cache.  An eager push may be lost: the
  message still arrives wherever some other link announces it.
\<close>

section \<open>The network while it is mended\<close>

definition sent_on :: "pt_net \<Rightarrow> wake_plumtree_msg_type_t \<Rightarrow> bytes \<Rightarrow> bytes \<Rightarrow> bool" where
  "sent_on N ty u w \<longleftrightarrow> (\<exists>k\<in>nn_sent N. pk_type k = ty \<and> pk_from k = u \<and> pk_to k = w)"

definition done_on :: "pt_net \<Rightarrow> wake_plumtree_msg_type_t \<Rightarrow> bytes \<Rightarrow> bytes \<Rightarrow> bool" where
  "done_on N ty u w \<longleftrightarrow> (\<exists>k\<in>nn_done N. pk_type k = ty \<and> pk_from k = u \<and> pk_to k = w)"

text \<open>The instance waits for the message, announced by \<open>w\<close>; and it waits for nothing else.\<close>

definition waits :: "wake_plumtree_t \<Rightarrow> bytes \<Rightarrow> bytes \<Rightarrow> bool" where
  "waits pt mid w \<longleftrightarrow> (\<exists>p\<in>set (pt_pending pt). pn_active p \<and> pn_msg_id p = mid \<and> pn_from_id p = w)"

definition waits_only :: "wake_plumtree_t \<Rightarrow> bytes \<Rightarrow> bool" where
  "waits_only pt mid \<longleftrightarrow> (\<forall>p\<in>set (pt_pending pt). pn_active p \<longrightarrow> pn_msg_id p = mid)"

inductive mend_step :: "pt_net \<Rightarrow> pt_net \<Rightarrow> bool" where
  ms_recv: "net_recv N N' \<Longrightarrow> mend_step N N'"
| ms_tick: "(\<And>e. e \<in> set (pt_cache (nn_node N u)) \<Longrightarrow> \<not> cache_expired (nn_node N u) now e) \<Longrightarrow>
     mend_step N (net_emit u (let ((_, es), pt') = pt_tick (nn_node N u) now True in (es, pt')) N)"

text \<open>Before the broadcast: any peers over any links, nothing cached, announced or sent.\<close>

definition idle_net :: "pt_net \<Rightarrow> bool" where
  "idle_net N \<longleftrightarrow> (\<forall>u. pt_inv (nn_node N u) \<and> (\<forall>e\<in>set (pt_cache (nn_node N u)). \<not> ce_occupied e)
       \<and> (\<forall>p\<in>set (pt_pending (nn_node N u)). \<not> pn_active p))
     \<and> nn_sent N = {} \<and> nn_done N = {} \<and> nn_log N = [] \<and> nn_origin N = {}"

definition mend_init :: "bytes \<Rightarrow> bytes \<Rightarrow> bytes \<Rightarrow> pt_net \<Rightarrow> bool" where
  "mend_init src mid pl N \<longleftrightarrow> pl \<noteq> [] \<and> (\<exists>N0 now. idle_net N0
     \<and> N = net_emit src (pt_broadcast (nn_node N0 src) mid pl now True) (N0\<lparr>nn_origin := {(mid, pl)}\<rparr>))"

section \<open>Invariant\<close>

text \<open>
  Only the message is under way, and only its holders push or announce it; a request follows an
  announcement; a holder has told every peer that is not a holder; what was processed had its
  effect: a push made a holder, an announcement a holder or one that waits or has requested, a
  request an answer.
\<close>

definition mend_packets :: "bytes \<Rightarrow> pt_net \<Rightarrow> bool" where
  "mend_packets mid N \<longleftrightarrow> nn_done N \<subseteq> nn_sent N
     \<and> (\<forall>k\<in>nn_sent N. pk_msg k = mid \<and> (pk_type k = WAKE_PT_GOSSIP \<longrightarrow> pk_payload k \<noteq> None)
          \<and> (pk_type k = WAKE_PT_GOSSIP \<or> pk_type k = WAKE_PT_IHAVE \<longrightarrow> holds N mid (pk_from k))
          \<and> (pk_type k = WAKE_PT_GRAFT \<longrightarrow> sent_on N WAKE_PT_IHAVE (pk_to k) (pk_from k)))"

definition mend_done :: "bytes \<Rightarrow> pt_net \<Rightarrow> bool" where
  "mend_done mid N \<longleftrightarrow> (\<forall>k\<in>nn_done N.
       (pk_type k = WAKE_PT_GOSSIP \<longrightarrow> holds N mid (pk_to k))
     \<and> (pk_type k = WAKE_PT_IHAVE \<longrightarrow> holds N mid (pk_to k) \<or> (\<exists>x. waits (nn_node N (pk_to k)) mid x)
          \<or> (\<exists>x. sent_on N WAKE_PT_GRAFT (pk_to k) x))
     \<and> (pk_type k = WAKE_PT_GRAFT \<longrightarrow> sent_on N WAKE_PT_GOSSIP (pk_to k) (pk_from k)))"

definition mend_node :: "bytes \<Rightarrow> bytes \<Rightarrow> pt_net \<Rightarrow> bytes \<Rightarrow> bool" where
  "mend_node src mid N u \<longleftrightarrow> waits_only (nn_node N u) mid
     \<and> (\<forall>w. waits (nn_node N u) mid w \<longrightarrow> sent_on N WAKE_PT_IHAVE w u)
     \<and> (holds N mid u \<longrightarrow> (\<forall>w\<in>peers_of N u. holds N mid w \<or> sent_on N WAKE_PT_GOSSIP u w \<or> sent_on N WAKE_PT_IHAVE u w))
     \<and> (if holds N mid u \<and> u \<noteq> src then \<exists>q. log_of N u = [(u, mid, q)] else log_of N u = [])"

definition mend_ok :: "bytes \<Rightarrow> bytes \<Rightarrow> bytes \<Rightarrow> pt_net \<Rightarrow> bool" where
  "mend_ok src mid pl N \<longleftrightarrow> net_ok N \<and> nn_origin N = {(mid, pl)} \<and> holds N mid src
     \<and> mend_packets mid N \<and> mend_done mid N \<and> (\<forall>u. mend_node src mid N u)"

section \<open>One action\<close>

text \<open>
  What node \<open>v\<close>, so far \<open>pt\<close>, may do with the calls \<open>es\<close>, ending as \<open>pt'\<close>; \<open>fresh\<close> says that it gets the
  message by this action.  Requests go to nodes that have announced.
\<close>

definition mend_act :: "bytes \<Rightarrow> bytes \<Rightarrow> pt_net \<Rightarrow> bytes \<Rightarrow> bool \<Rightarrow> pt_event list \<Rightarrow> wake_plumtree_t \<Rightarrow> bool" where
  "mend_act src mid N v fresh es pt' \<longleftrightarrow>
     pt_has_msg pt' mid = (holds N mid v \<or> fresh) \<and> (fresh \<longrightarrow> \<not> holds N mid v)
   \<and> pe_node_id ` set (pt_view pt') = peers_of N v
   \<and> waits_only pt' mid \<and> (\<forall>w. waits pt' mid w \<longrightarrow> sent_on N WAKE_PT_IHAVE w v)
   \<and> (\<forall>k\<in>(\<Union>e\<in>set es. sends_of v e). pk_msg k = mid \<and> (pk_type k = WAKE_PT_GOSSIP \<longrightarrow> pk_payload k \<noteq> None)
        \<and> (pk_type k = WAKE_PT_GOSSIP \<or> pk_type k = WAKE_PT_IHAVE \<longrightarrow> pt_has_msg pt' mid)
        \<and> (pk_type k = WAKE_PT_GRAFT \<longrightarrow> sent_on N WAKE_PT_IHAVE (pk_to k) v))
   \<and> (if fresh then \<exists>q. concat (map (delivers_of v) es) = [(v, mid, q)] else concat (map (delivers_of v) es) = [])
   \<and> (fresh \<longrightarrow> (\<forall>w\<in>peers_of N v. holds N mid w
        \<or> (\<exists>k\<in>(\<Union>e\<in>set es. sends_of v e). pk_to k = w \<and> (pk_type k = WAKE_PT_GOSSIP \<or> pk_type k = WAKE_PT_IHAVE))))
   \<and> ((\<exists>x. waits (nn_node N v) mid x) \<longrightarrow> pt_has_msg pt' mid \<or> (\<exists>x. waits pt' mid x)
        \<or> (\<exists>k\<in>(\<Union>e\<in>set es. sends_of v e). pk_type k = WAKE_PT_GRAFT))"

text \<open>What the packet that caused the action must have achieved by it.\<close>

definition mend_effect :: "bytes \<Rightarrow> bytes \<Rightarrow> pt_event list \<Rightarrow> wake_plumtree_t \<Rightarrow> packet \<Rightarrow> bool" where
  "mend_effect mid v es pt' k \<longleftrightarrow> pk_to k = v
   \<and> (pk_type k = WAKE_PT_GOSSIP \<longrightarrow> pt_has_msg pt' mid)
   \<and> (pk_type k = WAKE_PT_IHAVE \<longrightarrow> pt_has_msg pt' mid \<or> (\<exists>x. waits pt' mid x))
   \<and> (pk_type k = WAKE_PT_GRAFT \<longrightarrow> (\<exists>g\<in>(\<Union>e\<in>set es. sends_of v e). pk_type g = WAKE_PT_GOSSIP \<and> pk_to g = pk_from k))"

lemma sends_from: "k \<in> sends_of v e \<Longrightarrow> pk_from k = v"
  by (cases e) simp_all

lemma delivers_from: "x \<in> set (delivers_of v e) \<Longrightarrow> fst x = v"
  by (cases e) auto

lemma mend_action:
  assumes ok: "mend_ok src mid pl N" and net: "net_ok M" and act: "mend_act src mid N v fresh es pt'"
    and M: "M = net_emit v (es, pt') (N\<lparr>nn_done := D\<rparr>)"
    and D: "nn_done N \<subseteq> D" "\<And>k. k \<in> D \<Longrightarrow> k \<notin> nn_done N \<Longrightarrow> k \<in> nn_sent N \<and> mend_effect mid v es pt' k"
  shows "mend_ok src mid pl M"
proof -
  define K where "K = (\<Union>e\<in>set es. sends_of v e)"
  have K: "pk_from k = v" if "k \<in> K" for k using that sends_from by (auto simp: K_def)
  note act' = act [unfolded mend_act_def K_def [symmetric]]
  have hold: "holds M mid u \<longleftrightarrow> holds N mid u \<or> u = v \<and> fresh" for u
    using act' by (auto simp: holds_def M)
  have peers: "peers_of M u = peers_of N u" for u using act' by (auto simp: peers_of_def M)
  have sent: "nn_sent M = nn_sent N \<union> K" "nn_done M = D" "nn_origin M = nn_origin N"
    by (simp_all add: M K_def)
  have mono: "sent_on N ty a b \<Longrightarrow> sent_on M ty a b" for ty a b by (auto simp: sent_on_def sent)
  have new: "k \<in> K \<Longrightarrow> sent_on M (pk_type k) v (pk_to k)" for k using K by (auto simp: sent_on_def sent)
  have node: "nn_node M = (nn_node N)(v := pt')" by (simp add: M)
  have pk: "mend_packets mid N" and dn: "mend_done mid N" and nd: "\<And>u. mend_node src mid N u"
    using ok by (simp_all add: mend_ok_def)
  have log: "log_of M u = log_of N u @ (if u = v then concat (map (delivers_of v) es) else [])" for u
  proof -
    have "filter (\<lambda>x. fst x = u) (concat (map (delivers_of v) es)) = (if u = v then concat (map (delivers_of v) es) else [])"
      using delivers_from by (auto simp: filter_id_conv filter_empty_conv)
    then show ?thesis by (simp add: log_of_def M)
  qed
  have has: "pt_has_msg pt' mid = holds M mid v" by (simp add: holds_def node)
  have packets: "mend_packets mid M"
    unfolding mend_packets_def
  proof (intro conjI ballI)
    show "nn_done M \<subseteq> nn_sent M" using D(2) pk by (auto simp: mend_packets_def sent)
    fix k
    assume "k \<in> nn_sent M"
    then consider "k \<in> nn_sent N" | "k \<in> K" by (auto simp: sent)
    then show "pk_msg k = mid" "pk_type k = WAKE_PT_GOSSIP \<longrightarrow> pk_payload k \<noteq> None"
      "pk_type k = WAKE_PT_GOSSIP \<or> pk_type k = WAKE_PT_IHAVE \<longrightarrow> holds M mid (pk_from k)"
      "pk_type k = WAKE_PT_GRAFT \<longrightarrow> sent_on M WAKE_PT_IHAVE (pk_to k) (pk_from k)"
      by (cases; use pk act' K has hold mono in \<open>simp add: mend_packets_def\<close>)+
  qed
  have dones: "mend_done mid M"
    unfolding mend_done_def
  proof (intro ballI)
    fix k
    assume k: "k \<in> nn_done M"
    show "(pk_type k = WAKE_PT_GOSSIP \<longrightarrow> holds M mid (pk_to k))
     \<and> (pk_type k = WAKE_PT_IHAVE \<longrightarrow> holds M mid (pk_to k) \<or> (\<exists>x. waits (nn_node M (pk_to k)) mid x)
          \<or> (\<exists>x. sent_on M WAKE_PT_GRAFT (pk_to k) x))
     \<and> (pk_type k = WAKE_PT_GRAFT \<longrightarrow> sent_on M WAKE_PT_GOSSIP (pk_to k) (pk_from k))"
    proof (cases "k \<in> nn_done N")
      case True
      define w where "w = pk_to k"
      have old: "pk_type k = WAKE_PT_GOSSIP \<Longrightarrow> holds N mid w"
        "pk_type k = WAKE_PT_IHAVE \<Longrightarrow> holds N mid w \<or> (\<exists>x. waits (nn_node N w) mid x) \<or> (\<exists>x. sent_on N WAKE_PT_GRAFT w x)"
        "pk_type k = WAKE_PT_GRAFT \<Longrightarrow> sent_on N WAKE_PT_GOSSIP w (pk_from k)"
        using dn True by (simp_all add: mend_done_def w_def)
      have "holds M mid w \<or> (\<exists>x. waits (nn_node M w) mid x) \<or> (\<exists>x. sent_on M WAKE_PT_GRAFT w x)"
        if "waits (nn_node N w) mid x" for x
      proof (cases "w = v")
        case True
        with that have "\<exists>x. waits (nn_node N v) mid x" by auto
        with act' have "pt_has_msg pt' mid \<or> (\<exists>x. waits pt' mid x) \<or> (\<exists>k\<in>K. pk_type k = WAKE_PT_GRAFT)" by blast
        with True show ?thesis by (auto simp: node has dest: new)
      qed (use that in \<open>auto simp: node\<close>)
      with old mono show ?thesis unfolding w_def [symmetric] using hold by blast
    next
      case False
      with k D(2) have e: "mend_effect mid v es pt' k" by (auto simp: sent)
      then have v: "pk_to k = v" by (simp add: mend_effect_def)
      from e show ?thesis
        unfolding mend_effect_def K_def [symmetric] v has by (auto simp: node dest: new)
    qed
  qed
  have nodes: "mend_node src mid M u" for u
  proof (cases "u = v")
    case True
    have push: "holds M mid w \<or> sent_on M WAKE_PT_GOSSIP v w \<or> sent_on M WAKE_PT_IHAVE v w"
      if "holds M mid v" "w \<in> peers_of N v" for w
    proof (cases fresh)
      case True
      with act' that(2) have "holds N mid w \<or> (\<exists>k\<in>K. pk_to k = w \<and> (pk_type k = WAKE_PT_GOSSIP \<or> pk_type k = WAKE_PT_IHAVE))"
        by blast
      then show ?thesis using hold new by metis
    next
      case False
      with that nd [of v] show ?thesis by (auto simp: mend_node_def hold intro: mono)
    qed
    have "v \<noteq> src" if fresh using that act' ok by (auto simp: mend_ok_def)
    then have "if holds M mid v \<and> v \<noteq> src then \<exists>q. log_of M v = [(v, mid, q)] else log_of M v = []"
      using nd [of v] act' by (cases fresh) (auto simp: mend_node_def hold log)
    with True push act' mono show ?thesis by (simp add: mend_node_def node peers)
  next
    case False
    with nd [of u] mono show ?thesis by (auto simp: mend_node_def node peers hold log)
  qed
  show ?thesis using ok net packets dones nodes hold by (simp add: mend_ok_def sent)
qed

section \<open>The handlers are such actions\<close>

lemma waits_same: "pt_pending pt' = pt_pending pt \<Longrightarrow> waits pt' = waits pt"
    and waits_only_same: "pt_pending pt' = pt_pending pt \<Longrightarrow> waits_only pt' = waits_only pt"
  by (auto simp: waits_def waits_only_def fun_eq_iff)

text \<open>An action at a node that keeps its cache and its pending list.\<close>

lemma mend_act_quiet:
  assumes "mend_ok src mid pl N" and "pt_has_msg pt' mid = holds N mid v"
    and "pe_node_id ` set (pt_view pt') = peers_of N v" and "pt_pending pt' = pt_pending (nn_node N v)"
    and "\<And>e. e \<in> set es \<Longrightarrow> \<exists>t. e = Send WAKE_PT_PRUNE t mid None
        \<or> (\<exists>p. e = Send WAKE_PT_GOSSIP t mid (Some p) \<and> holds N mid v)"
  shows "mend_act src mid N v False es pt'"
proof -
  have n: "waits_only pt' mid" "\<forall>w. waits pt' mid w \<longrightarrow> sent_on N WAKE_PT_IHAVE w v"
    "waits pt' = waits (nn_node N v)"
    using assms(1) waits_same [OF assms(4)] waits_only_same [OF assms(4)] by (auto simp: mend_ok_def mend_node_def)
  have "delivers_of v e = []" if "e \<in> set es" for e using assms(5) [OF that] by auto
  then have d: "concat (map (delivers_of v) es) = []" by simp
  show ?thesis
    unfolding mend_act_def using assms(2,3) n d
    by (auto dest!: assms(5))
qed

lemma pending_add_waits:
  assumes "p \<in> set (pt_pending (pending_add pt mid frm now))" "pn_active p"
  shows "p \<in> set (pt_pending pt) \<or> pn_msg_id p = mid \<and> pn_from_id p = frm"
proof (cases "pending_find pt mid")
  case (Some i)
  with assms show ?thesis
    by (auto simp: pending_add_def Let_def dest!: pending_find_SomeD set_update_subset_insert [THEN subsetD])
next
  case None
  with assms show ?thesis
    by (auto simp: pending_add_def Let_def dest!: set_update_subset_insert [THEN subsetD] split: option.splits)
qed

lemma accept_waits:
  assumes "pt_inv pt" "waits_only pt mid"
  shows "waits_only (accept_gossip pt frm mid pl now) mid" "\<not> waits (accept_gossip pt frm mid pl now) mid w"
proof -
  have "pn_active p \<Longrightarrow> p \<in> set (pt_pending pt)" if "p \<in> set (pt_pending (accept_gossip pt frm mid pl now))" for p
    using that
    by (auto simp: accept_gossip_def promote_eager_def pending_remove_msg_def
        dest!: set_update_subset_insert [THEN subsetD] split: option.splits)
  then show "waits_only (accept_gossip pt frm mid pl now) mid" using assms(2) by (auto simp: waits_only_def)
  show "\<not> waits (accept_gossip pt frm mid pl now) mid w"
    using accept_gossip_simps(3) [OF assms(1), of frm mid pl now]
    by (auto simp: waits_def pending_find_def find_index_None_iff wake_plumtree_msg_id_eq_def)
qed

text \<open>Each packet under way, by its type and by whether its addressee has the message.\<close>

lemma gossip_new_act:
  assumes ok: "mend_ok src mid pl N" and k: "k \<in> nn_sent N" "pk_type k = WAKE_PT_GOSSIP" "pk_to k = v"
    and v: "\<not> holds N mid v"
  obtains es pt' where "handle_packet k now (nn_node N v) = (es, pt')" "mend_act src mid N v True es pt'"
    "mend_effect mid v es pt' k"
proof -
  let ?pt = "nn_node N v"
  obtain q where q: "pk_payload k = Some q" "pk_msg k = mid" and f: "holds N mid (pk_from k)"
    using ok k(1,2) by (auto simp: mend_ok_def mend_packets_def)
  have inv: "pt_inv ?pt" and w: "waits_only ?pt mid" using ok by (auto simp: mend_ok_def mend_node_def net_ok_node)
  define pt' where "pt' = accept_gossip ?pt (pk_from k) mid q now"
  define es where "es = Deliver mid q (pk_from k) # map (push_to mid q) (filter (\<lambda>p. pe_node_id p \<noteq> pk_from k) (pt_view ?pt))"
  have h: "handle_packet k now ?pt = (es, pt')"
    using recv_gossip_new [OF inv, of mid "pk_from k" q now True True] v k(2) q
    by (simp add: handle_packet_def es_def pt'_def holds_def)
  note T = accept_gossip_simps [OF inv, of "pk_from k" mid q now, folded pt'_def]
  have has: "pt_has_msg pt' mid" using T(4) has_msg_inserted [of ?pt mid q now] inv by (simp add: pt_inv_def)
  have peers: "pe_node_id ` set (pt_view pt') = peers_of N v" by (simp add: T(1) image_image peers_of_def)
  have sends: "\<exists>p\<in>set (pt_view ?pt). x \<in> sends_of v (push_to mid q p)" if "x \<in> (\<Union>e\<in>set es. sends_of v e)" for x
    using that by (auto simp: es_def)
  have pushes: "\<exists>x\<in>(\<Union>e\<in>set es. sends_of v e). pk_to x = w \<and> (pk_type x = WAKE_PT_GOSSIP \<or> pk_type x = WAKE_PT_IHAVE)"
    if w: "w \<in> peers_of N v" "w \<noteq> pk_from k" for w
  proof -
    obtain p where "p \<in> set (filter (\<lambda>p. pe_node_id p \<noteq> pk_from k) (pt_view ?pt))" "w = pe_node_id p"
      using w by (auto simp: peers_of_def)
    then have "push_to mid q p \<in> set es" "\<exists>x\<in>sends_of v (push_to mid q p). pk_to x = w \<and> (pk_type x = WAKE_PT_GOSSIP \<or> pk_type x = WAKE_PT_IHAVE)"
      by (simp_all add: es_def push_to_def)
    then show ?thesis by blast
  qed
  have "mend_act src mid N v True es pt'"
    unfolding mend_act_def
    using v has peers accept_waits [OF inv w, of "pk_from k" q now, folded pt'_def] f pushes
    by (auto simp: es_def comp_def push_to_def split: if_splits)
  moreover have "mend_effect mid v es pt' k" using k has by (simp add: mend_effect_def)
  ultimately show thesis using that h by blast
qed

lemma gossip_dup_act:
  assumes ok: "mend_ok src mid pl N" and k: "k \<in> nn_sent N" "pk_type k = WAKE_PT_GOSSIP" "pk_to k = v"
    and v: "holds N mid v"
  obtains es pt' where "handle_packet k now (nn_node N v) = (es, pt')" "mend_act src mid N v False es pt'"
    "mend_effect mid v es pt' k"
proof -
  let ?pt = "nn_node N v"
  obtain q where q: "pk_payload k = Some q" "pk_msg k = mid"
    using ok k(1,2) by (auto simp: mend_ok_def mend_packets_def)
  have inv: "pt_inv ?pt" using ok by (auto simp: mend_ok_def net_ok_node)
  obtain pt' where h: "handle_packet k now ?pt = ([Send WAKE_PT_PRUNE (pk_from k) mid None], pt')"
    "pt_has_msg pt' mid" "pe_node_id ` set (pt_view pt') = peers_of N v"
    using handle_duplicate [OF inv _ k(2) q(2,1)] v by (metis holds_def peers_of_def)
  have "pt_pending (snd (handle_packet k now ?pt)) = pt_pending ?pt"
    using v k(2) q by (auto simp: handle_packet_def pt_recv_gossip_def holds_def pt_has_msg_def demote_lazy_def Let_def)
  with h v have "mend_act src mid N v False [Send WAKE_PT_PRUNE (pk_from k) mid None] pt'"
    by (intro mend_act_quiet [OF ok]) auto
  moreover have "mend_effect mid v [Send WAKE_PT_PRUNE (pk_from k) mid None] pt' k"
    using k h(2) by (simp add: mend_effect_def)
  ultimately show thesis using that h(1) by blast
qed

lemma ihave_act:
  assumes ok: "mend_ok src mid pl N" and k: "k \<in> nn_sent N" "pk_type k = WAKE_PT_IHAVE" "pk_to k = v"
  obtains es pt' where "handle_packet k now (nn_node N v) = (es, pt')" "mend_act src mid N v False es pt'"
    "mend_effect mid v es pt' k"
proof -
  let ?pt = "nn_node N v"
  have m: "pk_msg k = mid" using ok k(1) by (auto simp: mend_ok_def mend_packets_def)
  have inv: "pt_inv ?pt" and nd: "mend_node src mid N v" using ok by (auto simp: mend_ok_def net_ok_node)
  define pt' where "pt' = pt_recv_ihave ?pt (pk_from k) mid now"
  have h: "handle_packet k now ?pt = ([], pt')" using k(2) m by (simp add: handle_packet_def pt'_def)
  show thesis
  proof (cases "holds N mid v")
    case True
    then have "pt' = ?pt" by (simp add: pt'_def pt_recv_ihave_def holds_def pt_has_msg_def)
    with True k show thesis
      by (intro that [OF h] mend_act_quiet [OF ok]) (auto simp: mend_effect_def holds_def peers_of_def)
  next
    case False
    then have p: "pt' = pending_add ?pt mid (pk_from k) now"
      by (simp add: pt'_def pt_recv_ihave_def holds_def pt_has_msg_def)
    have from_k: "sent_on N WAKE_PT_IHAVE (pk_from k) v" using k by (auto simp: sent_on_def)
    have only: "waits_only pt' mid"
      using nd pending_add_waits [of _ ?pt mid "pk_from k" now] by (auto simp: waits_only_def p mend_node_def)
    have wait: "sent_on N WAKE_PT_IHAVE w v" if "waits pt' mid w" for w
    proof -
      from that obtain x where "x \<in> set (pt_pending pt')" "pn_active x" "pn_msg_id x = mid" "pn_from_id x = w"
        by (auto simp: waits_def)
      with pending_add_waits [of x ?pt mid "pk_from k" now] have "waits ?pt mid w \<or> w = pk_from k"
        by (auto simp: p waits_def)
      with nd from_k show ?thesis by (auto simp: mend_node_def)
    qed
    have w: "waits pt' mid (pk_from k)"
      using pending_added [OF inv, of mid "pk_from k" now] by (auto simp: waits_def p)
    have "mend_act src mid N v False [] pt'"
      unfolding mend_act_def using only wait w False
      by (auto simp: p holds_def peers_of_def has_msg_iff pt_view_def)
    moreover have "mend_effect mid v [] pt' k" using k w by (auto simp: mend_effect_def)
    ultimately show thesis using that h by blast
  qed
qed

lemma graft_act:
  assumes ok: "mend_ok src mid pl N" and k: "k \<in> nn_sent N" "pk_type k = WAKE_PT_GRAFT" "pk_to k = v"
  obtains es pt' where "handle_packet k now (nn_node N v) = (es, pt')" "mend_act src mid N v False es pt'"
    "mend_effect mid v es pt' k"
proof -
  let ?pt = "nn_node N v"
  have m: "pk_msg k = mid" "sent_on N WAKE_PT_IHAVE v (pk_from k)"
    using ok k by (auto simp: mend_ok_def mend_packets_def)
  then have v: "holds N mid v" using ok by (auto simp: mend_ok_def mend_packets_def sent_on_def)
  have inv: "pt_inv ?pt" using ok by (auto simp: mend_ok_def net_ok_node)
  define r where "r = pt_recv_graft ?pt (pk_from k) mid now True"
  have h: "handle_packet k now ?pt = (fst r, snd r)" using k(2) m by (simp add: handle_packet_def r_def)
  obtain q where es: "fst r = [Send WAKE_PT_GOSSIP (pk_from k) mid (Some q)]"
    using v by (auto simp: r_def pt_recv_graft_def Let_def holds_def pt_has_msg_def promote_eager_def cache_find_def)
  have "pt_cache (snd r) = pt_cache ?pt" "pt_pending (snd r) = pt_pending ?pt"
    by (simp_all add: r_def pt_recv_graft_def Let_def promote_eager_def)
  moreover have "pe_node_id ` set (pt_view (snd r)) = pe_node_id ` set (pt_view ?pt)"
    using inv set_link_ids [of ?pt WAKE_PT_EAGER "pk_from k" now]
    by (intro view_ids) (simp add: r_def pt_recv_graft_def Let_def promote_eager_def pt_inv_def pt_view_def)
  ultimately have "mend_act src mid N v False (fst r) (snd r)"
    using v es by (intro mend_act_quiet [OF ok]) (auto simp: holds_def has_msg_iff peers_of_def)
  moreover have "mend_effect mid v (fst r) (snd r) k" using k by (simp add: mend_effect_def es)
  ultimately show thesis using that h by blast
qed

lemma prune_act:
  assumes ok: "mend_ok src mid pl N" and k: "k \<in> nn_sent N" "pk_type k = WAKE_PT_PRUNE" "pk_to k = v"
  obtains es pt' where "handle_packet k now (nn_node N v) = (es, pt')" "mend_act src mid N v False es pt'"
    "mend_effect mid v es pt' k"
proof -
  let ?pt = "nn_node N v"
  have inv: "pt_inv ?pt" using ok by (auto simp: mend_ok_def net_ok_node)
  obtain pt' where h: "handle_packet k now ?pt = ([], pt')" "pt_has_msg pt' mid = pt_has_msg ?pt mid"
    "pe_node_id ` set (pt_view pt') = pe_node_id ` set (pt_view ?pt)"
    using handle_prune [OF inv k(2)] by metis
  moreover have "pt_pending (snd (handle_packet k now ?pt)) = pt_pending ?pt"
    using k(2) by (simp add: handle_packet_def pt_recv_prune_def demote_lazy_def)
  ultimately have "mend_act src mid N v False [] pt'"
    by (intro mend_act_quiet [OF ok]) (auto simp: holds_def peers_of_def)
  then show thesis using that h(1) k by (auto simp: mend_effect_def)
qed

text \<open>A tick that lets no cached message expire.\<close>

lemma tick_act:
  assumes ok: "mend_ok src mid pl N"
    and fresh: "\<And>e. e \<in> set (pt_cache (nn_node N v)) \<Longrightarrow> \<not> cache_expired (nn_node N v) now e"
    and t: "pt_tick (nn_node N v) now True = ((g, es), pt')"
  shows "mend_act src mid N v False es pt'"
proof -
  let ?pt = "nn_node N v"
  have inv: "pt_inv ?pt" and nd: "mend_node src mid N v" using ok by (auto simp: mend_ok_def net_ok_node)
  note T = tick_spec [OF inv, of now True, unfolded t]
  have cache: "pt_cache pt' = pt_cache ?pt" using T(4) fresh by (simp add: evict_expired_def map_idI)
  have peers: "pe_node_id ` set (pt_view pt') = peers_of N v" using T(5) by (simp add: image_image peers_of_def)
  have pend: "pt_pending pt' = map (clear_due ?pt now) (pt_pending ?pt)" using T(3) by simp
  have es: "es = map graft_event (filter (pending_due ?pt now) (pt_pending ?pt))" using T(2) by simp
  have old: "waits ?pt mid (pn_from_id p) \<and> pn_msg_id p = mid" if "p \<in> set (pt_pending ?pt)" "pn_active p" for p
    using that nd by (auto simp: mend_node_def waits_only_def waits_def)
  have sub: "p \<in> set (pt_pending ?pt)" if "p \<in> set (pt_pending pt')" "pn_active p" for p
    using that by (auto simp: pend clear_due_def split: if_splits)
  have "waits_only pt' mid" using sub old by (auto simp: waits_only_def)
  moreover have "\<forall>w. waits pt' mid w \<longrightarrow> sent_on N WAKE_PT_IHAVE w v"
    using nd sub by (auto simp: mend_node_def waits_def)
  moreover have "pk_msg k = mid \<and> pk_type k = WAKE_PT_GRAFT \<and> sent_on N WAKE_PT_IHAVE (pk_to k) v"
    if k: "k \<in> (\<Union>e\<in>set es. sends_of v e)" for k
  proof -
    from k obtain p where p: "p \<in> set (pt_pending ?pt)" "pending_due ?pt now p" "k \<in> sends_of v (graft_event p)"
      by (auto simp: es)
    then have "waits ?pt mid (pn_from_id p)" "pn_msg_id p = mid" using old by (auto simp: pending_due_def)
    with nd p(3) show ?thesis by (auto simp: graft_event_def mend_node_def)
  qed
  moreover have "concat (map (delivers_of v) es) = []" by (simp add: es comp_def graft_event_def)
  moreover have "(\<exists>x. waits pt' mid x) \<or> (\<exists>k\<in>(\<Union>e\<in>set es. sends_of v e). pk_type k = WAKE_PT_GRAFT)"
    if "waits ?pt mid x" for x
  proof -
    from that obtain p where p: "p \<in> set (pt_pending ?pt)" "pn_active p" "pn_msg_id p = mid" by (auto simp: waits_def)
    show ?thesis
    proof (cases "pending_due ?pt now p")
      case True
      then have "graft_event p \<in> set es" using p(1) by (simp add: es)
      then show ?thesis by (force simp: graft_event_def)
    next
      case False
      then have "clear_due ?pt now p = p" by (simp add: clear_due_def)
      with p have "p \<in> set (pt_pending pt')" by (force simp: pend)
      with p show ?thesis by (auto simp: waits_def)
    qed
  qed
  ultimately show ?thesis
    unfolding mend_act_def using peers cache by (auto simp: holds_def has_msg_iff)
qed

section \<open>Coverage\<close>

lemma mend_keeps:
  assumes "mend_ok src mid pl N" "mend_step N M"
  shows "mend_ok src mid pl M"
  using assms(2)
proof cases
  case ms_recv
  then obtain k now where k: "k \<in> nn_sent N" and M:
    "M = net_emit (pk_to k) (handle_packet k now (nn_node N (pk_to k))) (N\<lparr>nn_done := insert k (nn_done N)\<rparr>)"
    by (auto elim: net_recv.cases)
  have net: "net_ok M" using net_ok_step [OF _ net_step.receive [OF ms_recv]] assms(1) by (simp add: mend_ok_def)
  have "\<exists>fresh es pt'. handle_packet k now (nn_node N (pk_to k)) = (es, pt')
    \<and> mend_act src mid N (pk_to k) fresh es pt' \<and> mend_effect mid (pk_to k) es pt' k"
  proof (cases "pk_type k")
    case WAKE_PT_GOSSIP
    show ?thesis
    proof (cases "holds N mid (pk_to k)")
      case True
      show ?thesis by (rule gossip_dup_act [OF assms(1) k WAKE_PT_GOSSIP refl True]) blast
    next
      case False
      show ?thesis by (rule gossip_new_act [OF assms(1) k WAKE_PT_GOSSIP refl False]) blast
    qed
  next
    case WAKE_PT_IHAVE
    show ?thesis by (rule ihave_act [OF assms(1) k WAKE_PT_IHAVE refl]) blast
  next
    case WAKE_PT_GRAFT
    show ?thesis by (rule graft_act [OF assms(1) k WAKE_PT_GRAFT refl]) blast
  next
    case WAKE_PT_PRUNE
    show ?thesis by (rule prune_act [OF assms(1) k WAKE_PT_PRUNE refl]) blast
  qed
  then obtain fresh es pt' where "handle_packet k now (nn_node N (pk_to k)) = (es, pt')"
    "mend_act src mid N (pk_to k) fresh es pt'" "mend_effect mid (pk_to k) es pt' k" by blast
  with k M show ?thesis by (intro mend_action [OF assms(1) net]) auto
next
  case (ms_tick u now)
  obtain g es pt' where t: "pt_tick (nn_node N u) now True = ((g, es), pt')" by (metis prod_cases3 prod.collapse)
  have net: "net_ok M"
    using assms(1) unfolding ms_tick(1) by (intro net_ok_step [OF _ net_step.tick]) (simp add: mend_ok_def)
  have "mend_act src mid N u False es pt'" using ms_tick(2) by (intro tick_act [OF assms(1) _ t]) auto
  then show ?thesis by (intro mend_action [OF assms(1) net, where D = "nn_done N"]) (auto simp: ms_tick(1) t)
qed

lemma mend_start:
  assumes "mend_init src mid pl N"
  shows "mend_ok src mid pl N"
proof -
  obtain N0 now where q: "idle_net N0" and pl: "pl \<noteq> []"
    and N: "N = net_emit src (pt_broadcast (nn_node N0 src) mid pl now True) (N0\<lparr>nn_origin := {(mid, pl)}\<rparr>)"
    using assms by (auto simp: mend_init_def)
  define pt where "pt = nn_node N0 src"
  define pt' where "pt' = snd (pt_broadcast pt mid pl now True)"
  have pt: "pt_inv pt" "cache_genuine {(mid, pl)} (pt_cache pt)"
    using q by (auto simp: idle_net_def pt_def cache_genuine_def)
  have b: "fst (pt_broadcast pt mid pl now True) = map (push_to mid pl) (pt_view pt)"
    "pt_view pt' = pt_view pt" "pt_pending pt' = pt_pending pt" "pt_has_msg pt' mid"
    using pl pt(1) has_msg_inserted [of pt mid pl now]
    by (auto simp: pt'_def pt_broadcast_def Let_def pt_inv_def has_msg_iff)
  have "net_ok (N0\<lparr>nn_origin := {(mid, pl)}\<rparr>)" using q by (auto simp: net_ok_def idle_net_def cache_genuine_def)
  then have net: "net_ok N"
    unfolding N pt_def [symmetric] using broadcast_genuine [OF pt] by (intro net_emit_ok) simp_all
  have node: "nn_node N = (nn_node N0)(src := pt')" by (simp add: N pt_def pt'_def)
  have sent: "nn_sent N = (\<Union>p\<in>set (pt_view pt). sends_of src (push_to mid pl p))"
    using q by (simp add: N pt_def [symmetric] b(1) idle_net_def)
  have none: "nn_log N = []" "nn_done N = {}" "nn_origin N = {(mid, pl)}"
    using q by (simp_all add: N pt_def [symmetric] b(1) idle_net_def)
  have hold: "holds N mid u \<longleftrightarrow> u = src" for u
    using q b(4) by (auto simp: holds_def node has_msg_iff idle_net_def)
  have told: "sent_on N WAKE_PT_GOSSIP src (pe_node_id p) \<or> sent_on N WAKE_PT_IHAVE src (pe_node_id p)"
    if "p \<in> set (pt_view pt)" for p
    using that by (auto simp: sent_on_def sent push_to_def)
  have idle: "\<not> pn_active p" if "p \<in> set (pt_pending (nn_node N u))" for p u
    using q that b(3) by (auto simp: node idle_net_def pt_def split: if_splits)
  have "mend_node src mid N u" for u
    using idle told hold b(2) by (auto simp: mend_node_def waits_only_def waits_def log_of_def none peers_of_def node)
  moreover have "mend_packets mid N" by (auto simp: mend_packets_def none sent hold push_to_def)
  ultimately show ?thesis using net hold by (simp add: mend_ok_def none mend_done_def)
qed

interpretation mend: invariant_machine "mend_init src mid pl" mend_step "mend_ok src mid pl"
  for src mid pl
  by unfold_locales (auto intro: mend_start mend_keeps)

text \<open>Packets that nobody has processed; the links over which nothing is outstanding.\<close>

definition outstanding :: "pt_net \<Rightarrow> packet set" where
  "outstanding N = nn_sent N - nn_done N"

definition sound_links :: "pt_net \<Rightarrow> (bytes \<times> bytes) set" where
  "sound_links N = {(u, w) \<in> links N. \<forall>k\<in>outstanding N. \<not> (pk_from k = u \<and> pk_to k = w)}"

text \<open>An eager push that was lost: the link it was sent over has announced nothing.\<close>

definition lost_push :: "pt_net \<Rightarrow> packet \<Rightarrow> bool" where
  "lost_push N k \<longleftrightarrow> pk_type k = WAKE_PT_GOSSIP \<and> \<not> sent_on N WAKE_PT_IHAVE (pk_from k) (pk_to k)"

lemma mend_hop:
  assumes ok: "mend_ok src mid pl N" and lost: "\<forall>k\<in>outstanding N. lost_push N k"
    and idle: "\<forall>u x. \<not> waits (nn_node N u) mid x" and u: "holds N mid u" "(u, w) \<in> sound_links N"
  shows "holds N mid w"
proof -
  have dn: "mend_done mid N" and pk: "mend_packets mid N" using ok by (simp_all add: mend_ok_def)
  have done_unless: "k \<in> nn_done N" if "k \<in> nn_sent N" "\<not> lost_push N k \<or> pk_from k = u \<and> pk_to k = w" for k
    using that lost u(2) by (auto simp: outstanding_def sound_links_def)
  have "holds N mid w" if k: "k \<in> nn_sent N" "pk_type k = WAKE_PT_GRAFT" "pk_from k = w" for k
  proof -
    have "k \<in> nn_done N" using k done_unless by (simp add: lost_push_def)
    with dn k obtain g where g: "g \<in> nn_sent N" "pk_type g = WAKE_PT_GOSSIP" "pk_from g = pk_to k" "pk_to g = w"
      by (auto simp: mend_done_def sent_on_def)
    have "sent_on N WAKE_PT_IHAVE (pk_to k) w" using pk k by (auto simp: mend_packets_def)
    with g have "g \<in> nn_done N" using done_unless by (simp add: lost_push_def)
    with dn g show ?thesis by (auto simp: mend_done_def)
  qed
  moreover have "holds N mid w \<or> sent_on N WAKE_PT_GOSSIP u w \<or> sent_on N WAKE_PT_IHAVE u w"
    using ok u by (auto simp: mend_ok_def mend_node_def sound_links_def links_def)
  moreover have "holds N mid w" if "sent_on N WAKE_PT_GOSSIP u w"
    using that dn done_unless by (auto simp: sent_on_def mend_done_def)
  moreover have "holds N mid w \<or> (\<exists>x. sent_on N WAKE_PT_GRAFT w x)" if "sent_on N WAKE_PT_IHAVE u w"
    using that dn done_unless idle by (auto simp: sent_on_def mend_done_def)
  ultimately show ?thesis by (auto simp: sent_on_def)
qed

text \<open>
  C12. Coverage with lazy links and lost pushes.  Take a network of any size, its links eager or
  lazy, with nothing cached, announced or under way, and let one node broadcast a message; process
  packets in any order and any number of times, and let timers tick at any node as long as no
  copy in its cache has outlived its time to live.  Suppose that in the end nobody waits for the
  message and that whatever was never processed is an eager push over a link on which its sender
  announced nothing to that receiver.  Then every node to which a path of links without such a loss leads from the source has the message,
  and it has delivered it exactly once, with the payload that was broadcast or its first 256 bytes;
  the source has delivered nothing.
\<close>

theorem lossy_broadcast_mended:
  assumes "reach (mend_init src mid pl) mend_step N"
    and "\<forall>k\<in>outstanding N. lost_push N k" and "\<forall>u x. \<not> waits (nn_node N u) mid x"
    and "(src, v) \<in> (sound_links N)\<^sup>*"
  shows "pt_has_msg (nn_node N v) mid
    \<and> (if v = src then log_of N v = [] else log_of N v = [(v, mid, pl)] \<or> log_of N v = [(v, mid, take 256 pl)])"
proof -
  have ok: "mend_ok src mid pl N" by (rule mend.reach_inv [OF assms(1)])
  have h: "holds N mid v"
    using assms(4)
  proof (induction rule: rtrancl_induct)
    case base
    then show ?case using ok by (simp add: mend_ok_def)
  next
    case (step u w)
    then show ?case using mend_hop [OF ok assms(2,3)] by blast
  qed
  have "log_of N v = [(v, mid, pl)] \<or> log_of N v = [(v, mid, take 256 pl)]" if "v \<noteq> src"
  proof -
    have "mend_node src mid N v" using ok by (simp add: mend_ok_def)
    with h that obtain q where q: "log_of N v = [(v, mid, q)]" by (auto simp: mend_node_def)
    then have "(v, mid, q) \<in> set (log_of N v)" by simp
    then have "(v, mid, q) \<in> set (nn_log N)" by (simp add: log_of_def)
    then have "genuine {(mid, pl)} mid q" using ok by (force simp: mend_ok_def net_ok_def)
    with q show ?thesis by (auto simp: genuine_def)
  qed
  moreover have "mend_node src mid N src" using ok by (simp add: mend_ok_def)
  ultimately show ?thesis using h by (auto simp: holds_def mend_node_def)
qed

text \<open>
  Three nodes: the push from node 0 to node 1 is lost; node 2 gets its own and announces it to
  node 1 over a lazy link; node 1 waits, asks on a tick, and is answered.
\<close>

definition mesh_node :: "bytes \<Rightarrow> wake_plumtree_t" where
  "mesh_node u =
     (if u = pt_node 0 then snd (pt_add_peer (snd (pt_add_peer (pair_node u) (pt_node 1) 1)) (pt_node 2) 1)
      else if u = pt_node 2 then pt_recv_prune (snd (pt_add_peer (snd (pt_add_peer (pair_node u) (pt_node 0) 1)) (pt_node 1) 1)) (pt_node 1) 1
      else pair_node u)"

definition mesh_start :: pt_net where
  "mesh_start = \<lparr>nn_node = mesh_node, nn_sent = {}, nn_done = {}, nn_log = [], nn_origin = {}\<rparr>"

definition plain_packet :: "wake_plumtree_msg_type_t \<Rightarrow> nat \<Rightarrow> nat \<Rightarrow> packet" where
  "plain_packet ty u v =
     \<lparr>pk_from = pt_node u, pk_to = pt_node v, pk_type = ty, pk_msg = pt_msg 7,
      pk_payload = (if ty = WAKE_PT_GOSSIP then Some [1, 2] else None)\<rparr>"

definition mesh_a :: "wake_plumtree_t" where
  "mesh_a = snd (pt_broadcast (mesh_node (pt_node 0)) (pt_msg 7) [1, 2] 5 True)"

definition mesh_b :: "nat \<Rightarrow> wake_plumtree_t" where
  "mesh_b n =
     (let b1 = snd (handle_packet (plain_packet WAKE_PT_IHAVE 2 1) 7 (mesh_node (pt_node 1)));
          b2 = snd (pt_tick b1 400 True)
      in if n = 1 then b1 else if n = 2 then b2
         else snd (handle_packet (plain_packet WAKE_PT_GOSSIP 2 1) 402 b2))"

definition mesh_c :: "nat \<Rightarrow> wake_plumtree_t" where
  "mesh_c n =
     (let c1 = snd (handle_packet (plain_packet WAKE_PT_GOSSIP 0 2) 6 (mesh_node (pt_node 2)))
      in if n = 1 then c1 else snd (handle_packet (plain_packet WAKE_PT_GRAFT 1 2) 401 c1))"

lemma mesh_events:
  "fst (pt_broadcast (mesh_node (pt_node 0)) (pt_msg 7) [1, 2] 5 True)
     = [Send WAKE_PT_GOSSIP (pt_node 1) (pt_msg 7) (Some [1, 2]), Send WAKE_PT_GOSSIP (pt_node 2) (pt_msg 7) (Some [1, 2])]"
  "fst (handle_packet (plain_packet WAKE_PT_GOSSIP 0 2) 6 (mesh_node (pt_node 2)))
     = [Deliver (pt_msg 7) [1, 2] (pt_node 0), Send WAKE_PT_IHAVE (pt_node 1) (pt_msg 7) None]"
  "fst (handle_packet (plain_packet WAKE_PT_IHAVE 2 1) 7 (mesh_node (pt_node 1))) = []"
  "fst (pt_tick (mesh_b 1) 400 True) = (1, [Send WAKE_PT_GRAFT (pt_node 2) (pt_msg 7) None])"
  "fst (handle_packet (plain_packet WAKE_PT_GRAFT 1 2) 401 (mesh_c 1)) = [Send WAKE_PT_GOSSIP (pt_node 1) (pt_msg 7) (Some [1, 2])]"
  "fst (handle_packet (plain_packet WAKE_PT_GOSSIP 2 1) 402 (mesh_b 2)) = [Deliver (pt_msg 7) [1, 2] (pt_node 2)]"
  by code_simp+

lemma mesh_checks:
  "list_all (\<lambda>e. \<not> cache_expired (mesh_b 1) 400 e) (pt_cache (mesh_b 1))"
  "list_all (\<lambda>p. \<not> pn_active p) (pt_pending mesh_a)"
  "list_all (\<lambda>p. \<not> pn_active p) (pt_pending (mesh_b 3))"
  "list_all (\<lambda>p. \<not> pn_active p) (pt_pending (mesh_c 2))"
  "pt_node 2 \<in> pe_node_id ` set (pt_view mesh_a)"
  "pt_node 1 \<in> pe_node_id ` set (pt_view (mesh_c 2))"
  by code_simp+

lemma mesh_states:
  "pt_broadcast (mesh_node (pt_node 0)) (pt_msg 7) [1, 2] 5 True
     = ([Send WAKE_PT_GOSSIP (pt_node 1) (pt_msg 7) (Some [1, 2]), Send WAKE_PT_GOSSIP (pt_node 2) (pt_msg 7) (Some [1, 2])], mesh_a)"
  "handle_packet (plain_packet WAKE_PT_GOSSIP 0 2) 6 (mesh_node (pt_node 2))
     = ([Deliver (pt_msg 7) [1, 2] (pt_node 0), Send WAKE_PT_IHAVE (pt_node 1) (pt_msg 7) None], mesh_c 1)"
  "handle_packet (plain_packet WAKE_PT_IHAVE 2 1) 7 (mesh_node (pt_node 1)) = ([], mesh_b 1)"
  "pt_tick (mesh_b 1) 400 True = ((1, [Send WAKE_PT_GRAFT (pt_node 2) (pt_msg 7) None]), mesh_b 2)"
  "handle_packet (plain_packet WAKE_PT_GRAFT 1 2) 401 (mesh_c 1)
     = ([Send WAKE_PT_GOSSIP (pt_node 1) (pt_msg 7) (Some [1, 2])], mesh_c 2)"
  "handle_packet (plain_packet WAKE_PT_GOSSIP 2 1) 402 (mesh_b 2) = ([Deliver (pt_msg 7) [1, 2] (pt_node 2)], mesh_b 3)"
  using mesh_events by (simp_all add: prod_eq_iff mesh_a_def mesh_b_def mesh_c_def Let_def)

definition mesh_0 :: pt_net where
  "mesh_0 = net_emit (pt_node 0) (pt_broadcast (mesh_node (pt_node 0)) (pt_msg 7) [1, 2] 5 True)
     (mesh_start\<lparr>nn_origin := {(pt_msg 7, [1, 2])}\<rparr>)"

definition mesh_2 :: pt_net where
  "mesh_2 = line_recv (plain_packet WAKE_PT_IHAVE 2 1) 7 (line_recv (plain_packet WAKE_PT_GOSSIP 0 2) 6 mesh_0)"

definition mesh_3 :: pt_net where
  "mesh_3 = net_emit (pt_node 1)
     (let ((_, es), pt') = pt_tick (nn_node mesh_2 (pt_node 1)) 400 True in (es, pt')) mesh_2"

definition mesh_end :: pt_net where
  "mesh_end = line_recv (plain_packet WAKE_PT_GOSSIP 2 1) 402 (line_recv (plain_packet WAKE_PT_GRAFT 1 2) 401 mesh_3)"

lemma plain_packet_fields [simp]:
  "pk_from (plain_packet ty u v) = pt_node u" "pk_to (plain_packet ty u v) = pt_node v"
  "pk_type (plain_packet ty u v) = ty"
  by (simp_all add: plain_packet_def)

lemma plain_sends:
  "sends_of (pt_node u) (Send WAKE_PT_GOSSIP (pt_node v) (pt_msg 7) (Some [1, 2])) = {plain_packet WAKE_PT_GOSSIP u v}"
  "ty \<noteq> WAKE_PT_GOSSIP \<Longrightarrow> sends_of (pt_node u) (Send ty (pt_node v) (pt_msg 7) None) = {plain_packet ty u v}"
  by (simp_all add: plain_packet_def)

lemma plain_packet_eq: "plain_packet ty u v = plain_packet ty' u' v' \<longleftrightarrow> ty = ty' \<and> pt_node u = pt_node u' \<and> pt_node v = pt_node v'"
  by (auto simp: plain_packet_def)

lemmas mesh_simps = mesh_states mesh_start_def line_recv_def plain_sends plain_packet_eq line_peers(3-5) line_peers(3-5) [symmetric]

lemma mesh_0_fields:
  "nn_node mesh_0 = mesh_node(pt_node 0 := mesh_a)"
  "nn_sent mesh_0 = {plain_packet WAKE_PT_GOSSIP 0 1, plain_packet WAKE_PT_GOSSIP 0 2}"
  "nn_done mesh_0 = {}" "nn_log mesh_0 = []"
  by (auto simp add: mesh_0_def mesh_simps simp del: One_nat_def sends_of.simps(1))

lemma mesh_2_fields:
  "nn_node mesh_2 = mesh_node(pt_node 0 := mesh_a, pt_node 2 := mesh_c 1, pt_node 1 := mesh_b 1)"
  "nn_sent mesh_2 = insert (plain_packet WAKE_PT_IHAVE 2 1) (nn_sent mesh_0)"
  "nn_done mesh_2 = {plain_packet WAKE_PT_IHAVE 2 1, plain_packet WAKE_PT_GOSSIP 0 2}"
  "nn_log mesh_2 = [(pt_node 2, pt_msg 7, [1, 2])]"
  by (simp_all add: mesh_2_def mesh_0_fields mesh_simps insert_commute del: One_nat_def sends_of.simps(1))

lemma mesh_3_fields:
  "nn_node mesh_3 = mesh_node(pt_node 0 := mesh_a, pt_node 2 := mesh_c 1, pt_node 1 := mesh_b 2)"
  "nn_sent mesh_3 = insert (plain_packet WAKE_PT_GRAFT 1 2) (nn_sent mesh_2)"
  "nn_done mesh_3 = nn_done mesh_2" "nn_log mesh_3 = nn_log mesh_2"
  by (simp_all add: mesh_3_def mesh_2_fields mesh_simps insert_commute del: One_nat_def sends_of.simps(1))

lemma mesh_end_fields:
  "nn_node mesh_end = mesh_node(pt_node 0 := mesh_a, pt_node 2 := mesh_c 2, pt_node 1 := mesh_b 3)"
  "nn_sent mesh_end = insert (plain_packet WAKE_PT_GOSSIP 2 1) (nn_sent mesh_3)"
  "nn_done mesh_end = {plain_packet WAKE_PT_GOSSIP 2 1, plain_packet WAKE_PT_GRAFT 1 2} \<union> nn_done mesh_3"
  by (auto simp add: mesh_end_def mesh_3_fields mesh_simps simp del: One_nat_def sends_of.simps(1))

lemma add_peer_keeps:
  "pt_cache (snd (pt_add_peer pt nid now)) = pt_cache pt" "pt_pending (snd (pt_add_peer pt nid now)) = pt_pending pt"
  by (simp_all add: pt_add_peer_def)

lemma mesh_idle:
  "idle_net mesh_start" "p \<in> set (pt_pending (mesh_node u)) \<Longrightarrow> \<not> pn_active p"
proof -
  have pend: "\<not> pn_active p" if "p \<in> set (pt_pending (pair_node u))" for p u
    using that by (auto simp: pair_node_def wake_plumtree_create_def Let_def zero_pending_def)
  have keep: "pt_cache (pt_recv_prune pt nid now) = pt_cache pt" "pt_pending (pt_recv_prune pt nid now) = pt_pending pt"
    for pt nid now by (simp_all add: pt_recv_prune_def demote_lazy_def)
  have idle: "\<not> pn_active p" if "p \<in> set (pt_pending (mesh_node u))" for p u
    using that pend by (simp add: mesh_node_def add_peer_keeps keep split: if_splits)
  moreover have "pt_inv (mesh_node u)" for u
    by (simp add: mesh_node_def pt_inv_add_peer pt_inv_recv_prune pair_node_fresh(1))
  moreover have "\<not> ce_occupied e" if "e \<in> set (pt_cache (mesh_node u))" for e u
    using that pair_node_fresh(2) by (simp add: mesh_node_def add_peer_keeps keep split: if_splits)
  ultimately show "idle_net mesh_start" by (simp add: idle_net_def mesh_start_def)
  show "p \<in> set (pt_pending (mesh_node u)) \<Longrightarrow> \<not> pn_active p" by (rule idle)
qed

lemma mesh_recv: "reach init mend_step N \<Longrightarrow> k \<in> nn_sent N \<Longrightarrow> reach init mend_step (line_recv k now N)"
  unfolding line_recv_def by (erule reach_step) (intro ms_recv recv)

lemma mesh_reach: "reach (mend_init (pt_node 0) (pt_msg 7) [1, 2]) mend_step mesh_end"
proof -
  have "mend_init (pt_node 0) (pt_msg 7) [1, 2] mesh_0"
    unfolding mend_init_def mesh_0_def using mesh_idle(1)
    by (intro conjI exI [of _ mesh_start] exI [of _ 5]) (simp_all add: mesh_start_def)
  then have "reach (mend_init (pt_node 0) (pt_msg 7) [1, 2]) mend_step mesh_0" by (rule reach_init)
  then have 2: "reach (mend_init (pt_node 0) (pt_msg 7) [1, 2]) mend_step mesh_2"
    unfolding mesh_2_def
    by (intro mesh_recv) (simp_all add: mesh_0_fields mesh_simps del: One_nat_def sends_of.simps(1))
  have "mend_step mesh_2 mesh_3"
    unfolding mesh_3_def using mesh_checks(1)
    by (intro ms_tick) (simp add: mesh_2_fields list_all_iff del: One_nat_def)
  with 2 have "reach (mend_init (pt_node 0) (pt_msg 7) [1, 2]) mend_step mesh_3" by (rule reach_step)
  then show ?thesis
    unfolding mesh_end_def
    by (intro mesh_recv) (simp_all add: mesh_3_fields mesh_simps del: One_nat_def sends_of.simps(1))
qed

lemma mesh_outstanding: "outstanding mesh_end = {plain_packet WAKE_PT_GOSSIP 0 1}"
  by (auto simp: outstanding_def mesh_end_fields mesh_3_fields mesh_2_fields mesh_0_fields mesh_simps simp del: One_nat_def)

theorem lossy_broadcast_mended_witness:
  "log_of mesh_end (pt_node 1) = [(pt_node 1, pt_msg 7, [1, 2])] \<and> outstanding mesh_end = {plain_packet WAKE_PT_GOSSIP 0 1}"
proof -
  have "lost_push mesh_end (plain_packet WAKE_PT_GOSSIP 0 1)"
    by (auto simp: lost_push_def sent_on_def mesh_end_fields mesh_3_fields mesh_2_fields mesh_0_fields mesh_simps
        simp del: One_nat_def)
  then have lost: "\<forall>k\<in>outstanding mesh_end. lost_push mesh_end k" by (simp add: mesh_outstanding)
  have idle: "\<forall>u x. \<not> waits (nn_node mesh_end u) (pt_msg 7) x"
    using mesh_checks(2-4) mesh_idle(2) by (simp add: mesh_end_fields waits_def list_all_iff fun_upd_def)
  have "(pt_node 0, pt_node 2) \<in> sound_links mesh_end" "(pt_node 2, pt_node 1) \<in> sound_links mesh_end"
    using mesh_checks(5,6) line_peers(3-5)
    by (auto simp: sound_links_def links_def peers_of_def mesh_outstanding mesh_end_fields simp del: One_nat_def)
  then have "(pt_node 0, pt_node 1) \<in> (sound_links mesh_end)\<^sup>*" by (metis rtrancl.simps)
  from lossy_broadcast_mended [OF mesh_reach lost idle this] show ?thesis
    using line_peers(3) mesh_outstanding by auto
qed

end
