(* ===== verification/Wake_Entity.thy ===== *)
theory Wake_Entity
  imports Wake_Prelude
begin

text \<open>
  The entity model (\<open>src/src/wake_entity.c\<close>, \<open>src/src/wake_entity.h\<close>): SipHash-2-4, the key
  that the process keeps, entity construction, validation, hashing and formatting.  Integers are
  laid out as on a little-endian host.  \<open>inet_ntop\<close> and the bytes of \<open>/dev/urandom\<close> are
  parameters.
\<close>

section \<open>SipHash-2-4\<close>

definition rotl64 :: "u64 \<Rightarrow> nat \<Rightarrow> u64" where
  "rotl64 x b = push_bit b x OR drop_bit (64 - b) x"

definition load_le64 :: "bytes \<Rightarrow> u64" where
  "load_le64 p = le_load (take 8 p)"

type_synonym sip_state = "u64 \<times> u64 \<times> u64 \<times> u64"

definition SIPROUND :: "sip_state \<Rightarrow> sip_state" where
  "SIPROUND s =
     (let (v0, v1, v2, v3) = s;
          v0 = v0 + v1; v1 = rotl64 v1 13; v1 = v1 XOR v0; v0 = rotl64 v0 32;
          v2 = v2 + v3; v3 = rotl64 v3 16; v3 = v3 XOR v2;
          v0 = v0 + v3; v3 = rotl64 v3 21; v3 = v3 XOR v0;
          v2 = v2 + v1; v1 = rotl64 v1 17; v1 = v1 XOR v2; v2 = rotl64 v2 32
      in (v0, v1, v2, v3))"

definition sip_init :: "bytes \<Rightarrow> sip_state" where
  "sip_init key =
     (let k0 = load_le64 key; k1 = load_le64 (drop 8 key)
      in (k0 XOR 0x736f6d6570736575, k1 XOR 0x646f72616e646f6d,
          k0 XOR 0x6c7967656e657261, k1 XOR 0x7465646279746573))"

text \<open>One message word: \<open>v3 ^= m\<close>, two rounds, \<open>v0 ^= m\<close>.\<close>

definition sip_compress :: "u64 \<Rightarrow> sip_state \<Rightarrow> sip_state" where
  "sip_compress m s =
     (let (v0, v1, v2, v3) = s;
          (v0, v1, v2, v3) = SIPROUND (SIPROUND (v0, v1, v2, v3 XOR m))
      in (v0 XOR m, v1, v2, v3))"

text \<open>The loop over the full blocks, \<open>n\<close> to go.\<close>

fun sip_blocks :: "nat \<Rightarrow> bytes \<Rightarrow> sip_state \<Rightarrow> sip_state" where
  "sip_blocks 0 p s = s"
| "sip_blocks (Suc n) p s = sip_blocks n (drop 8 p) (sip_compress (load_le64 p) s)"

text \<open>The switch with fall-through: byte \<open>left - 1\<close> down to byte 0.\<close>

definition sip_tail :: "nat \<Rightarrow> bytes \<Rightarrow> nat \<Rightarrow> u64" where
  "sip_tail len rest left =
     fold (\<lambda>i b. b OR push_bit (8 * i) (ucast (rest ! i))) (rev [0..<left])
       (push_bit 56 (of_nat len))"

definition sip_finish :: "sip_state \<Rightarrow> u64" where
  "sip_finish s =
     (let (v0, v1, v2, v3) = s;
          (v0, v1, v2, v3) = SIPROUND (SIPROUND (SIPROUND (SIPROUND (v0, v1, v2 XOR 0xFF, v3))))
      in v0 XOR v1 XOR v2 XOR v3)"

definition siphash_2_4 :: "bytes \<Rightarrow> bytes \<Rightarrow> u64" where
  "siphash_2_4 data key =
     (let len = length data;
          n = len div 8;
          left = len mod 8;
          s = sip_blocks n data (sip_init key);
          b = sip_tail len (drop (8 * n) data) left
      in sip_finish (sip_compress b s))"

section \<open>The process key\<close>

record hash_state =
  siphash_key :: bytes
  siphash_initialized :: bool

text \<open>\<open>open_ok\<close>: the device could be opened; \<open>got\<close>: the bytes that \<open>read\<close> stored (at most 16).\<close>

definition wake_hash_init :: "bool \<Rightarrow> bytes \<Rightarrow> hash_state \<Rightarrow> int \<times> hash_state" where
  "wake_hash_init open_ok got st =
     (if \<not> open_ok then (- 1, st)
      else
        let st1 = st\<lparr>siphash_key := arr_put (siphash_key st) 0 got\<rparr>
        in if length got \<noteq> 16 then (- 1, st1)
           else (0, st1\<lparr>siphash_initialized := True\<rparr>))"

definition wake_hash_set_key :: "bytes \<Rightarrow> hash_state \<Rightarrow> hash_state" where
  "wake_hash_set_key key st = st\<lparr>siphash_key := key, siphash_initialized := True\<rparr>"

definition wake_hash_bytes_keyed :: "bytes \<Rightarrow> bytes \<Rightarrow> u64" where
  "wake_hash_bytes_keyed data key = siphash_2_4 data key"

section \<open>Entities\<close>

abbreviation WAKE_ENTITY_VALUE_MAX :: nat where "WAKE_ENTITY_VALUE_MAX \<equiv> 56"

abbreviation WAKE_EC_WHO :: u8 where "WAKE_EC_WHO \<equiv> 0"
abbreviation WAKE_EC_WHOM :: u8 where "WAKE_EC_WHOM \<equiv> 1"
abbreviation WAKE_EC_WITH :: u8 where "WAKE_EC_WITH \<equiv> 2"

abbreviation WAKE_ET_IPV4 :: u8 where "WAKE_ET_IPV4 \<equiv> 0x10"
abbreviation WAKE_ET_IPV6 :: u8 where "WAKE_ET_IPV6 \<equiv> 0x11"
abbreviation WAKE_ET_USER :: u8 where "WAKE_ET_USER \<equiv> 0x20"
abbreviation WAKE_ET_MACHINE :: u8 where "WAKE_ET_MACHINE \<equiv> 0x21"
abbreviation WAKE_ET_EMAIL :: u8 where "WAKE_ET_EMAIL \<equiv> 0x22"
abbreviation WAKE_ET_DOMAIN :: u8 where "WAKE_ET_DOMAIN \<equiv> 0x30"
abbreviation WAKE_ET_SERVICE :: u8 where "WAKE_ET_SERVICE \<equiv> 0x31"
abbreviation WAKE_ET_PATH :: u8 where "WAKE_ET_PATH \<equiv> 0x32"
abbreviation WAKE_ET_URL :: u8 where "WAKE_ET_URL \<equiv> 0x33"
abbreviation WAKE_ET_HASH_MD5 :: u8 where "WAKE_ET_HASH_MD5 \<equiv> 0x40"
abbreviation WAKE_ET_HASH_SHA1 :: u8 where "WAKE_ET_HASH_SHA1 \<equiv> 0x41"
abbreviation WAKE_ET_HASH_SHA256 :: u8 where "WAKE_ET_HASH_SHA256 \<equiv> 0x42"
abbreviation WAKE_ET_PORT :: u8 where "WAKE_ET_PORT \<equiv> 0x50"
abbreviation WAKE_ET_PROTO :: u8 where "WAKE_ET_PROTO \<equiv> 0x51"
abbreviation WAKE_ET_SIZE :: u8 where "WAKE_ET_SIZE \<equiv> 0x52"
abbreviation WAKE_ET_SIG_ID :: u8 where "WAKE_ET_SIG_ID \<equiv> 0x53"

abbreviation WAKE_EF_HASHED :: u8 where "WAKE_EF_HASHED \<equiv> 0x01"

record wake_entity_t =
  en_eclass :: u8
  en_etype :: u8
  en_value_len :: u8
  en_flags :: u8
  en_reserved :: u32
  en_value :: bytes

text \<open>The 64 bytes of the struct.\<close>

definition entity_bytes :: "wake_entity_t \<Rightarrow> bytes" where
  "entity_bytes e = [en_eclass e, en_etype e, en_value_len e, en_flags e]
                      @ le_bytes 4 (en_reserved e) @ en_value e"

definition zero_entity :: wake_entity_t where
  "zero_entity = \<lparr>en_eclass = 0, en_etype = 0, en_value_len = 0, en_flags = 0, en_reserved = 0,
     en_value = replicate 56 0\<rparr>"

text \<open>\<open>memset\<close> to zero, class, type, length, then \<open>memcpy\<close> of the value.
  The value is as long as the source copies: the buffers of the hash constructors have the size of the hash.\<close>

definition init_value :: "u8 \<Rightarrow> u8 \<Rightarrow> bytes \<Rightarrow> wake_entity_t" where
  "init_value ec et v =
     zero_entity\<lparr>en_eclass := ec, en_etype := et, en_value_len := of_nat (length v),
                 en_value := arr_put (en_value zero_entity) 0 v\<rparr>"

definition wake_entity_init_ipv4 :: "u8 \<Rightarrow> u32 \<Rightarrow> wake_entity_t" where
  "wake_entity_init_ipv4 ec addr_nbo = init_value ec WAKE_ET_IPV4 (le_bytes 4 addr_nbo)"

definition wake_entity_init_ipv6 :: "u8 \<Rightarrow> bytes \<Rightarrow> wake_entity_t" where
  "wake_entity_init_ipv6 ec addr = init_value ec WAKE_ET_IPV6 addr"

definition wake_entity_init_str :: "hash_state \<Rightarrow> u8 \<Rightarrow> u8 \<Rightarrow> bytes \<Rightarrow> wake_entity_t" where
  "wake_entity_init_str st ec et val =
     (if length val \<le> WAKE_ENTITY_VALUE_MAX then init_value ec et val
      else (init_value ec et (le_bytes 8 (siphash_2_4 val (siphash_key st))))
             \<lparr>en_flags := WAKE_EF_HASHED\<rparr>)"

definition wake_entity_init_user :: "hash_state \<Rightarrow> u8 \<Rightarrow> bytes \<Rightarrow> wake_entity_t" where
  "wake_entity_init_user st ec val = wake_entity_init_str st ec WAKE_ET_USER val"

definition wake_entity_init_machine :: "hash_state \<Rightarrow> u8 \<Rightarrow> bytes \<Rightarrow> wake_entity_t" where
  "wake_entity_init_machine st ec val = wake_entity_init_str st ec WAKE_ET_MACHINE val"

definition wake_entity_init_email :: "hash_state \<Rightarrow> u8 \<Rightarrow> bytes \<Rightarrow> wake_entity_t" where
  "wake_entity_init_email st ec val = wake_entity_init_str st ec WAKE_ET_EMAIL val"

definition wake_entity_init_domain :: "hash_state \<Rightarrow> u8 \<Rightarrow> bytes \<Rightarrow> wake_entity_t" where
  "wake_entity_init_domain st ec val = wake_entity_init_str st ec WAKE_ET_DOMAIN val"

definition wake_entity_init_service :: "hash_state \<Rightarrow> u8 \<Rightarrow> bytes \<Rightarrow> wake_entity_t" where
  "wake_entity_init_service st ec val = wake_entity_init_str st ec WAKE_ET_SERVICE val"

definition wake_entity_init_path :: "hash_state \<Rightarrow> u8 \<Rightarrow> bytes \<Rightarrow> wake_entity_t" where
  "wake_entity_init_path st ec val = wake_entity_init_str st ec WAKE_ET_PATH val"

definition wake_entity_init_url :: "hash_state \<Rightarrow> u8 \<Rightarrow> bytes \<Rightarrow> wake_entity_t" where
  "wake_entity_init_url st ec val = wake_entity_init_str st ec WAKE_ET_URL val"

definition wake_entity_init_md5 :: "bytes \<Rightarrow> wake_entity_t" where
  "wake_entity_init_md5 hash = init_value WAKE_EC_WITH WAKE_ET_HASH_MD5 hash"

definition wake_entity_init_sha1 :: "bytes \<Rightarrow> wake_entity_t" where
  "wake_entity_init_sha1 hash = init_value WAKE_EC_WITH WAKE_ET_HASH_SHA1 hash"

definition wake_entity_init_sha256 :: "bytes \<Rightarrow> wake_entity_t" where
  "wake_entity_init_sha256 hash = init_value WAKE_EC_WITH WAKE_ET_HASH_SHA256 hash"

definition wake_entity_init_port :: "u8 \<Rightarrow> u16 \<Rightarrow> wake_entity_t" where
  "wake_entity_init_port ec port = init_value ec WAKE_ET_PORT (le_bytes 2 port)"

definition wake_entity_init_proto :: "u8 \<Rightarrow> wake_entity_t" where
  "wake_entity_init_proto iana_proto = init_value WAKE_EC_WITH WAKE_ET_PROTO [iana_proto]"

definition wake_entity_init_size :: "u64 \<Rightarrow> wake_entity_t" where
  "wake_entity_init_size sz = init_value WAKE_EC_WITH WAKE_ET_SIZE (le_bytes 8 sz)"

definition wake_entity_init_sig_id :: "u32 \<Rightarrow> wake_entity_t" where
  "wake_entity_init_sig_id sig_id = init_value WAKE_EC_WITH WAKE_ET_SIG_ID (le_bytes 4 sig_id)"

section \<open>Entity operations\<close>

text \<open>The bytes that are hashed; \<open>None\<close> when \<open>8 + value_len\<close> exceeds the 64 bytes of the struct.\<close>

definition hashed_bytes :: "wake_entity_t \<Rightarrow> bytes option" where
  "hashed_bytes e =
     (if 8 + unat (en_value_len e) \<le> length (entity_bytes e)
      then Some (take (8 + unat (en_value_len e)) (entity_bytes e)) else None)"

definition wake_entity_hash :: "hash_state \<Rightarrow> wake_entity_t \<Rightarrow> u64 option" where
  "wake_entity_hash st e = map_option (\<lambda>d. siphash_2_4 d (siphash_key st)) (hashed_bytes e)"

definition wake_entity_eq :: "wake_entity_t \<Rightarrow> wake_entity_t \<Rightarrow> bool" where
  "wake_entity_eq a b \<longleftrightarrow> entity_bytes a = entity_bytes b"

definition wake_etype_fixed_len :: "u8 \<Rightarrow> u8" where
  "wake_etype_fixed_len et =
     (if et = WAKE_ET_IPV4 then 4 else if et = WAKE_ET_IPV6 then 16
      else if et = WAKE_ET_HASH_MD5 then 16 else if et = WAKE_ET_HASH_SHA1 then 20
      else if et = WAKE_ET_HASH_SHA256 then 32 else if et = WAKE_ET_PORT then 2
      else if et = WAKE_ET_PROTO then 1 else if et = WAKE_ET_SIZE then 8
      else if et = WAKE_ET_SIG_ID then 4 else 0)"

definition wake_entity_valid :: "wake_entity_t \<Rightarrow> bool" where
  "wake_entity_valid e \<longleftrightarrow>
     \<not> en_eclass e \<ge> 3
   \<and> \<not> unat (en_value_len e) > WAKE_ENTITY_VALUE_MAX
   \<and> en_reserved e = 0
   \<and> (\<forall>i\<in>set [unat (en_value_len e)..<WAKE_ENTITY_VALUE_MAX]. en_value e ! i = 0)
   \<and> (en_flags e AND WAKE_EF_HASHED \<noteq> 0
      \<or> \<not> (wake_etype_fixed_len (en_etype e) > 0
             \<and> en_value_len e \<noteq> wake_etype_fixed_len (en_etype e)))"

definition wake_etype_is_string :: "u8 \<Rightarrow> bool" where
  "wake_etype_is_string et \<longleftrightarrow> et AND 0xF0 = 0x20 \<or> et AND 0xF0 = 0x30"

definition wake_etype_is_addr :: "u8 \<Rightarrow> bool" where
  "wake_etype_is_addr et \<longleftrightarrow> et AND 0xF0 = 0x10"

definition wake_etype_is_hash :: "u8 \<Rightarrow> bool" where
  "wake_etype_is_hash et \<longleftrightarrow> et AND 0xF0 = 0x40"

definition wake_etype_is_numeric :: "u8 \<Rightarrow> bool" where
  "wake_etype_is_numeric et \<longleftrightarrow> et AND 0xF0 = 0x50"

section \<open>Names\<close>

definition wake_eclass_name :: "u8 \<Rightarrow> string" where
  "wake_eclass_name ec =
     (if ec = WAKE_EC_WHO then ''WHO'' else if ec = WAKE_EC_WHOM then ''WHOM''
      else if ec = WAKE_EC_WITH then ''WITH'' else ''UNKNOWN_CLASS'')"

definition wake_etype_name :: "u8 \<Rightarrow> string" where
  "wake_etype_name et =
     (if et = WAKE_ET_IPV4 then ''IPV4'' else if et = WAKE_ET_IPV6 then ''IPV6''
      else if et = WAKE_ET_USER then ''USER'' else if et = WAKE_ET_MACHINE then ''MACHINE''
      else if et = WAKE_ET_EMAIL then ''EMAIL'' else if et = WAKE_ET_DOMAIN then ''DOMAIN''
      else if et = WAKE_ET_SERVICE then ''SERVICE'' else if et = WAKE_ET_PATH then ''PATH''
      else if et = WAKE_ET_URL then ''URL'' else if et = WAKE_ET_HASH_MD5 then ''HASH_MD5''
      else if et = WAKE_ET_HASH_SHA1 then ''HASH_SHA1''
      else if et = WAKE_ET_HASH_SHA256 then ''HASH_SHA256''
      else if et = WAKE_ET_PORT then ''PORT'' else if et = WAKE_ET_PROTO then ''PROTO''
      else if et = WAKE_ET_SIZE then ''SIZE'' else if et = WAKE_ET_SIG_ID then ''SIG_ID''
      else ''UNKNOWN_TYPE'')"

abbreviation WAKE_ACTION_UNKNOWN :: u32 where "WAKE_ACTION_UNKNOWN \<equiv> 0"
abbreviation WAKE_ACTION_AUTH :: u32 where "WAKE_ACTION_AUTH \<equiv> 1"
abbreviation WAKE_ACTION_NETWORK :: u32 where "WAKE_ACTION_NETWORK \<equiv> 2"
abbreviation WAKE_ACTION_FILE :: u32 where "WAKE_ACTION_FILE \<equiv> 3"
abbreviation WAKE_ACTION_EXEC :: u32 where "WAKE_ACTION_EXEC \<equiv> 4"
abbreviation WAKE_ACTION_POLICY :: u32 where "WAKE_ACTION_POLICY \<equiv> 5"
abbreviation WAKE_ACTION_SYSTEM :: u32 where "WAKE_ACTION_SYSTEM \<equiv> 6"
abbreviation WAKE_ACTION_DNS :: u32 where "WAKE_ACTION_DNS \<equiv> 7"
abbreviation WAKE_ACTION_MAIL :: u32 where "WAKE_ACTION_MAIL \<equiv> 8"
abbreviation WAKE_ACTION_WEB :: u32 where "WAKE_ACTION_WEB \<equiv> 9"

definition wake_action_name :: "u32 \<Rightarrow> string" where
  "wake_action_name a =
     (if a = WAKE_ACTION_UNKNOWN then ''UNKNOWN''
      else if a = WAKE_ACTION_AUTH then ''AUTH''
      else if a = WAKE_ACTION_NETWORK then ''NETWORK''
      else if a = WAKE_ACTION_FILE then ''FILE''
      else if a = WAKE_ACTION_EXEC then ''EXEC''
      else if a = WAKE_ACTION_POLICY then ''POLICY''
      else if a = WAKE_ACTION_SYSTEM then ''SYSTEM''
      else if a = WAKE_ACTION_DNS then ''DNS''
      else if a = WAKE_ACTION_MAIL then ''MAIL''
      else if a = WAKE_ACTION_WEB then ''WEB''
      else ''UNKNOWN_ACTION'')"

abbreviation WAKE_OUTCOME_UNKNOWN :: u32 where "WAKE_OUTCOME_UNKNOWN \<equiv> 0"
abbreviation WAKE_OUTCOME_SUCCESS :: u32 where "WAKE_OUTCOME_SUCCESS \<equiv> 1"
abbreviation WAKE_OUTCOME_FAILURE :: u32 where "WAKE_OUTCOME_FAILURE \<equiv> 2"
abbreviation WAKE_OUTCOME_ERROR :: u32 where "WAKE_OUTCOME_ERROR \<equiv> 3"

definition wake_outcome_name :: "u32 \<Rightarrow> string" where
  "wake_outcome_name oc =
     (if oc = WAKE_OUTCOME_UNKNOWN then ''UNKNOWN''
      else if oc = WAKE_OUTCOME_SUCCESS then ''SUCCESS''
      else if oc = WAKE_OUTCOME_FAILURE then ''FAILURE''
      else if oc = WAKE_OUTCOME_ERROR then ''ERROR''
      else ''UNKNOWN_OUTCOME'')"

section \<open>Formatting\<close>

text \<open>\<open>%u\<close>: decimal digits.\<close>

fun decimal :: "nat \<Rightarrow> string" where
  "decimal n = (if n < 10 then [char_of (48 + n)] else decimal (n div 10) @ [char_of (48 + n mod 10)])"

declare decimal.simps [simp del]

text \<open>
  A formatting routine returns the \<open>int\<close> it returns and the characters it leaves in the buffer
  before the terminating NUL.  \<open>snprintf\<close> returns the length of the whole text and stores as
  much of it as fits.
\<close>

definition snprintf_text :: "nat \<Rightarrow> string \<Rightarrow> int \<times> string" where
  "snprintf_text bufsz text = (int (length text), take (bufsz - 1) text)"

definition format_ipv4 :: "bytes \<Rightarrow> nat \<Rightarrow> int \<times> string" where
  "format_ipv4 addr bufsz =
     snprintf_text bufsz (decimal (unat (addr ! 0)) @ ''.'' @ decimal (unat (addr ! 1)) @ ''.''
                          @ decimal (unat (addr ! 2)) @ ''.'' @ decimal (unat (addr ! 3)))"

definition format_ipv6 :: "(bytes \<Rightarrow> string option) \<Rightarrow> bytes \<Rightarrow> nat \<Rightarrow> int \<times> string" where
  "format_ipv6 inet_ntop addr bufsz =
     (case inet_ntop (take 16 addr) of
        None \<Rightarrow> snprintf_text bufsz ''<invalid-ipv6>''
      | Some tmp \<Rightarrow> snprintf_text bufsz tmp)"

definition hex_digit :: "u8 \<Rightarrow> char" where
  "hex_digit n = ''0123456789abcdef'' ! unat n"

text \<open>\<open>for (i = 0; i < len && out + 2 < bufsz; i++)\<close>, two digits a byte.\<close>

fun hex_loop :: "bytes \<Rightarrow> nat \<Rightarrow> string \<Rightarrow> string" where
  "hex_loop [] bufsz out = out"
| "hex_loop (d # ds) bufsz out =
     (if length out + 2 < bufsz
      then hex_loop ds bufsz (out @ [hex_digit (drop_bit 4 d), hex_digit (d AND 0x0F)])
      else out)"

definition format_hex :: "bytes \<Rightarrow> nat \<Rightarrow> int \<times> string" where
  "format_hex data bufsz =
     (if bufsz = 0 then (int (length data * 2 + 1 - 1), [])
      else let out = hex_loop data bufsz [] in (int (length out), out))"

definition text_of :: "bytes \<Rightarrow> string" where
  "text_of bs = map (\<lambda>b. char_of (unat b)) bs"

definition format_string :: "bytes \<Rightarrow> nat \<Rightarrow> int \<times> string" where
  "format_string data bufsz =
     (if bufsz = 0 then (int (length data), [])
      else
        let n = (if length data < bufsz - 1 then length data else bufsz - 1)
        in (int n, text_of (take n data)))"

definition format_uint16 :: "bytes \<Rightarrow> nat \<Rightarrow> int \<times> string" where
  "format_uint16 data bufsz = snprintf_text bufsz (decimal (unat (le_load (take 2 data) :: u16)))"

definition format_uint32 :: "bytes \<Rightarrow> nat \<Rightarrow> int \<times> string" where
  "format_uint32 data bufsz = snprintf_text bufsz (decimal (unat (le_load (take 4 data) :: u32)))"

definition format_uint64 :: "bytes \<Rightarrow> nat \<Rightarrow> int \<times> string" where
  "format_uint64 data bufsz = snprintf_text bufsz (decimal (unat (le_load (take 8 data) :: u64)))"

definition format_value ::
  "(bytes \<Rightarrow> string option) \<Rightarrow> wake_entity_t \<Rightarrow> nat \<Rightarrow> int \<times> string" where
  "format_value inet_ntop e vbufsz =
     (let data = take (unat (en_value_len e)) (en_value e)
      in if en_flags e AND WAKE_EF_HASHED \<noteq> 0
         then
           let (vlen, text) = snprintf_text vbufsz ''H:''
           in if vlen > 0 \<and> nat vlen < vbufsz
              then let (n, hex) = format_hex data (vbufsz - nat vlen) in (vlen + n, text @ hex)
              else (vlen, text)
         else if en_etype e = WAKE_ET_IPV4 then format_ipv4 (en_value e) vbufsz
         else if en_etype e = WAKE_ET_IPV6 then format_ipv6 inet_ntop (en_value e) vbufsz
         else if en_etype e \<in> {WAKE_ET_USER, WAKE_ET_MACHINE, WAKE_ET_EMAIL, WAKE_ET_DOMAIN,
                                WAKE_ET_SERVICE, WAKE_ET_PATH, WAKE_ET_URL}
         then format_string data vbufsz
         else if en_etype e \<in> {WAKE_ET_HASH_MD5, WAKE_ET_HASH_SHA1, WAKE_ET_HASH_SHA256}
         then format_hex data vbufsz
         else if en_etype e = WAKE_ET_PORT then format_uint16 (en_value e) vbufsz
         else if en_etype e = WAKE_ET_PROTO
         then snprintf_text vbufsz (decimal (unat (en_value e ! 0)))
         else if en_etype e = WAKE_ET_SIZE then format_uint64 (en_value e) vbufsz
         else if en_etype e = WAKE_ET_SIG_ID then format_uint32 (en_value e) vbufsz
         else format_hex data vbufsz)"

definition wake_entity_format ::
  "(bytes \<Rightarrow> string option) \<Rightarrow> wake_entity_t \<Rightarrow> nat \<Rightarrow> int \<times> string" where
  "wake_entity_format inet_ntop e bufsz =
     (if bufsz = 0 then (- 1, [])
      else
        let (off, text) = snprintf_text bufsz
              (wake_eclass_name (en_eclass e) @ '':'' @ wake_etype_name (en_etype e) @ '':'')
        in if off < 0 \<or> nat off \<ge> bufsz then (- 1, text)
           else
             let (vlen, vtext) = format_value inet_ntop e (bufsz - nat off)
             in if vlen < 0 then (- 1, text @ vtext) else (off + vlen, text @ vtext))"

end
