(* ===== verification/Wake_Probe.thy ===== *)
theory Wake_Probe
  imports Wake_Prelude
begin

text \<open>
  Open addressing with a bounded probe.  The pheromone table, the coupling table and its sidecar
  index each keep an array of 64-bit keys in which 0 is an empty slot, and look at no more than a
  fixed number of slots for a key.  The interface \<open>probe_table\<close> states what a table has to
  promise (probes stay in range, an empty slot is dead) and derives what its clients rely on: as
  long as every live key sits behind a run of slots that are not empty, a bounded probe that ends
  without the key proves that the key is nowhere in the table; and filling the first dead slot of a
  probe that ended keeps it that way.  \<open>tombstone_table\<close> extends it by removal: burying a key under
  a tombstone keeps it that way, too.
\<close>

abbreviation SLOT_EMPTY :: u64 where "SLOT_EMPTY \<equiv> 0"
abbreviation SLOT_TOMBSTONE :: u64 where "SLOT_TOMBSTONE \<equiv> 0xDEADDEADDEADDEAD"

definition vacant :: "u64 \<Rightarrow> bool" where
  "vacant kh \<longleftrightarrow> kh = SLOT_EMPTY \<or> kh = SLOT_TOMBSTONE"

lemma vacant_sentinels [simp]: "vacant 0" "vacant 0xDEADDEADDEADDEAD"
  by (simp_all add: vacant_def)

text \<open>The mask of a table of \<open>c\<close> slots.\<close>

lemma unat_and_mask_less:
  assumes "0 < (c :: u32)"
  shows "unat ((x :: u64) AND ucast (c - 1)) < unat c"
proof -
  have "unat (x AND ucast (c - 1)) \<le> unat (ucast (c - 1) :: u64)"
    using word_and_le1 [of x "ucast (c - 1)"] by (simp only: word_le_nat_alt)
  also have "\<dots> = unat (c - 1)" by simp
  also have "\<dots> < unat c"
    using assms by (metis unat_gt_0 unat_minus_one diff_less zero_less_one word_gt_0)
  finally show ?thesis .
qed

lemma find_unique:
  assumes "i < length xs" "P (xs ! i)" "\<And>j. j < length xs \<Longrightarrow> P (xs ! j) \<Longrightarrow> j = i"
  shows "find P xs = Some (xs ! i)"
  unfolding find_Some_iff using assms by (metis less_irrefl order_less_trans)

lemma vacant_zero_word: "kh = 0 \<Longrightarrow> vacant kh"
  by simp

locale probe_table =
  fixes keys :: "'s \<Rightarrow> u64 list"
    and slot :: "'s \<Rightarrow> u64 \<Rightarrow> nat \<Rightarrow> nat"
    and bound :: nat
    and layout :: "'s \<Rightarrow> bool"
    and dead :: "u64 \<Rightarrow> bool"
  assumes slot_less: "layout s \<Longrightarrow> slot s k d < length (keys s)"
    and dead_empty: "dead SLOT_EMPTY"
begin

text \<open>The key of slot \<open>i\<close> is reachable by a probe, and in no other slot.\<close>

definition chained :: "'s \<Rightarrow> bool" where
  "chained s \<longleftrightarrow>
     (\<forall>i<length (keys s). \<not> dead (keys s ! i) \<longrightarrow>
        (\<exists>d<bound. slot s (keys s ! i) d = i
           \<and> (\<forall>d'<d. keys s ! slot s (keys s ! i) d' \<noteq> SLOT_EMPTY))
      \<and> (\<forall>j<length (keys s). keys s ! j = keys s ! i \<longrightarrow> j = i))"

lemma chainedD:
  assumes "chained s" "i < length (keys s)" "\<not> dead (keys s ! i)"
  shows "\<exists>d<bound. slot s (keys s ! i) d = i \<and> (\<forall>d'<d. keys s ! slot s (keys s ! i) d' \<noteq> SLOT_EMPTY)"
    and "\<And>j. j < length (keys s) \<Longrightarrow> keys s ! j = keys s ! i \<Longrightarrow> j = i"
  using assms unfolding chained_def by blast+

lemma chained_same: "chained s \<Longrightarrow> keys s' = keys s \<Longrightarrow> slot s' = slot s \<Longrightarrow> chained s'"
  by (simp add: chained_def)

lemma chained_empty: "(\<And>i. i < length (keys s) \<Longrightarrow> dead (keys s ! i)) \<Longrightarrow> chained s"
  by (simp add: chained_def)

lemma absent:
  assumes "chained s" "\<not> dead k" "m \<le> bound" "\<And>d. d < m \<Longrightarrow> keys s ! slot s k d \<noteq> k"
    and "m = bound \<or> keys s ! slot s k m = SLOT_EMPTY"
  shows "k \<notin> set (keys s)"
proof
  assume "k \<in> set (keys s)"
  then obtain i where i: "i < length (keys s)" "keys s ! i = k"
    by (auto simp: in_set_conv_nth)
  then obtain d where d: "d < bound" "slot s k d = i" "\<forall>d'<d. keys s ! slot s k d' \<noteq> SLOT_EMPTY"
    using chainedD(1) [OF assms(1)] assms(2) by blast
  show False
  proof (cases "d < m")
    case True
    with assms(4) [of d] d i show False by simp
  next
    case False
    with assms(5) d(1) have "keys s ! slot s k m = SLOT_EMPTY" by linarith
    with d False i assms(2) show False
      by (cases "m = d") (auto simp: dead_empty)
  qed
qed

lemma chained_fill:
  assumes "chained s" "layout s" "\<not> dead k" "k \<notin> set (keys s)" "d < bound"
    and "dead (keys s ! slot s k d)" "\<And>d'. d' < d \<Longrightarrow> keys s ! slot s k d' \<noteq> SLOT_EMPTY"
    and "keys s' = (keys s)[slot s k d := k]" "slot s' = slot s"
  shows "chained s'"
  unfolding chained_def
proof (intro allI impI)
  let ?i = "slot s k d"
  have i: "?i < length (keys s)" by (rule slot_less [OF assms(2)])
  have at: "keys s' ! x = (if x = ?i then k else keys s ! x)" for x
    using i assms(8) by (simp add: nth_list_update)
  have len: "length (keys s') = length (keys s)" using assms(8) by simp
  have k0: "k \<noteq> SLOT_EMPTY" using assms(3) by (auto simp: dead_empty)
  fix j
  assume j: "j < length (keys s')" "\<not> dead (keys s' ! j)"
  show "(\<exists>d<bound. slot s' (keys s' ! j) d = j
      \<and> (\<forall>d'<d. keys s' ! slot s' (keys s' ! j) d' \<noteq> SLOT_EMPTY))
      \<and> (\<forall>x<length (keys s'). keys s' ! x = keys s' ! j \<longrightarrow> x = j)"
  proof (cases "j = ?i")
    case True
    with assms(4,5,7) len k0 show ?thesis
      by (auto simp: at assms(9) in_set_conv_nth split: if_splits)
  next
    case False
    with j len have j': "j < length (keys s)" "\<not> dead (keys s ! j)"
      by (auto simp: at)
    obtain e where "e < bound" "slot s (keys s ! j) e = j"
        "\<forall>d'<e. keys s ! slot s (keys s ! j) d' \<noteq> SLOT_EMPTY"
      using chainedD(1) [OF assms(1) j'] by blast
    moreover have "x = j" if "x < length (keys s')" "keys s' ! x = keys s ! j" for x
      using that chainedD(2) [OF assms(1) j', of x] assms(4) len j'(1)
      by (auto simp: at in_set_conv_nth split: if_splits)
    ultimately show ?thesis
      using False k0 by (auto simp: at assms(9))
  qed
qed

end

locale tombstone_table = probe_table +
  assumes dead_tombstone: "dead SLOT_TOMBSTONE"
begin

lemma chained_bury:
  assumes "chained s" "i < length (keys s)" "keys s' = (keys s)[i := SLOT_TOMBSTONE]" "slot s' = slot s"
  shows "chained s'"
  unfolding chained_def
proof (intro allI impI)
  fix j
  assume j: "j < length (keys s')" "\<not> dead (keys s' ! j)"
  then have ne: "j \<noteq> i" and j': "j < length (keys s)" "\<not> dead (keys s ! j)"
    using assms(2,3) dead_tombstone by (auto simp: nth_list_update split: if_splits)
  have at: "keys s' ! x = (if x = i then SLOT_TOMBSTONE else keys s ! x)" for x
    using assms(2,3) by (simp add: nth_list_update)
  have len: "length (keys s') = length (keys s)" using assms(3) by simp
  obtain d where "d < bound" "slot s (keys s ! j) d = j"
      "\<forall>d'<d. keys s ! slot s (keys s ! j) d' \<noteq> SLOT_EMPTY"
    using chainedD(1) [OF assms(1) j'] by blast
  moreover have "x = j" if "x < length (keys s')" "keys s' ! x = keys s' ! j" for x
    using that chainedD(2) [OF assms(1) j', of x] ne j(2) len dead_tombstone
    by (auto simp: at split: if_splits)
  ultimately show "(\<exists>d<bound. slot s' (keys s' ! j) d = j
      \<and> (\<forall>d'<d. keys s' ! slot s' (keys s' ! j) d' \<noteq> SLOT_EMPTY))
      \<and> (\<forall>x<length (keys s'). keys s' ! x = keys s' ! j \<longrightarrow> x = j)"
    using ne by (auto simp: at assms(4))
qed

end

text \<open>
  When the first slots a probe looks at are different ones, it finds its key or an empty slot as
  long as no more keys than that are around.
\<close>

locale spread_table = probe_table +
  fixes window :: "'a \<Rightarrow> nat"
  assumes slot_inj: "layout s \<Longrightarrow> inj_on (slot s k) {..<window s}"
    and window_bound: "window s \<le> bound"
begin

lemma probe_succeeds:
  assumes "chained s" "layout s" "k \<in> K" "finite K" "card K \<le> window s"
    and "\<And>x. x \<in> set (keys s) \<Longrightarrow> x \<noteq> SLOT_EMPTY \<Longrightarrow> x \<in> K \<and> \<not> dead x"
  shows "\<exists>d<bound. keys s ! slot s k d = k \<or> keys s ! slot s k d = SLOT_EMPTY"
proof (rule ccontr)
  let ?f = "\<lambda>d. keys s ! slot s k d" and ?W = "{..<window s}"
  assume "\<not> ?thesis"
  then have miss: "?f d \<noteq> k" "?f d \<noteq> SLOT_EMPTY" if "d < window s" for d
    using that window_bound [of s] by auto
  have K: "?f d \<in> K" "\<not> dead (?f d)" if "d < window s" for d
    using assms(6) [OF nth_mem [OF slot_less [OF assms(2)]]] miss(2) [OF that] by auto
  have "inj_on ?f ?W"
  proof (rule inj_onI)
    fix d d'
    assume d: "d \<in> ?W" "d' \<in> ?W" "?f d = ?f d'"
    then have "slot s k d' = slot s k d"
      using chainedD(2) [OF assms(1) slot_less [OF assms(2)]] K(2) [of d] slot_less [OF assms(2), of k d'] by simp
    with slot_inj [OF assms(2), of k] d show "d = d'" by (auto dest: inj_onD)
  qed
  moreover have "?f ` ?W \<subseteq> K - {k}" using K miss by auto
  ultimately have "card ?W \<le> card (K - {k})"
    using assms(4) by (intro card_inj_on_le [of ?f]) auto
  moreover have "card (K - {k}) < card K" using assms(3,4) by (intro card_Diff1_less)
  ultimately show False using assms(5) by simp
qed

end

end
