(* ===== verification/Wake_Pheromone.thy ===== *)
theory Wake_Pheromone
  imports Wake_Entity Wake_Probe "HOL-Library.Monad_Syntax"
begin

text \<open>
  The pheromone table (\<open>src/src/wake_pheromone.c\<close>, \<open>src/src/wake_pheromone.h\<close>): an open-addressing
  hash table of 128-byte entries with a probe bound of eight, kept in a mapped file.

  The entries are the list \<open>pt_entries\<close>, of \<open>capacity\<close> elements.  An operation that would index
  the mapping out of range, or hash past the end of an entity, has the value \<open>None\<close>; that the
  operations of a well-formed table never do is proved in \<open>Wake_Pheromone_Inv\<close>.  Insertion is the
  one operation that reads a slot, decides, and reads it again: it takes two functions
  \<open>env1\<close>, \<open>env2\<close>, what other threads do to the mapping after its probe loop and after its second
  load, so that the branches of a lost race are branches of the model.  The clock, the file system
  and the random bytes are parameters.
\<close>

section \<open>Layout\<close>

abbreviation WAKE_PHT_PROBE_MAX :: nat where "WAKE_PHT_PROBE_MAX \<equiv> 8"
abbreviation WAKE_PHT_SLOT_EMPTY :: u64 where "WAKE_PHT_SLOT_EMPTY \<equiv> 0"
abbreviation WAKE_PHT_SLOT_TOMBSTONE :: u64 where "WAKE_PHT_SLOT_TOMBSTONE \<equiv> 0xDEADDEADDEADDEAD"
abbreviation WAKE_PHT_DEFAULT_CAPACITY :: u32 where "WAKE_PHT_DEFAULT_CAPACITY \<equiv> 65536"
abbreviation WAKE_PHT_DEFAULT_DECAY_FP16 :: u32 where "WAKE_PHT_DEFAULT_DECAY_FP16 \<equiv> 62259"
abbreviation WAKE_PHT_DEFAULT_NOISE_FLOOR :: u32 where "WAKE_PHT_DEFAULT_NOISE_FLOOR \<equiv> 100"
abbreviation WAKE_PHT_MAGIC :: u64 where "WAKE_PHT_MAGIC \<equiv> 0x0054485045414B57"
abbreviation WAKE_PHT_VERSION :: u32 where "WAKE_PHT_VERSION \<equiv> 1"
abbreviation WAKE_REASON_SLOTS :: nat where "WAKE_REASON_SLOTS \<equiv> 3"
abbreviation UINT64_MAX :: u64 where "UINT64_MAX \<equiv> 0xFFFFFFFFFFFFFFFF"

record wake_pheromone_entry_t =
  pe_key_hash :: u64
  pe_confidence :: u32
  pe_hit_count :: u32
  pe_last_update :: u32
  pe_src_count :: u16
  pe_action :: u8
  pe_outcome :: u8
  pe_first_seen :: u32
  pe_tenant_id :: u32
  pe_version :: u32
  pe_phase_flags :: u32
  pe_reasons :: "u64 list"
  pe_entity :: wake_entity_t

record wake_pheromone_header_t =
  ph_magic :: u64
  ph_format_version :: u32
  ph_capacity :: u32
  ph_mask :: u64
  ph_hash_key :: bytes
  ph_epoch :: u32
  ph_decay_factor_fp16 :: u32
  ph_noise_floor :: u32

record wake_pheromone_t =
  pt_header :: wake_pheromone_header_t
  pt_entries :: "wake_pheromone_entry_t list"
  pt_map_size :: nat

record wake_pheromone_config_t =
  pc_capacity :: u32
  pc_decay_factor_fp16 :: u32
  pc_noise_floor :: u32

definition zero_entry :: wake_pheromone_entry_t where
  "zero_entry = \<lparr>pe_key_hash = 0, pe_confidence = 0, pe_hit_count = 0, pe_last_update = 0,
     pe_src_count = 0, pe_action = 0, pe_outcome = 0, pe_first_seen = 0, pe_tenant_id = 0,
     pe_version = 0, pe_phase_flags = 0, pe_reasons = replicate WAKE_REASON_SLOTS 0, pe_entity = zero_entity\<rparr>"

section \<open>Helpers\<close>

definition is_power_of_2 :: "u32 \<Rightarrow> bool" where
  "is_power_of_2 x \<longleftrightarrow> x > 0 \<and> x AND (x - 1) = 0"

definition current_epoch_seconds :: "u64 \<Rightarrow> u32" where
  "current_epoch_seconds tv_sec = ucast tv_sec"

definition relative_time :: "u64 \<Rightarrow> wake_pheromone_t \<Rightarrow> u32" where
  "relative_time tv_sec pt = current_epoch_seconds tv_sec - ph_epoch (pt_header pt)"

definition compute_map_size :: "u32 \<Rightarrow> nat" where
  "compute_map_size capacity = 256 + unat capacity * 128"

definition entity_key_hash :: "hash_state \<Rightarrow> wake_entity_t \<Rightarrow> u64 option" where
  "entity_key_hash hs entity =
     map_option (\<lambda>h. if h = WAKE_PHT_SLOT_EMPTY \<or> h = WAKE_PHT_SLOT_TOMBSTONE then h XOR 1 else h)
       (wake_entity_hash hs entity)"

definition probe_idx :: "wake_pheromone_t \<Rightarrow> u64 \<Rightarrow> nat \<Rightarrow> u64" where
  "probe_idx pt key probe =
     ((key AND ph_mask (pt_header pt)) + of_nat probe) AND ph_mask (pt_header pt)"

definition load_entry :: "wake_pheromone_t \<Rightarrow> u64 \<Rightarrow> wake_pheromone_entry_t option" where
  "load_entry pt idx =
     (if unat idx < length (pt_entries pt) then Some (pt_entries pt ! unat idx) else None)"

definition store_entry ::
  "wake_pheromone_t \<Rightarrow> u64 \<Rightarrow> wake_pheromone_entry_t \<Rightarrow> wake_pheromone_t" where
  "store_entry pt idx e = pt\<lparr>pt_entries := (pt_entries pt)[unat idx := e]\<rparr>"

section \<open>Insertion\<close>

text \<open>How the probe loop ends: at the key, or with \<open>first_available\<close> (\<open>UINT64_MAX\<close>: none).\<close>

datatype probe_result = Existing u64 | First_available u64

fun insert_probe ::
  "wake_pheromone_t \<Rightarrow> u64 \<Rightarrow> nat list \<Rightarrow> u64 \<Rightarrow> probe_result option" where
  "insert_probe pt key [] first_available = Some (First_available first_available)"
| "insert_probe pt key (probe # probes) first_available =
     (let idx = probe_idx pt key probe
      in case load_entry pt idx of
           None \<Rightarrow> None
         | Some e \<Rightarrow>
             let existing = pe_key_hash e;
                 first_available' =
                   (if vacant existing \<and> first_available = UINT64_MAX then idx
                    else first_available)
             in if existing = key then Some (Existing idx)
                else if existing = WAKE_PHT_SLOT_EMPTY then Some (First_available first_available')
                else insert_probe pt key probes first_available')"

text \<open>The atomic updates of an entry that holds the key already.\<close>

definition hit_entry ::
  "u32 \<Rightarrow> u32 \<Rightarrow> bool \<Rightarrow> u32 \<Rightarrow> wake_pheromone_entry_t \<Rightarrow> wake_pheromone_entry_t" where
  "hit_entry now confidence_delta increment_src phase_flags e =
     e\<lparr>pe_confidence := pe_confidence e + confidence_delta,
       pe_hit_count := pe_hit_count e + 1,
       pe_last_update := now,
       pe_src_count := (if increment_src then pe_src_count e + 1 else pe_src_count e),
       pe_phase_flags := (if phase_flags \<noteq> 0 then pe_phase_flags e OR phase_flags
                          else pe_phase_flags e)\<rparr>"

text \<open>The first half of the write under the seqlock: the version is odd while it lasts.\<close>

definition write_version :: "u32 \<Rightarrow> u32" where
  "write_version ver = (ver + 1) OR 1"

definition fill_entry ::
  "u64 \<Rightarrow> wake_entity_t \<Rightarrow> u32 \<Rightarrow> u32 \<Rightarrow> u32 \<Rightarrow> u32 \<Rightarrow> u32 \<Rightarrow> u32 \<Rightarrow> wake_pheromone_entry_t
     \<Rightarrow> wake_pheromone_entry_t" where
  "fill_entry key entity action outcome tenant_id now confidence_delta phase_flags e =
     e\<lparr>pe_key_hash := key,
       pe_entity := entity,
       pe_action := ucast action,
       pe_outcome := ucast outcome,
       pe_first_seen := now,
       pe_tenant_id := tenant_id,
       pe_version := write_version (pe_version e) + 1,
       pe_reasons := [0, 0, 0],
       pe_confidence := confidence_delta,
       pe_hit_count := 1,
       pe_last_update := now,
       pe_src_count := 1,
       pe_phase_flags := phase_flags\<rparr>"

text \<open>
  The part after the probe loop: \<open>pt\<close> is the mapping at the second load, \<open>env2 pt\<close> the mapping at
  the compare-and-swap.
\<close>

definition claim_slot ::
  "(wake_pheromone_t \<Rightarrow> wake_pheromone_t) \<Rightarrow> wake_pheromone_t \<Rightarrow> u64 \<Rightarrow> u64 \<Rightarrow> wake_entity_t \<Rightarrow> u32
     \<Rightarrow> u32 \<Rightarrow> u32 \<Rightarrow> u32 \<Rightarrow> bool \<Rightarrow> u32 \<Rightarrow> u32 \<Rightarrow> (u32 \<times> wake_pheromone_t) option" where
  "claim_slot env2 pt first_available key entity action outcome tenant_id confidence_delta
     increment_src phase_flags now =
     (if first_available = UINT64_MAX then Some (0, pt)
      else
        case load_entry pt first_available of
          None \<Rightarrow> None
        | Some e0 \<Rightarrow>
            let expected = pe_key_hash e0
            in if expected \<noteq> WAKE_PHT_SLOT_EMPTY \<and> expected \<noteq> WAKE_PHT_SLOT_TOMBSTONE
               then Some (0, pt)
               else
                 let pt2 = env2 pt
                 in case load_entry pt2 first_available of
                      None \<Rightarrow> None
                    | Some e \<Rightarrow>
                        if pe_key_hash e = expected
                        then Some (confidence_delta,
                               store_entry pt2 first_available
                                 (fill_entry key entity action outcome tenant_id now
                                    confidence_delta phase_flags e))
                        else if pe_key_hash e = key
                        then
                          let e' = hit_entry now confidence_delta increment_src phase_flags e
                          in Some (pe_confidence e', store_entry pt2 first_available e')
                        else Some (0, pt2))"

definition pht_insert_race ::
  "(wake_pheromone_t \<Rightarrow> wake_pheromone_t) \<Rightarrow> (wake_pheromone_t \<Rightarrow> wake_pheromone_t) \<Rightarrow> hash_state
     \<Rightarrow> u64 \<Rightarrow> wake_pheromone_t \<Rightarrow> wake_entity_t \<Rightarrow> u32 \<Rightarrow> u32 \<Rightarrow> u32 \<Rightarrow> u32 \<Rightarrow> bool \<Rightarrow> u32
     \<Rightarrow> (u32 \<times> wake_pheromone_t) option" where
  "pht_insert_race env1 env2 hs tv_sec pt entity action outcome tenant_id confidence_delta
     increment_src phase_flags =
     do {
       key \<leftarrow> entity_key_hash hs entity;
       let now = relative_time tv_sec pt;
       r \<leftarrow> insert_probe pt key [0..<WAKE_PHT_PROBE_MAX] UINT64_MAX;
       case r of
         Existing idx \<Rightarrow>
           do {
             e \<leftarrow> load_entry pt idx;
             let e' = hit_entry now confidence_delta increment_src phase_flags e;
             Some (pe_confidence e', store_entry pt idx e')
           }
       | First_available fa \<Rightarrow>
           claim_slot env2 (env1 pt) fa key entity action outcome tenant_id confidence_delta
             increment_src phase_flags now
     }"

text \<open>No other thread between the two loads and the compare-and-swap.\<close>

definition pht_insert ::
  "hash_state \<Rightarrow> u64 \<Rightarrow> wake_pheromone_t \<Rightarrow> wake_entity_t \<Rightarrow> u32 \<Rightarrow> u32 \<Rightarrow> u32 \<Rightarrow> u32 \<Rightarrow> bool
     \<Rightarrow> u32 \<Rightarrow> (u32 \<times> wake_pheromone_t) option" where
  "pht_insert = pht_insert_race (\<lambda>pt. pt) (\<lambda>pt. pt)"

definition wake_pheromone_deposit ::
  "hash_state \<Rightarrow> u64 \<Rightarrow> wake_pheromone_t \<Rightarrow> wake_entity_t \<Rightarrow> u32 \<Rightarrow> u32 \<Rightarrow> u32 \<Rightarrow> u32 \<Rightarrow> u32
     \<Rightarrow> (u32 \<times> wake_pheromone_t) option" where
  "wake_pheromone_deposit hs tv_sec pt entity action outcome tenant_id confidence_delta phase_flags =
     pht_insert hs tv_sec pt entity action outcome tenant_id confidence_delta False phase_flags"

definition wake_pheromone_reinforce ::
  "hash_state \<Rightarrow> u64 \<Rightarrow> wake_pheromone_t \<Rightarrow> wake_entity_t \<Rightarrow> u32 \<Rightarrow> u32 \<Rightarrow> u32 \<Rightarrow> u32 \<Rightarrow> u32
     \<Rightarrow> (u32 \<times> wake_pheromone_t) option" where
  "wake_pheromone_reinforce hs tv_sec pt entity action outcome tenant_id confidence_delta phase_flags =
     pht_insert hs tv_sec pt entity action outcome tenant_id confidence_delta True phase_flags"

section \<open>Lookup and removal\<close>

text \<open>The probe loop of lookup and removal: the slot of the key, if the loop meets it.\<close>

fun find_probe :: "wake_pheromone_t \<Rightarrow> u64 \<Rightarrow> nat list \<Rightarrow> u64 option option" where
  "find_probe pt key [] = Some None"
| "find_probe pt key (probe # probes) =
     (let idx = probe_idx pt key probe
      in case load_entry pt idx of
           None \<Rightarrow> None
         | Some e \<Rightarrow>
             if pe_key_hash e = key then Some (Some idx)
             else if pe_key_hash e = WAKE_PHT_SLOT_EMPTY then Some None
             else find_probe pt key probes)"

definition wake_pheromone_lookup :: "hash_state \<Rightarrow> wake_pheromone_t \<Rightarrow> wake_entity_t \<Rightarrow> u32 option" where
  "wake_pheromone_lookup hs pt entity =
     do {
       key \<leftarrow> entity_key_hash hs entity;
       r \<leftarrow> find_probe pt key [0..<WAKE_PHT_PROBE_MAX];
       case r of
         None \<Rightarrow> Some 0
       | Some idx \<Rightarrow> map_option pe_confidence (load_entry pt idx)
     }"

definition wake_pheromone_remove ::
  "hash_state \<Rightarrow> wake_pheromone_t \<Rightarrow> wake_entity_t \<Rightarrow> (bool \<times> wake_pheromone_t) option" where
  "wake_pheromone_remove hs pt entity =
     do {
       key \<leftarrow> entity_key_hash hs entity;
       r \<leftarrow> find_probe pt key [0..<WAKE_PHT_PROBE_MAX];
       case r of
         None \<Rightarrow> Some (False, pt)
       | Some idx \<Rightarrow>
           map_option
             (\<lambda>e. (True, store_entry pt idx (e\<lparr>pe_key_hash := WAKE_PHT_SLOT_TOMBSTONE\<rparr>)))
             (load_entry pt idx)
     }"

section \<open>Reasons\<close>

abbreviation WAKE_REASON_NONE :: u8 where "WAKE_REASON_NONE \<equiv> 0"
abbreviation WAKE_REASON_SCAN :: u8 where "WAKE_REASON_SCAN \<equiv> 1"
abbreviation WAKE_REASON_BRUTE :: u8 where "WAKE_REASON_BRUTE \<equiv> 2"
abbreviation WAKE_REASON_EXFIL :: u8 where "WAKE_REASON_EXFIL \<equiv> 3"
abbreviation WAKE_REASON_C2 :: u8 where "WAKE_REASON_C2 \<equiv> 4"
abbreviation WAKE_REASON_CTI :: u8 where "WAKE_REASON_CTI \<equiv> 5"
abbreviation WAKE_REASON_IDS :: u8 where "WAKE_REASON_IDS \<equiv> 6"
abbreviation WAKE_REASON_SIGMA :: u8 where "WAKE_REASON_SIGMA \<equiv> 7"
abbreviation WAKE_REASON_SIGMA_CORR :: u8 where "WAKE_REASON_SIGMA_CORR \<equiv> 8"
abbreviation WAKE_REASON_CLASSIFY :: u8 where "WAKE_REASON_CLASSIFY \<equiv> 9"
abbreviation WAKE_REASON_CREDENTIAL :: u8 where "WAKE_REASON_CREDENTIAL \<equiv> 10"
abbreviation WAKE_REASON_SHELLCODE :: u8 where "WAKE_REASON_SHELLCODE \<equiv> 11"
abbreviation WAKE_REASON_EDR :: u8 where "WAKE_REASON_EDR \<equiv> 12"

definition wake_reason_pack :: "u8 \<Rightarrow> u8 \<Rightarrow> u16 \<Rightarrow> u32 \<Rightarrow> u64" where
  "wake_reason_pack kind code magnitude extra =
     ucast kind OR push_bit 8 (ucast code) OR push_bit 16 (ucast magnitude)
       OR push_bit 32 (ucast extra)"

definition reason_unpack :: "u64 \<Rightarrow> u8 \<times> u8 \<times> u16 \<times> u32" where
  "reason_unpack w =
     (ucast (w AND 0xff), ucast (drop_bit 8 w AND 0xff), ucast (drop_bit 16 w AND 0xffff),
      ucast (drop_bit 32 w))"

definition class_name :: "string list" where
  "class_name =
     [''classifier'', ''new entity'', ''temporal'', ''velocity'', ''icmp tunnel'',
      ''cross category'', ''credential pivot'', ''slow scan'', ''destination'',
      ''lateral movement'', ''dns tunnel'', ''data staging'', ''attack chain'', ''geo travel'',
      ''sequence'', ''beaconing'', ''role incongruence'']"

text \<open>\<open>%.1f\<close> of \<open>magnitude / 10.0\<close>.\<close>

definition tenths :: "u16 \<Rightarrow> string" where
  "tenths magnitude = decimal (unat magnitude div 10) @ ''.'' @ decimal (unat magnitude mod 10)"

definition reason_sentence :: "u8 \<Rightarrow> u8 \<Rightarrow> u16 \<Rightarrow> u32 \<Rightarrow> string" where
  "reason_sentence kind code magnitude extra =
     (if kind = WAKE_REASON_SCAN then ''scan '' @ tenths magnitude @ ''x baseline''
      else if kind = WAKE_REASON_BRUTE then ''brute '' @ tenths magnitude @ ''x baseline''
      else if kind = WAKE_REASON_EXFIL then ''exfil '' @ tenths magnitude @ ''x baseline''
      else if kind = WAKE_REASON_C2 then ''c2 '' @ tenths magnitude @ ''x baseline''
      else if kind = WAKE_REASON_CREDENTIAL then ''credential use after brute''
      else if kind = WAKE_REASON_SHELLCODE then ''shellcode x'' @ decimal (unat magnitude)
      else if kind = WAKE_REASON_EDR then ''edr alert x'' @ decimal (unat magnitude)
      else if kind = WAKE_REASON_CTI then ''cti confidence '' @ decimal (unat magnitude)
      else if kind = WAKE_REASON_IDS then ''ids severity '' @ decimal (unat magnitude)
      else if kind = WAKE_REASON_SIGMA \<or> kind = WAKE_REASON_SIGMA_CORR
      then (if kind = WAKE_REASON_SIGMA_CORR then ''sigma correlation'' else ''sigma'')
             @ (if extra > 0 then '' T'' @ decimal (unat extra) else '' match'')
      else if kind = WAKE_REASON_CLASSIFY
      then (if unat code < length class_name then class_name ! unat code else ''classifier'')
      else ''evidence '' @ decimal (unat kind))"

text \<open>\<open>None\<close> as the capacity stands for a NULL buffer.\<close>

definition wake_reason_format :: "u64 \<Rightarrow> nat option \<Rightarrow> int \<times> string" where
  "wake_reason_format w buf =
     (case buf of
        None \<Rightarrow> (- 1, [])
      | Some cap \<Rightarrow>
          if cap = 0 then (- 1, [])
          else
            let (kind, code, magnitude, extra) = reason_unpack w
            in if kind = WAKE_REASON_NONE then (- 1, [])
               else
                 let (n, text) = snprintf_text cap (reason_sentence kind code magnitude extra)
                 in if n < 0 \<or> nat n \<ge> cap then (- 1, text) else (n, text))"

fun note_probe :: "wake_pheromone_t \<Rightarrow> u64 \<Rightarrow> nat list \<Rightarrow> u64 option option" where
  "note_probe pt key [] = Some None"
| "note_probe pt key (probe # probes) =
     (let idx = probe_idx pt key probe
      in case load_entry pt idx of
           None \<Rightarrow> None
         | Some e \<Rightarrow>
             if pe_key_hash e = WAKE_PHT_SLOT_EMPTY then Some None
             else if pe_key_hash e \<noteq> key then note_probe pt key probes
             else Some (Some idx))"

definition note_entry :: "u64 \<Rightarrow> wake_pheromone_entry_t \<Rightarrow> wake_pheromone_entry_t" where
  "note_entry w e =
     (let cur0 = pe_reasons e ! 0
      in if (ucast (cur0 AND 0xff) :: u8) = ucast (w AND 0xff)
         then e\<lparr>pe_reasons := (pe_reasons e)[0 := w]\<rparr>
         else e\<lparr>pe_reasons := [w, pe_reasons e ! 0, pe_reasons e ! 1]\<rparr>)"

definition wake_pheromone_note_reason ::
  "hash_state \<Rightarrow> wake_pheromone_t option \<Rightarrow> wake_entity_t option \<Rightarrow> u64
     \<Rightarrow> wake_pheromone_t option option" where
  "wake_pheromone_note_reason hs pt entity w =
     (case (pt, entity) of
        (Some p, Some en) \<Rightarrow>
          if w AND 0xff = ucast WAKE_REASON_NONE then Some pt
          else
            do {
              key \<leftarrow> entity_key_hash hs en;
              r \<leftarrow> note_probe p key [0..<WAKE_PHT_PROBE_MAX];
              case r of
                None \<Rightarrow> Some pt
              | Some idx \<Rightarrow>
                  map_option (\<lambda>e. Some (store_entry p idx (note_entry w e))) (load_entry p idx)
            }
      | _ \<Rightarrow> Some pt)"

section \<open>Decay\<close>

definition decay_confidence :: "u32 \<Rightarrow> u32 \<Rightarrow> u32" where
  "decay_confidence decay_factor old_conf =
     ucast (drop_bit 16 ((ucast old_conf :: u64) * ucast decay_factor))"

definition decay_entry ::
  "u32 \<Rightarrow> u32 \<Rightarrow> wake_pheromone_entry_t \<Rightarrow> bool \<times> wake_pheromone_entry_t" where
  "decay_entry decay_factor noise_floor e =
     (if vacant (pe_key_hash e) then (False, e)
      else
        let new_conf = decay_confidence decay_factor (pe_confidence e)
        in if new_conf < noise_floor then (True, e\<lparr>pe_key_hash := WAKE_PHT_SLOT_TOMBSTONE\<rparr>)
           else (False, e\<lparr>pe_confidence := new_conf\<rparr>))"

text \<open>\<open>for (i = 0; i < capacity; i++)\<close> from the first \<open>n\<close> indices on.\<close>

fun decay_loop :: "nat list \<Rightarrow> wake_pheromone_t \<Rightarrow> u32 \<Rightarrow> (u32 \<times> wake_pheromone_t) option" where
  "decay_loop [] pt evicted = Some (evicted, pt)"
| "decay_loop (i # is) pt evicted =
     (if i < length (pt_entries pt)
      then
        let (ev, e) = decay_entry (ph_decay_factor_fp16 (pt_header pt))
                        (ph_noise_floor (pt_header pt)) (pt_entries pt ! i)
        in decay_loop is (pt\<lparr>pt_entries := (pt_entries pt)[i := e]\<rparr>)
             (if ev then evicted + 1 else evicted)
      else None)"

definition wake_pheromone_decay :: "wake_pheromone_t \<Rightarrow> (u32 \<times> wake_pheromone_t) option" where
  "wake_pheromone_decay pt = decay_loop [0..<unat (ph_capacity (pt_header pt))] pt 0"

section \<open>Reads under the seqlock\<close>

text \<open>
  One round of the spin loop loads the version, copies the fields and loads the version again;
  other threads may write in between, so round \<open>n\<close> sees the three states \<open>mem n\<close> of the entry.
  \<open>None\<close>: the loop never ends.
\<close>

partial_function (option) read_loop ::
  "(nat \<Rightarrow> wake_pheromone_entry_t \<times> wake_pheromone_entry_t \<times> wake_pheromone_entry_t) \<Rightarrow> nat
     \<Rightarrow> wake_pheromone_entry_t option" where
  "read_loop mem n =
     (case mem n of (e1, e2, e3) \<Rightarrow>
        let v1 = pe_version e1
        in if v1 AND 1 \<noteq> 0 then read_loop mem (n + 1)
           else
             let v2 = pe_version e3
             in if v1 = v2 then Some (e2\<lparr>pe_version := v1\<rparr>)
                else read_loop mem (n + 1))"

datatype read_result = Dead | Live wake_pheromone_entry_t

definition read_entry_mem ::
  "(wake_pheromone_entry_t \<Rightarrow> nat \<Rightarrow> wake_pheromone_entry_t \<times> wake_pheromone_entry_t
      \<times> wake_pheromone_entry_t) \<Rightarrow> wake_pheromone_t \<Rightarrow> u32 \<Rightarrow> read_result option" where
  "read_entry_mem mem pt slot_index =
     (if slot_index \<ge> ph_capacity (pt_header pt) then Some Dead
      else
        case load_entry pt (ucast slot_index) of
          None \<Rightarrow> None
        | Some e \<Rightarrow>
            if vacant (pe_key_hash e) then Some Dead
            else map_option Live (read_loop (mem e) 0))"

text \<open>No writer while the entry is read.\<close>

definition wake_pheromone_read_entry :: "wake_pheromone_t \<Rightarrow> u32 \<Rightarrow> read_result option" where
  "wake_pheromone_read_entry = read_entry_mem (\<lambda>e _. (e, e, e))"

text \<open>The callback answers whether to go on and updates its context.\<close>

fun iterate_loop ::
  "wake_pheromone_t \<Rightarrow> (wake_pheromone_entry_t \<Rightarrow> 'c \<Rightarrow> bool \<times> 'c) \<Rightarrow> nat list \<Rightarrow> u32 \<Rightarrow> 'c
     \<Rightarrow> (u32 \<times> 'c) option" where
  "iterate_loop pt fn [] visited ctx = Some (visited, ctx)"
| "iterate_loop pt fn (i # is) visited ctx =
     (case wake_pheromone_read_entry pt (of_nat i) of
        None \<Rightarrow> None
      | Some Dead \<Rightarrow> iterate_loop pt fn is visited ctx
      | Some (Live snap) \<Rightarrow>
          let (go, ctx') = fn snap ctx
          in if go then iterate_loop pt fn is (visited + 1) ctx' else Some (visited + 1, ctx'))"

definition wake_pheromone_iterate ::
  "wake_pheromone_t \<Rightarrow> (wake_pheromone_entry_t \<Rightarrow> 'c \<Rightarrow> bool \<times> 'c) \<Rightarrow> 'c \<Rightarrow> (u32 \<times> 'c) option" where
  "wake_pheromone_iterate pt fn ctx = iterate_loop pt fn [0..<unat (ph_capacity (pt_header pt))] 0 ctx"

section \<open>Statistics\<close>

record wake_pheromone_stats_t =
  ps_capacity :: u32
  ps_occupied :: u32
  ps_tombstones :: u32
  ps_max_probe_len :: u32
  ps_total_confidence :: u64

definition probe_length :: "wake_pheromone_header_t \<Rightarrow> nat \<Rightarrow> u64 \<Rightarrow> u32" where
  "probe_length h i kh =
     (let home = kh AND ph_mask h; iw = (of_nat i :: u64)
      in if iw \<ge> home then ucast (iw - home) else ucast (ucast (ph_capacity h) - home + iw))"

definition stats_slot ::
  "wake_pheromone_header_t \<Rightarrow> nat \<Rightarrow> wake_pheromone_entry_t \<Rightarrow> wake_pheromone_stats_t
     \<Rightarrow> wake_pheromone_stats_t" where
  "stats_slot h i e out =
     (let kh = pe_key_hash e
      in if kh = WAKE_PHT_SLOT_EMPTY then out
         else if kh = WAKE_PHT_SLOT_TOMBSTONE
         then out\<lparr>ps_tombstones := ps_tombstones out + 1\<rparr>
         else
           let probe_len = probe_length h i kh;
               out' = out\<lparr>ps_occupied := ps_occupied out + 1,
                          ps_total_confidence := ps_total_confidence out + ucast (pe_confidence e)\<rparr>
           in if probe_len > ps_max_probe_len out'
              then out'\<lparr>ps_max_probe_len := probe_len\<rparr> else out')"

fun stats_loop ::
  "wake_pheromone_t \<Rightarrow> nat list \<Rightarrow> wake_pheromone_stats_t \<Rightarrow> wake_pheromone_stats_t option" where
  "stats_loop pt [] out = Some out"
| "stats_loop pt (i # is) out =
     (if i < length (pt_entries pt)
      then stats_loop pt is (stats_slot (pt_header pt) i (pt_entries pt ! i) out)
      else None)"

definition wake_pheromone_stats :: "wake_pheromone_t \<Rightarrow> wake_pheromone_stats_t option" where
  "wake_pheromone_stats pt =
     stats_loop pt [0..<unat (ph_capacity (pt_header pt))]
       \<lparr>ps_capacity = ph_capacity (pt_header pt), ps_occupied = 0, ps_tombstones = 0,
        ps_max_probe_len = 0, ps_total_confidence = 0\<rparr>"

section \<open>Life cycle\<close>

datatype pht_error = EINVAL | EIO | Sys

text \<open>
  What the system calls of \<open>wake_pheromone_create\<close> answer; \<open>ce_urandom\<close> is the result of the
  16-byte read, \<open>None\<close> when \<open>/dev/urandom\<close> cannot be opened.
\<close>

record create_env =
  ce_open :: bool
  ce_ftruncate :: bool
  ce_mmap :: bool
  ce_urandom :: "bytes option"
  ce_malloc :: bool
  ce_tv_sec :: u64

definition cfg_or :: "wake_pheromone_config_t option \<Rightarrow> (wake_pheromone_config_t \<Rightarrow> u32) \<Rightarrow> u32 \<Rightarrow> u32" where
  "cfg_or cfg sel dflt = (case cfg of None \<Rightarrow> dflt | Some c \<Rightarrow> if sel c \<noteq> 0 then sel c else dflt)"

definition fresh_table :: "u32 \<Rightarrow> u32 \<Rightarrow> u32 \<Rightarrow> u64 \<Rightarrow> bytes \<Rightarrow> wake_pheromone_t" where
  "fresh_table capacity decay flr tv_sec key =
     \<lparr>pt_header =
        \<lparr>ph_magic = WAKE_PHT_MAGIC, ph_format_version = WAKE_PHT_VERSION, ph_capacity = capacity,
         ph_mask = ucast (capacity - 1), ph_hash_key = key,
         ph_epoch = current_epoch_seconds tv_sec, ph_decay_factor_fp16 = decay,
         ph_noise_floor = flr\<rparr>,
      pt_entries = replicate (unat capacity) zero_entry,
      pt_map_size = compute_map_size capacity\<rparr>"

definition wake_pheromone_create ::
  "create_env \<Rightarrow> wake_pheromone_config_t option \<Rightarrow> hash_state
     \<Rightarrow> (pht_error + wake_pheromone_t) \<times> hash_state" where
  "wake_pheromone_create env cfg hs =
     (let capacity = cfg_or cfg pc_capacity WAKE_PHT_DEFAULT_CAPACITY;
          decay = cfg_or cfg pc_decay_factor_fp16 WAKE_PHT_DEFAULT_DECAY_FP16;
          flr = cfg_or cfg pc_noise_floor WAKE_PHT_DEFAULT_NOISE_FLOOR
      in if \<not> is_power_of_2 capacity then (Inl EINVAL, hs)
         else if \<not> ce_open env then (Inl Sys, hs)
         else if \<not> ce_ftruncate env then (Inl Sys, hs)
         else if \<not> ce_mmap env then (Inl Sys, hs)
         else
           case ce_urandom env of
             None \<Rightarrow> (Inl Sys, hs)
           | Some key \<Rightarrow>
               if length key \<noteq> 16 then (Inl EIO, hs)
               else
                 let hs' = wake_hash_set_key key hs
                 in if \<not> ce_malloc env then (Inl Sys, hs')
                    else (Inr (fresh_table capacity decay flr (ce_tv_sec env) key), hs'))"

text \<open>
  A file: its size, the header its first 256 bytes hold (\<open>None\<close>: a short read), and the entries
  that follow.
\<close>

record pht_file =
  pf_size :: nat
  pf_header :: "wake_pheromone_header_t option"
  pf_entries :: "wake_pheromone_entry_t list"

record open_env =
  oe_open :: bool
  oe_fstat :: bool
  oe_mmap :: bool
  oe_malloc :: bool

definition wake_pheromone_open ::
  "open_env \<Rightarrow> pht_file \<Rightarrow> hash_state \<Rightarrow> (pht_error + wake_pheromone_t) \<times> hash_state" where
  "wake_pheromone_open env file hs =
     (if \<not> oe_open env then (Inl Sys, hs)
      else
        case pf_header file of
          None \<Rightarrow> (Inl EIO, hs)
        | Some hdr \<Rightarrow>
            if ph_magic hdr \<noteq> WAKE_PHT_MAGIC then (Inl EINVAL, hs)
            else if ph_format_version hdr \<noteq> WAKE_PHT_VERSION then (Inl EINVAL, hs)
            else if \<not> is_power_of_2 (ph_capacity hdr) then (Inl EINVAL, hs)
            else
              let map_size = compute_map_size (ph_capacity hdr)
              in if \<not> oe_fstat env \<or> pf_size file < map_size then (Inl EINVAL, hs)
                 else if \<not> oe_mmap env then (Inl Sys, hs)
                 else
                   let hs' = wake_hash_set_key (ph_hash_key hdr) hs
                   in if \<not> oe_malloc env then (Inl Sys, hs')
                      else (Inr \<lparr>pt_header = hdr,
                                 pt_entries = take (unat (ph_capacity hdr)) (pf_entries file),
                                 pt_map_size = map_size\<rparr>, hs'))"

end
