(* ===== verification/Wake_Pheromone_Inv.thy ===== *)
theory Wake_Pheromone_Inv
  imports Wake_Pheromone
begin

text \<open>
  The invariant of the pheromone table, the bounded probe against a search of the whole table, and
  the table as a finite map from key hashes to entries.
\<close>

section \<open>Invariant\<close>

definition pt_keys :: "wake_pheromone_t \<Rightarrow> u64 list" where
  "pt_keys pt = map pe_key_hash (pt_entries pt)"

definition pt_slot :: "wake_pheromone_t \<Rightarrow> u64 \<Rightarrow> nat \<Rightarrow> nat" where
  "pt_slot pt key d = unat (probe_idx pt key d)"

definition header_ok :: "wake_pheromone_header_t \<Rightarrow> bool" where
  "header_ok h \<longleftrightarrow> ph_magic h = WAKE_PHT_MAGIC \<and> ph_format_version h = WAKE_PHT_VERSION
     \<and> is_power_of_2 (ph_capacity h) \<and> ph_mask h = ucast (ph_capacity h - 1)"

definition pht_layout :: "wake_pheromone_t \<Rightarrow> bool" where
  "pht_layout pt \<longleftrightarrow> header_ok (pt_header pt)
     \<and> length (pt_entries pt) = unat (ph_capacity (pt_header pt))
     \<and> pt_map_size pt = compute_map_size (ph_capacity (pt_header pt))"

text \<open>Outside a write the seqlock version is even.\<close>

definition pe_ok :: "wake_pheromone_entry_t \<Rightarrow> bool" where
  "pe_ok e \<longleftrightarrow> length (pe_reasons e) = 3 \<and> pe_version e AND 1 = 0"

lemma probe_idx_less:
  assumes "pht_layout pt"
  shows "unat (probe_idx pt key d) < length (pt_entries pt)"
proof -
  have "0 < ph_capacity (pt_header pt)"
    using assms by (simp add: pht_layout_def header_ok_def is_power_of_2_def)
  from unat_and_mask_less [OF this] assms show ?thesis
    by (simp add: pht_layout_def header_ok_def probe_idx_def)
qed

interpretation pht: tombstone_table pt_keys pt_slot WAKE_PHT_PROBE_MAX pht_layout vacant
  by unfold_locales (simp_all add: pt_keys_def pt_slot_def probe_idx_less)

definition pht_inv :: "wake_pheromone_t \<Rightarrow> bool" where
  "pht_inv pt \<longleftrightarrow> pht_layout pt \<and> pht.chained pt \<and> (\<forall>e\<in>set (pt_entries pt). pe_ok e)"

lemma pht_invD:
  assumes "pht_inv pt"
  shows "pht_layout pt" "pht.chained pt" "\<And>e. e \<in> set (pt_entries pt) \<Longrightarrow> pe_ok e"
  using assms by (simp_all add: pht_inv_def)

lemma length_pt_keys [simp]: "length (pt_keys pt) = length (pt_entries pt)"
  by (simp add: pt_keys_def)

lemma pt_keys_nth [simp]:
  "i < length (pt_entries pt) \<Longrightarrow> pt_keys pt ! i = pe_key_hash (pt_entries pt ! i)"
  by (simp add: pt_keys_def)

lemma pt_slot_less [simp]: "pht_layout pt \<Longrightarrow> pt_slot pt key d < length (pt_entries pt)"
  using pht.slot_less by simp

lemma load_probe [simp]:
  "pht_layout pt \<Longrightarrow> load_entry pt (probe_idx pt key d) = Some (pt_entries pt ! pt_slot pt key d)"
  by (simp add: load_entry_def probe_idx_less pt_slot_def)

text \<open>Writes of one slot.\<close>

definition put_entry :: "nat \<Rightarrow> wake_pheromone_entry_t \<Rightarrow> wake_pheromone_t \<Rightarrow> wake_pheromone_t" where
  "put_entry i e pt = pt\<lparr>pt_entries := (pt_entries pt)[i := e]\<rparr>"

lemma store_probe: "store_entry pt (probe_idx pt key d) e = put_entry (pt_slot pt key d) e pt"
  by (simp add: store_entry_def put_entry_def pt_slot_def)

lemma put_entry_frame [simp]:
  "pt_header (put_entry i e pt) = pt_header pt"
  "pt_entries (put_entry i e pt) = (pt_entries pt)[i := e]"
  "pt_slot (put_entry i e pt) = pt_slot pt"
  "pht_layout (put_entry i e pt) = pht_layout pt"
  "pt_keys (put_entry i e pt) = (pt_keys pt)[i := pe_key_hash e]"
  by (simp_all add: put_entry_def pt_slot_def fun_eq_iff probe_idx_def pht_layout_def pt_keys_def
      map_update)

lemma pe_ok_put:
  "pht_inv pt \<Longrightarrow> pe_ok e \<Longrightarrow> \<forall>x\<in>set (pt_entries (put_entry i e pt)). pe_ok x"
  using set_update_subset_insert [of "pt_entries pt" i e] by (auto simp: pht_inv_def)

lemma pht_inv_put_same:
  assumes "pht_inv pt" "i < length (pt_entries pt)" "pe_ok e"
    and "pe_key_hash e = pe_key_hash (pt_entries pt ! i)"
  shows "pht_inv (put_entry i e pt)"
proof -
  have "pt_keys (put_entry i e pt) = pt_keys pt"
    using assms by (simp add: list_update_same_conv)
  with assms show ?thesis
    using pht.chained_same [of pt "put_entry i e pt"] pe_ok_put [OF assms(1,3), of i]
    by (simp add: pht_inv_def)
qed

lemma pht_inv_put_tombstone:
  assumes "pht_inv pt" "i < length (pt_entries pt)" "pe_ok e" "pe_key_hash e = WAKE_PHT_SLOT_TOMBSTONE"
  shows "pht_inv (put_entry i e pt)"
  using pht.chained_bury [of pt i "put_entry i e pt"] assms pe_ok_put [OF assms(1,3), of i]
  by (simp add: pht_inv_def)

section \<open>The table as a map\<close>

definition pht_map :: "wake_pheromone_t \<Rightarrow> u64 \<Rightarrow> wake_pheromone_entry_t option" where
  "pht_map pt k = (if vacant k then None else find (\<lambda>e. pe_key_hash e = k) (pt_entries pt))"

lemma pht_map_vacant [simp]: "vacant k \<Longrightarrow> pht_map pt k = None"
  by (simp add: pht_map_def)

lemma pht_map_nth:
  assumes "pht_inv pt" "i < length (pt_entries pt)" "pe_key_hash (pt_entries pt ! i) = k" "\<not> vacant k"
  shows "pht_map pt k = Some (pt_entries pt ! i)"
proof -
  have "j = i" if "j < length (pt_entries pt)" "pe_key_hash (pt_entries pt ! j) = k" for j
    using pht.chainedD(2) [OF pht_invD(2) [OF assms(1)], of i j] assms that by simp
  with assms(2,3) have "find (\<lambda>e. pe_key_hash e = k) (pt_entries pt) = Some (pt_entries pt ! i)"
    by (rule find_unique)
  with assms(4) show ?thesis by (simp add: pht_map_def)
qed

lemma pht_map_absent: "k \<notin> set (pt_keys pt) \<Longrightarrow> pht_map pt k = None"
  by (auto simp: pht_map_def pt_keys_def find_None_iff)

lemma pht_map_SomeD:
  assumes "pht_map pt k = Some e"
  shows "\<not> vacant k" "pe_key_hash e = k" "e \<in> set (pt_entries pt)"
  using assms by (auto simp: pht_map_def find_Some_iff split: if_splits)

lemma pht_map_SomeE:
  assumes "pht_map pt k = Some e"
  obtains i where "i < length (pt_entries pt)" "pt_entries pt ! i = e" "pe_key_hash e = k" "\<not> vacant k"
  using pht_map_SomeD [OF assms] by (auto simp: in_set_conv_nth)

text \<open>A write replaces the entry of its slot.\<close>

lemma pht_map_put:
  assumes inv: "pht_inv pt" and inv': "pht_inv (put_entry i e pt)" and i: "i < length (pt_entries pt)"
  shows "pht_map (put_entry i e pt) k =
     (if vacant k then None else if k = pe_key_hash e then Some e
      else if k = pe_key_hash (pt_entries pt ! i) then None else pht_map pt k)"
proof -
  let ?pt' = "put_entry i e pt"
  consider "vacant k" | "\<not> vacant k" "k = pe_key_hash e"
    | "\<not> vacant k" "k \<noteq> pe_key_hash e" "k = pe_key_hash (pt_entries pt ! i)"
    | "\<not> vacant k" "k \<noteq> pe_key_hash e" "k \<noteq> pe_key_hash (pt_entries pt ! i)" by blast
  then show ?thesis
  proof cases
    case 1
    then show ?thesis by (simp add: pht_map_def)
  next
    case 2
    with pht_map_nth [OF inv', of i k] i show ?thesis by simp
  next
    case 3
    have "k \<notin> set (pt_keys ?pt')"
    proof
      assume "k \<in> set (pt_keys ?pt')"
      then obtain j where "j < length (pt_entries pt)" "pt_keys ?pt' ! j = k"
        by (auto simp: in_set_conv_nth)
      with 3 i show False
        using pht.chainedD(2) [OF pht_invD(2) [OF inv], of i j]
        by (auto simp: nth_list_update split: if_splits)
    qed
    with 3 show ?thesis by (simp add: pht_map_absent)
  next
    case 4
    have "pht_map ?pt' k = pht_map pt k"
    proof (cases "k \<in> set (pt_keys pt)")
      case True
      then obtain j where j: "j < length (pt_entries pt)" "pe_key_hash (pt_entries pt ! j) = k"
        by (auto simp: in_set_conv_nth)
      with 4 have "j \<noteq> i" by auto
      with pht_map_nth [OF inv j] pht_map_nth [OF inv', of j k] 4 j show ?thesis by simp
    next
      case False
      with 4 have "k \<notin> set (pt_keys ?pt')"
        using set_update_subset_insert [of "pt_keys pt" i "pe_key_hash e"] by auto
      with False show ?thesis by (simp add: pht_map_absent)
    qed
    with 4 show ?thesis by simp
  qed
qed

section \<open>Probing\<close>

text \<open>A probe that has run through the offsets below \<open>m\<close> without the key or an empty slot.\<close>

definition passed :: "wake_pheromone_t \<Rightarrow> u64 \<Rightarrow> nat \<Rightarrow> bool" where
  "passed pt k m \<longleftrightarrow>
     (\<forall>d<m. pt_keys pt ! pt_slot pt k d \<noteq> k \<and> pt_keys pt ! pt_slot pt k d \<noteq> WAKE_PHT_SLOT_EMPTY)"

lemma passed_0 [simp]: "passed pt k 0"
  by (simp add: passed_def)

lemma passed_Suc:
  "passed pt k (Suc m) \<longleftrightarrow> passed pt k m \<and> pt_keys pt ! pt_slot pt k m \<noteq> k
     \<and> pt_keys pt ! pt_slot pt k m \<noteq> WAKE_PHT_SLOT_EMPTY"
  by (auto simp: passed_def less_Suc_eq)

lemma passed_absent:
  assumes "pht_inv pt" "\<not> vacant k" "m \<le> WAKE_PHT_PROBE_MAX" "passed pt k m"
    and "m = WAKE_PHT_PROBE_MAX \<or> pt_keys pt ! pt_slot pt k m = WAKE_PHT_SLOT_EMPTY"
  shows "k \<notin> set (pt_keys pt)"
  using pht.absent [OF pht_invD(2) [OF assms(1)] assms(2,3) _ assms(5)] assms(4)
  by (simp add: passed_def)

lemma find_probe_from:
  assumes inv: "pht_inv pt" and k: "\<not> vacant k"
  shows "m \<le> WAKE_PHT_PROBE_MAX \<Longrightarrow> passed pt k m \<Longrightarrow>
     find_probe pt k [m..<WAKE_PHT_PROBE_MAX] =
       (if k \<in> set (pt_keys pt)
        then Some (Some (probe_idx pt k (LEAST d. pt_keys pt ! pt_slot pt k d = k)))
        else Some None)
     \<and> (k \<in> set (pt_keys pt) \<longrightarrow> pt_keys pt ! pt_slot pt k (LEAST d. pt_keys pt ! pt_slot pt k d = k) = k)"
proof (induction "WAKE_PHT_PROBE_MAX - m" arbitrary: m)
  case 0
  then have "m = WAKE_PHT_PROBE_MAX" by simp
  with 0 passed_absent [OF inv k, of m] show ?case by simp
next
  case (Suc n)
  then have m: "m < WAKE_PHT_PROBE_MAX" by simp
  have lay: "pht_layout pt" by (rule pht_invD(1) [OF inv])
  have step: "[m..<WAKE_PHT_PROBE_MAX] = m # [Suc m..<WAKE_PHT_PROBE_MAX]"
    using m by (rule upt_conv_Cons)
  let ?key = "pt_keys pt ! pt_slot pt k m"
  consider "?key = k" | "?key \<noteq> k" "?key = WAKE_PHT_SLOT_EMPTY"
    | "?key \<noteq> k" "?key \<noteq> WAKE_PHT_SLOT_EMPTY" by blast
  then show ?case
  proof cases
    case 1
    have "(LEAST d. pt_keys pt ! pt_slot pt k d = k) = m"
      using 1 Suc.prems(2) by (intro Least_equality) (auto simp: passed_def not_less [symmetric])
    moreover have "k \<in> set (pt_keys pt)"
      using 1 lay by (metis length_pt_keys nth_mem pt_slot_less)
    ultimately show ?thesis
      using 1 lay by (simp add: step)
  next
    case 2
    with passed_absent [OF inv k, of m] Suc.prems lay show ?thesis by (simp add: step)
  next
    case 3
    with Suc.prems m have IH: "Suc m \<le> WAKE_PHT_PROBE_MAX" "passed pt k (Suc m)"
      by (simp_all add: passed_Suc)
    have "n = WAKE_PHT_PROBE_MAX - Suc m" using Suc.hyps(2) by simp
    from Suc.hyps(1) [OF this IH] 3 lay show ?thesis
      by (simp add: step)
  qed
qed

text \<open>The bounded probe agrees with a search of the whole table.\<close>

lemma find_probe_cases:
  assumes inv: "pht_inv pt" and k: "\<not> vacant k"
  obtains d where "find_probe pt k [0..<WAKE_PHT_PROBE_MAX] = Some (Some (probe_idx pt k d))"
      "pht_map pt k = Some (pt_entries pt ! pt_slot pt k d)"
      "pe_key_hash (pt_entries pt ! pt_slot pt k d) = k"
  | "find_probe pt k [0..<WAKE_PHT_PROBE_MAX] = Some None" "pht_map pt k = None"
proof -
  have lay: "pht_layout pt" by (rule pht_invD(1) [OF inv])
  have spec: "find_probe pt k [0..<WAKE_PHT_PROBE_MAX] =
       (if k \<in> set (pt_keys pt)
        then Some (Some (probe_idx pt k (LEAST d. pt_keys pt ! pt_slot pt k d = k)))
        else Some None)"
    "k \<in> set (pt_keys pt) \<longrightarrow> pt_keys pt ! pt_slot pt k (LEAST d. pt_keys pt ! pt_slot pt k d = k) = k"
    using find_probe_from [OF inv k, of 0] by simp_all
  show thesis
  proof (cases "k \<in> set (pt_keys pt)")
    case True
    with spec lay pht_map_nth [OF inv pt_slot_less [OF lay] _ k] show ?thesis
      by (intro that(1)) auto
  next
    case False
    with spec show ?thesis by (intro that(2)) (simp_all add: pht_map_absent)
  qed
qed

text \<open>What the probe loop of insertion knows of the first vacant slot after \<open>m\<close> offsets.\<close>

definition first_vacant :: "wake_pheromone_t \<Rightarrow> u64 \<Rightarrow> nat \<Rightarrow> u64 \<Rightarrow> bool" where
  "first_vacant pt k m f \<longleftrightarrow>
     (if f = UINT64_MAX then \<forall>d<m. \<not> vacant (pt_keys pt ! pt_slot pt k d)
      else \<exists>d0<m. f = probe_idx pt k d0 \<and> vacant (pt_keys pt ! pt_slot pt k d0)
             \<and> (\<forall>d<d0. \<not> vacant (pt_keys pt ! pt_slot pt k d)))"

lemma probe_idx_not_max:
  assumes "pht_layout pt"
  shows "probe_idx pt k d \<noteq> UINT64_MAX"
proof
  assume "probe_idx pt k d = UINT64_MAX"
  with probe_idx_less [OF assms, of k d] have "unat UINT64_MAX < unat (ph_capacity (pt_header pt))"
    using assms by (simp add: pht_layout_def)
  moreover have "unat (ph_capacity (pt_header pt)) < 2 ^ 32"
    using unsigned_less [of "ph_capacity (pt_header pt)", where ?'a = nat] by simp
  ultimately show False by simp
qed

lemma first_vacant_Suc:
  assumes "pht_layout pt" "first_vacant pt k m f"
  shows "first_vacant pt k (Suc m)
    (if vacant (pt_keys pt ! pt_slot pt k m) \<and> f = UINT64_MAX then probe_idx pt k m else f)"
  using assms probe_idx_not_max [OF assms(1)]
  by (auto simp: first_vacant_def less_Suc_eq split: if_splits)

lemma insert_probe_from:
  assumes inv: "pht_inv pt" and k: "\<not> vacant k"
  shows "m \<le> WAKE_PHT_PROBE_MAX \<Longrightarrow> passed pt k m \<Longrightarrow> first_vacant pt k m f \<Longrightarrow>
     (\<exists>d. insert_probe pt k [m..<WAKE_PHT_PROBE_MAX] f = Some (Existing (probe_idx pt k d))
         \<and> pt_keys pt ! pt_slot pt k d = k)
   \<or> (\<exists>n f'. insert_probe pt k [m..<WAKE_PHT_PROBE_MAX] f = Some (First_available f')
         \<and> first_vacant pt k n f' \<and> n \<le> WAKE_PHT_PROBE_MAX \<and> k \<notin> set (pt_keys pt)
         \<and> (f' = UINT64_MAX \<longrightarrow> n = WAKE_PHT_PROBE_MAX))"
proof (induction "WAKE_PHT_PROBE_MAX - m" arbitrary: m f)
  case 0
  then have "m = WAKE_PHT_PROBE_MAX" by simp
  with 0 passed_absent [OF inv k, of m] show ?case by auto
next
  case (Suc n)
  then have m: "m < WAKE_PHT_PROBE_MAX" by simp
  have lay: "pht_layout pt" by (rule pht_invD(1) [OF inv])
  have step: "[m..<WAKE_PHT_PROBE_MAX] = m # [Suc m..<WAKE_PHT_PROBE_MAX]"
    using m by (rule upt_conv_Cons)
  let ?key = "pt_keys pt ! pt_slot pt k m"
  let ?f = "if vacant ?key \<and> f = UINT64_MAX then probe_idx pt k m else f"
  have fv: "first_vacant pt k (Suc m) ?f"
    by (rule first_vacant_Suc [OF lay Suc.prems(3)])
  consider "?key = k" | "?key \<noteq> k" "?key = WAKE_PHT_SLOT_EMPTY"
    | "?key \<noteq> k" "?key \<noteq> WAKE_PHT_SLOT_EMPTY" by blast
  then show ?case
  proof cases
    case 1
    then have "insert_probe pt k [m..<WAKE_PHT_PROBE_MAX] f = Some (Existing (probe_idx pt k m))"
      using lay by (simp add: step)
    with 1 show ?thesis by blast
  next
    case 2
    then have "insert_probe pt k [m..<WAKE_PHT_PROBE_MAX] f = Some (First_available ?f)"
      using lay by (simp add: step)
    moreover have "?f \<noteq> UINT64_MAX"
      using 2(2) probe_idx_not_max [OF lay] by simp
    moreover have "k \<notin> set (pt_keys pt)"
      using passed_absent [OF inv k, of m] Suc.prems 2 by blast
    moreover have "Suc m \<le> WAKE_PHT_PROBE_MAX" using m by simp
    ultimately show ?thesis using fv by blast
  next
    case 3
    with Suc.prems m have IH: "Suc m \<le> WAKE_PHT_PROBE_MAX" "passed pt k (Suc m)"
      by (simp_all add: passed_Suc)
    have "insert_probe pt k [m..<WAKE_PHT_PROBE_MAX] f
        = insert_probe pt k [Suc m..<WAKE_PHT_PROBE_MAX] ?f"
      using 3 lay by (simp add: step)
    moreover have "n = WAKE_PHT_PROBE_MAX - Suc m" using Suc.hyps(2) by simp
    ultimately show ?thesis using Suc.hyps(1) [OF _ IH fv] by simp
  qed
qed

text \<open>The three ways the probe loop of insertion ends.\<close>

lemma insert_probe_cases:
  assumes inv: "pht_inv pt" and k: "\<not> vacant k"
  obtains (found) d where
      "insert_probe pt k [0..<WAKE_PHT_PROBE_MAX] UINT64_MAX = Some (Existing (probe_idx pt k d))"
      "pe_key_hash (pt_entries pt ! pt_slot pt k d) = k"
  | (free) d where
      "insert_probe pt k [0..<WAKE_PHT_PROBE_MAX] UINT64_MAX = Some (First_available (probe_idx pt k d))"
      "k \<notin> set (pt_keys pt)" "d < WAKE_PHT_PROBE_MAX"
      "vacant (pt_keys pt ! pt_slot pt k d)" "\<And>e. e < d \<Longrightarrow> \<not> vacant (pt_keys pt ! pt_slot pt k e)"
  | (full) "insert_probe pt k [0..<WAKE_PHT_PROBE_MAX] UINT64_MAX = Some (First_available UINT64_MAX)"
      "k \<notin> set (pt_keys pt)"
      "\<And>e. e < WAKE_PHT_PROBE_MAX \<Longrightarrow> \<not> vacant (pt_keys pt ! pt_slot pt k e)"
proof -
  have lay: "pht_layout pt" by (rule pht_invD(1) [OF inv])
  have "first_vacant pt k 0 UINT64_MAX" by (simp add: first_vacant_def)
  then consider (a) d where
      "insert_probe pt k [0..<WAKE_PHT_PROBE_MAX] UINT64_MAX = Some (Existing (probe_idx pt k d))"
      "pt_keys pt ! pt_slot pt k d = k"
    | (b) n f' where
      "insert_probe pt k [0..<WAKE_PHT_PROBE_MAX] UINT64_MAX = Some (First_available f')"
      "first_vacant pt k n f'" "n \<le> WAKE_PHT_PROBE_MAX" "k \<notin> set (pt_keys pt)"
      "f' = UINT64_MAX \<longrightarrow> n = WAKE_PHT_PROBE_MAX"
    using insert_probe_from [OF inv k, of 0 UINT64_MAX] by auto
  then show thesis
  proof cases
    case a
    with lay show ?thesis by (intro found) simp_all
  next
    case b
    show ?thesis
    proof (cases "f' = UINT64_MAX")
      case True
      with b show ?thesis by (intro full) (simp_all add: first_vacant_def)
    next
      case False
      with b(2) obtain d0 where "d0 < n" "f' = probe_idx pt k d0"
          "vacant (pt_keys pt ! pt_slot pt k d0)" "\<forall>d<d0. \<not> vacant (pt_keys pt ! pt_slot pt k d)"
        by (auto simp: first_vacant_def)
      with b show ?thesis by (intro free [of d0]) simp_all
    qed
  qed
qed

lemma note_probe_eq: "\<not> vacant k \<Longrightarrow> note_probe pt k ps = find_probe pt k ps"
  by (induction ps) (auto simp: Let_def vacant_def split: option.splits)

end
