(* ===== verification/Wake_Entity_Props.thy ===== *)
theory Wake_Entity_Props
  imports Wake_Entity
begin

text \<open>
  SipHash against the definition of the paper and its test vector, validity of every constructed
  entity, what equality and hashing depend on, and the contract of the formatter.
\<close>

section \<open>SipHash against its definition\<close>

text \<open>
  The message: append zero bytes and the length modulo 256 to fill whole words, and read them
  little-endian.
\<close>

definition sip_pad :: "bytes \<Rightarrow> bytes" where
  "sip_pad data = data @ replicate (7 - length data mod 8) 0 @ [of_nat (length data)]"

function sip_words :: "bytes \<Rightarrow> u64 list" where
  "sip_words bs = (if bs = [] then [] else le_load (take 8 bs) # sip_words (drop 8 bs))"
  by pat_completeness auto
termination by (relation "measure length") auto

declare sip_words.simps [simp del]

text \<open>
  The primitives after the paper of Aumasson and Bernstein, not after the code: a round is the same half
  round twice, the second time with the outer words exchanged; rotation is that of the word
  library; the initial state is a text in big-endian order; two rounds per word, four to finish.
\<close>

definition half_round :: "nat \<Rightarrow> nat \<Rightarrow> sip_state \<Rightarrow> sip_state" where
  "half_round s t = (\<lambda>(a, b, c, d).
     (word_rotl 32 (a + b), word_rotl s b XOR (a + b), c + d, word_rotl t d XOR (c + d)))"

definition sip_exchange :: "sip_state \<Rightarrow> sip_state" where
  "sip_exchange = (\<lambda>(a, b, c, d). (c, b, a, d))"

definition sip_round :: "sip_state \<Rightarrow> sip_state" where
  "sip_round = sip_exchange \<circ> half_round 17 21 \<circ> sip_exchange \<circ> half_round 13 16"

definition be_text :: "string \<Rightarrow> u64" where
  "be_text = foldl (\<lambda>w c. 256 * w + of_char c) 0"

definition sip_start :: "bytes \<Rightarrow> sip_state" where
  "sip_start key =
     (case sip_words key of
        k0 # k1 # _ \<Rightarrow> (k0 XOR be_text ''somepseu'', k1 XOR be_text ''dorandom'',
                       k0 XOR be_text ''lygenera'', k1 XOR be_text ''tedbytes'')
      | _ \<Rightarrow> (0, 0, 0, 0))"

definition sip_absorb :: "nat \<Rightarrow> u64 \<Rightarrow> sip_state \<Rightarrow> sip_state" where
  "sip_absorb c m = (\<lambda>(v0, v1, v2, v3).
     case (sip_round ^^ c) (v0, v1, v2, v3 XOR m) of (w0, w1, w2, w3) \<Rightarrow> (w0 XOR m, w1, w2, w3))"

definition sip_result :: "nat \<Rightarrow> sip_state \<Rightarrow> u64" where
  "sip_result d = (\<lambda>(v0, v1, v2, v3).
     case (sip_round ^^ d) (v0, v1, v2 XOR 0xff, v3) of (w0, w1, w2, w3) \<Rightarrow> w0 XOR w1 XOR w2 XOR w3)"

definition siphash_spec :: "nat \<Rightarrow> nat \<Rightarrow> bytes \<Rightarrow> bytes \<Rightarrow> u64" where
  "siphash_spec c d data key = sip_result d (fold (sip_absorb c) (sip_words (sip_pad data)) (sip_start key))"

text \<open>The code's primitives are those of the definition.\<close>

lemma rotl64_rotl:
  assumes "0 < b" "b < 64"
  shows "rotl64 x b = word_rotl b x"
proof (rule bit_word_eqI)
  fix n
  assume "n < LENGTH(64)"
  then have n: "n < 64" by simp
  have "(n + 64 - b) mod 64 = (if b \<le> n then n - b else 64 - b + n)"
    using assms n by (auto simp: mod_if)
  then have "bit (word_rotl b x) n \<longleftrightarrow> bit x (if b \<le> n then n - b else 64 - b + n)"
    using assms n by (simp add: bit_word_rotl_iff)
  moreover have "bit (rotl64 x b) n \<longleftrightarrow> b \<le> n \<and> bit x (n - b) \<or> bit x (64 - b + n)"
    using n by (simp add: rotl64_def bit_or_iff bit_push_bit_iff bit_drop_bit_eq)
  moreover have "\<not> bit x (64 - b + n)" if "b \<le> n"
    using that assms bit_imp_le_length [of x "64 - b + n"] by auto
  ultimately show "bit (rotl64 x b) n \<longleftrightarrow> bit (word_rotl b x) n" by auto
qed

lemma SIPROUND_eq: "SIPROUND = sip_round"
  by (rule ext) (simp add: SIPROUND_def sip_round_def half_round_def sip_exchange_def rotl64_rotl Let_def
      case_prod_unfold ac_simps)

lemma sip_compress_eq: "sip_compress = sip_absorb 2"
  by (intro ext) (simp add: sip_compress_def sip_absorb_def SIPROUND_eq Let_def case_prod_unfold numeral_2_eq_2)

lemma sip_finish_eq: "sip_finish = sip_result 4"
  by (intro ext) (simp add: sip_finish_def sip_result_def SIPROUND_eq Let_def case_prod_unfold eval_nat_numeral)

lemma be_text_constants:
  "be_text ''somepseu'' = 0x736f6d6570736575" "be_text ''dorandom'' = 0x646f72616e646f6d"
  "be_text ''lygenera'' = 0x6c7967656e657261" "be_text ''tedbytes'' = 0x7465646279746573"
  by (simp_all add: be_text_def of_char_def)

lemma sip_words_block: "length b = 8 \<Longrightarrow> sip_words (b @ q) = le_load b # sip_words q"
  by (subst sip_words.simps) (auto simp: length_Suc_conv)

lemma sip_start_eq:
  assumes "length key = 16"
  shows "sip_init key = sip_start key"
proof -
  have "sip_words key = load_le64 key # load_le64 (drop 8 key) # []"
    using assms sip_words_block [of "take 8 key" "drop 8 key"] sip_words_block [of "drop 8 key" "[]"]
    by (simp add: load_le64_def sip_words.simps [of "[]"])
  then show ?thesis by (simp add: sip_init_def sip_start_def be_text_constants Let_def)
qed

lemma sip_blocks_fold:
  "8 * n \<le> length p \<Longrightarrow>
     fold sip_compress (sip_words (take (8 * n) p @ q)) s = fold sip_compress (sip_words q) (sip_blocks n p s)"
proof (induction n arbitrary: p s)
  case 0
  then show ?case by simp
next
  case (Suc n)
  have "take (8 * Suc n) p = take 8 p @ take (8 * n) (drop 8 p)"
    by (simp add: take_add)
  with Suc.prems have "sip_words (take (8 * Suc n) p @ q)
      = load_le64 p # sip_words (take (8 * n) (drop 8 p) @ q)"
    by (simp add: sip_words_block load_le64_def)
  with Suc.IH [of "drop 8 p"] Suc.prems show ?case by simp
qed

lemma bit_fold_or:
  "bit (fold (\<lambda>i b. b OR f i) xs b0) k \<longleftrightarrow> bit b0 k \<or> (\<exists>i\<in>set xs. bit (f i) k)"
  by (induction xs arbitrary: b0) (auto simp: bit_or_iff)

lemma sip_tail_load:
  assumes "length rest = len mod 8"
  shows "sip_tail len rest (len mod 8) = le_load (rest @ replicate (7 - len mod 8) 0 @ [of_nat len])"
    (is "_ = le_load ?bs")
proof (rule bit_word_eqI)
  fix k
  assume "k < LENGTH(64)"
  then have k: "k < 64" by simp
  let ?l = "len mod 8"
  have l: "?l < 8" "length ?bs = 8" using assms by auto
  have byte: "bit (push_bit (8 * i) (ucast (rest ! i)) :: u64) k \<longleftrightarrow> i = k div 8 \<and> bit (rest ! i) (k mod 8)"
    for i
  proof -
    have "bit (push_bit (8 * i) (ucast (rest ! i)) :: u64) k \<longleftrightarrow> 8 * i \<le> k \<and> k - 8 * i < 8 \<and> bit (rest ! i) (k - 8 * i)"
      using k by (auto simp: bit_push_bit_iff bit_ucast_iff dest: bit_imp_le_length)
    also have "\<dots> \<longleftrightarrow> i = k div 8 \<and> bit (rest ! i) (k mod 8)"
    proof -
      have "8 * i \<le> k \<and> k - 8 * i < 8 \<longleftrightarrow> i = k div 8" by auto
      moreover have "i = k div 8 \<Longrightarrow> k - 8 * i = k mod 8" by (simp add: minus_mult_div_eq_mod)
      ultimately show ?thesis by auto
    qed
    finally show ?thesis .
  qed
  have len_byte: "bit (push_bit 56 (of_nat len) :: u64) k \<longleftrightarrow> k div 8 = 7 \<and> bit (of_nat len :: u8) (k mod 8)"
  proof (cases "56 \<le> k")
    case True
    then obtain j where j: "k = 56 + j" "j < 8" using k by (auto simp: le_iff_add)
    then have "k div 8 = 7" "k mod 8 = j" by presburger+
    with j show ?thesis by (simp add: bit_push_bit_iff bit_of_nat_iff)
  next
    case False
    then have "k div 8 \<noteq> 7" by presburger
    with False show ?thesis by (simp add: bit_push_bit_iff)
  qed
  have "bit (sip_tail len rest ?l) k \<longleftrightarrow> (k div 8 = 7 \<and> bit (of_nat len :: u8) (k mod 8))
      \<or> (k div 8 < ?l \<and> bit (rest ! (k div 8)) (k mod 8))"
    by (auto simp: sip_tail_def bit_fold_or byte len_byte)
  moreover have k8: "k div 8 < 8" using k by presburger
  have "bit (le_load ?bs :: u64) k \<longleftrightarrow> bit (?bs ! (k div 8)) (k mod 8)"
    unfolding bit_le_load l(2) using k k8 by simp
  moreover from k8 have "?bs ! (k div 8) = (if k div 8 < ?l then rest ! (k div 8) else if k div 8 = 7 then of_nat len else 0)"
    using assms l(1) by (auto simp: nth_append)
  ultimately show "bit (sip_tail len rest ?l) k \<longleftrightarrow> bit (le_load ?bs :: u64) k"
    using l(1) by auto
qed

text \<open>The rounds of the test vector of the paper, as the code computes them.\<close>

lemma sip_trace:
  "SIPROUND (0x7469686173716475, 0x6b617f6d656e6665, 0x6b7f62616d677361, 0x7c6d6c6a717c6d7b)
     = (0x64668a929363847f, 0x4ed232083d9aa8dc, 0xf2f74892d8141a2e, 0x9290f9810552f4a8)"
  "SIPROUND (0x64668a929363847f, 0x4ed232083d9aa8dc, 0xf2f74892d8141a2e, 0x9290f9810552f4a8)
     = (0x4d07749cdd0858e0, 0xd52f6f62a4f59a4, 0x634cb3577b01fd3d, 0xa5224d6f55c7d9c8)"
  "SIPROUND (0x4a017198de0a59e0, 0xd52f6f62a4f59a4, 0x634cb3577b01fd3d, 0xaa2c40635ecdd0c0)
     = (0x557560fb6063d060, 0x4c8e675bd961133e, 0xbd3d002b1703a181, 0xfb9441179a4a7315)"
  "SIPROUND (0x557560fb6063d060, 0x4c8e675bd961133e, 0xbd3d002b1703a181, 0xfb9441179a4a7315)
     = (0x338bbea7645fb759, 0x414fc3fb98efe374, 0xccf13ea527b9f4bd, 0x5293f5da84008f82)"
  "SIPROUND (0x3c85b3ab6f55be51, 0x414fc3fb98efe374, 0xccf13ea527b9f442, 0x5293f5da84008f82)
     = (0xf2a55244a20e48fe, 0xac5ad16ccc3ca6e4, 0x9fe5adb0a52f393a, 0xfd41d55e88f30308)"
  "SIPROUND (0xf2a55244a20e48fe, 0xac5ad16ccc3ca6e4, 0x9fe5adb0a52f393a, 0xfd41d55e88f30308)
     = (0xb6c3fbdecc2ae4b4, 0x1638c86adc6b3cf0, 0x28b8b6ab62553d46, 0xc9465e86ec43eb95)"
  "SIPROUND (0xb6c3fbdecc2ae4b4, 0x1638c86adc6b3cf0, 0x28b8b6ab62553d46, 0xc9465e86ec43eb95)
     = (0x58101b167209a5e6, 0xf8792ae75b66e7dd, 0x1da14c3ec7f0b4f7, 0x7624ba8a41bc4ad9)"
  "SIPROUND (0x58101b167209a5e6, 0xf8792ae75b66e7dd, 0x1da14c3ec7f0b4f7, 0x7624ba8a41bc4ad9)
     = (0xf6bcd53893fecff1, 0x54b9964c7ea0d937, 0x1b38329c099bb55a, 0x1814bb89ad7be679)"
  by (simp_all add: SIPROUND_def rotl64_def)

lemma test_vector: "siphash_2_4 (map of_nat [0..<15]) (map of_nat [0..<16]) = 0xa129ca6149be45e5"
proof -
  have bytes: "map of_nat [0..<15] = ([0, 1, 2, 3, 4, 5, 6, 7, 8, 9, 10, 11, 12, 13, 14] :: bytes)"
    "map of_nat [0..<16] = ([0, 1, 2, 3, 4, 5, 6, 7, 8, 9, 10, 11, 12, 13, 14, 15] :: bytes)"
    by (simp_all add: upt_rec)
  have words: "load_le64 [0, 1, 2, 3, 4, 5, 6, 7, 8, 9, 10, 11, 12, 13, 14] = 0x706050403020100"
    "load_le64 [0, 1, 2, 3, 4, 5, 6, 7, 8, 9, 10, 11, 12, 13, 14, 15] = 0x706050403020100"
    "load_le64 [8, 9, 10, 11, 12, 13, 14, 15] = 0xf0e0d0c0b0a0908"
    "sip_tail 15 [8, 9, 10, 11, 12, 13, 14] 7 = 0xf0e0d0c0b0a0908"
    by code_simp+
  have len: "length (map of_nat [0..<15] :: bytes) = 15" by simp
  have rest: "drop 8 ([0, 1, 2, 3, 4, 5, 6, 7, 8, 9, 10, 11, 12, 13, 14] :: bytes) = [8, 9, 10, 11, 12, 13, 14]" by simp
  show ?thesis
    unfolding siphash_2_4_def len Let_def
    by (simp add: bytes rest sip_init_def sip_compress_def sip_finish_def sip_trace words Let_def del: upt_Suc)
qed

text \<open>
  C30. \<open>siphash_2_4\<close> is SipHash-2-4 as Aumasson and Bernstein define it, for every message
  and every key of 16 bytes: rounds, rotations, initial state, the number of rounds per word and at
  the end, the padding and the length byte; and it returns the value of their test vector.
\<close>

theorem siphash_refines_spec:
  assumes "length key = 16"
  shows "siphash_2_4 data key = siphash_spec 2 4 data key
    \<and> siphash_2_4 (map of_nat [0..<15]) (map of_nat [0..<16]) = 0xa129ca6149be45e5"
proof -
  let ?n = "length data div 8" and ?l = "length data mod 8"
  let ?rest = "drop (8 * ?n) data"
  have rest: "length ?rest = ?l" by (simp add: minus_div_mult_eq_mod [symmetric] mult.commute)
  let ?q = "?rest @ replicate (7 - ?l) 0 @ [of_nat (length data)]"
  have q: "length ?q = 8" using rest by simp
  have "sip_pad data = take (8 * ?n) data @ ?q" by (simp add: sip_pad_def flip: append_assoc)
  then have "fold sip_compress (sip_words (sip_pad data)) (sip_init key)
      = fold sip_compress (sip_words ?q) (sip_blocks ?n data (sip_init key))"
    using sip_blocks_fold [of ?n data ?q "sip_init key"] by simp
  moreover have "sip_words ?q = [le_load ?q]"
    using sip_words_block [OF q, of "[]"] by (simp add: sip_words.simps)
  ultimately show ?thesis
    using sip_tail_load [OF rest] test_vector
    by (simp add: siphash_2_4_def siphash_spec_def Let_def sip_compress_eq sip_finish_eq sip_start_eq [OF assms])
qed

text \<open>The test vector follows from the definition as well.\<close>

theorem siphash_refines_spec_witness:
  "siphash_spec 2 4 (map of_nat [0..<15]) (map of_nat [0..<16]) = 0xa129ca6149be45e5"
proof -
  have "length (map of_nat [0..<16] :: bytes) = 16" by simp
  from siphash_refines_spec [OF this, of "map of_nat [0..<15]"] show ?thesis by metis
qed

section \<open>Validity\<close>

lemma init_value_fields [simp]:
  "en_eclass (init_value ec et v) = ec" "en_etype (init_value ec et v) = et"
  "en_value_len (init_value ec et v) = of_nat (length v)" "en_flags (init_value ec et v) = 0"
  "en_reserved (init_value ec et v) = 0"
  by (simp_all add: init_value_def zero_entity_def)

lemma init_value_value:
  "length v \<le> 56 \<Longrightarrow> en_value (init_value ec et v) = v @ replicate (56 - length v) 0"
  by (simp add: init_value_def zero_entity_def arr_put_def)

text \<open>An entity of the right shape whose unused bytes are zero.\<close>

definition entity_wf :: "wake_entity_t \<Rightarrow> bool" where
  "entity_wf e \<longleftrightarrow> wake_entity_valid e \<and> length (en_value e) = 56"

lemma init_value_wf:
  assumes "length v \<le> 56" "ec < 3"
    and "f = 0 \<and> (wake_etype_fixed_len et = 0 \<or> wake_etype_fixed_len et = of_nat (length v)) \<or> f = WAKE_EF_HASHED"
  shows "entity_wf ((init_value ec et v)\<lparr>en_flags := f\<rparr>)"
proof -
  have n: "unat (of_nat (length v) :: u8) = length v"
    using assms(1) by (intro unat_of_nat_le [of _ 56]) auto
  show ?thesis
    using assms n by (auto simp: entity_wf_def wake_entity_valid_def init_value_value nth_append)
qed

lemma init_value_wf_plain:
  assumes "length v \<le> 56" "ec < 3"
    and "wake_etype_fixed_len et = 0 \<or> wake_etype_fixed_len et = of_nat (length v)"
  shows "entity_wf (init_value ec et v)"
proof -
  have "(init_value ec et v)\<lparr>en_flags := 0\<rparr> = init_value ec et v"
    by (simp add: init_value_def zero_entity_def)
  with init_value_wf [of v ec 0 et] assms show ?thesis by simp
qed

lemma string_not_fixed: "wake_etype_is_string et \<Longrightarrow> wake_etype_fixed_len et = 0"
  by (auto simp: wake_etype_is_string_def wake_etype_fixed_len_def split: if_splits)

text \<open>
  C37. Every entity constructor yields a valid entity: with a class in range, buffers of the
  documented size and, for \<open>wake_entity_init_str\<close>, a string type, all invariants of the header
  file hold, whether or not a long string had to be replaced by its hash.
\<close>

theorem constructors_valid:
  assumes "ec < 3" and "length addr = 16" and "length md5 = 16" and "length sha1 = 20"
    and "length sha256 = 32" and "wake_etype_is_string et"
  shows "\<forall>e\<in>{wake_entity_init_ipv4 ec a4, wake_entity_init_ipv6 ec addr, wake_entity_init_str st ec et val,
       wake_entity_init_md5 md5, wake_entity_init_sha1 sha1, wake_entity_init_sha256 sha256,
       wake_entity_init_port ec port, wake_entity_init_proto proto, wake_entity_init_size sz,
       wake_entity_init_sig_id sid}. entity_wf e"
proof -
  have "entity_wf (wake_entity_init_str st ec et val)"
    using assms(1) string_not_fixed [OF assms(6)]
      init_value_wf_plain [of val ec et] init_value_wf [of "le_bytes 8 (siphash_2_4 val (siphash_key st))" ec WAKE_EF_HASHED et]
    by (simp add: wake_entity_init_str_def)
  moreover have "(2 :: u8) < 3" by simp
  ultimately show ?thesis
    using assms(1-5)
    by (auto simp: wake_entity_init_ipv4_def wake_entity_init_ipv6_def wake_entity_init_md5_def
        wake_entity_init_sha1_def wake_entity_init_sha256_def wake_entity_init_port_def
        wake_entity_init_proto_def wake_entity_init_size_def wake_entity_init_sig_id_def
        wake_etype_fixed_len_def intro!: init_value_wf_plain)
qed

theorem constructors_valid_witness:
  "entity_wf (wake_entity_init_str \<lparr>siphash_key = replicate 16 0, siphash_initialized = True\<rparr> WAKE_EC_WHO WAKE_ET_USER [97, 98])"
proof -
  have "WAKE_EC_WHO < 3" "wake_etype_is_string WAKE_ET_USER" by code_simp+
  with constructors_valid [of WAKE_EC_WHO "replicate 16 0" "replicate 16 0" "replicate 20 0" "replicate 32 0" WAKE_ET_USER]
  show ?thesis by simp
qed

section \<open>Equality and hashing\<close>

lemma entity_bytes_inject:
  "length (en_value a) = length (en_value b) \<Longrightarrow> entity_bytes a = entity_bytes b \<longleftrightarrow> a = b"
  by (cases a; cases b) (auto simp: entity_bytes_def le_bytes_inject)

lemma wf_hashed_bytes:
  assumes "entity_wf e"
  shows "hashed_bytes e = Some ([en_eclass e, en_etype e, en_value_len e, en_flags e, 0, 0, 0, 0]
           @ take (unat (en_value_len e)) (en_value e))"
    and "en_value e = take (unat (en_value_len e)) (en_value e) @ replicate (56 - unat (en_value_len e)) 0"
proof -
  let ?n = "unat (en_value_len e)"
  have n: "?n \<le> 56" "length (en_value e) = 56" "en_reserved e = 0"
    using assms by (auto simp: entity_wf_def wake_entity_valid_def)
  let ?h = "[en_eclass e, en_etype e, en_value_len e, en_flags e, 0, 0, 0, 0]"
  have "le_bytes 4 (0 :: u32) = [0, 0, 0, 0]" by (simp add: le_bytes_def upt_conv_Cons)
  then have eb: "entity_bytes e = ?h @ en_value e" using n(3) by (simp add: entity_bytes_def)
  have app: "length h = 8 \<Longrightarrow> take (8 + ?n) (h @ en_value e) = h @ take ?n (en_value e)" for h by simp
  have "length ?h = 8" by simp
  from app [OF this] have "take (8 + ?n) (entity_bytes e) = ?h @ take ?n (en_value e)"
    unfolding eb .
  moreover have "8 + ?n \<le> length (entity_bytes e)" using n by (simp add: eb)
  ultimately show "hashed_bytes e = Some (?h @ take ?n (en_value e))"
    unfolding hashed_bytes_def by presburger
  have "drop ?n (en_value e) = replicate (56 - ?n) 0"
    using n assms by (intro nth_equalityI) (auto simp: entity_wf_def wake_entity_valid_def)
  then show "en_value e = take ?n (en_value e) @ replicate (56 - ?n) 0"
    by (metis append_take_drop_id)
qed

text \<open>
  For valid entities, equality of the structs is equality of the entities, hashing stays within
  the 64 bytes, equal entities have equal hashes, and two different entities never present the
  same bytes to the hash function.
\<close>

theorem entity_identity:
  assumes "entity_wf a" and "entity_wf b"
  shows "(wake_entity_eq a b \<longleftrightarrow> a = b) \<and> hashed_bytes a \<noteq> None
     \<and> (hashed_bytes a = hashed_bytes b \<longleftrightarrow> a = b)
     \<and> (wake_entity_eq a b \<longrightarrow> wake_entity_hash st a = wake_entity_hash st b)"
proof -
  have len: "length (en_value a) = length (en_value b)" "en_reserved a = en_reserved b"
    using assms by (auto simp: entity_wf_def wake_entity_valid_def)
  have "a = b" if "hashed_bytes a = hashed_bytes b"
  proof -
    from that have eq: "en_eclass a = en_eclass b" "en_etype a = en_etype b" "en_value_len a = en_value_len b"
      "en_flags a = en_flags b" "take (unat (en_value_len a)) (en_value a) = take (unat (en_value_len b)) (en_value b)"
      unfolding wf_hashed_bytes(1) [OF assms(1)] wf_hashed_bytes(1) [OF assms(2)] by auto
    then have "en_value a = en_value b"
      using wf_hashed_bytes(2) [OF assms(1)] wf_hashed_bytes(2) [OF assms(2)] by metis
    with eq len(2) show ?thesis by (cases a; cases b) simp
  qed
  with entity_bytes_inject [OF len(1)] wf_hashed_bytes(1) [OF assms(1)] show ?thesis
    by (auto simp: wake_entity_eq_def)
qed

theorem entity_identity_witness:
  "\<not> wake_entity_eq (wake_entity_init_port WAKE_EC_WITH 80) (wake_entity_init_port WAKE_EC_WITH 443)"
proof -
  have wf: "entity_wf (wake_entity_init_port WAKE_EC_WITH p)" for p
    unfolding wake_entity_init_port_def by (intro init_value_wf_plain) (simp_all add: wake_etype_fixed_len_def)
  have "wake_entity_init_port WAKE_EC_WITH 80 \<noteq> wake_entity_init_port WAKE_EC_WITH 443" by code_simp
  with entity_identity [OF wf [of 80] wf [of 443]] show ?thesis by blast
qed

end
