(* ===== verification/Wake_Pheromone_Ops.thy ===== *)
theory Wake_Pheromone_Ops
  imports Wake_Pheromone_Inv Wake_Entity_Props
begin

text \<open>
  Every operation of the pheromone table on a well-formed table: what it returns, how it changes
  the map, and that it keeps the invariant.  The machine of all operations closes the theory.
\<close>

section \<open>Keys\<close>

definition pht_key :: "hash_state \<Rightarrow> wake_entity_t \<Rightarrow> u64" where
  "pht_key hs entity = the (entity_key_hash hs entity)"

lemma entity_key_hash_Some:
  assumes "entity_wf entity"
  shows "entity_key_hash hs entity = Some (pht_key hs entity)" and "\<not> vacant (pht_key hs entity)"
proof -
  obtain h where h: "wake_entity_hash hs entity = Some h"
    using wf_hashed_bytes(1) [OF assms] by (simp add: wake_entity_hash_def)
  then show "entity_key_hash hs entity = Some (pht_key hs entity)"
    by (simp add: pht_key_def entity_key_hash_def)
  show "\<not> vacant (pht_key hs entity)"
    by (simp add: pht_key_def entity_key_hash_def h vacant_def)
qed

section \<open>Insertion\<close>

lemma pe_ok_hit [simp]: "pe_ok (hit_entry now dl inc ph e) = pe_ok e"
  by (simp add: hit_entry_def pe_ok_def)

lemma pe_key_hit [simp]: "pe_key_hash (hit_entry now dl inc ph e) = pe_key_hash e"
  by (simp add: hit_entry_def)

lemma pe_confidence_hit [simp]: "pe_confidence (hit_entry now dl inc ph e) = pe_confidence e + dl"
  by (simp add: hit_entry_def)

lemma pe_key_fill [simp]: "pe_key_hash (fill_entry k en a oc tn now dl ph e) = k"
  by (simp add: fill_entry_def)

text \<open>Whatever the version was, the seqlock leaves an even one.\<close>

lemma version_even: "(write_version v + 1) AND 1 = 0"
proof -
  have "odd (write_version v)"
    by (simp add: write_version_def even_or_iff)
  then have "even (write_version v + 1)" by simp
  then show ?thesis by (simp add: and_one_eq even_iff_mod_2_eq_zero)
qed

lemma pe_ok_fill [simp]: "pe_ok (fill_entry k en a oc tn now dl ph e)"
  by (simp add: fill_entry_def pe_ok_def version_even)

lemma pht_inv_fill:
  assumes "pht_inv pt" "\<not> vacant k" "k \<notin> set (pt_keys pt)" "d < WAKE_PHT_PROBE_MAX"
    and "vacant (pt_keys pt ! pt_slot pt k d)" "\<And>e. e < d \<Longrightarrow> \<not> vacant (pt_keys pt ! pt_slot pt k e)"
    and "pe_ok e" "pe_key_hash e = k"
  shows "pht_inv (put_entry (pt_slot pt k d) e pt)"
proof -
  have "pht.chained (put_entry (pt_slot pt k d) e pt)"
  proof (rule pht.chained_fill [OF pht_invD(2,1) [OF assms(1)] assms(2-5)])
    fix d'
    assume "d' < d"
    with assms(6) show "pt_keys pt ! pt_slot pt k d' \<noteq> SLOT_EMPTY"
      using vacant_zero_word by blast
  qed (simp_all add: assms(8))
  with assms(1) pe_ok_put [OF assms(1,7), of "pt_slot pt k d"] show ?thesis
    by (simp add: pht_inv_def)
qed

text \<open>The eight slots of a key that is not in the table are all taken.\<close>

definition probe_full :: "wake_pheromone_t \<Rightarrow> u64 \<Rightarrow> bool" where
  "probe_full pt k \<longleftrightarrow> (\<forall>d<WAKE_PHT_PROBE_MAX. \<not> vacant (pt_keys pt ! pt_slot pt k d))"

lemma pht_insert_cases:
  fixes hs tv pt entity a oc tn dl inc ph
  assumes inv: "pht_inv pt" and wf: "entity_wf entity"
  defines "k \<equiv> pht_key hs entity" and "now \<equiv> relative_time tv pt"
  obtains (hit) e i where "pht_map pt k = Some e" "i < length (pt_entries pt)"
      "pt_entries pt ! i = e"
      "pht_insert hs tv pt entity a oc tn dl inc ph =
         Some (pe_confidence e + dl, put_entry i (hit_entry now dl inc ph e) pt)"
      "pht_inv (put_entry i (hit_entry now dl inc ph e) pt)"
  | (claim) e i where "pht_map pt k = None" "\<not> probe_full pt k" "i < length (pt_entries pt)"
      "pt_entries pt ! i = e" "vacant (pe_key_hash e)"
      "pht_insert hs tv pt entity a oc tn dl inc ph =
         Some (dl, put_entry i (fill_entry k entity a oc tn now dl ph e) pt)"
      "pht_inv (put_entry i (fill_entry k entity a oc tn now dl ph e) pt)"
  | (full) "pht_map pt k = None" "probe_full pt k"
      "pht_insert hs tv pt entity a oc tn dl inc ph = Some (0, pt)"
proof -
  have lay: "pht_layout pt" by (rule pht_invD(1) [OF inv])
  have key: "entity_key_hash hs entity = Some k" "\<not> vacant k"
    using entity_key_hash_Some [OF wf] by (simp_all add: k_def)
  note ins = pht_insert_def pht_insert_race_def key(1) now_def [symmetric] claim_slot_def
  from inv key(2) show thesis
  proof (cases rule: insert_probe_cases)
    case (found d)
    let ?i = "pt_slot pt k d"
    have i: "?i < length (pt_entries pt)" using lay by simp
    have ok: "pe_ok (pt_entries pt ! ?i)" using pht_invD(3) [OF inv] i by simp
    show thesis
      using found lay i ok
      by (intro hit [of "pt_entries pt ! ?i" ?i] pht_inv_put_same [OF inv] pht_map_nth [OF inv _ _ key(2)])
        (simp_all add: ins store_probe)
  next
    case (free d)
    let ?i = "pt_slot pt k d"
    have i: "?i < length (pt_entries pt)" using lay by simp
    have vac: "pe_key_hash (pt_entries pt ! ?i) = 0 \<or> pe_key_hash (pt_entries pt ! ?i) = 0xDEADDEADDEADDEAD"
      using free(4) i by (simp add: vacant_def)
    have "\<not> probe_full pt k" using free(3,4) by (auto simp: probe_full_def)
    then show thesis
      using free lay i vac probe_idx_not_max [OF lay, of k d]
      by (intro claim [of ?i "pt_entries pt ! ?i"] pht_inv_fill [OF inv key(2)] pht_map_absent)
        (auto simp: ins store_probe vacant_def)
  next
    case full
    then show thesis
      by (intro that(3) pht_map_absent) (simp_all add: ins probe_full_def)
  qed
qed

section \<open>Removal, reasons\<close>

lemma pe_ok_tombstone [simp]: "pe_ok (e\<lparr>pe_key_hash := x\<rparr>) = pe_ok e"
  by (simp add: pe_ok_def)

lemma remove_cases:
  fixes hs pt entity
  assumes inv: "pht_inv pt" and wf: "entity_wf entity"
  defines "k \<equiv> pht_key hs entity"
  obtains (removed) e i where "pht_map pt k = Some e" "i < length (pt_entries pt)" "pt_entries pt ! i = e"
      "wake_pheromone_remove hs pt entity =
         Some (True, put_entry i (e\<lparr>pe_key_hash := WAKE_PHT_SLOT_TOMBSTONE\<rparr>) pt)"
      "pht_inv (put_entry i (e\<lparr>pe_key_hash := WAKE_PHT_SLOT_TOMBSTONE\<rparr>) pt)"
  | (missing) "pht_map pt k = None" "wake_pheromone_remove hs pt entity = Some (False, pt)"
proof -
  have lay: "pht_layout pt" by (rule pht_invD(1) [OF inv])
  have key: "entity_key_hash hs entity = Some k" "\<not> vacant k"
    using entity_key_hash_Some [OF wf] by (simp_all add: k_def)
  from inv key(2) show thesis
  proof (cases rule: find_probe_cases)
    case (1 d)
    let ?i = "pt_slot pt k d"
    have i: "?i < length (pt_entries pt)" using lay by simp
    have "pe_ok (pt_entries pt ! ?i)" using pht_invD(3) [OF inv] i by simp
    with 1 lay i show thesis
      by (intro removed [of "pt_entries pt ! ?i" ?i] pht_inv_put_tombstone [OF inv])
        (simp_all add: wake_pheromone_remove_def key store_probe)
  next
    case 2
    then show thesis
      by (intro missing) (simp_all add: wake_pheromone_remove_def key)
  qed
qed

lemma lookup_map:
  assumes inv: "pht_inv pt" and wf: "entity_wf entity"
  shows "wake_pheromone_lookup hs pt entity =
     Some (case pht_map pt (pht_key hs entity) of None \<Rightarrow> 0 | Some e \<Rightarrow> pe_confidence e)"
proof -
  have lay: "pht_layout pt" by (rule pht_invD(1) [OF inv])
  note key = entity_key_hash_Some [OF wf, of hs]
  from inv key(2) show ?thesis
    by (cases rule: find_probe_cases) (simp_all add: wake_pheromone_lookup_def key(1) lay)
qed

lemma pe_ok_note [simp]: "pe_ok e \<Longrightarrow> pe_ok (note_entry w e)"
  by (simp add: pe_ok_def note_entry_def Let_def)

lemma pe_key_note [simp]: "pe_key_hash (note_entry w e) = pe_key_hash e"
  by (simp add: note_entry_def Let_def)

lemma note_reason_cases:
  fixes hs pt entity w
  assumes inv: "pht_inv pt" and wf: "entity_wf entity" and w: "w AND 0xff \<noteq> 0"
  defines "k \<equiv> pht_key hs entity"
  obtains (noted) e i where "pht_map pt k = Some e" "i < length (pt_entries pt)" "pt_entries pt ! i = e"
      "wake_pheromone_note_reason hs (Some pt) (Some entity) w =
         Some (Some (put_entry i (note_entry w e) pt))"
      "pht_inv (put_entry i (note_entry w e) pt)"
  | (missing) "pht_map pt k = None"
      "wake_pheromone_note_reason hs (Some pt) (Some entity) w = Some (Some pt)"
proof -
  have lay: "pht_layout pt" by (rule pht_invD(1) [OF inv])
  have key: "entity_key_hash hs entity = Some k" "\<not> vacant k"
    using entity_key_hash_Some [OF wf] by (simp_all add: k_def)
  note nr = wake_pheromone_note_reason_def key(1) note_probe_eq [OF key(2)] w
  from inv key(2) show thesis
  proof (cases rule: find_probe_cases)
    case (1 d)
    let ?i = "pt_slot pt k d"
    have i: "?i < length (pt_entries pt)" using lay by simp
    have "pe_ok (pt_entries pt ! ?i)" using pht_invD(3) [OF inv] i by simp
    with 1 lay i show thesis
      by (intro noted [of "pt_entries pt ! ?i" ?i] pht_inv_put_same [OF inv])
        (simp_all add: nr store_probe)
  next
    case 2
    then show thesis
      by (intro missing) (simp_all add: nr)
  qed
qed

section \<open>Decay\<close>

abbreviation decayed :: "wake_pheromone_t \<Rightarrow> wake_pheromone_entry_t \<Rightarrow> bool \<times> wake_pheromone_entry_t" where
  "decayed pt \<equiv> decay_entry (ph_decay_factor_fp16 (pt_header pt)) (ph_noise_floor (pt_header pt))"

lemma decay_entry_key:
  "pe_key_hash (snd (decay_entry f n e)) = (if fst (decay_entry f n e) then WAKE_PHT_SLOT_TOMBSTONE else pe_key_hash e)"
  by (simp add: decay_entry_def Let_def)

lemma pe_ok_decay [simp]: "pe_ok (snd (decay_entry f n e)) = pe_ok e"
  by (simp add: decay_entry_def Let_def pe_ok_def)

lemma pht_inv_decay_slot:
  assumes "pht_inv pt" "i < length (pt_entries pt)"
  shows "pht_inv (put_entry i (snd (decayed pt (pt_entries pt ! i))) pt)"
proof (cases "fst (decayed pt (pt_entries pt ! i))")
  case True
  with assms pht_invD(3) [OF assms(1)] show ?thesis
    by (intro pht_inv_put_tombstone) (simp_all add: decay_entry_key)
next
  case False
  with assms pht_invD(3) [OF assms(1)] show ?thesis
    by (intro pht_inv_put_same) (simp_all add: decay_entry_key)
qed

lemma decay_loop_spec:
  assumes "pht_inv pt" "m \<le> length (pt_entries pt)"
  shows "\<exists>pt'. decay_loop [m..<length (pt_entries pt)] pt ev =
       Some (ev + of_nat (length (filter (\<lambda>e. fst (decayed pt e)) (drop m (pt_entries pt)))), pt')
     \<and> pht_inv pt' \<and> pt_header pt' = pt_header pt
     \<and> pt_entries pt' = take m (pt_entries pt) @ map (\<lambda>e. snd (decayed pt e)) (drop m (pt_entries pt))"
  using assms
proof (induction "length (pt_entries pt) - m" arbitrary: m pt ev)
  case 0
  then show ?case by simp
next
  case (Suc n)
  let ?x = "pt_entries pt ! m"
  let ?p = "put_entry m (snd (decayed pt ?x)) pt"
  let ?ev = "if fst (decayed pt ?x) then ev + 1 else ev"
  from Suc.hyps(2) have m: "m < length (pt_entries pt)" by simp
  have p: "pht_inv ?p" "n = length (pt_entries ?p) - Suc m" "Suc m \<le> length (pt_entries ?p)"
    using pht_inv_decay_slot [OF Suc.prems(1) m] Suc.hyps(2) m by simp_all
  have step: "decay_loop [m..<length (pt_entries pt)] pt ev
      = decay_loop [Suc m..<length (pt_entries ?p)] ?p ?ev"
    using m by (simp add: upt_conv_Cons put_entry_def Let_def case_prod_unfold)
  have dr: "drop m (pt_entries pt) = ?x # drop (Suc m) (pt_entries pt)"
    using m by (simp add: Cons_nth_drop_Suc)
  obtain pt' where "decay_loop [Suc m..<length (pt_entries ?p)] ?p ?ev =
        Some (?ev + of_nat (length (filter (\<lambda>e. fst (decayed ?p e)) (drop (Suc m) (pt_entries ?p)))), pt')"
      "pht_inv pt'" "pt_header pt' = pt_header ?p"
      "pt_entries pt' = take (Suc m) (pt_entries ?p) @ map (\<lambda>e. snd (decayed ?p e)) (drop (Suc m) (pt_entries ?p))"
    using Suc.hyps(1) [OF p(2) p(1) p(3), of ?ev] by blast
  with m show ?case
    by (intro exI [of _ pt']) (auto simp: step dr)
qed

lemma decay_spec:
  assumes "pht_inv pt"
  obtains pt' where "wake_pheromone_decay pt =
      Some (of_nat (length (filter (\<lambda>e. fst (decayed pt e)) (pt_entries pt))), pt')"
    "pht_inv pt'" "pt_header pt' = pt_header pt"
    "pt_entries pt' = map (\<lambda>e. snd (decayed pt e)) (pt_entries pt)"
  using decay_loop_spec [OF assms, of 0 0] pht_invD(1) [OF assms]
  by (auto simp: wake_pheromone_decay_def pht_layout_def)

text \<open>Decay acts on each key of the map alone.\<close>

lemma decay_map:
  assumes inv: "pht_inv pt" and inv': "pht_inv pt'"
    and es: "pt_entries pt' = map (\<lambda>e. snd (decayed pt e)) (pt_entries pt)"
  shows "pht_map pt' k = Option.bind (pht_map pt k)
     (\<lambda>e. if fst (decayed pt e) then None else Some (snd (decayed pt e)))"
proof (cases "pht_map pt k")
  case None
  have "k \<notin> set (pt_keys pt')" if k: "\<not> vacant k"
  proof
    assume "k \<in> set (pt_keys pt')"
    then obtain i where i: "i < length (pt_entries pt)" "pe_key_hash (snd (decayed pt (pt_entries pt ! i))) = k"
      by (auto simp: es in_set_conv_nth)
    with k have "pe_key_hash (pt_entries pt ! i) = k"
      by (auto simp: decay_entry_key split: if_splits)
    with pht_map_nth [OF inv i(1) _ k] None show False by simp
  qed
  then have "pht_map pt' k = None"
    by (cases "vacant k") (simp add: pht_map_def, simp add: pht_map_absent)
  with None show ?thesis by simp
next
  case (Some e)
  then obtain i where i: "i < length (pt_entries pt)" "pt_entries pt ! i = e" "pe_key_hash e = k" "\<not> vacant k"
    by (rule pht_map_SomeE)
  show ?thesis
  proof (cases "fst (decayed pt e)")
    case False
    with Some i pht_map_nth [OF inv', of i k] show ?thesis by (simp add: es decay_entry_key)
  next
    case True
    have "k \<notin> set (pt_keys pt')"
    proof
      assume "k \<in> set (pt_keys pt')"
      then obtain j where j: "j < length (pt_entries pt)" "pe_key_hash (snd (decayed pt (pt_entries pt ! j))) = k"
        by (auto simp: es in_set_conv_nth)
      with i(4) have ev: "\<not> fst (decayed pt (pt_entries pt ! j))" "pe_key_hash (pt_entries pt ! j) = k"
        by (auto simp: decay_entry_key split: if_splits)
      with i j(1) have "j = i"
        using pht.chainedD(2) [OF pht_invD(2) [OF inv], of i j] by simp
      with ev True i show False by simp
    qed
    with True Some show ?thesis by (simp add: pht_map_absent)
  qed
qed

end
