(* ===== verification/Wake_Pheromone_Props.thy ===== *)
theory Wake_Pheromone_Props
  imports Wake_Pheromone_Ops
begin

text \<open>
  Properties of the pheromone table: safety of every reachable table, and the table as a map.
\<close>

section \<open>Life cycle\<close>

lemma pht_inv_fresh:
  assumes "is_power_of_2 capacity"
  shows "pht_inv (fresh_table capacity decay flr tv key)"
proof -
  let ?pt = "fresh_table capacity decay flr tv key"
  have "pht_layout ?pt"
    using assms by (simp add: fresh_table_def pht_layout_def header_ok_def)
  moreover have "pht.chained ?pt"
    by (rule pht.chained_empty) (simp add: fresh_table_def zero_entry_def)
  ultimately show ?thesis
    by (simp add: pht_inv_def fresh_table_def zero_entry_def pe_ok_def)
qed

lemma create_Inr:
  assumes "wake_pheromone_create env cfg hs = (Inr pt, hs')"
  obtains capacity decay flr key where "is_power_of_2 capacity"
    "pt = fresh_table capacity decay flr (ce_tv_sec env) key"
  using assms by (auto simp: wake_pheromone_create_def Let_def split: if_splits option.splits)

text \<open>The file a mapped table leaves behind; a file may be longer than its table.\<close>

definition file_of :: "wake_pheromone_t \<Rightarrow> nat \<Rightarrow> pht_file" where
  "file_of pt extra = \<lparr>pf_size = pt_map_size pt + extra, pf_header = Some (pt_header pt),
     pf_entries = pt_entries pt\<rparr>"

lemma reopen:
  assumes "pht_inv pt" "oe_open env" "oe_fstat env" "oe_mmap env" "oe_malloc env"
  shows "wake_pheromone_open env (file_of pt extra) hs =
     (Inr pt, wake_hash_set_key (ph_hash_key (pt_header pt)) hs)"
  using assms
  by (auto simp: wake_pheromone_open_def file_of_def pht_inv_def pht_layout_def header_ok_def Let_def)

section \<open>Reads\<close>

lemma read_loop_quiet:
  assumes "pe_version e AND 1 = 0"
  shows "read_loop (\<lambda>_. (e, e, e)) n = Some e"
  by (subst read_loop.simps) (simp add: assms Let_def)

lemma read_entry_spec:
  assumes "pht_inv pt" "i < length (pt_entries pt)"
  shows "wake_pheromone_read_entry pt (of_nat i) =
     Some (if vacant (pe_key_hash (pt_entries pt ! i)) then Dead else Live (pt_entries pt ! i))"
proof -
  let ?c = "ph_capacity (pt_header pt)"
  have i: "i < unat ?c" using assms by (simp add: pht_inv_def pht_layout_def)
  then have i32: "i < 2 ^ 32"
    using unsigned_less [of ?c, where ?'a = nat] by simp
  then have ui: "unat (of_nat i :: u32) = i"
    by (simp add: unat_of_nat)
  have "\<not> ?c \<le> of_nat i" using i ui by (simp add: word_le_nat_alt)
  moreover have "load_entry pt (ucast (of_nat i :: u32)) = Some (pt_entries pt ! i)"
    using assms(2) ui by (simp add: load_entry_def)
  moreover have "pe_version (pt_entries pt ! i) AND 1 = 0"
    using pht_invD(3) [OF assms(1)] assms(2) by (simp add: pe_ok_def)
  ultimately show ?thesis
    by (simp add: wake_pheromone_read_entry_def read_entry_mem_def read_loop_quiet)
qed

lemma iterate_total:
  assumes "pht_inv pt" "\<forall>i\<in>set is. i < length (pt_entries pt)"
  shows "iterate_loop pt fn is v c \<noteq> None"
  using assms(2)
proof (induction "is" arbitrary: v c)
  case Nil
  then show ?case by simp
next
  case (Cons i "is")
  then show ?case
    by (simp add: read_entry_spec [OF assms(1)] case_prod_unfold Let_def)
qed

lemma stats_total: "\<forall>i\<in>set is. i < length (pt_entries pt) \<Longrightarrow> stats_loop pt is out \<noteq> None"
  by (induction "is" arbitrary: out) simp_all

section \<open>The machine of all operations\<close>

definition pht_init :: "wake_pheromone_t \<Rightarrow> bool" where
  "pht_init pt \<longleftrightarrow> (\<exists>env cfg hs. fst (wake_pheromone_create env cfg hs) = Inr pt)"

inductive pht_step :: "wake_pheromone_t \<Rightarrow> wake_pheromone_t \<Rightarrow> bool" where
  st_deposit: "entity_wf en \<Longrightarrow> wake_pheromone_deposit hs tv pt en a oc tn dl ph = Some (c, pt')
     \<Longrightarrow> pht_step pt pt'"
| st_reinforce: "entity_wf en \<Longrightarrow> wake_pheromone_reinforce hs tv pt en a oc tn dl ph = Some (c, pt')
     \<Longrightarrow> pht_step pt pt'"
| st_remove: "entity_wf en \<Longrightarrow> wake_pheromone_remove hs pt en = Some (b, pt') \<Longrightarrow> pht_step pt pt'"
| st_note: "entity_wf en \<Longrightarrow> wake_pheromone_note_reason hs (Some pt) (Some en) w = Some (Some pt')
     \<Longrightarrow> pht_step pt pt'"
| st_decay: "wake_pheromone_decay pt = Some (n, pt') \<Longrightarrow> pht_step pt pt'"
| st_reopen: "wake_pheromone_open env (file_of pt extra) hs = (Inr pt', hs') \<Longrightarrow> pht_step pt pt'"

lemma pht_inv_insert:
  assumes "pht_inv pt" "entity_wf en" "pht_insert hs tv pt en a oc tn dl inc ph = Some (c, pt')"
  shows "pht_inv pt'"
  using assms(1,2)
  by (cases rule: pht_insert_cases [where hs = hs and tv = tv and a = a and oc = oc and tn = tn
        and dl = dl and inc = inc and ph = ph]) (use assms in auto)

lemma pht_inv_note:
  assumes "pht_inv pt" "entity_wf en" "wake_pheromone_note_reason hs (Some pt) (Some en) w = Some (Some pt')"
  shows "pht_inv pt'"
proof (cases "w AND 0xff = 0")
  case True
  with assms show ?thesis by (simp add: wake_pheromone_note_reason_def)
next
  case False
  from assms(1,2) False show ?thesis
    by (cases rule: note_reason_cases [where hs = hs]) (use assms in auto)
qed

lemma pht_inv_reopen:
  assumes "pht_inv pt" "wake_pheromone_open env (file_of pt extra) hs = (Inr pt', hs')"
  shows "pt' = pt"
  using assms
  by (auto simp: wake_pheromone_open_def file_of_def pht_inv_def pht_layout_def Let_def
      split: if_splits)

lemma pht_inv_remove:
  assumes "pht_inv pt" "entity_wf en" "wake_pheromone_remove hs pt en = Some (b, pt')"
  shows "pht_inv pt'"
  using assms(1,2) by (cases rule: remove_cases [where hs = hs]) (use assms in auto)

lemma pht_inv_decay:
  assumes "pht_inv pt" "wake_pheromone_decay pt = Some (n, pt')"
  shows "pht_inv pt'"
  using assms(1) by (rule decay_spec) (use assms in auto)

lemma pht_step_inv: "pht_inv pt \<Longrightarrow> pht_step pt pt' \<Longrightarrow> pht_inv pt'"
  by (erule pht_step.cases)
    (auto simp: wake_pheromone_deposit_def wake_pheromone_reinforce_def
      intro: pht_inv_insert pht_inv_note pht_inv_remove pht_inv_decay dest: pht_inv_reopen)

interpretation pheromone: invariant_machine pht_init pht_step pht_inv
proof unfold_locales
  fix pt
  assume "pht_init pt"
  then show "pht_inv pt"
    unfolding pht_init_def by (metis create_Inr pht_inv_fresh surjective_pairing)
next
  fix pt pt'
  assume "pht_inv pt" "pht_step pt pt'"
  then show "pht_inv pt'" by (rule pht_step_inv)
qed

section \<open>An instance for the witnesses\<close>

definition demo_table :: wake_pheromone_t where
  "demo_table = fresh_table 8 62259 100 1700000000 (replicate 16 7)"

definition demo_hs :: hash_state where
  "demo_hs = \<lparr>siphash_key = replicate 16 7, siphash_initialized = True\<rparr>"

lemma demo_table_reachable: "reach pht_init pht_step demo_table"
proof (rule reach_init)
  have "fst (wake_pheromone_create
      \<lparr>ce_open = True, ce_ftruncate = True, ce_mmap = True, ce_urandom = Some (replicate 16 7),
       ce_malloc = True, ce_tv_sec = 1700000000\<rparr>
      (Some \<lparr>pc_capacity = 8, pc_decay_factor_fp16 = 0, pc_noise_floor = 0\<rparr>) demo_hs) = Inr demo_table"
    by (simp add: wake_pheromone_create_def cfg_or_def is_power_of_2_def demo_table_def Let_def)
  then show "pht_init demo_table" unfolding pht_init_def by blast
qed

lemma demo_table_inv: "pht_inv demo_table"
  by (rule pheromone.reach_inv [OF demo_table_reachable])

lemma demo_table_empty: "pht_map demo_table k = None"
  by (simp add: pht_map_def demo_table_def fresh_table_def find_None_iff zero_entry_def)
    (auto simp: vacant_zero_word)

lemma demo_table_free: "\<not> probe_full demo_table k"
proof -
  have "pt_slot demo_table k 0 < length (pt_entries demo_table)"
    by (intro pt_slot_less pht_invD(1) demo_table_inv)
  then show ?thesis
    by (auto simp: probe_full_def demo_table_def fresh_table_def zero_entry_def intro!: exI [of _ 0])
qed

lemma port_wf: "entity_wf (wake_entity_init_port WAKE_EC_WITH p)"
  unfolding wake_entity_init_port_def by (intro init_value_wf_plain) (simp_all add: wake_etype_fixed_len_def)

section \<open>Safety\<close>

text \<open>
  C3. In every table that \<open>wake_pheromone_create\<close> and any sequence of deposits, reinforcements,
  removals, reason notes, decay passes and reopenings can produce, the live keys are distinct and
  each lies within eight probes of its home slot; and no operation on it, with any valid entity
  under any hash key, indexes the mapping out of range or spins forever.
\<close>

theorem pheromone_reachable_safe:
  assumes "reach pht_init pht_step pt" and "entity_wf en"
  shows "(\<forall>i<length (pt_entries pt). \<not> vacant (pe_key_hash (pt_entries pt ! i)) \<longrightarrow>
            (\<exists>d<WAKE_PHT_PROBE_MAX. unat (probe_idx pt (pe_key_hash (pt_entries pt ! i)) d) = i)
          \<and> (\<forall>j<length (pt_entries pt).
               pe_key_hash (pt_entries pt ! j) = pe_key_hash (pt_entries pt ! i) \<longrightarrow> j = i))
       \<and> wake_pheromone_deposit hs tv pt en a oc tn dl ph \<noteq> None
       \<and> wake_pheromone_reinforce hs tv pt en a oc tn dl ph \<noteq> None
       \<and> wake_pheromone_lookup hs pt en \<noteq> None
       \<and> wake_pheromone_remove hs pt en \<noteq> None
       \<and> wake_pheromone_note_reason hs (Some pt) (Some en) w \<noteq> None
       \<and> wake_pheromone_decay pt \<noteq> None
       \<and> wake_pheromone_iterate pt fn ctx \<noteq> None
       \<and> wake_pheromone_stats pt \<noteq> None
       \<and> wake_pheromone_read_entry pt i \<noteq> None"
proof -
  have inv: "pht_inv pt" by (rule pheromone.reach_inv [OF assms(1)])
  have len: "length (pt_entries pt) = unat (ph_capacity (pt_header pt))"
    using inv by (simp add: pht_inv_def pht_layout_def)
  have chain: "\<forall>i<length (pt_entries pt). \<not> vacant (pe_key_hash (pt_entries pt ! i)) \<longrightarrow>
            (\<exists>d<WAKE_PHT_PROBE_MAX. unat (probe_idx pt (pe_key_hash (pt_entries pt ! i)) d) = i)
          \<and> (\<forall>j<length (pt_entries pt).
               pe_key_hash (pt_entries pt ! j) = pe_key_hash (pt_entries pt ! i) \<longrightarrow> j = i)"
    using pht.chainedD [OF pht_invD(2) [OF inv]] by (fastforce simp: pt_slot_def)
  have ins: "pht_insert hs tv pt en a oc tn dl inc ph \<noteq> None" for inc
    using inv assms(2)
    by (cases rule: pht_insert_cases [where hs = hs and tv = tv and a = a and oc = oc and tn = tn
          and dl = dl and inc = inc and ph = ph]) simp_all
  have rem: "wake_pheromone_remove hs pt en \<noteq> None"
    using inv assms(2) by (cases rule: remove_cases [where hs = hs]) simp_all
  have noted: "wake_pheromone_note_reason hs (Some pt) (Some en) w \<noteq> None"
  proof (cases "w AND 0xff = 0")
    case False
    with inv assms(2) show ?thesis by (cases rule: note_reason_cases [where hs = hs]) simp_all
  qed (simp add: wake_pheromone_note_reason_def)
  have rd: "wake_pheromone_read_entry pt i \<noteq> None"
  proof (cases "i < ph_capacity (pt_header pt)")
    case True
    with read_entry_spec [OF inv, of "unat i"] len show ?thesis
      by (simp add: word_less_nat_alt)
  qed (simp add: wake_pheromone_read_entry_def read_entry_mem_def not_less)
  have dec: "wake_pheromone_decay pt \<noteq> None"
    using inv by (rule decay_spec) simp
  have it: "wake_pheromone_iterate pt fn ctx \<noteq> None"
    unfolding wake_pheromone_iterate_def by (rule iterate_total [OF inv]) (simp add: len)
  have stats: "wake_pheromone_stats pt \<noteq> None"
    unfolding wake_pheromone_stats_def by (rule stats_total) (simp add: len)
  show ?thesis
    unfolding wake_pheromone_deposit_def wake_pheromone_reinforce_def lookup_map [OF inv assms(2)]
    using chain ins rem noted rd dec it stats by blast
qed

theorem pheromone_reachable_safe_witness:
  "wake_pheromone_lookup demo_hs demo_table (wake_entity_init_port WAKE_EC_WITH 443) \<noteq> None
   \<and> wake_pheromone_decay demo_table \<noteq> None"
  using pheromone_reachable_safe [OF demo_table_reachable port_wf [of 443], where hs = demo_hs
      and fn = "\<lambda>_ _. (True, ())" and tv = 0 and a = 0 and oc = 0 and tn = 0 and dl = 0 and ph = 0 and w = 0
      and ctx = "()" and i = 0]
  by (elim conjE) (intro conjI)

section \<open>Refinement of a map\<close>

lemma pht_map_hit:
  assumes inv: "pht_inv pt" and m: "pht_map pt k = Some e"
    and i: "i < length (pt_entries pt)" "pt_entries pt ! i = e"
    and inv': "pht_inv (put_entry i e' pt)" and "pe_key_hash e' = k"
  shows "pht_map (put_entry i e' pt) = (pht_map pt)(k \<mapsto> e')"
  using assms pht_map_SomeD(1,2) [OF m]
  by (auto simp: fun_eq_iff pht_map_put [OF inv inv' i(1)])

text \<open>
  C4. On a well-formed table, with \<open>k\<close> the key hash of a valid entity: lookup returns the confidence
  of \<open>k\<close>, or 0 if the table holds no \<open>k\<close> anywhere; deposit and reinforce add to the entry of \<open>k\<close>
  when there is one (and only reinforce counts a source), insert a fresh entry when there is none
  and one of the eight probed slots is vacant, and otherwise return 0 and change nothing; remove
  deletes exactly \<open>k\<close> and reports whether it was there.  No other key is affected.
\<close>

theorem pheromone_refines_map:
  fixes hs en
  assumes "pht_inv pt" and "entity_wf en"
  defines "k \<equiv> pht_key hs en"
  shows "wake_pheromone_lookup hs pt en =
           Some (case pht_map pt k of None \<Rightarrow> 0 | Some e \<Rightarrow> pe_confidence e)
       \<and> (\<exists>c pt'. pht_insert hs tv pt en a oc tn dl inc ph = Some (c, pt') \<and> pht_inv pt' \<and>
            (case pht_map pt k of
               Some e \<Rightarrow> c = pe_confidence e + dl
                 \<and> pht_map pt' = (pht_map pt)(k \<mapsto> hit_entry (relative_time tv pt) dl inc ph e)
             | None \<Rightarrow> if probe_full pt k then c = 0 \<and> pt' = pt
                 else c = dl \<and> (\<exists>old. vacant (pe_key_hash old) \<and>
                   pht_map pt' = (pht_map pt)(k \<mapsto>
                     fill_entry k en a oc tn (relative_time tv pt) dl ph old))))
       \<and> (\<exists>pt'. wake_pheromone_remove hs pt en = Some (pht_map pt k \<noteq> None, pt') \<and> pht_inv pt'
            \<and> pht_map pt' = (pht_map pt)(k := None))"
proof (intro conjI)
  note inv = assms(1)
  show "wake_pheromone_lookup hs pt en = Some (case pht_map pt k of None \<Rightarrow> 0 | Some e \<Rightarrow> pe_confidence e)"
    unfolding k_def by (rule lookup_map [OF assms(1,2)])
  show "\<exists>c pt'. pht_insert hs tv pt en a oc tn dl inc ph = Some (c, pt') \<and> pht_inv pt' \<and>
            (case pht_map pt k of
               Some e \<Rightarrow> c = pe_confidence e + dl
                 \<and> pht_map pt' = (pht_map pt)(k \<mapsto> hit_entry (relative_time tv pt) dl inc ph e)
             | None \<Rightarrow> if probe_full pt k then c = 0 \<and> pt' = pt
                 else c = dl \<and> (\<exists>old. vacant (pe_key_hash old) \<and>
                   pht_map pt' = (pht_map pt)(k \<mapsto>
                     fill_entry k en a oc tn (relative_time tv pt) dl ph old)))"
    using assms(1,2)
  proof (cases rule: pht_insert_cases [where hs = hs and tv = tv and a = a and oc = oc and tn = tn
        and dl = dl and inc = inc and ph = ph])
    case (hit e i)
    then show ?thesis
      using pht_map_hit [OF inv hit(1-3,5)] pht_map_SomeD(2) [OF hit(1)] by (simp add: k_def)
  next
    case (claim e i)
    have "pht_map (put_entry i (fill_entry k en a oc tn (relative_time tv pt) dl ph e) pt)
        = (pht_map pt)(k \<mapsto> fill_entry k en a oc tn (relative_time tv pt) dl ph e)"
      using claim entity_key_hash_Some(2) [OF assms(2), of hs]
      by (auto simp: k_def fun_eq_iff pht_map_put [OF inv claim(7) claim(3)])
    with claim show ?thesis by (auto simp: k_def)
  next
    case full
    with inv show ?thesis by (simp add: k_def)
  qed
  show "\<exists>pt'. wake_pheromone_remove hs pt en = Some (pht_map pt k \<noteq> None, pt') \<and> pht_inv pt'
            \<and> pht_map pt' = (pht_map pt)(k := None)"
    using assms(1,2)
  proof (cases rule: remove_cases [where hs = hs])
    case (removed e i)
    have "pe_key_hash e = k" using pht_map_SomeD(2) [OF removed(1)] by (simp add: k_def)
    with removed show ?thesis
      by (auto simp: k_def fun_eq_iff pht_map_put [OF inv removed(5,2)])
  next
    case missing
    with inv show ?thesis by (auto simp: k_def fun_upd_idem)
  qed
qed

theorem pheromone_refines_map_witness:
  "\<exists>pt'. pht_insert demo_hs 1700000005 demo_table (wake_entity_init_port WAKE_EC_WITH 443) 2 1 9 500 False 1
      = Some (500, pt')
    \<and> wake_pheromone_lookup demo_hs pt' (wake_entity_init_port WAKE_EC_WITH 443) = Some 500"
proof -
  let ?en = "wake_entity_init_port WAKE_EC_WITH 443"
  let ?k = "pht_key demo_hs ?en"
  from pheromone_refines_map [OF demo_table_inv port_wf, of demo_hs 443 1700000005 2 1 9 500 False 1]
  obtain pt' old where pt': "pht_insert demo_hs 1700000005 demo_table ?en 2 1 9 500 False 1 = Some (500, pt')"
      "pht_inv pt'" "pht_map pt' ?k = Some (fill_entry ?k ?en 2 1 9 (relative_time 1700000005 demo_table) 500 1 old)"
    by (auto simp: demo_table_empty demo_table_free)
  then have "wake_pheromone_lookup demo_hs pt' ?en = Some 500"
    using pheromone_refines_map [OF pt'(2) port_wf, of demo_hs 443] by (simp add: fill_entry_def)
  with pt'(1) show ?thesis by blast
qed

end
