(* ===== verification/Wake_Pheromone_Evidence.thy ===== *)
theory Wake_Pheromone_Evidence
  imports Wake_Pheromone_Props
begin

text \<open>
  Decay, insertion under interference, the seqlock reader and the reason words; and the interface
  through which the quorum evaluator reads the table.
\<close>

section \<open>Decay\<close>

lemma unat_decay_confidence:
  "unat (decay_confidence f c) = unat c * unat f div 65536 mod 2 ^ 32"
proof -
  have "unat c * unat f < 2 ^ 64"
    using mult_strict_mono [of "unat c" "2 ^ 32" "unat f" "2 ^ 32"]
      unsigned_less [of c, where ?'a = nat] unsigned_less [of f, where ?'a = nat] by simp
  then have "unat ((ucast c :: u64) * ucast f) = unat c * unat f"
    by (simp add: unat_word_ariths)
  then show ?thesis
    by (simp add: decay_confidence_def unsigned_ucast_eq take_bit_eq_mod)
qed

lemma decay_confidence_shrinks:
  assumes "f \<le> 65536"
  shows "unat (decay_confidence f c) = unat c * unat f div 65536"
    and "decay_confidence f c \<le> c"
proof -
  have "unat c * unat f \<le> unat c * 65536"
    using assms by (simp add: word_le_nat_alt)
  then have le: "unat c * unat f div 65536 \<le> unat c"
    using div_le_mono [of "unat c * unat f" "unat c * 65536" 65536] by simp
  moreover have "unat c < 2 ^ 32"
    using unsigned_less [of c, where ?'a = nat] by simp
  ultimately show eq: "unat (decay_confidence f c) = unat c * unat f div 65536"
    by (simp add: unat_decay_confidence)
  with le show "decay_confidence f c \<le> c"
    by (simp add: word_le_nat_alt)
qed

lemma decayed_evicted:
  "fst (decay_entry f n e) \<longleftrightarrow> \<not> vacant (pe_key_hash e) \<and> decay_confidence f (pe_confidence e) < n"
  by (simp add: decay_entry_def Let_def)

text \<open>
  One decay pass multiplies the confidence of every live entry by the fixed-point factor, rounding
  down, evicts exactly the entries that fall below the noise floor, changes no other field of the
  survivors, and returns the number it evicted.  With a factor of at most 65536 (1.0) the 64-bit
  product is not truncated and no confidence grows.
\<close>

theorem decay_exact:
  assumes "pht_inv pt"
  defines "f \<equiv> ph_decay_factor_fp16 (pt_header pt)" and "n \<equiv> ph_noise_floor (pt_header pt)"
  shows "\<exists>evicted pt'. wake_pheromone_decay pt = Some (evicted, pt') \<and> pht_inv pt'
     \<and> unat evicted = length (filter (\<lambda>e. \<not> vacant (pe_key_hash e)
                                \<and> decay_confidence f (pe_confidence e) < n) (pt_entries pt))
     \<and> (\<forall>k. pht_map pt' k =
          (case pht_map pt k of
             None \<Rightarrow> None
           | Some e \<Rightarrow> if decay_confidence f (pe_confidence e) < n then None
                       else Some (e\<lparr>pe_confidence := decay_confidence f (pe_confidence e)\<rparr>)))
     \<and> (f \<le> 65536 \<longrightarrow> (\<forall>c. unat (decay_confidence f c) = unat c * unat f div 65536
                              \<and> decay_confidence f c \<le> c))"
  using assms(1)
proof (rule decay_spec)
  fix pt'
  assume d: "wake_pheromone_decay pt =
      Some (of_nat (length (filter (\<lambda>e. fst (decayed pt e)) (pt_entries pt))), pt')"
    and inv': "pht_inv pt'" and h: "pt_header pt' = pt_header pt"
    and es: "pt_entries pt' = map (\<lambda>e. snd (decayed pt e)) (pt_entries pt)"
  let ?evs = "filter (\<lambda>e. \<not> vacant (pe_key_hash e) \<and> decay_confidence f (pe_confidence e) < n) (pt_entries pt)"
  have evs: "filter (\<lambda>e. fst (decayed pt e)) (pt_entries pt) = ?evs"
    by (simp add: decayed_evicted f_def n_def)
  have "length ?evs \<le> length (pt_entries pt)" by (rule length_filter_le)
  moreover have "length (pt_entries pt) = unat (ph_capacity (pt_header pt))"
    using assms(1) by (simp add: pht_inv_def pht_layout_def)
  ultimately have "length ?evs < 2 ^ LENGTH(32)"
    using unsigned_less [of "ph_capacity (pt_header pt)", where ?'a = nat] by simp
  then have cnt: "unat (of_nat (length ?evs) :: u32) = length ?evs"
    by (simp add: unat_of_nat)
  have "pht_map pt' k =
          (case pht_map pt k of
             None \<Rightarrow> None
           | Some e \<Rightarrow> if decay_confidence f (pe_confidence e) < n then None
                       else Some (e\<lparr>pe_confidence := decay_confidence f (pe_confidence e)\<rparr>))" for k
    unfolding decay_map [OF assms(1) inv' es]
    by (auto simp: decay_entry_def Let_def f_def n_def split: option.split dest: pht_map_SomeD)
  with d inv' cnt show ?thesis
    unfolding evs using decay_confidence_shrinks by blast
qed

theorem decay_exact_witness:
  "\<exists>pt'. wake_pheromone_decay demo_table = Some (0, pt') \<and> pht_map pt' 42 = None"
proof -
  obtain n pt' where "wake_pheromone_decay demo_table = Some (n, pt')"
      "unat n = length (filter (\<lambda>e. \<not> vacant (pe_key_hash e)
         \<and> decay_confidence (ph_decay_factor_fp16 (pt_header demo_table)) (pe_confidence e)
             < ph_noise_floor (pt_header demo_table)) (pt_entries demo_table))"
      "pht_map pt' 42 = None"
    using decay_exact [OF demo_table_inv] by (force simp: demo_table_empty)
  then show ?thesis
    by (auto simp: demo_table_def fresh_table_def zero_entry_def unat_eq_0)
qed

section \<open>Insertion under interference\<close>

text \<open>One slot is written; it was vacant or held the key, and holds the key afterwards.\<close>

definition writes_one :: "wake_pheromone_t \<Rightarrow> wake_pheromone_t \<Rightarrow> u64 \<Rightarrow> u32 \<Rightarrow> bool" where
  "writes_one base pt' k c \<longleftrightarrow>
     (\<exists>i e. i < length (pt_entries base) \<and> pt' = base\<lparr>pt_entries := (pt_entries base)[i := e]\<rparr>
        \<and> pe_key_hash e = k \<and> c = pe_confidence e
        \<and> (pe_key_hash (pt_entries base ! i) = k \<or> vacant (pe_key_hash (pt_entries base ! i))))"

lemma writes_oneI:
  assumes "load_entry base idx = Some e" "pe_key_hash e = k \<or> vacant (pe_key_hash e)" "pe_key_hash e' = k"
  shows "writes_one base (store_entry base idx e') k (pe_confidence e')"
  unfolding writes_one_def
  using assms by (intro exI [of _ "unat idx"] exI [of _ e'])
    (auto simp: load_entry_def store_entry_def split: if_splits)

lemma insert_probe_Existing:
  "insert_probe pt k ps f = Some (Existing idx) \<Longrightarrow> load_entry pt idx = Some e \<Longrightarrow> pe_key_hash e = k"
  by (induction pt k ps f rule: insert_probe.induct) (auto simp: Let_def split: option.splits if_splits)

lemma claim_slot_writes:
  assumes "claim_slot env2 pt fa k en a oc tn dl inc ph now = Some (c, pt')"
  shows "c = 0 \<and> (pt' = pt \<or> pt' = env2 pt) \<or> writes_one (env2 pt) pt' k c"
proof -
  have fill: "writes_one (env2 pt)
      (store_entry (env2 pt) fa (fill_entry k en a oc tn now dl ph e)) k dl"
    if "load_entry (env2 pt) fa = Some e" "vacant (pe_key_hash e)" for e
    using writes_oneI [OF that(1), of k "fill_entry k en a oc tn now dl ph e"] that(2)
    by (simp add: fill_entry_def)
  have hit: "writes_one (env2 pt) (store_entry (env2 pt) fa (hit_entry now dl inc ph e)) k (pe_confidence e + dl)"
    if "load_entry (env2 pt) fa = Some e" "pe_key_hash e = k" for e
    using writes_oneI [OF that(1), of k "hit_entry now dl inc ph e"] that(2) by simp
  from assms fill hit show ?thesis
    by (auto simp: claim_slot_def Let_def split: if_splits option.splits)
qed

text \<open>
  C10. Whatever other threads do to the mapping between the probe, the second load and the
  compare-and-swap, an insertion either returns 0 and writes nothing, or writes one slot of the
  mapping as it then is; that slot was vacant or held the key of the same entity at that moment,
  and afterwards holds the key and the confidence that is returned.  An insertion never overwrites
  the live entry of another entity.
\<close>

theorem insert_race_safe:
  assumes "pht_insert_race env1 env2 hs tv pt en a oc tn dl inc ph = Some (c, pt')"
    and "entity_key_hash hs en = Some k"
  shows "c = 0 \<and> (pt' = env1 pt \<or> pt' = env2 (env1 pt))
       \<or> writes_one pt pt' k c \<or> writes_one (env2 (env1 pt)) pt' k c"
proof -
  from assms obtain r where r: "insert_probe pt k [0..<WAKE_PHT_PROBE_MAX] UINT64_MAX = Some r"
    by (auto simp: pht_insert_race_def bind_eq_Some_conv Let_def)
  show ?thesis
  proof (cases r)
    case (Existing idx)
    let ?e' = "hit_entry (relative_time tv pt) dl inc ph"
    from assms r Existing obtain e where e: "load_entry pt idx = Some e"
        "c = pe_confidence (?e' e)" "pt' = store_entry pt idx (?e' e)"
      by (auto simp: pht_insert_race_def bind_eq_Some_conv Let_def)
    from insert_probe_Existing [OF r [unfolded Existing] e(1)] have "writes_one pt pt' k c"
      unfolding e(2,3) by (intro writes_oneI [OF e(1)]) simp_all
    then show ?thesis by blast
  next
    case (First_available fa)
    with assms r have "claim_slot env2 (env1 pt) fa k en a oc tn dl inc ph (relative_time tv pt)
        = Some (c, pt')"
      by (simp add: pht_insert_race_def Let_def)
    from claim_slot_writes [OF this] show ?thesis by blast
  qed
qed

theorem insert_race_safe_witness:
  "\<exists>pt'. writes_one demo_table pt' (pht_key demo_hs (wake_entity_init_port WAKE_EC_WITH 443)) 500"
proof -
  let ?en = "wake_entity_init_port WAKE_EC_WITH 443"
  let ?ins = "pht_insert demo_hs 0 demo_table ?en 2 1 9 500 False 1"
  obtain pt' where "?ins = Some (500, pt')"
    using demo_table_inv port_wf [of 443]
    by (cases rule: pht_insert_cases [where hs = demo_hs and tv = 0 and a = 2 and oc = 1 and tn = 9
          and dl = 500 and inc = False and ph = 1]) (simp_all add: demo_table_empty demo_table_free)
  then show ?thesis
    using insert_race_safe [of "\<lambda>pt. pt" "\<lambda>pt. pt" demo_hs 0 demo_table ?en 2 1 9 500 False 1 500 pt',
        OF _ entity_key_hash_Some(1) [OF port_wf]]
    by (auto simp: pht_insert_def)
qed

section \<open>The seqlock reader\<close>

text \<open>Round \<open>n\<close> loads the same even version before and after the copy.\<close>

definition quiet :: "(nat \<Rightarrow> wake_pheromone_entry_t \<times> wake_pheromone_entry_t \<times> wake_pheromone_entry_t)
    \<Rightarrow> nat \<Rightarrow> bool" where
  "quiet mem n \<longleftrightarrow> pe_version (fst (mem n)) AND 1 = 0
     \<and> pe_version (fst (mem n)) = pe_version (snd (snd (mem n)))"

definition snapshot_of :: "wake_pheromone_entry_t \<times> wake_pheromone_entry_t \<times> wake_pheromone_entry_t
    \<Rightarrow> wake_pheromone_entry_t" where
  "snapshot_of m = (fst (snd m))\<lparr>pe_version := pe_version (fst m)\<rparr>"

lemma read_loop_step:
  "read_loop mem n = (if quiet mem n then Some (snapshot_of (mem n)) else read_loop mem (n + 1))"
  by (subst read_loop.simps) (auto simp: quiet_def snapshot_of_def Let_def case_prod_unfold)

lemma read_loop_quiet_from:
  assumes "quiet mem m" "n \<le> m" "\<And>j. n \<le> j \<Longrightarrow> j < m \<Longrightarrow> \<not> quiet mem j"
  shows "read_loop mem n = Some (snapshot_of (mem m))"
  using assms(2,3)
proof (induction "m - n" arbitrary: n)
  case 0
  with assms(1) show ?case by (simp add: read_loop_step)
next
  case (Suc k)
  then have "\<not> quiet mem n" by simp
  with Suc show ?case by (subst read_loop_step) simp
qed

lemma read_loop_Some: "read_loop mem n = Some e \<Longrightarrow> \<exists>m\<ge>n. quiet mem m"
proof (erule read_loop.raw_induct [rotated])
  fix rd mem n e
  assume IH: "\<And>mem n e. rd mem n = Some e \<Longrightarrow> \<exists>m\<ge>n. quiet mem m"
    and body: "(case mem n of (e1, e2, e3) \<Rightarrow>
        let v1 = pe_version e1
        in if v1 AND 1 \<noteq> 0 then rd mem (n + 1)
           else let v2 = pe_version e3
                in if v1 = v2 then Some (e2\<lparr>pe_version := v1\<rparr>) else rd mem (n + 1)) = Some e"
  show "\<exists>m\<ge>n. quiet mem m"
  proof (cases "quiet mem n")
    case False
    with body have "rd mem (n + 1) = Some e"
      by (auto simp: quiet_def Let_def case_prod_unfold split: if_splits)
    from IH [OF this] show ?thesis by (meson add_leD1)
  qed auto
qed

text \<open>
  C35. The seqlock reader returns if and only if some round of its loop sees the same even version
  before and after the copy, and then returns the copy of the first such round.  In particular it
  never returns while the version stays odd, as it does for ever after a writer that died between
  its two version stores.
\<close>

theorem seqlock_reader_exact:
  "read_loop mem 0 =
     (if \<exists>n. quiet mem n then Some (snapshot_of (mem (LEAST n. quiet mem n))) else None)
   \<and> ((\<forall>n. odd (pe_version (fst (mem n)))) \<longrightarrow> read_loop mem 0 = None)"
proof (intro conjI impI)
  show eq: "read_loop mem 0 =
     (if \<exists>n. quiet mem n then Some (snapshot_of (mem (LEAST n. quiet mem n))) else None)"
  proof (cases "\<exists>n. quiet mem n")
    case True
    then have "quiet mem (LEAST n. quiet mem n)" by (rule LeastI_ex)
    then have "read_loop mem 0 = Some (snapshot_of (mem (LEAST n. quiet mem n)))"
      by (rule read_loop_quiet_from) (simp, rule not_less_Least)
    with True show ?thesis by simp
  next
    case False
    then show ?thesis using read_loop_Some [of mem 0] by (cases "read_loop mem 0") auto
  qed
  assume "\<forall>n. odd (pe_version (fst (mem n)))"
  then have "\<not> (\<exists>n. quiet mem n)"
    by (auto simp: quiet_def and_one_eq even_iff_mod_2_eq_zero odd_iff_mod_2_eq_one)
  with eq show "read_loop mem 0 = None" by simp
qed

theorem seqlock_reader_exact_witness:
  "read_loop (\<lambda>_. (zero_entry\<lparr>pe_version := 3\<rparr>, zero_entry, zero_entry)) 0 = None"
  by (rule mp [OF conjunct2 [OF seqlock_reader_exact]]) simp

section \<open>Reason words\<close>

lemma and_byte_masks: "(w :: u64) AND 0xff = take_bit 8 w" "(w :: u64) AND 0xffff = take_bit 16 w"
proof -
  have "(0xff :: u64) = mask 8" "(0xffff :: u64) = mask 16"
    by (simp_all add: mask_eq_exp_minus_1)
  then show "w AND 0xff = take_bit 8 w" "w AND 0xffff = take_bit 16 w"
    by (simp_all only: take_bit_eq_mask)
qed

text \<open>
  Packing a reason and unpacking it gives back kind, code, magnitude and extra, and every 64-bit
  word is the packing of its four parts: the encoding loses nothing and has no unused bits.
\<close>

theorem reason_roundtrip:
  "reason_unpack (wake_reason_pack kind code magnitude extra) = (kind, code, magnitude, extra)
   \<and> (case reason_unpack w of (k, c, m, x) \<Rightarrow> wake_reason_pack k c m x = w)"
proof (intro conjI)
  show "reason_unpack (wake_reason_pack kind code magnitude extra) = (kind, code, magnitude, extra)"
    unfolding reason_unpack_def wake_reason_pack_def and_byte_masks prod.inject
    by (intro conjI bit_word_eqI) (auto simp: bit_simps dest: bit_imp_le_length)
  have "wake_reason_pack (ucast (take_bit 8 w)) (ucast (take_bit 8 (drop_bit 8 w)))
      (ucast (take_bit 16 (drop_bit 16 w))) (ucast (drop_bit 32 w)) = w"
  proof (rule bit_word_eqI)
    fix n
    assume n: "n < LENGTH(64)"
    then consider "n < 8" | j where "n = j + 8" "j < 8" | j where "n = j + 16" "j < 16"
      | j where "n = j + 32" "j < 32"
      using le_Suc_ex [of 8 n] le_Suc_ex [of 16 n] le_Suc_ex [of 32 n]
      by (cases "n < 8"; cases "n < 16"; cases "n < 32") (auto simp: add.commute)
    then show "bit (wake_reason_pack (ucast (take_bit 8 w)) (ucast (take_bit 8 (drop_bit 8 w)))
      (ucast (take_bit 16 (drop_bit 16 w))) (ucast (drop_bit 32 w))) n = bit w n"
      unfolding wake_reason_pack_def by cases (auto simp: bit_simps add.commute)
  qed
  then show "case reason_unpack w of (k, c, m, x) \<Rightarrow> wake_reason_pack k c m x = w"
    by (simp add: reason_unpack_def and_byte_masks)
qed

section \<open>The interface of the quorum evaluator\<close>

text \<open>
  What a client that scans the table slot by slot relies on: a slot that reads as live carries a
  key that is not a sentinel, and no key is read from two slots.
\<close>

locale slot_reader =
  fixes slots :: "'s \<Rightarrow> nat"
    and read_slot :: "'s \<Rightarrow> nat \<Rightarrow> 'e option"
    and key :: "'e \<Rightarrow> u64"
    and invar :: "'s \<Rightarrow> bool"
  assumes key_live: "invar s \<Longrightarrow> i < slots s \<Longrightarrow> read_slot s i = Some e \<Longrightarrow> \<not> vacant (key e)"
    and key_unique: "invar s \<Longrightarrow> i < slots s \<Longrightarrow> j < slots s \<Longrightarrow> read_slot s i = Some e
      \<Longrightarrow> read_slot s j = Some f \<Longrightarrow> key e = key f \<Longrightarrow> i = j"
begin

lemma scan_distinct:
  assumes "invar s" "distinct is" "\<forall>i\<in>set is. i < slots s"
  shows "distinct (map key (List.map_filter (read_slot s) is))"
  using assms(2,3)
proof (induction "is")
  case Nil
  then show ?case by (simp add: map_filter_simps)
next
  case (Cons i "is")
  then show ?case
    by (auto simp: map_filter_simps map_filter_def dest: key_unique [OF assms(1)] split: option.splits)
qed

end

definition live_slot :: "wake_pheromone_t \<Rightarrow> nat \<Rightarrow> wake_pheromone_entry_t option" where
  "live_slot pt i = (case wake_pheromone_read_entry pt (of_nat i) of Some (Live e) \<Rightarrow> Some e | _ \<Rightarrow> None)"

lemma live_slot_eq:
  assumes "pht_inv pt" "i < length (pt_entries pt)"
  shows "live_slot pt i = (if vacant (pe_key_hash (pt_entries pt ! i)) then None else Some (pt_entries pt ! i))"
  by (simp add: live_slot_def read_entry_spec [OF assms])

interpretation pht_reader: slot_reader "\<lambda>pt. length (pt_entries pt)" live_slot pe_key_hash pht_inv
proof unfold_locales
  fix pt i e
  assume "pht_inv pt" "i < length (pt_entries pt)" "live_slot pt i = Some e"
  then show "\<not> vacant (pe_key_hash e)" by (auto simp: live_slot_eq split: if_splits)
next
  fix pt i j e f
  assume inv: "pht_inv pt" and i: "i < length (pt_entries pt)" and j: "j < length (pt_entries pt)"
    and r: "live_slot pt i = Some e" "live_slot pt j = Some f" "pe_key_hash e = pe_key_hash f"
  from r(1,2) have "e = pt_entries pt ! i" "f = pt_entries pt ! j" "\<not> vacant (pe_key_hash (pt_entries pt ! j))"
    by (simp_all add: live_slot_eq [OF inv] i j split: if_splits)
  with r(3) i j show "i = j"
    by (intro pht.chainedD(2) [OF pht_invD(2) [OF inv], of j i]) simp_all
qed

end
