(* ===== verification/Wake_Quorum.thy ===== *)
theory Wake_Quorum
  imports Wake_Pheromone_Evidence
begin

text \<open>
  The quorum evaluator (\<open>src/src/wake_quorum.c\<close>, \<open>src/src/wake_quorum.h\<close>): classification of an
  entry, the sweep with a callback, the sweep that collects hits, preseeding and reset.  A callback
  is a function that answers whether to go on and updates its context; \<open>None\<close> is a NULL callback.
  A sweep reads the pheromone table through \<open>wake_pheromone_read_entry\<close>; a read that never returns
  makes the sweep \<open>None\<close>.
\<close>

abbreviation WAKE_QUORUM_NONE :: u8 where "WAKE_QUORUM_NONE \<equiv> 0"
abbreviation WAKE_QUORUM_OBSERVE :: u8 where "WAKE_QUORUM_OBSERVE \<equiv> 1"
abbreviation WAKE_QUORUM_ALERT :: u8 where "WAKE_QUORUM_ALERT \<equiv> 2"

datatype wake_quorum_action_t =
  WAKE_QUORUM_ACT_NONE | WAKE_QUORUM_ACT_OBSERVE | WAKE_QUORUM_ACT_ALERT | WAKE_QUORUM_ACT_RETRACT

record wake_quorum_config_t =
  qc_observe_confidence :: u32
  qc_observe_min_hits :: u16
  qc_alert_confidence :: u32
  qc_alert_min_sources :: u16
  qc_alert_min_hits :: u16
  qc_retract_confidence :: u32

record wake_quorum_slot_t =
  qs_key_hash :: u64
  qs_emitted_tier :: u8

record wake_quorum_t =
  q_config :: wake_quorum_config_t
  q_slots :: "wake_quorum_slot_t list"
  q_capacity :: u32
  q_observations_emitted :: u64
  q_alerts_emitted :: u64
  q_retractions_emitted :: u64
  q_suppressed :: u64

record wake_quorum_sweep_result_t =
  qr_slots_scanned :: u32
  qr_slots_live :: u32
  qr_new_observations :: u32
  qr_new_alerts :: u32
  qr_new_retractions :: u32
  qr_suppressed :: u32

record wake_quorum_hit_t =
  qh_action :: wake_quorum_action_t
  qh_slot_idx :: u32
  qh_entry :: wake_pheromone_entry_t

definition zero_result :: wake_quorum_sweep_result_t where
  "zero_result = \<lparr>qr_slots_scanned = 0, qr_slots_live = 0, qr_new_observations = 0,
     qr_new_alerts = 0, qr_new_retractions = 0, qr_suppressed = 0\<rparr>"

definition zero_slot :: wake_quorum_slot_t where
  "zero_slot = \<lparr>qs_key_hash = 0, qs_emitted_tier = 0\<rparr>"

section \<open>Configuration and classification\<close>

definition wake_quorum_default_config :: wake_quorum_config_t where
  "wake_quorum_default_config =
     \<lparr>qc_observe_confidence = 5000, qc_observe_min_hits = 3, qc_alert_confidence = 20000,
      qc_alert_min_sources = 2, qc_alert_min_hits = 5, qc_retract_confidence = 2000\<rparr>"

definition wake_quorum_classify :: "wake_quorum_config_t \<Rightarrow> u32 \<Rightarrow> u16 \<Rightarrow> u32 \<Rightarrow> u8" where
  "wake_quorum_classify cfg confidence src_count hit_count =
     (if confidence \<ge> qc_alert_confidence cfg \<and> src_count \<ge> qc_alert_min_sources cfg
         \<and> hit_count \<ge> ucast (qc_alert_min_hits cfg)
      then WAKE_QUORUM_ALERT
      else if confidence \<ge> qc_observe_confidence cfg \<and> hit_count \<ge> ucast (qc_observe_min_hits cfg)
      then WAKE_QUORUM_OBSERVE
      else WAKE_QUORUM_NONE)"

definition wake_quorum_check_inline :: "wake_quorum_config_t \<Rightarrow> u32 \<Rightarrow> bool" where
  "wake_quorum_check_inline cfg confidence \<longleftrightarrow> confidence \<ge> qc_observe_confidence cfg"

section \<open>Life cycle\<close>

text \<open>\<open>alloc1\<close>, \<open>alloc2\<close>: whether the two allocations succeed.\<close>

definition wake_quorum_create ::
  "bool \<Rightarrow> bool \<Rightarrow> u32 \<Rightarrow> wake_quorum_config_t option \<Rightarrow> wake_quorum_t option" where
  "wake_quorum_create alloc1 alloc2 capacity cfg =
     (if \<not> alloc1 then None
      else if \<not> alloc2 then None
      else Some \<lparr>q_config = (case cfg of Some c \<Rightarrow> c | None \<Rightarrow> wake_quorum_default_config),
                 q_slots = replicate (unat capacity) zero_slot, q_capacity = capacity,
                 q_observations_emitted = 0, q_alerts_emitted = 0, q_retractions_emitted = 0,
                 q_suppressed = 0\<rparr>)"

definition clear_counters :: "wake_quorum_t \<Rightarrow> wake_quorum_t" where
  "clear_counters q = q\<lparr>q_observations_emitted := 0, q_alerts_emitted := 0,
     q_retractions_emitted := 0, q_suppressed := 0\<rparr>"

definition wake_quorum_reset :: "wake_quorum_t option \<Rightarrow> wake_quorum_t option" where
  "wake_quorum_reset p =
     map_option (\<lambda>q. clear_counters (q\<lparr>q_slots := replicate (unat (q_capacity q)) zero_slot\<rparr>)) p"

section \<open>Sweep\<close>

definition put_slot :: "nat \<Rightarrow> wake_quorum_slot_t \<Rightarrow> wake_quorum_t \<Rightarrow> wake_quorum_t" where
  "put_slot i s q = q\<lparr>q_slots := (q_slots q)[i := s]\<rparr>"

text \<open>
  The loop body.  \<open>slot\<close> is the tracking slot after the reuse check, \<open>tier\<close> the current tier.
\<close>

fun sweep_loop ::
  "wake_pheromone_t
     \<Rightarrow> (wake_quorum_action_t \<Rightarrow> u32 \<Rightarrow> wake_pheromone_entry_t \<Rightarrow> 'c \<Rightarrow> bool \<times> 'c) option
     \<Rightarrow> nat list \<Rightarrow> wake_quorum_t \<Rightarrow> wake_quorum_sweep_result_t \<Rightarrow> 'c
     \<Rightarrow> (wake_quorum_sweep_result_t \<times> wake_quorum_t \<times> 'c) option" where
  "sweep_loop pt fn [] q result ctx = Some (result, q, ctx)"
| "sweep_loop pt fn (i # is) q result0 ctx =
     (let result1 = result0\<lparr>qr_slots_scanned := qr_slots_scanned result0 + 1\<rparr>
      in case wake_pheromone_read_entry pt (of_nat i) of
           None \<Rightarrow> None
         | Some Dead \<Rightarrow>
             sweep_loop pt fn is
               (put_slot i \<lparr>qs_key_hash = 0, qs_emitted_tier = WAKE_QUORUM_NONE\<rparr> q) result1 ctx
         | Some (Live snap) \<Rightarrow>
             let result = result1\<lparr>qr_slots_live := qr_slots_live result1 + 1\<rparr>;
                 kh = pe_key_hash snap;
                 slot = (if kh \<noteq> qs_key_hash (q_slots q ! i)
                         then \<lparr>qs_key_hash = kh, qs_emitted_tier = WAKE_QUORUM_NONE\<rparr>
                         else q_slots q ! i);
                 confidence = pe_confidence snap;
                 tier = wake_quorum_classify (q_config q) confidence (pe_src_count snap)
                          (pe_hit_count snap);
                 prev_tier = qs_emitted_tier slot
             in if tier > prev_tier
                then
                  let act = (if tier = WAKE_QUORUM_ALERT then WAKE_QUORUM_ACT_ALERT
                             else WAKE_QUORUM_ACT_OBSERVE);
                      q1 = put_slot i (slot\<lparr>qs_emitted_tier := tier\<rparr>) q;
                      (result', q') =
                        (if act = WAKE_QUORUM_ACT_OBSERVE
                         then (result\<lparr>qr_new_observations := qr_new_observations result + 1\<rparr>,
                               q1\<lparr>q_observations_emitted := q_observations_emitted q1 + 1\<rparr>)
                         else (result\<lparr>qr_new_alerts := qr_new_alerts result + 1\<rparr>,
                               q1\<lparr>q_alerts_emitted := q_alerts_emitted q1 + 1\<rparr>))
                  in case fn of
                       None \<Rightarrow> sweep_loop pt fn is q' result' ctx
                     | Some f \<Rightarrow>
                         let (go, ctx') = f act (of_nat i) snap ctx
                         in if \<not> go then Some (result', q', ctx')
                            else sweep_loop pt fn is q' result' ctx'
                else if prev_tier = WAKE_QUORUM_ALERT \<and> tier < WAKE_QUORUM_ALERT
                        \<and> confidence < qc_retract_confidence (q_config q)
                then
                  let q1 = put_slot i
                             (slot\<lparr>qs_emitted_tier := WAKE_QUORUM_NONE, qs_key_hash := 0\<rparr>) q;
                      result' = result\<lparr>qr_new_retractions := qr_new_retractions result + 1\<rparr>;
                      q' = q1\<lparr>q_retractions_emitted := q_retractions_emitted q1 + 1\<rparr>
                  in case fn of
                       None \<Rightarrow> sweep_loop pt fn is q' result' ctx
                     | Some f \<Rightarrow>
                         let (go, ctx') = f WAKE_QUORUM_ACT_RETRACT (of_nat i) snap ctx
                         in if \<not> go then Some (result', q', ctx')
                            else sweep_loop pt fn is q' result' ctx'
                else
                  let q1 = put_slot i slot q
                  in sweep_loop pt fn is (q1\<lparr>q_suppressed := q_suppressed q1 + 1\<rparr>)
                       (result\<lparr>qr_suppressed := qr_suppressed result + 1\<rparr>) ctx)"

text \<open>The number of slots a sweep looks at.\<close>

definition sweep_cap :: "wake_quorum_t \<Rightarrow> wake_pheromone_t \<Rightarrow> nat" where
  "sweep_cap q pt =
     unat (if q_capacity q < ph_capacity (pt_header pt) then q_capacity q
           else ph_capacity (pt_header pt))"

definition wake_quorum_sweep ::
  "wake_quorum_t option \<Rightarrow> wake_pheromone_t option
     \<Rightarrow> (wake_quorum_action_t \<Rightarrow> u32 \<Rightarrow> wake_pheromone_entry_t \<Rightarrow> 'c \<Rightarrow> bool \<times> 'c) option \<Rightarrow> 'c
     \<Rightarrow> (wake_quorum_sweep_result_t \<times> wake_quorum_t option \<times> 'c) option" where
  "wake_quorum_sweep qp ptp fn ctx =
     (case (qp, ptp) of
        (Some q, Some pt) \<Rightarrow>
          map_option (\<lambda>(r, q', c). (r, Some q', c))
            (sweep_loop pt fn [0..<sweep_cap q pt] q zero_result ctx)
      | _ \<Rightarrow> Some (zero_result, qp, ctx))"

definition wake_quorum_preseed ::
  "wake_quorum_t option \<Rightarrow> wake_pheromone_t option \<Rightarrow> wake_quorum_t option option" where
  "wake_quorum_preseed qp ptp =
     (if qp = None \<or> ptp = None then Some qp
      else map_option (\<lambda>(_, q', _). map_option clear_counters q')
             (wake_quorum_sweep qp ptp None ()))"

section \<open>Sweep into an array\<close>

text \<open>
  \<open>hits_capacity\<close> is \<open>None\<close> for a NULL array; the hits written so far are the list \<open>hits\<close>, whose
  length is \<open>written\<close>.
\<close>

definition record_hit ::
  "u32 option \<Rightarrow> wake_quorum_hit_t \<Rightarrow> wake_quorum_hit_t list \<Rightarrow> wake_quorum_hit_t list" where
  "record_hit hits_capacity hit hits =
     (case hits_capacity of
        None \<Rightarrow> hits
      | Some cap \<Rightarrow> if length hits < unat cap then hits @ [hit] else hits)"

fun collect_loop ::
  "wake_pheromone_t \<Rightarrow> u32 option \<Rightarrow> nat list \<Rightarrow> wake_quorum_t \<Rightarrow> wake_quorum_sweep_result_t
     \<Rightarrow> wake_quorum_hit_t list
     \<Rightarrow> (wake_quorum_sweep_result_t \<times> wake_quorum_t \<times> wake_quorum_hit_t list) option" where
  "collect_loop pt hc [] q result hits = Some (result, q, hits)"
| "collect_loop pt hc (i # is) q result0 hits =
     (let result1 = result0\<lparr>qr_slots_scanned := qr_slots_scanned result0 + 1\<rparr>
      in case wake_pheromone_read_entry pt (of_nat i) of
           None \<Rightarrow> None
         | Some Dead \<Rightarrow>
             collect_loop pt hc is
               (put_slot i \<lparr>qs_key_hash = 0, qs_emitted_tier = WAKE_QUORUM_NONE\<rparr> q) result1 hits
         | Some (Live snap) \<Rightarrow>
             let result = result1\<lparr>qr_slots_live := qr_slots_live result1 + 1\<rparr>;
                 kh = pe_key_hash snap;
                 slot = (if kh \<noteq> qs_key_hash (q_slots q ! i)
                         then \<lparr>qs_key_hash = kh, qs_emitted_tier = WAKE_QUORUM_NONE\<rparr>
                         else q_slots q ! i);
                 confidence = pe_confidence snap;
                 tier = wake_quorum_classify (q_config q) confidence (pe_src_count snap)
                          (pe_hit_count snap);
                 prev_tier = qs_emitted_tier slot
             in if tier > prev_tier
                then
                  let act = (if tier = WAKE_QUORUM_ALERT then WAKE_QUORUM_ACT_ALERT
                             else WAKE_QUORUM_ACT_OBSERVE);
                      q1 = put_slot i (slot\<lparr>qs_emitted_tier := tier\<rparr>) q;
                      (result', q') =
                        (if act = WAKE_QUORUM_ACT_OBSERVE
                         then (result\<lparr>qr_new_observations := qr_new_observations result + 1\<rparr>,
                               q1\<lparr>q_observations_emitted := q_observations_emitted q1 + 1\<rparr>)
                         else (result\<lparr>qr_new_alerts := qr_new_alerts result + 1\<rparr>,
                               q1\<lparr>q_alerts_emitted := q_alerts_emitted q1 + 1\<rparr>))
                  in collect_loop pt hc is q' result'
                       (record_hit hc \<lparr>qh_action = act, qh_slot_idx = of_nat i, qh_entry = snap\<rparr> hits)
                else if prev_tier = WAKE_QUORUM_ALERT \<and> tier < WAKE_QUORUM_ALERT
                        \<and> confidence < qc_retract_confidence (q_config q)
                then
                  let q1 = put_slot i
                             (slot\<lparr>qs_emitted_tier := WAKE_QUORUM_NONE, qs_key_hash := 0\<rparr>) q;
                      result' = result\<lparr>qr_new_retractions := qr_new_retractions result + 1\<rparr>;
                      q' = q1\<lparr>q_retractions_emitted := q_retractions_emitted q1 + 1\<rparr>
                  in collect_loop pt hc is q' result'
                       (record_hit hc \<lparr>qh_action = WAKE_QUORUM_ACT_RETRACT, qh_slot_idx = of_nat i,
                                      qh_entry = snap\<rparr> hits)
                else
                  let q1 = put_slot i slot q
                  in collect_loop pt hc is (q1\<lparr>q_suppressed := q_suppressed q1 + 1\<rparr>)
                       (result\<lparr>qr_suppressed := qr_suppressed result + 1\<rparr>) hits)"

definition wake_quorum_sweep_collect ::
  "wake_quorum_t option \<Rightarrow> wake_pheromone_t option \<Rightarrow> u32 option
     \<Rightarrow> (wake_quorum_sweep_result_t \<times> wake_quorum_t option \<times> wake_quorum_hit_t list) option" where
  "wake_quorum_sweep_collect qp ptp hits_capacity =
     (case (qp, ptp) of
        (Some q, Some pt) \<Rightarrow>
          map_option (\<lambda>(r, q', h). (r, Some q', h))
            (collect_loop pt hits_capacity [0..<sweep_cap q pt] q zero_result [])
      | _ \<Rightarrow> Some (zero_result, qp, []))"

section \<open>Names\<close>

definition wake_quorum_tier_name :: "u32 \<Rightarrow> string" where
  "wake_quorum_tier_name tier =
     (if tier < 3 then [''NONE'', ''OBSERVE'', ''ALERT''] ! unat tier else ''UNKNOWN'')"

definition wake_quorum_action_name :: "u32 \<Rightarrow> string" where
  "wake_quorum_action_name action =
     (if action \<le> 3 then [''NONE'', ''OBSERVE'', ''ALERT'', ''RETRACT''] ! unat action
      else ''UNKNOWN'')"

end
