(* ===== verification/Wake_Quorum_Props.thy ===== *)
theory Wake_Quorum_Props
  imports Wake_Quorum
begin

text \<open>
  Properties of the quorum evaluator: the two sweeps agree, a sweep reports exactly the threshold
  crossings and no entity twice, and sweeping again reports nothing.
\<close>

section \<open>The decision on one slot\<close>

text \<open>
  What a sweep does with one slot, given its tracking state and the entry it reads: the new
  tracking state and the action (\<open>WAKE_QUORUM_ACT_NONE\<close>: nothing is reported).
\<close>

definition decide :: "wake_quorum_config_t \<Rightarrow> wake_quorum_slot_t \<Rightarrow> wake_pheromone_entry_t option
    \<Rightarrow> wake_quorum_slot_t \<times> wake_quorum_action_t" where
  "decide cfg s x =
     (case x of
        None \<Rightarrow> (\<lparr>qs_key_hash = 0, qs_emitted_tier = WAKE_QUORUM_NONE\<rparr>, WAKE_QUORUM_ACT_NONE)
      | Some e \<Rightarrow>
          let s0 = (if qs_key_hash s = pe_key_hash e then s
                    else \<lparr>qs_key_hash = pe_key_hash e, qs_emitted_tier = WAKE_QUORUM_NONE\<rparr>);
              tier = wake_quorum_classify cfg (pe_confidence e) (pe_src_count e) (pe_hit_count e)
          in if qs_emitted_tier s0 < tier
             then (s0\<lparr>qs_emitted_tier := tier\<rparr>,
                   if tier = WAKE_QUORUM_ALERT then WAKE_QUORUM_ACT_ALERT else WAKE_QUORUM_ACT_OBSERVE)
             else if qs_emitted_tier s0 = WAKE_QUORUM_ALERT \<and> tier < WAKE_QUORUM_ALERT
                     \<and> pe_confidence e < qc_retract_confidence cfg
             then (s0\<lparr>qs_emitted_tier := WAKE_QUORUM_NONE, qs_key_hash := 0\<rparr>, WAKE_QUORUM_ACT_RETRACT)
             else (s0, WAKE_QUORUM_ACT_NONE))"

definition tally_q :: "wake_pheromone_entry_t option \<Rightarrow> wake_quorum_action_t \<Rightarrow> wake_quorum_t \<Rightarrow> wake_quorum_t" where
  "tally_q x act q =
     (if x = None then q
      else case act of
        WAKE_QUORUM_ACT_NONE \<Rightarrow> q\<lparr>q_suppressed := q_suppressed q + 1\<rparr>
      | WAKE_QUORUM_ACT_OBSERVE \<Rightarrow> q\<lparr>q_observations_emitted := q_observations_emitted q + 1\<rparr>
      | WAKE_QUORUM_ACT_ALERT \<Rightarrow> q\<lparr>q_alerts_emitted := q_alerts_emitted q + 1\<rparr>
      | WAKE_QUORUM_ACT_RETRACT \<Rightarrow> q\<lparr>q_retractions_emitted := q_retractions_emitted q + 1\<rparr>)"

definition tally_r :: "wake_pheromone_entry_t option \<Rightarrow> wake_quorum_action_t \<Rightarrow> wake_quorum_sweep_result_t
    \<Rightarrow> wake_quorum_sweep_result_t" where
  "tally_r x act r =
     (let r1 = r\<lparr>qr_slots_scanned := qr_slots_scanned r + 1\<rparr>;
          r2 = r1\<lparr>qr_slots_live := qr_slots_live r1 + 1\<rparr>
      in if x = None then r1
         else case act of
           WAKE_QUORUM_ACT_NONE \<Rightarrow> r2\<lparr>qr_suppressed := qr_suppressed r2 + 1\<rparr>
         | WAKE_QUORUM_ACT_OBSERVE \<Rightarrow> r2\<lparr>qr_new_observations := qr_new_observations r2 + 1\<rparr>
         | WAKE_QUORUM_ACT_ALERT \<Rightarrow> r2\<lparr>qr_new_alerts := qr_new_alerts r2 + 1\<rparr>
         | WAKE_QUORUM_ACT_RETRACT \<Rightarrow> r2\<lparr>qr_new_retractions := qr_new_retractions r2 + 1\<rparr>)"

definition seen :: "read_result \<Rightarrow> wake_pheromone_entry_t option" where
  "seen rd = (case rd of Dead \<Rightarrow> None | Live e \<Rightarrow> Some e)"

lemma seen_simps [simp]: "seen Dead = None" "seen (Live e) = Some e"
  by (simp_all add: seen_def)

lemma q_config_frame [simp]:
  "q_config (put_slot i s q) = q_config q" "q_config (tally_q x act q) = q_config q"
  by (simp_all add: put_slot_def tally_q_def split: wake_quorum_action_t.split)

lemma q_slots_frame [simp]:
  "q_slots (put_slot i s q) = (q_slots q)[i := s]" "q_slots (tally_q x act q) = q_slots q"
  by (simp_all add: put_slot_def tally_q_def split: wake_quorum_action_t.split)

text \<open>Both loops, in terms of the decision.\<close>

lemma sweep_loop_step:
  "sweep_loop pt fn (i # is) q r ctx =
     (case wake_pheromone_read_entry pt (of_nat i) of
        None \<Rightarrow> None
      | Some rd \<Rightarrow>
          let x = seen rd; d = decide (q_config q) (q_slots q ! i) x;
              q' = tally_q x (snd d) (put_slot i (fst d) q); r' = tally_r x (snd d) r
          in if snd d = WAKE_QUORUM_ACT_NONE \<or> fn = None then sweep_loop pt fn is q' r' ctx
             else let m = the fn (snd d) (of_nat i) (the x) ctx
                  in if fst m then sweep_loop pt fn is q' r' (snd m) else Some (r', q', snd m))"
proof (cases "wake_pheromone_read_entry pt (of_nat i)")
  case None
  then show ?thesis by simp
next
  case (Some rd)
  then show ?thesis
    by (cases rd; cases fn)
      (simp_all add: decide_def tally_q_def tally_r_def put_slot_def Let_def case_prod_unfold)
qed

lemma collect_loop_step:
  "collect_loop pt hc (i # is) q r hits =
     (case wake_pheromone_read_entry pt (of_nat i) of
        None \<Rightarrow> None
      | Some rd \<Rightarrow>
          let x = seen rd; d = decide (q_config q) (q_slots q ! i) x;
              q' = tally_q x (snd d) (put_slot i (fst d) q); r' = tally_r x (snd d) r
          in collect_loop pt hc is q' r'
               (if snd d = WAKE_QUORUM_ACT_NONE then hits
                else record_hit hc \<lparr>qh_action = snd d, qh_slot_idx = of_nat i, qh_entry = the x\<rparr> hits))"
proof (cases "wake_pheromone_read_entry pt (of_nat i)")
  case None
  then show ?thesis by simp
next
  case (Some rd)
  then show ?thesis
    by (cases rd)
      (simp_all add: decide_def tally_q_def tally_r_def put_slot_def Let_def case_prod_unfold)
qed

declare sweep_loop.simps(2) [simp del] collect_loop.simps(2) [simp del]

section \<open>The two sweeps agree\<close>

definition recorder :: "wake_quorum_action_t \<Rightarrow> u32 \<Rightarrow> wake_pheromone_entry_t \<Rightarrow> wake_quorum_hit_t list
    \<Rightarrow> bool \<times> wake_quorum_hit_t list" where
  "recorder act i e hits = (True, hits @ [\<lparr>qh_action = act, qh_slot_idx = i, qh_entry = e\<rparr>])"

definition kept :: "u32 option \<Rightarrow> wake_quorum_hit_t list \<Rightarrow> wake_quorum_hit_t list" where
  "kept hc hits = (case hc of None \<Rightarrow> [] | Some cap \<Rightarrow> take (unat cap) hits)"

lemma record_kept: "record_hit hc h (kept hc hits) = kept hc (hits @ [h])"
  by (auto simp: record_hit_def kept_def split: option.split)

lemma collect_loop_sweep:
  "collect_loop pt hc is q r (kept hc hits) =
     map_option (\<lambda>(r', q', hs). (r', q', kept hc hs)) (sweep_loop pt (Some recorder) is q r hits)"
proof (induction "is" arbitrary: q r hits)
  case Nil
  then show ?case by simp
next
  case (Cons i "is")
  then show ?case
    by (cases "wake_pheromone_read_entry pt (of_nat i)")
      (simp_all add: sweep_loop_step collect_loop_step record_kept recorder_def Let_def)
qed

text \<open>
  C31. \<open>wake_quorum_sweep_collect\<close> is \<open>wake_quorum_sweep\<close> with a callback that records every hit and
  goes on: same result, same new evaluator state, and the array holds the first \<open>hits_capacity\<close>
  hits of that callback in order (none for a NULL array), also when more crossings were found.
\<close>

theorem sweep_collect_equiv:
  "wake_quorum_sweep_collect qp ptp hits_capacity =
     map_option (\<lambda>(r, q', hits). (r, q', kept hits_capacity hits))
       (wake_quorum_sweep qp ptp (Some recorder) [])"
proof -
  have nil: "kept hits_capacity [] = []" by (simp add: kept_def split: option.split)
  show ?thesis
    using collect_loop_sweep [of _ hits_capacity _ _ _ "[]"]
    by (auto simp: wake_quorum_sweep_collect_def wake_quorum_sweep_def nil option.map_comp
        comp_def case_prod_unfold split: option.split)
qed

section \<open>What a sweep reports\<close>

definition emission :: "wake_quorum_t \<Rightarrow> wake_pheromone_t \<Rightarrow> nat \<Rightarrow> wake_quorum_hit_t option" where
  "emission q pt i =
     (case live_slot pt i of
        None \<Rightarrow> None
      | Some e \<Rightarrow>
          let act = snd (decide (q_config q) (q_slots q ! i) (Some e))
          in if act = WAKE_QUORUM_ACT_NONE then None
             else Some \<lparr>qh_action = act, qh_slot_idx = of_nat i, qh_entry = e\<rparr>)"

text \<open>Callbacks that never stop the sweep, and what they do to their context.\<close>

definition goes_on :: "(wake_quorum_action_t \<Rightarrow> u32 \<Rightarrow> wake_pheromone_entry_t \<Rightarrow> 'c \<Rightarrow> bool \<times> 'c) option \<Rightarrow> bool" where
  "goes_on fn \<longleftrightarrow> (\<forall>f act i e c. fn = Some f \<longrightarrow> fst (f act i e c))"

definition notify :: "(wake_quorum_action_t \<Rightarrow> u32 \<Rightarrow> wake_pheromone_entry_t \<Rightarrow> 'c \<Rightarrow> bool \<times> 'c) option
    \<Rightarrow> wake_quorum_hit_t \<Rightarrow> 'c \<Rightarrow> 'c" where
  "notify fn h c = (case fn of None \<Rightarrow> c | Some f \<Rightarrow> snd (f (qh_action h) (qh_slot_idx h) (qh_entry h) c))"

definition action_at :: "wake_quorum_t \<Rightarrow> wake_pheromone_t \<Rightarrow> nat \<Rightarrow> wake_quorum_action_t" where
  "action_at q pt i = snd (decide (q_config q) (q_slots q ! i) (live_slot pt i))"

lemma read_live_slot:
  assumes "pht_inv pt" "i < length (pt_entries pt)"
  obtains rd where "wake_pheromone_read_entry pt (of_nat i) = Some rd" "seen rd = live_slot pt i"
  using read_entry_spec [OF assms] live_slot_eq [OF assms] by (auto split: if_splits)

lemma sweep_run:
  fixes q :: wake_quorum_t and pt :: wake_pheromone_t
  assumes inv: "pht_inv pt" and go: "goes_on fn"
  shows "\<forall>i\<in>set is. i < length (pt_entries pt) \<and> i < length (q_slots q) \<Longrightarrow> distinct is \<Longrightarrow>
    \<exists>q'. sweep_loop pt fn is q r ctx =
       Some (fold (\<lambda>i. tally_r (live_slot pt i) (action_at q pt i)) is r, q',
             fold (notify fn) (List.map_filter (emission q pt) is) ctx)
     \<and> q_config q' = q_config q \<and> length (q_slots q') = length (q_slots q) \<and> q_capacity q' = q_capacity q
     \<and> (\<forall>i. q_slots q' ! i = (if i \<in> set is then fst (decide (q_config q) (q_slots q ! i) (live_slot pt i))
                              else q_slots q ! i))"
proof (induction "is" arbitrary: q r ctx)
  case Nil
  then show ?case by (simp add: map_filter_simps)
next
  case (Cons i "is")
  let ?d = "decide (q_config q) (q_slots q ! i) (live_slot pt i)"
  let ?q = "tally_q (live_slot pt i) (snd ?d) (put_slot i (fst ?d) q)"
  have i: "i < length (pt_entries pt)" "i < length (q_slots q)" "i \<notin> set is" "distinct is"
    using Cons.prems by auto
  obtain rd where rd: "wake_pheromone_read_entry pt (of_nat i) = Some rd" "seen rd = live_slot pt i"
    by (rule read_live_slot [OF inv i(1)])
  have ctx: "sweep_loop pt fn (i # is) q r ctx =
      sweep_loop pt fn is ?q (tally_r (live_slot pt i) (action_at q pt i) r)
        (case emission q pt i of None \<Rightarrow> ctx | Some h \<Rightarrow> notify fn h ctx)"
    using go by (cases fn; cases "live_slot pt i")
      (auto simp: sweep_loop_step rd goes_on_def emission_def notify_def action_at_def Let_def decide_def)
  have same: "j \<in> set is \<Longrightarrow> emission ?q pt j = emission q pt j \<and> action_at ?q pt j = action_at q pt j
      \<and> q_slots ?q ! j = q_slots q ! j" for j
  proof -
    assume "j \<in> set is"
    with i(3) have "i \<noteq> j" by auto
    then have "q_slots ?q ! j = q_slots q ! j" by simp
    then show ?thesis by (simp add: emission_def action_at_def cong: option.case_cong)
  qed
  have cap: "q_capacity ?q = q_capacity q"
    by (simp add: tally_q_def put_slot_def split: wake_quorum_action_t.split)
  have pre: "\<forall>j\<in>set is. j < length (pt_entries pt) \<and> j < length (q_slots ?q)"
    using Cons.prems by simp
  have folds: "fold (\<lambda>j. tally_r (live_slot pt j) (action_at ?q pt j)) is r'
      = fold (\<lambda>j. tally_r (live_slot pt j) (action_at q pt j)) is r'" for r'
    using same by (intro fold_cong) simp_all
  have ems: "List.map_filter (emission ?q pt) is = List.map_filter (emission q pt) is"
    using same by (auto simp: map_filter_def intro!: map_cong filter_cong)
  from Cons.IH [OF pre i(4), of "tally_r (live_slot pt i) (action_at q pt i) r"
      "case emission q pt i of None \<Rightarrow> ctx | Some h \<Rightarrow> notify fn h ctx"]
  obtain q' where q': "sweep_loop pt fn (i # is) q r ctx =
       Some (fold (\<lambda>i. tally_r (live_slot pt i) (action_at q pt i)) (i # is) r, q',
             fold (notify fn) (List.map_filter (emission q pt) (i # is)) ctx)"
      "q_config q' = q_config q" "length (q_slots q') = length (q_slots q)" "q_capacity q' = q_capacity q"
      "\<And>j. q_slots q' ! j = (if j \<in> set is then fst (decide (q_config q) (q_slots ?q ! j) (live_slot pt j))
                              else q_slots ?q ! j)"
    unfolding ctx folds ems
    by (auto simp: map_filter_simps cap split: option.splits)
  have "q_slots q' ! j = (if j \<in> set (i # is) then fst (decide (q_config q) (q_slots q ! j) (live_slot pt j))
                              else q_slots q ! j)" for j
    using q'(5) [of j] same [of j] i(2,3) by (auto simp: nth_list_update)
  with q'(1-4) show ?case by blast
qed

lemma sweep_cap_le:
  assumes "pht_inv pt" "length (q_slots q) = unat (q_capacity q)" "i < sweep_cap q pt"
  shows "i < length (pt_entries pt)" "i < length (q_slots q)"
proof -
  have "length (pt_entries pt) = unat (ph_capacity (pt_header pt))"
    using assms(1) by (simp add: pht_inv_def pht_layout_def)
  with assms show "i < length (pt_entries pt)" "i < length (q_slots q)"
    by (auto simp: sweep_cap_def word_less_nat_alt split: if_splits)
qed

text \<open>A complete sweep.\<close>

lemma sweep_complete:
  assumes inv: "pht_inv pt" and wf: "length (q_slots q) = unat (q_capacity q)" and go: "goes_on fn"
  obtains q' where "wake_quorum_sweep (Some q) (Some pt) fn ctx =
       Some (fold (\<lambda>i. tally_r (live_slot pt i) (action_at q pt i)) [0..<sweep_cap q pt] zero_result, Some q',
             fold (notify fn) (List.map_filter (emission q pt) [0..<sweep_cap q pt]) ctx)"
    "q_config q' = q_config q" "length (q_slots q') = unat (q_capacity q')" "q_capacity q' = q_capacity q"
    "\<And>i. i < sweep_cap q pt \<Longrightarrow> q_slots q' ! i = fst (decide (q_config q) (q_slots q ! i) (live_slot pt i))"
proof -
  have "\<forall>i\<in>set [0..<sweep_cap q pt]. i < length (pt_entries pt) \<and> i < length (q_slots q)"
    using sweep_cap_le [OF inv wf] by simp
  from sweep_run [OF inv go this distinct_upt, of zero_result ctx] wf show thesis
    by (auto simp: wake_quorum_sweep_def intro!: that)
qed

lemma emission_Some_iff:
  "emission q pt i = Some h \<longleftrightarrow>
     (\<exists>e. live_slot pt i = Some e \<and> action_at q pt i \<noteq> WAKE_QUORUM_ACT_NONE
        \<and> h = \<lparr>qh_action = action_at q pt i, qh_slot_idx = of_nat i, qh_entry = e\<rparr>)"
  by (auto simp: emission_def action_at_def Let_def split: option.splits if_splits)

lemma emission_None_iff:
  "emission q pt i = None \<longleftrightarrow> live_slot pt i = None \<or> action_at q pt i = WAKE_QUORUM_ACT_NONE"
  by (auto simp: emission_def action_at_def Let_def split: option.splits)

lemma fold_recorder: "fold (notify (Some recorder)) hs acc = acc @ hs"
  by (induction hs arbitrary: acc) (simp_all add: notify_def recorder_def)

lemma emissions_distinct:
  assumes inv: "pht_inv pt" and "distinct is" "\<forall>i\<in>set is. i < length (pt_entries pt)"
  shows "distinct (map (\<lambda>h. pe_key_hash (qh_entry h)) (List.map_filter (emission q pt) is))"
proof -
  let ?js = "filter (\<lambda>i. emission q pt i \<noteq> None) is"
  have "map (\<lambda>h. pe_key_hash (qh_entry h)) (List.map_filter (emission q pt) is)
      = map pe_key_hash (List.map_filter (live_slot pt) ?js)"
    by (induction "is")
      (auto simp: map_filter_simps emission_Some_iff emission_None_iff split: option.splits)
  with pht_reader.scan_distinct [OF inv, of ?js] assms(2,3) show ?thesis by simp
qed

text \<open>What was last reported of an entity in its slot.\<close>

definition reported :: "wake_quorum_t \<Rightarrow> nat \<Rightarrow> wake_pheromone_entry_t \<Rightarrow> u8" where
  "reported q i e = (if qs_key_hash (q_slots q ! i) = pe_key_hash e then qs_emitted_tier (q_slots q ! i)
                     else WAKE_QUORUM_NONE)"

definition tier_of :: "wake_quorum_t \<Rightarrow> wake_pheromone_entry_t \<Rightarrow> u8" where
  "tier_of q e = wake_quorum_classify (q_config q) (pe_confidence e) (pe_src_count e) (pe_hit_count e)"

lemma tier_of_cases: "tier_of q e = 0 \<or> tier_of q e = 1 \<or> tier_of q e = 2"
  by (simp add: tier_of_def wake_quorum_classify_def)

lemma action_at_live:
  "live_slot pt i = Some e \<Longrightarrow> action_at q pt i =
     (if reported q i e < tier_of q e
      then (if tier_of q e = WAKE_QUORUM_ALERT then WAKE_QUORUM_ACT_ALERT else WAKE_QUORUM_ACT_OBSERVE)
      else if reported q i e = WAKE_QUORUM_ALERT \<and> tier_of q e < WAKE_QUORUM_ALERT
              \<and> pe_confidence e < qc_retract_confidence (q_config q)
      then WAKE_QUORUM_ACT_RETRACT else WAKE_QUORUM_ACT_NONE)"
  by (simp add: action_at_def decide_def reported_def tier_of_def Let_def)

text \<open>The hit \<open>h\<close> is one the thresholds call for in slot \<open>i\<close>.\<close>

definition crossing :: "wake_quorum_t \<Rightarrow> nat \<Rightarrow> wake_quorum_hit_t \<Rightarrow> bool" where
  "crossing q i h \<longleftrightarrow>
     (let e = qh_entry h
      in case qh_action h of
           WAKE_QUORUM_ACT_ALERT \<Rightarrow> tier_of q e = WAKE_QUORUM_ALERT \<and> reported q i e < WAKE_QUORUM_ALERT
         | WAKE_QUORUM_ACT_OBSERVE \<Rightarrow> tier_of q e = WAKE_QUORUM_OBSERVE \<and> reported q i e = WAKE_QUORUM_NONE
         | WAKE_QUORUM_ACT_RETRACT \<Rightarrow> tier_of q e < WAKE_QUORUM_ALERT \<and> reported q i e = WAKE_QUORUM_ALERT
             \<and> pe_confidence e < qc_retract_confidence (q_config q)
         | WAKE_QUORUM_ACT_NONE \<Rightarrow> False)"

lemma emission_crossing:
  "emission q pt i = Some h \<longleftrightarrow>
     live_slot pt i = Some (qh_entry h) \<and> qh_slot_idx h = of_nat i \<and> crossing q i h"
proof (cases "live_slot pt i = Some (qh_entry h)")
  case True
  have "qh_action h = action_at q pt i \<and> action_at q pt i \<noteq> WAKE_QUORUM_ACT_NONE \<longleftrightarrow> crossing q i h"
    using tier_of_cases [of q "qh_entry h"]
    by (cases "qh_action h") (auto simp: action_at_live [OF True] crossing_def)
  with True show ?thesis by (cases h) (auto simp: emission_Some_iff)
qed (auto simp: emission_Some_iff)

text \<open>
  C32. A sweep reports, of the slots it covers, exactly: an alert for each live entry that meets the
  alert criteria and was not reported as an alert before; an observation for each that meets only
  the observation criteria and was not reported before; a retraction for each that was reported
  as an alert, no longer meets the alert criteria and has fallen below the retraction threshold.
  No entity is reported twice.
\<close>

theorem quorum_sweep_exact:
  assumes "pht_inv pt" and "length (q_slots q) = unat (q_capacity q)"
  shows "\<exists>r q' hits. wake_quorum_sweep (Some q) (Some pt) (Some recorder) [] = Some (r, Some q', hits)
     \<and> (\<forall>h. h \<in> set hits \<longleftrightarrow> (\<exists>i < sweep_cap q pt. live_slot pt i = Some (qh_entry h)
            \<and> qh_slot_idx h = of_nat i \<and> crossing q i h))
     \<and> distinct (map (\<lambda>h. pe_key_hash (qh_entry h)) hits)"
proof -
  let ?hits = "List.map_filter (emission q pt) [0..<sweep_cap q pt]"
  have go: "goes_on (Some recorder)" by (simp add: goes_on_def recorder_def)
  have "\<exists>r q'. wake_quorum_sweep (Some q) (Some pt) (Some recorder) [] = Some (r, Some q', ?hits)"
    by (rule sweep_complete [OF assms go, where ctx = "[]"]) (simp add: fold_recorder)
  moreover have "h \<in> set ?hits \<longleftrightarrow> (\<exists>i < sweep_cap q pt. live_slot pt i = Some (qh_entry h)
      \<and> qh_slot_idx h = of_nat i \<and> crossing q i h)" for h
    unfolding emission_crossing [symmetric] by (force simp: map_filter_def)
  moreover have "distinct (map (\<lambda>h. pe_key_hash (qh_entry h)) ?hits)"
    by (rule emissions_distinct [OF assms(1)]) (simp_all add: sweep_cap_le(1) [OF assms])
  ultimately show ?thesis by blast
qed

section \<open>Sweeping again\<close>

lemma decide_settles:
  assumes "qc_retract_confidence cfg \<le> qc_observe_confidence cfg"
  shows "snd (decide cfg (fst (decide cfg s x)) x) = WAKE_QUORUM_ACT_NONE"
proof (cases x)
  case None
  then show ?thesis by (simp add: decide_def)
next
  case (Some e)
  let ?t = "wake_quorum_classify cfg (pe_confidence e) (pe_src_count e) (pe_hit_count e)"
  show ?thesis
  proof (cases "pe_confidence e < qc_retract_confidence cfg \<and> ?t < WAKE_QUORUM_ALERT")
    case True
    with assms have "?t = WAKE_QUORUM_NONE"
      by (auto simp: wake_quorum_classify_def split: if_splits)
    with Some show ?thesis by (auto simp: decide_def Let_def)
  next
    case False
    with Some show ?thesis by (auto simp: decide_def Let_def)
  qed
qed

lemma silent_tally:
  assumes "\<forall>i\<in>set is. action_at q pt i = WAKE_QUORUM_ACT_NONE"
  shows "let r' = fold (\<lambda>i. tally_r (live_slot pt i) (action_at q pt i)) is r
    in qr_new_observations r' = qr_new_observations r \<and> qr_new_alerts r' = qr_new_alerts r
     \<and> qr_new_retractions r' = qr_new_retractions r
     \<and> qr_suppressed r' - qr_suppressed r = qr_slots_live r' - qr_slots_live r"
  using assms
proof (induction "is" arbitrary: r)
  case Nil
  then show ?case by simp
next
  case (Cons i "is")
  then have "action_at q pt i = WAKE_QUORUM_ACT_NONE" by simp
  with Cons.IH [of "tally_r (live_slot pt i) (action_at q pt i) r"] Cons.prems show ?case
    by (auto simp: tally_r_def Let_def algebra_simps split: if_splits)
qed

lemma silent_sweep:
  assumes "pht_inv pt" "length (q_slots q) = unat (q_capacity q)" "goes_on fn"
    and silent: "\<And>i. i < sweep_cap q pt \<Longrightarrow> action_at q pt i = WAKE_QUORUM_ACT_NONE"
  shows "\<exists>r q'. wake_quorum_sweep (Some q) (Some pt) fn ctx = Some (r, Some q', ctx)
     \<and> qr_new_observations r = 0 \<and> qr_new_alerts r = 0 \<and> qr_new_retractions r = 0
     \<and> qr_suppressed r = qr_slots_live r"
proof (rule sweep_complete [OF assms(1-3), where ctx = ctx])
  fix q'
  assume run: "wake_quorum_sweep (Some q) (Some pt) fn ctx =
       Some (fold (\<lambda>i. tally_r (live_slot pt i) (action_at q pt i)) [0..<sweep_cap q pt] zero_result, Some q',
             fold (notify fn) (List.map_filter (emission q pt) [0..<sweep_cap q pt]) ctx)"
  have "filter (\<lambda>i. emission q pt i \<noteq> None) [0..<sweep_cap q pt] = []"
    using silent by (auto simp: filter_empty_conv emission_None_iff)
  then have "List.map_filter (emission q pt) [0..<sweep_cap q pt] = []"
    by (simp add: map_filter_def comp_def)
  with run silent_tally [of "[0..<sweep_cap q pt]" q pt zero_result] silent show ?thesis
    by (auto simp: Let_def zero_result_def)
qed

lemma settled_sweep:
  assumes "pht_inv pt" "length (q_slots q1) = unat (q_capacity q1)" "goes_on fn"
    and cfg: "qc_retract_confidence (q_config q1) \<le> qc_observe_confidence (q_config q1)"
    and slots: "\<And>i. i < sweep_cap q1 pt \<Longrightarrow> \<exists>s. q_slots q1 ! i = fst (decide (q_config q1) s (live_slot pt i))"
  shows "\<exists>r q'. wake_quorum_sweep (Some q1) (Some pt) fn ctx = Some (r, Some q', ctx)
     \<and> qr_new_observations r = 0 \<and> qr_new_alerts r = 0 \<and> qr_new_retractions r = 0
     \<and> qr_suppressed r = qr_slots_live r"
proof (rule silent_sweep [OF assms(1-3)])
  fix i
  assume "i < sweep_cap q1 pt"
  from slots [OF this] show "action_at q1 pt i = WAKE_QUORUM_ACT_NONE"
    using decide_settles [OF cfg] by (auto simp: action_at_def)
qed

text \<open>
  No signal is emitted twice for the same state of the table: when the retraction threshold does
  not exceed the observation threshold (as in the default configuration), a sweep that follows a
  complete sweep of the same table reports nothing, leaves the context of its callback alone and
  suppresses every live slot; and so does the first sweep after \<open>wake_quorum_preseed\<close>.
\<close>

theorem quorum_no_duplicates:
  assumes "pht_inv pt" and "length (q_slots q) = unat (q_capacity q)"
    and "qc_retract_confidence (q_config q) \<le> qc_observe_confidence (q_config q)"
    and "goes_on fn" and "goes_on fn2"
  shows "(\<exists>r1 q1 ctx1 r2 q2. wake_quorum_sweep (Some q) (Some pt) fn ctx = Some (r1, Some q1, ctx1)
        \<and> wake_quorum_sweep (Some q1) (Some pt) fn2 ctx2 = Some (r2, Some q2, ctx2)
        \<and> qr_new_observations r2 = 0 \<and> qr_new_alerts r2 = 0 \<and> qr_new_retractions r2 = 0
        \<and> qr_suppressed r2 = qr_slots_live r2)
     \<and> (\<exists>q1 r2 q2. wake_quorum_preseed (Some q) (Some pt) = Some (Some q1)
        \<and> q_alerts_emitted q1 = 0
        \<and> wake_quorum_sweep (Some q1) (Some pt) fn2 ctx2 = Some (r2, Some q2, ctx2)
        \<and> qr_new_observations r2 = 0 \<and> qr_new_alerts r2 = 0 \<and> qr_new_retractions r2 = 0
        \<and> qr_suppressed r2 = qr_slots_live r2)"
proof
  show "\<exists>r1 q1 ctx1 r2 q2. wake_quorum_sweep (Some q) (Some pt) fn ctx = Some (r1, Some q1, ctx1)
        \<and> wake_quorum_sweep (Some q1) (Some pt) fn2 ctx2 = Some (r2, Some q2, ctx2)
        \<and> qr_new_observations r2 = 0 \<and> qr_new_alerts r2 = 0 \<and> qr_new_retractions r2 = 0
        \<and> qr_suppressed r2 = qr_slots_live r2"
  proof (rule sweep_complete [OF assms(1,2,4), where ctx = ctx])
    fix q1
    assume q1: "wake_quorum_sweep (Some q) (Some pt) fn ctx =
       Some (fold (\<lambda>i. tally_r (live_slot pt i) (action_at q pt i)) [0..<sweep_cap q pt] zero_result, Some q1,
             fold (notify fn) (List.map_filter (emission q pt) [0..<sweep_cap q pt]) ctx)"
      "q_config q1 = q_config q" "length (q_slots q1) = unat (q_capacity q1)" "q_capacity q1 = q_capacity q"
      "\<And>i. i < sweep_cap q pt \<Longrightarrow> q_slots q1 ! i = fst (decide (q_config q) (q_slots q ! i) (live_slot pt i))"
    have "sweep_cap q1 pt = sweep_cap q pt" using q1(4) by (simp add: sweep_cap_def)
    with settled_sweep [OF assms(1) q1(3) assms(5), of ctx2] q1 assms(3) show ?thesis by auto
  qed
  have none: "goes_on None" by (simp add: goes_on_def)
  show "\<exists>q1 r2 q2. wake_quorum_preseed (Some q) (Some pt) = Some (Some q1)
        \<and> q_alerts_emitted q1 = 0
        \<and> wake_quorum_sweep (Some q1) (Some pt) fn2 ctx2 = Some (r2, Some q2, ctx2)
        \<and> qr_new_observations r2 = 0 \<and> qr_new_alerts r2 = 0 \<and> qr_new_retractions r2 = 0
        \<and> qr_suppressed r2 = qr_slots_live r2"
  proof (rule sweep_complete [OF assms(1,2) none, where ctx = "()"])
    fix q1
    assume q1: "wake_quorum_sweep (Some q) (Some pt) None () =
       Some (fold (\<lambda>i. tally_r (live_slot pt i) (action_at q pt i)) [0..<sweep_cap q pt] zero_result, Some q1,
             fold (notify None) (List.map_filter (emission q pt) [0..<sweep_cap q pt]) ())"
      "q_config q1 = q_config q" "length (q_slots q1) = unat (q_capacity q1)" "q_capacity q1 = q_capacity q"
      "\<And>i. i < sweep_cap q pt \<Longrightarrow> q_slots q1 ! i = fst (decide (q_config q) (q_slots q ! i) (live_slot pt i))"
    let ?c = "clear_counters q1"
    have c: "q_config ?c = q_config q" "q_slots ?c = q_slots q1" "q_capacity ?c = q_capacity q"
      "q_alerts_emitted ?c = 0" "sweep_cap ?c pt = sweep_cap q pt"
      using q1(2,4) by (simp_all add: clear_counters_def sweep_cap_def)
    have "wake_quorum_preseed (Some q) (Some pt) = Some (Some ?c)"
      by (simp add: wake_quorum_preseed_def q1(1))
    moreover have "\<exists>r q'. wake_quorum_sweep (Some ?c) (Some pt) fn2 ctx2 = Some (r, Some q', ctx2)
     \<and> qr_new_observations r = 0 \<and> qr_new_alerts r = 0 \<and> qr_new_retractions r = 0
     \<and> qr_suppressed r = qr_slots_live r"
      using assms(1,3,5) q1 c by (intro settled_sweep) auto
    ultimately show ?thesis using c(4) by blast
  qed
qed

section \<open>An instance for the witnesses\<close>

definition demo_hot :: wake_pheromone_entry_t where
  "demo_hot = zero_entry\<lparr>pe_key_hash := 3, pe_confidence := 30000, pe_src_count := 3, pe_hit_count := 9\<rparr>"

definition demo_alert_table :: wake_pheromone_t where
  "demo_alert_table = put_entry 3 demo_hot demo_table"

definition demo_q :: wake_quorum_t where
  "demo_q = the (wake_quorum_create True True 8 None)"

lemma demo_alert_inv: "pht_inv demo_alert_table"
proof -
  have slot: "pt_slot demo_table 3 0 = 3"
    by (simp add: pt_slot_def probe_idx_def demo_table_def fresh_table_def)
  have "pht_inv (put_entry (pt_slot demo_table 3 0) demo_hot demo_table)"
    using slot by (intro pht_inv_fill [OF demo_table_inv, where k = 3])
      (auto simp: vacant_def demo_hot_def zero_entry_def pe_ok_def demo_table_def fresh_table_def pt_keys_def)
  then show ?thesis by (simp add: slot demo_alert_table_def)
qed

lemma demo_q_wf:
  "length (q_slots demo_q) = unat (q_capacity demo_q)"
  "qc_retract_confidence (q_config demo_q) \<le> qc_observe_confidence (q_config demo_q)"
  by (simp_all add: demo_q_def wake_quorum_create_def wake_quorum_default_config_def)

lemma demo_alert_live: "live_slot demo_alert_table 3 = Some demo_hot"
  by (subst live_slot_eq [OF demo_alert_inv])
    (simp_all add: demo_alert_table_def demo_table_def fresh_table_def demo_hot_def vacant_def zero_entry_def)

theorem quorum_sweep_exact_witness:
  "\<exists>r q' hits. wake_quorum_sweep (Some demo_q) (Some demo_alert_table) (Some recorder) [] = Some (r, Some q', hits)
     \<and> \<lparr>qh_action = WAKE_QUORUM_ACT_ALERT, qh_slot_idx = 3, qh_entry = demo_hot\<rparr> \<in> set hits"
proof -
  have "3 < sweep_cap demo_q demo_alert_table"
    by (simp add: sweep_cap_def demo_q_def wake_quorum_create_def demo_alert_table_def demo_table_def fresh_table_def)
  moreover have "crossing demo_q 3 \<lparr>qh_action = WAKE_QUORUM_ACT_ALERT, qh_slot_idx = 3, qh_entry = demo_hot\<rparr>"
    by (simp add: crossing_def tier_of_def reported_def demo_q_def wake_quorum_create_def zero_slot_def
        wake_quorum_default_config_def wake_quorum_classify_def demo_hot_def)
  ultimately show ?thesis
    using quorum_sweep_exact [OF demo_alert_inv demo_q_wf(1)] demo_alert_live by force
qed

theorem quorum_no_duplicates_witness:
  "\<exists>q1 r2 q2. wake_quorum_preseed (Some demo_q) (Some demo_alert_table) = Some (Some q1)
     \<and> wake_quorum_sweep (Some q1) (Some demo_alert_table) (Some recorder) [] = Some (r2, Some q2, [])
     \<and> qr_new_alerts r2 = 0"
proof -
  have "goes_on (Some recorder)" by (simp add: goes_on_def recorder_def)
  from quorum_no_duplicates [OF demo_alert_inv demo_q_wf this this, of "[]" "[]"] show ?thesis by blast
qed

end
