(* ===== verification/Wake_Crypto.thy ===== *)
theory Wake_Crypto
  imports Wake_Prelude
begin

text \<open>
  The cryptographic wrappers (\<open>src/src/wake_crypto.c\<close>, \<open>src/src/wake_crypto.h\<close>).  The primitives
  are those of the vendored Monocypher library; they are the fields of the record \<open>monocypher\<close>,
  which every definition that uses them takes as an argument.  What the signal layer relies on is
  the hypothesis \<open>ed25519_correct\<close>, the correctness of Ed25519 as RFC 8032 documents it.  The random
  bytes of \<open>/dev/urandom\<close> are a parameter.
\<close>

record monocypher =
  crypto_sha512 :: "bytes \<Rightarrow> bytes"
  crypto_ed25519_key_pair :: "bytes \<Rightarrow> bytes \<times> bytes" \<comment> \<open>seed to expanded secret key, public key\<close>
  crypto_ed25519_sign :: "bytes \<Rightarrow> bytes \<Rightarrow> bytes" \<comment> \<open>expanded secret key, message\<close>
  crypto_ed25519_check :: "bytes \<Rightarrow> bytes \<Rightarrow> bytes \<Rightarrow> int" \<comment> \<open>signature, public key, message\<close>
  crypto_x25519_public_key :: "bytes \<Rightarrow> bytes"
  crypto_x25519 :: "bytes \<Rightarrow> bytes \<Rightarrow> bytes"
  crypto_eddsa_to_x25519 :: "bytes \<Rightarrow> bytes"
  crypto_aead_lock :: "bytes \<Rightarrow> bytes \<Rightarrow> bytes \<Rightarrow> bytes \<Rightarrow> bytes \<times> bytes"
  crypto_aead_unlock :: "bytes \<Rightarrow> bytes \<Rightarrow> bytes \<Rightarrow> bytes \<Rightarrow> bytes \<Rightarrow> int \<times> bytes"

text \<open>
  A signature made with the expanded key of a 32-byte seed checks against the public key of that
  seed; public keys have 32 bytes and signatures 64.
\<close>

definition ed25519_correct :: "monocypher \<Rightarrow> bool" where
  "ed25519_correct mc \<longleftrightarrow>
     (\<forall>seed msg. length seed = 32 \<longrightarrow>
        (let (sk, pk) = crypto_ed25519_key_pair mc seed; sig = crypto_ed25519_sign mc sk msg
         in crypto_ed25519_check mc sig pk msg = 0 \<and> length pk = 32 \<and> length sig = 64))"

record wake_node_key_t =
  nk_public_key :: bytes
  nk_secret_key :: bytes

definition wake_sha512 :: "monocypher \<Rightarrow> bytes \<Rightarrow> bytes" where
  "wake_sha512 mc data = crypto_sha512 mc data"

definition wake_ed25519_keygen_from_seed :: "monocypher \<Rightarrow> bytes \<Rightarrow> wake_node_key_t" where
  "wake_ed25519_keygen_from_seed mc seed =
     (let (expanded_sk, pk) = crypto_ed25519_key_pair mc seed
      in \<lparr>nk_public_key = pk, nk_secret_key = seed @ pk\<rparr>)"

text \<open>\<open>urandom\<close>: the bytes that were read, \<open>None\<close> when the device cannot be opened.\<close>

definition wake_ed25519_keygen ::
  "monocypher \<Rightarrow> bytes option \<Rightarrow> wake_node_key_t \<Rightarrow> int \<times> wake_node_key_t" where
  "wake_ed25519_keygen mc urandom key =
     (case urandom of
        None \<Rightarrow> (- 1, key)
      | Some seed \<Rightarrow>
          if length seed \<noteq> 32 then (- 1, key)
          else (0, wake_ed25519_keygen_from_seed mc seed))"

definition wake_ed25519_sign :: "monocypher \<Rightarrow> bytes \<Rightarrow> wake_node_key_t \<Rightarrow> bytes" where
  "wake_ed25519_sign mc msg key =
     (let seed_copy = take 32 (nk_secret_key key);
          (expanded_sk, pk_discard) = crypto_ed25519_key_pair mc seed_copy
      in crypto_ed25519_sign mc expanded_sk msg)"

definition wake_ed25519_verify :: "monocypher \<Rightarrow> bytes \<Rightarrow> bytes \<Rightarrow> bytes \<Rightarrow> int" where
  "wake_ed25519_verify mc sig msg public_key = crypto_ed25519_check mc sig public_key msg"

definition wake_x25519_public_key :: "monocypher \<Rightarrow> bytes \<Rightarrow> bytes" where
  "wake_x25519_public_key mc sk = crypto_x25519_public_key mc sk"

definition wake_x25519 :: "monocypher \<Rightarrow> bytes \<Rightarrow> bytes \<Rightarrow> bytes" where
  "wake_x25519 mc my_sk their_pk = crypto_x25519 mc my_sk their_pk"

definition wake_eddsa_to_x25519 :: "monocypher \<Rightarrow> bytes \<Rightarrow> bytes" where
  "wake_eddsa_to_x25519 mc ed25519_seed = crypto_eddsa_to_x25519 mc ed25519_seed"

definition wake_aead_lock ::
  "monocypher \<Rightarrow> bytes \<Rightarrow> bytes \<Rightarrow> bytes \<Rightarrow> bytes \<Rightarrow> bytes \<times> bytes" where
  "wake_aead_lock mc key nonce ad pt = crypto_aead_lock mc key nonce ad pt"

definition wake_aead_unlock ::
  "monocypher \<Rightarrow> bytes \<Rightarrow> bytes \<Rightarrow> bytes \<Rightarrow> bytes \<Rightarrow> bytes \<Rightarrow> int \<times> bytes" where
  "wake_aead_unlock mc mac key nonce ad ct = crypto_aead_unlock mc mac key nonce ad ct"

text \<open>A key that key generation can produce.\<close>

definition node_key :: "monocypher \<Rightarrow> wake_node_key_t \<Rightarrow> bool" where
  "node_key mc key \<longleftrightarrow> (\<exists>seed. length seed = 32 \<and> key = wake_ed25519_keygen_from_seed mc seed)"

lemma keygen_node_key:
  "wake_ed25519_keygen mc urandom key = (0, key') \<Longrightarrow> node_key mc key'"
  by (auto simp: wake_ed25519_keygen_def node_key_def split: option.splits if_splits)

lemma sign_verifies:
  assumes "ed25519_correct mc" "node_key mc key"
  shows "wake_ed25519_verify mc (wake_ed25519_sign mc msg key) msg (nk_public_key key) = 0"
    and "length (wake_ed25519_sign mc msg key) = 64" and "length (nk_public_key key) = 32"
proof -
  obtain seed where seed: "length seed = 32" "key = wake_ed25519_keygen_from_seed mc seed"
    using assms(2) by (auto simp: node_key_def)
  then have "take 32 (nk_secret_key key) = seed"
    by (simp add: wake_ed25519_keygen_from_seed_def case_prod_unfold Let_def)
  with seed assms(1)
  show "wake_ed25519_verify mc (wake_ed25519_sign mc msg key) msg (nk_public_key key) = 0"
    "length (wake_ed25519_sign mc msg key) = 64" "length (nk_public_key key) = 32"
    by (simp_all add: ed25519_correct_def wake_ed25519_verify_def wake_ed25519_sign_def
        wake_ed25519_keygen_from_seed_def case_prod_unfold Let_def)
qed

end
