(* ===== verification/Wake_Signal.thy ===== *)
theory Wake_Signal
  imports Wake_Crypto Wake_Entity_Props
begin

text \<open>
  Mesh signals (\<open>src/src/wake_signal.c\<close>, \<open>src/src/wake_signal.h\<close>): the 192-byte signed record, its
  construction, verification and forwarding.
\<close>

abbreviation WAKE_SIGNAL_VERSION :: u8 where "WAKE_SIGNAL_VERSION \<equiv> 1"
abbreviation WAKE_SIGNAL_MAGIC :: u16 where "WAKE_SIGNAL_MAGIC \<equiv> 0x574B"
abbreviation WAKE_SIG__COUNT :: u8 where "WAKE_SIG__COUNT \<equiv> 4"
abbreviation WAKE_SCOPE__COUNT :: u8 where "WAKE_SCOPE__COUNT \<equiv> 2"

record wake_signal_meta_t =
  sm_magic :: u16
  sm_version :: u8
  sm_signal_type :: u8
  sm_scope :: u8
  sm_ttl :: u8
  sm_hop_count :: u8
  sm_action :: u8
  sm_outcome :: u8
  sm_pad0 :: bytes
  sm_phase_flags :: u32
  sm_tenant_id :: u32
  sm_timestamp :: u32
  sm_confidence :: u32
  sm_hit_count :: u32
  sm_node_id :: bytes

record wake_signal_t =
  sg_entity :: wake_entity_t
  sg_meta :: wake_signal_meta_t
  sg_sig :: bytes

text \<open>The 64 bytes of the metadata, and the 128 bytes that are signed.\<close>

definition meta_bytes :: "wake_signal_meta_t \<Rightarrow> bytes" where
  "meta_bytes m = le_bytes 2 (sm_magic m)
     @ [sm_version m, sm_signal_type m, sm_scope m, sm_ttl m, sm_hop_count m, sm_action m, sm_outcome m]
     @ sm_pad0 m @ le_bytes 4 (sm_phase_flags m) @ le_bytes 4 (sm_tenant_id m)
     @ le_bytes 4 (sm_timestamp m) @ le_bytes 4 (sm_confidence m) @ le_bytes 4 (sm_hit_count m)
     @ sm_node_id m"

definition signed_bytes :: "wake_signal_t \<Rightarrow> bytes" where
  "signed_bytes sig = entity_bytes (sg_entity sig) @ meta_bytes (sg_meta sig)"

definition wake_signal_init ::
  "monocypher \<Rightarrow> u64 \<Rightarrow> wake_entity_t \<Rightarrow> u32 \<Rightarrow> u32 \<Rightarrow> u32 \<Rightarrow> u32 \<Rightarrow> u32 \<Rightarrow> u32 \<Rightarrow> u32 \<Rightarrow> u8 \<Rightarrow> u32
     \<Rightarrow> wake_node_key_t \<Rightarrow> wake_signal_t" where
  "wake_signal_init mc tv_sec entity signal_type scope action outcome tenant_id confidence hit_count
     ttl phase_flags key =
     (let sig = \<lparr>sg_entity = entity,
                 sg_meta = \<lparr>sm_magic = WAKE_SIGNAL_MAGIC, sm_version = WAKE_SIGNAL_VERSION,
                   sm_signal_type = ucast signal_type, sm_scope = ucast scope, sm_ttl = ttl,
                   sm_hop_count = 0, sm_action = ucast action, sm_outcome = ucast outcome,
                   sm_pad0 = [0, 0, 0], sm_phase_flags = phase_flags, sm_tenant_id = tenant_id,
                   sm_timestamp = ucast tv_sec, sm_confidence = confidence,
                   sm_hit_count = hit_count, sm_node_id = nk_public_key key\<rparr>,
                 sg_sig = replicate 64 0\<rparr>
      in sig\<lparr>sg_sig := wake_ed25519_sign mc (signed_bytes sig) key\<rparr>)"

definition wake_signal_verify :: "monocypher \<Rightarrow> wake_signal_t \<Rightarrow> bool" where
  "wake_signal_verify mc sig =
     (if sm_magic (sg_meta sig) \<noteq> WAKE_SIGNAL_MAGIC then False
      else if sm_version (sg_meta sig) \<noteq> WAKE_SIGNAL_VERSION then False
      else if sm_signal_type (sg_meta sig) \<ge> WAKE_SIG__COUNT then False
      else if sm_scope (sg_meta sig) \<ge> WAKE_SCOPE__COUNT then False
      else if \<not> wake_entity_valid (sg_entity sig) then False
      else if wake_ed25519_verify mc (sg_sig sig) (signed_bytes sig) (sm_node_id (sg_meta sig)) \<noteq> 0
      then False
      else True)"

definition wake_signal_forward ::
  "monocypher \<Rightarrow> wake_signal_t \<Rightarrow> wake_node_key_t \<Rightarrow> bool \<times> wake_signal_t" where
  "wake_signal_forward mc sig key =
     (let m = sg_meta sig
      in if sm_ttl m = 0 then (False, sig)
         else
           let sig' = sig\<lparr>sg_meta := m\<lparr>sm_ttl := sm_ttl m - 1, sm_hop_count := sm_hop_count m + 1,
                                        sm_node_id := nk_public_key key\<rparr>\<rparr>
           in (True, sig'\<lparr>sg_sig := wake_ed25519_sign mc (signed_bytes sig') key\<rparr>))"

abbreviation WAKE_SIG_OBSERVATION :: u32 where "WAKE_SIG_OBSERVATION \<equiv> 0"
abbreviation WAKE_SIG_REINFORCE :: u32 where "WAKE_SIG_REINFORCE \<equiv> 1"
abbreviation WAKE_SIG_ALERT :: u32 where "WAKE_SIG_ALERT \<equiv> 2"
abbreviation WAKE_SIG_RETRACT :: u32 where "WAKE_SIG_RETRACT \<equiv> 3"
abbreviation WAKE_SCOPE_TENANT :: u32 where "WAKE_SCOPE_TENANT \<equiv> 0"
abbreviation WAKE_SCOPE_FLEET :: u32 where "WAKE_SCOPE_FLEET \<equiv> 1"

definition wake_signal_type_name :: "u32 \<Rightarrow> string" where
  "wake_signal_type_name t =
     (if t = WAKE_SIG_OBSERVATION then ''OBSERVATION''
      else if t = WAKE_SIG_REINFORCE then ''REINFORCE''
      else if t = WAKE_SIG_ALERT then ''ALERT''
      else if t = WAKE_SIG_RETRACT then ''RETRACT''
      else ''UNKNOWN_SIGNAL_TYPE'')"

definition wake_signal_scope_name :: "u32 \<Rightarrow> string" where
  "wake_signal_scope_name s =
     (if s = WAKE_SCOPE_TENANT then ''TENANT''
      else if s = WAKE_SCOPE_FLEET then ''FLEET''
      else ''UNKNOWN_SCOPE'')"

section \<open>What is signed\<close>

text \<open>The framing and range checks of verification, without the signature.\<close>

definition framed :: "wake_signal_t \<Rightarrow> bool" where
  "framed sig \<longleftrightarrow> sm_magic (sg_meta sig) = WAKE_SIGNAL_MAGIC \<and> sm_version (sg_meta sig) = WAKE_SIGNAL_VERSION
     \<and> sm_signal_type (sg_meta sig) < WAKE_SIG__COUNT \<and> sm_scope (sg_meta sig) < WAKE_SCOPE__COUNT
     \<and> wake_entity_valid (sg_entity sig)"

definition signal_layout :: "wake_signal_t \<Rightarrow> bool" where
  "signal_layout sig \<longleftrightarrow> length (en_value (sg_entity sig)) = 56 \<and> length (sm_pad0 (sg_meta sig)) = 3
     \<and> length (sm_node_id (sg_meta sig)) = 32 \<and> length (sg_sig sig) = 64"

lemma verify_iff:
  "wake_signal_verify mc sig \<longleftrightarrow> framed sig
     \<and> wake_ed25519_verify mc (sg_sig sig) (signed_bytes sig) (sm_node_id (sg_meta sig)) = 0"
  by (auto simp: wake_signal_verify_def framed_def not_le)

lemma meta_bytes_inject:
  assumes "length (sm_pad0 m) = length (sm_pad0 n)" "meta_bytes m = meta_bytes n"
  shows "m = n"
  using assms by (cases m; cases n) (auto simp: meta_bytes_def le_bytes_inject)

text \<open>
  The signed bytes are 128 and determine the entity and every metadata field, padding included:
  two signals with the same signed bytes differ at most in their signature, so no field can be
  changed without changing what the signature is checked against.
\<close>

theorem signature_covers_signal:
  assumes "signal_layout s" and "signal_layout t"
  shows "length (signed_bytes s) = 128
     \<and> (signed_bytes s = signed_bytes t \<longleftrightarrow> sg_entity s = sg_entity t \<and> sg_meta s = sg_meta t)
     \<and> (signed_bytes s = signed_bytes t \<and> sg_sig s = sg_sig t
        \<longrightarrow> wake_signal_verify mc s = wake_signal_verify mc t)"
proof -
  have len: "length (entity_bytes (sg_entity x)) = 64" "length (meta_bytes (sg_meta x)) = 64"
    if "signal_layout x" for x
    using that by (simp_all add: signal_layout_def entity_bytes_def meta_bytes_def)
  have "sg_entity s = sg_entity t \<and> sg_meta s = sg_meta t" if "signed_bytes s = signed_bytes t"
  proof -
    from that len(1) [OF assms(1)] len(1) [OF assms(2)]
    have "entity_bytes (sg_entity s) = entity_bytes (sg_entity t)" "meta_bytes (sg_meta s) = meta_bytes (sg_meta t)"
      by (simp_all add: signed_bytes_def)
    with assms show ?thesis
      by (auto simp: signal_layout_def entity_bytes_inject intro: meta_bytes_inject)
  qed
  then have iff: "signed_bytes s = signed_bytes t \<longleftrightarrow> sg_entity s = sg_entity t \<and> sg_meta s = sg_meta t"
    by (auto simp: signed_bytes_def)
  then show ?thesis
    using len [OF assms(1)] by (auto simp: verify_iff framed_def signed_bytes_def)
qed

section \<open>Emission and forwarding\<close>

lemma forward_simps:
  "fst (wake_signal_forward mc sig key) \<longleftrightarrow> sm_ttl (sg_meta sig) \<noteq> 0"
  "sg_entity (snd (wake_signal_forward mc sig key)) = sg_entity sig"
  "sm_ttl (sg_meta sig) = 0 \<Longrightarrow> snd (wake_signal_forward mc sig key) = sig"
  "sm_ttl (sg_meta sig) \<noteq> 0 \<Longrightarrow> sg_meta (snd (wake_signal_forward mc sig key)) =
     (sg_meta sig)\<lparr>sm_ttl := sm_ttl (sg_meta sig) - 1, sm_hop_count := sm_hop_count (sg_meta sig) + 1,
        sm_node_id := nk_public_key key\<rparr>"
  by (simp_all add: wake_signal_forward_def Let_def)

lemma signed_bytes_sig [simp]: "signed_bytes (sig\<lparr>sg_sig := x\<rparr>) = signed_bytes sig"
  by (simp add: signed_bytes_def)

lemma forward_verifies:
  assumes "ed25519_correct mc" "node_key mc key" "framed sig" "sm_ttl (sg_meta sig) \<noteq> 0"
  shows "wake_signal_verify mc (snd (wake_signal_forward mc sig key))"
  using assms sign_verifies(1) [OF assms(1,2)]
  by (simp add: verify_iff wake_signal_forward_def Let_def framed_def)

lemma framed_forward: "framed sig \<Longrightarrow> framed (snd (wake_signal_forward mc sig key))"
  by (simp add: framed_def wake_signal_forward_def Let_def)

text \<open>A signal that travels along a path of nodes: each node forwards it while it may.\<close>

fun relay :: "monocypher \<Rightarrow> wake_node_key_t list \<Rightarrow> wake_signal_t \<Rightarrow> nat \<times> wake_signal_t" where
  "relay mc [] sig = (0, sig)"
| "relay mc (key # keys) sig =
     (let (ok, sig') = wake_signal_forward mc sig key
      in if ok then let (n, s) = relay mc keys sig' in (Suc n, s) else (0, sig'))"

text \<open>\<open>s\<close> is \<open>sig\<close> after the first \<open>k\<close> nodes of the path have forwarded it.\<close>

definition relayed :: "monocypher \<Rightarrow> wake_node_key_t list \<Rightarrow> wake_signal_t \<Rightarrow> nat \<Rightarrow> wake_signal_t \<Rightarrow> bool" where
  "relayed mc keys sig k s \<longleftrightarrow>
     sg_entity s = sg_entity sig
   \<and> sg_meta s = (sg_meta sig)\<lparr>sm_ttl := sm_ttl (sg_meta sig) - of_nat k,
        sm_hop_count := sm_hop_count (sg_meta sig) + of_nat k,
        sm_node_id := (if k = 0 then sm_node_id (sg_meta sig) else nk_public_key (keys ! (k - 1)))\<rparr>
   \<and> (if k = 0 then s = sig else wake_signal_verify mc s)"

lemma relayed_Suc:
  assumes "sm_ttl (sg_meta sig) \<noteq> 0" "wake_signal_verify mc (snd (wake_signal_forward mc sig key))"
    and "relayed mc keys (snd (wake_signal_forward mc sig key)) k s"
  shows "relayed mc (key # keys) sig (Suc k) s"
  using assms
  by (cases k) (simp_all add: relayed_def forward_simps algebra_simps)

lemma relay_spec:
  assumes "ed25519_correct mc" "\<forall>key\<in>set keys. node_key mc key" "framed sig"
  shows "\<exists>s. relay mc keys sig = (min (length keys) (unat (sm_ttl (sg_meta sig))), s)
     \<and> relayed mc keys sig (min (length keys) (unat (sm_ttl (sg_meta sig)))) s"
  using assms(2,3)
proof (induction keys arbitrary: sig)
  case Nil
  then show ?case by (simp add: relayed_def)
next
  case (Cons key keys)
  show ?case
  proof (cases "sm_ttl (sg_meta sig) = 0")
    case True
    then show ?thesis by (simp add: wake_signal_forward_def Let_def relayed_def)
  next
    case False
    define s' where "s' = snd (wake_signal_forward mc sig key)"
    define k where "k = min (length keys) (unat (sm_ttl (sg_meta s')))"
    have "sm_ttl (sg_meta s') = sm_ttl (sg_meta sig) - 1"
      using False by (simp add: s'_def forward_simps)
    then have "unat (sm_ttl (sg_meta sig)) = Suc (unat (sm_ttl (sg_meta s')))"
      using False by (simp add: unat_minus_one unat_eq_0 [symmetric])
    then have k: "min (length (key # keys)) (unat (sm_ttl (sg_meta sig))) = Suc k"
      by (simp add: k_def)
    have ver: "wake_signal_verify mc s'"
      unfolding s'_def using forward_verifies [OF assms(1) _ Cons.prems(2) False] Cons.prems(1) by simp
    have fr: "framed s'" unfolding s'_def by (rule framed_forward [OF Cons.prems(2)])
    obtain s where s: "relay mc keys s' = (k, s)" "relayed mc keys s' k s"
      using Cons.IH [OF _ fr] Cons.prems(1) unfolding k_def by auto
    have "wake_signal_forward mc sig key = (True, s')"
      using False by (intro prod_eqI) (simp_all add: s'_def forward_simps)
    then have "relay mc (key # keys) sig = (Suc k, s)" using s(1) by simp
    moreover have "relayed mc (key # keys) sig (Suc k) s"
      using relayed_Suc [OF False] ver s(2) by (simp add: s'_def)
    ultimately show ?thesis unfolding k by blast
  qed
qed

text \<open>
  C26. A signal emitted with a generated key for a valid entity, with type and scope in range,
  verifies; on its way along any path of nodes it is forwarded exactly \<open>min (path length, ttl)\<close>
  times, its ttl and hop count always add up to the original ttl, every hop replaces the emitter
  by the forwarder and re-signs so that the signal verifies again, and nothing else of it changes.
  After ttl hops no node forwards it.
\<close>

theorem signal_travels_ttl_hops:
  fixes mc tv entity st sc ac oc tn cf hc ttl ph key
  assumes "ed25519_correct mc" and "node_key mc key" and "entity_wf entity"
    and "st < 4" and "sc < 2" and "\<forall>k\<in>set path. node_key mc k"
  defines "sig \<equiv> wake_signal_init mc tv entity st sc ac oc tn cf hc ttl ph key"
    and "n \<equiv> min (length path) (unat ttl)"
  shows "wake_signal_verify mc sig
     \<and> fst (relay mc path sig) = n
     \<and> wake_signal_verify mc (snd (relay mc path sig))
     \<and> sg_entity (snd (relay mc path sig)) = entity
     \<and> sg_meta (snd (relay mc path sig)) = (sg_meta sig)\<lparr>sm_ttl := ttl - of_nat n, sm_hop_count := of_nat n,
          sm_node_id := nk_public_key ((key # path) ! n)\<rparr>
     \<and> (unat ttl \<le> length path \<longrightarrow> \<not> fst (wake_signal_forward mc (snd (relay mc path sig)) k))"
proof -
  have st: "(ucast st :: u8) < 4" "(ucast sc :: u8) < 2"
  proof -
    have "unat st < 4" "unat sc < 2" using assms(4,5) by (simp_all add: word_less_nat_alt)
    then show "(ucast st :: u8) < 4" "(ucast sc :: u8) < 2"
      by (simp_all add: word_less_nat_alt unsigned_ucast_eq take_bit_nat_eq_self)
  qed
  have sg: "sg_entity sig = entity" "sm_ttl (sg_meta sig) = ttl" "sm_hop_count (sg_meta sig) = 0"
    "sm_node_id (sg_meta sig) = nk_public_key key"
    by (simp_all add: sig_def wake_signal_init_def Let_def)
  have fr: "framed sig"
    using st assms(3) by (simp add: framed_def sig_def wake_signal_init_def Let_def entity_wf_def)
  have "sg_sig sig = wake_ed25519_sign mc (signed_bytes sig) key"
    by (simp add: sig_def wake_signal_init_def Let_def signed_bytes_def)
  then have ver: "wake_signal_verify mc sig"
    using fr sign_verifies(1) [OF assms(1,2)] sg(4) by (simp add: verify_iff)
  obtain s where s: "relay mc path sig = (n, s)" "relayed mc path sig n s"
    using relay_spec [OF assms(1,6) fr] by (auto simp: n_def sg)
  have R: "sg_entity s = entity"
    "sg_meta s = (sg_meta sig)\<lparr>sm_ttl := ttl - of_nat n, sm_hop_count := of_nat n,
        sm_node_id := (if n = 0 then nk_public_key key else nk_public_key (path ! (n - 1)))\<rparr>"
    and v: "wake_signal_verify mc s"
    using s(2) ver by (auto simp: relayed_def sg split: if_splits)
  have "(if n = 0 then nk_public_key key else nk_public_key (path ! (n - 1))) = nk_public_key ((key # path) ! n)"
    by (cases n) simp_all
  moreover have "unat ttl \<le> length path \<Longrightarrow> sm_ttl (sg_meta s) = 0"
    by (simp add: R(2) n_def)
  ultimately show ?thesis
    using ver v R by (simp add: s(1) forward_simps(1))
qed

text \<open>
  Forwarding does not look at the signature it received: any signal with valid framing and a
  nonzero ttl, whatever its signature bytes, verifies after one forwarding, under the name of the
  forwarder.  A node must call \<open>wake_signal_verify\<close> before \<open>wake_signal_forward\<close>.
\<close>

theorem forward_ignores_signature:
  assumes "ed25519_correct mc" and "node_key mc key" and "framed sig" and "sm_ttl (sg_meta sig) \<noteq> 0"
  shows "wake_signal_verify mc (snd (wake_signal_forward mc (sig\<lparr>sg_sig := forged\<rparr>) key))
     \<and> sm_node_id (sg_meta (snd (wake_signal_forward mc (sig\<lparr>sg_sig := forged\<rparr>) key))) = nk_public_key key"
proof -
  have "framed (sig\<lparr>sg_sig := forged\<rparr>)" "sm_ttl (sg_meta (sig\<lparr>sg_sig := forged\<rparr>)) \<noteq> 0"
    using assms(3,4) by (simp_all add: framed_def)
  with forward_verifies [OF assms(1,2)] show ?thesis
    by (simp add: forward_simps)
qed

section \<open>An instance for the witnesses\<close>

text \<open>A signature scheme that is correct (and not secure): the key and a checksum of the message.\<close>

definition demo_sign :: "bytes \<Rightarrow> bytes \<Rightarrow> bytes" where
  "demo_sign sk msg = sk @ replicate 32 (sum_list msg)"

definition demo_mc :: monocypher where
  "demo_mc = \<lparr>crypto_sha512 = (\<lambda>d. replicate 64 (sum_list d)),
     crypto_ed25519_key_pair = (\<lambda>seed. (seed, seed)),
     crypto_ed25519_sign = demo_sign,
     crypto_ed25519_check = (\<lambda>sig pk msg. if sig = demo_sign pk msg then 0 else - 1),
     crypto_x25519_public_key = (\<lambda>sk. sk), crypto_x25519 = (\<lambda>a b. a),
     crypto_eddsa_to_x25519 = (\<lambda>k. k), crypto_aead_lock = (\<lambda>k n ad pt. (pt, replicate 16 0)),
     crypto_aead_unlock = (\<lambda>mac k n ad ct. (0, ct))\<rparr>"

lemma demo_mc_correct: "ed25519_correct demo_mc"
  by (simp add: ed25519_correct_def demo_mc_def demo_sign_def)

definition demo_key :: "u8 \<Rightarrow> wake_node_key_t" where
  "demo_key b = wake_ed25519_keygen_from_seed demo_mc (replicate 32 b)"

lemma demo_key_node: "node_key demo_mc (demo_key b)"
  unfolding node_key_def demo_key_def by (intro exI [of _ "replicate 32 b"]) simp

definition demo_signal :: "u8 \<Rightarrow> wake_signal_t" where
  "demo_signal ttl = wake_signal_init demo_mc 1700000000 (wake_entity_init_port WAKE_EC_WITH 443) 2 1 2 1 9
     30000 12 ttl 1 (demo_key 5)"

lemma demo_entity_wf: "entity_wf (wake_entity_init_port WAKE_EC_WITH 443)"
  unfolding wake_entity_init_port_def by (intro init_value_wf_plain) (simp_all add: wake_etype_fixed_len_def)

lemma demo_signal_layout: "signal_layout (demo_signal ttl)"
  using demo_entity_wf sign_verifies(2,3) [OF demo_mc_correct demo_key_node]
  by (simp add: demo_signal_def wake_signal_init_def signal_layout_def Let_def entity_wf_def)

theorem signature_covers_signal_witness: "signed_bytes (demo_signal 3) \<noteq> signed_bytes (demo_signal 4)"
proof -
  have "sg_meta (demo_signal 3) \<noteq> sg_meta (demo_signal 4)"
    by (simp add: demo_signal_def wake_signal_init_def Let_def)
  with signature_covers_signal [OF demo_signal_layout [of 3] demo_signal_layout [of 4], of demo_mc]
  show ?thesis by blast
qed

theorem signal_travels_ttl_hops_witness:
  "fst (relay demo_mc [demo_key 1, demo_key 2, demo_key 3] (demo_signal 2)) = 2
   \<and> wake_signal_verify demo_mc (snd (relay demo_mc [demo_key 1, demo_key 2, demo_key 3] (demo_signal 2)))"
proof -
  have path: "\<forall>k\<in>set [demo_key 1, demo_key 2, demo_key 3]. node_key demo_mc k"
    by (simp add: demo_key_node)
  have "(2 :: u32) < 4" "(1 :: u32) < 2" by simp_all
  from signal_travels_ttl_hops [OF demo_mc_correct demo_key_node [of 5] demo_entity_wf this path,
      of 1700000000 2 1 9 30000 12 2 1 "demo_key 5"]
  show ?thesis unfolding demo_signal_def by simp
qed

theorem forward_ignores_signature_witness:
  "wake_signal_verify demo_mc
     (snd (wake_signal_forward demo_mc ((demo_signal 2)\<lparr>sg_sig := replicate 64 0\<rparr>) (demo_key 1)))"
proof -
  have "framed (demo_signal 2)" "sm_ttl (sg_meta (demo_signal 2)) \<noteq> 0"
    using demo_entity_wf
    by (simp_all add: framed_def demo_signal_def wake_signal_init_def Let_def entity_wf_def)
  from forward_ignores_signature [OF demo_mc_correct demo_key_node this] show ?thesis by blast
qed

end
