(* ===== verification/Wake_Tac.thy ===== *)
theory Wake_Tac
  imports Wake_Pheromone
begin

text \<open>
  The coupling table (\<open>src/src/wake_tac.c\<close>, \<open>src/src/wake_tac.h\<close>): per-entity couplings between
  techniques in an open-addressing table, with a per-entity sidecar index, per-source budgets,
  quarantine and two-rate decay.

  Writes come from a single writer, so a compare-and-swap of the write path succeeds and the model
  is sequential.  \<open>t_entries\<close> and \<open>t_occ\<close> are the two arrays of the mapping; that every index the
  operations compute is in range on a well-formed table is proved in \<open>Wake_Tac_Inv\<close>.  The static
  helpers \<open>is_power_of_2\<close> and \<open>current_epoch_seconds\<close> are the same functions as in the pheromone
  table and are shared with it.  The clock, the file system and the random bytes are parameters.
\<close>

section \<open>Layout\<close>

abbreviation WAKE_TAC_PROBE_MAX :: nat where "WAKE_TAC_PROBE_MAX \<equiv> 8"
abbreviation WAKE_TAC_OCC_PROBE_MAX :: nat where "WAKE_TAC_OCC_PROBE_MAX \<equiv> 16"
abbreviation WAKE_TAC_MAX_CAPACITY :: u32 where "WAKE_TAC_MAX_CAPACITY \<equiv> 0x1000000"
abbreviation WAKE_TAC_PER_ENTITY_CAP_MAX :: u32 where "WAKE_TAC_PER_ENTITY_CAP_MAX \<equiv> 32"
abbreviation WAKE_TAC_ETA_STRONG_FP16 :: u16 where "WAKE_TAC_ETA_STRONG_FP16 \<equiv> 39321"
abbreviation WAKE_TAC_DELTA_MAX :: u32 where "WAKE_TAC_DELTA_MAX \<equiv> 4095"
abbreviation WAKE_TAC_BUDGET_NAMED :: nat where "WAKE_TAC_BUDGET_NAMED \<equiv> 4"
abbreviation WAKE_TAC_BUDGET_SLOTS :: nat where "WAKE_TAC_BUDGET_SLOTS \<equiv> 5"
abbreviation WAKE_TAC_SRC_NONE :: u16 where "WAKE_TAC_SRC_NONE \<equiv> 0"
abbreviation WAKE_TAC_SRC_OTHER :: u16 where "WAKE_TAC_SRC_OTHER \<equiv> 0xFFFF"
abbreviation WAKE_TAC_QUARANTINE_SHARE_PCT :: u64 where "WAKE_TAC_QUARANTINE_SHARE_PCT \<equiv> 80"
abbreviation WAKE_TAC_IDENT_MAX :: nat where "WAKE_TAC_IDENT_MAX \<equiv> 54"
abbreviation WAKE_TAC_QUERY_TOP_MAX :: nat where "WAKE_TAC_QUERY_TOP_MAX \<equiv> 32"
abbreviation WAKE_TAC_DEFAULT_CAPACITY :: u32 where "WAKE_TAC_DEFAULT_CAPACITY \<equiv> 65536"
abbreviation WAKE_TAC_DEFAULT_DECAY_NOVEL_FP16 :: u32 where "WAKE_TAC_DEFAULT_DECAY_NOVEL_FP16 \<equiv> 62576"
abbreviation WAKE_TAC_DEFAULT_DECAY_CORR_FP16 :: u32 where "WAKE_TAC_DEFAULT_DECAY_CORR_FP16 \<equiv> 65504"
abbreviation WAKE_TAC_DEFAULT_NOISE_FLOOR :: u32 where "WAKE_TAC_DEFAULT_NOISE_FLOOR \<equiv> 1000"
abbreviation WAKE_TAC_DEFAULT_PER_ENTITY_CAP :: u16 where "WAKE_TAC_DEFAULT_PER_ENTITY_CAP \<equiv> 32"
abbreviation WAKE_TAC_DEFAULT_CORROBORATION_MIN :: u16 where "WAKE_TAC_DEFAULT_CORROBORATION_MIN \<equiv> 2"
abbreviation WAKE_TAC_DEFAULT_BUDGET_PER_SOURCE :: u32 where "WAKE_TAC_DEFAULT_BUDGET_PER_SOURCE \<equiv> 20000"
abbreviation WAKE_TAC_DEFAULT_TICK_SECONDS :: u32 where "WAKE_TAC_DEFAULT_TICK_SECONDS \<equiv> 60"
abbreviation WAKE_TAC_DEFAULT_QUARANTINE_MIN_W :: u32 where "WAKE_TAC_DEFAULT_QUARANTINE_MIN_W \<equiv> 4000"
abbreviation WAKE_TAC_MAGIC :: u64 where "WAKE_TAC_MAGIC \<equiv> 0x00434154454B4157"
abbreviation WAKE_TAC_VERSION :: u32 where "WAKE_TAC_VERSION \<equiv> 1"
abbreviation UINT32_MAX :: u32 where "UINT32_MAX \<equiv> 0xFFFFFFFF"

record wake_tac_budget_t =
  tb_source_id :: u16
  tb_spent :: u16

record wake_tac_entry_t =
  te_key_hash :: u64
  te_weight :: u32
  te_reinf_count :: u32
  te_last_reinf :: u32
  te_first_seen :: u32
  te_version :: u32
  te_t_lo :: u32
  te_t_hi :: u32
  te_eta_max_fp16 :: u16
  te_src_count :: u8
  te_quarantine :: u8
  te_budget :: "wake_tac_budget_t list"
  te_entity_hash :: u64
  te_ident_len :: u8
  te_ident_flags :: u8
  te_ident :: bytes

record wake_tac_occ_t =
  to_entity_hash :: u64
  to_live_count :: u32
  to_slot :: "u32 list"

record wake_tac_header_t =
  th_magic :: u64
  th_format_version :: u32
  th_capacity :: u32
  th_mask :: u64
  th_hash_key :: bytes
  th_epoch :: u32
  th_decay_novel_fp16 :: u32
  th_decay_corr_fp16 :: u32
  th_noise_floor :: u32
  th_occ_slots :: u32
  th_budget_per_source :: u32
  th_per_entity_cap :: u16
  th_corroboration_src_min :: u16
  th_tick_seconds :: u32
  th_quarantine_min_w :: u32

record wake_tac_t =
  t_header :: wake_tac_header_t
  t_entries :: "wake_tac_entry_t list"
  t_occ :: "wake_tac_occ_t list"
  t_map_size :: nat

record wake_tac_config_t =
  tc_capacity :: u32
  tc_occ_slots :: u32
  tc_decay_novel_fp16 :: u32
  tc_decay_corr_fp16 :: u32
  tc_noise_floor :: u32
  tc_budget_per_source :: u32
  tc_per_entity_cap :: u16
  tc_corroboration_src_min :: u16
  tc_tick_seconds :: u32
  tc_quarantine_min_w :: u32

record wake_tac_activation_t =
  ta_technique :: u32
  ta_eta_fp16 :: u16
  ta_source_id :: u16

datatype wake_tac_result_t =
  WAKE_TAC_APPLIED | WAKE_TAC_REFUSED_CAP | WAKE_TAC_REFUSED_BUDGET | WAKE_TAC_REFUSED_QUARANTINE
| WAKE_TAC_TABLE_FULL | WAKE_TAC_INVALID

definition zero_budget :: wake_tac_budget_t where
  "zero_budget = \<lparr>tb_source_id = 0, tb_spent = 0\<rparr>"

definition zero_tac_entry :: wake_tac_entry_t where
  "zero_tac_entry = \<lparr>te_key_hash = 0, te_weight = 0, te_reinf_count = 0, te_last_reinf = 0,
     te_first_seen = 0, te_version = 0, te_t_lo = 0, te_t_hi = 0, te_eta_max_fp16 = 0,
     te_src_count = 0, te_quarantine = 0, te_budget = replicate 5 zero_budget, te_entity_hash = 0,
     te_ident_len = 0, te_ident_flags = 0, te_ident = replicate 54 0\<rparr>"

definition zero_occ :: wake_tac_occ_t where
  "zero_occ = \<lparr>to_entity_hash = 0, to_live_count = 0, to_slot = replicate 32 0\<rparr>"

section \<open>Helpers\<close>

definition tac_map_size :: "u32 \<Rightarrow> u32 \<Rightarrow> nat" where
  "tac_map_size capacity occ_slots = 256 + unat capacity * 128 + unat occ_slots * 144"

definition entity_hash_of :: "wake_tac_t \<Rightarrow> bytes \<Rightarrow> u64" where
  "entity_hash_of t key =
     (let h = wake_hash_bytes_keyed key (th_hash_key (t_header t)) in if h \<noteq> 0 then h else 1)"

definition slot_hash_of :: "wake_tac_t \<Rightarrow> u64 \<Rightarrow> u32 \<Rightarrow> u32 \<Rightarrow> u64" where
  "slot_hash_of t ehash t_lo t_hi =
     (let h = wake_hash_bytes_keyed (le_bytes 8 ehash @ le_bytes 4 t_lo @ le_bytes 4 t_hi)
                (th_hash_key (t_header t))
      in if h = SLOT_EMPTY \<or> h = SLOT_TOMBSTONE then h XOR 1 else h)"

definition edge_corroborated :: "wake_tac_header_t \<Rightarrow> u8 \<Rightarrow> u16 \<Rightarrow> bool" where
  "edge_corroborated h src_count eta_max \<longleftrightarrow>
     ucast src_count \<ge> th_corroboration_src_min h \<and> eta_max \<ge> WAKE_TAC_ETA_STRONG_FP16"

definition atomic_max_u16 :: "u16 \<Rightarrow> u16 \<Rightarrow> u16" where
  "atomic_max_u16 cur v = (if cur < v then v else cur)"

definition put_tac :: "nat \<Rightarrow> wake_tac_entry_t \<Rightarrow> wake_tac_t \<Rightarrow> wake_tac_t" where
  "put_tac i e t = t\<lparr>t_entries := (t_entries t)[i := e]\<rparr>"

definition put_occ :: "nat \<Rightarrow> wake_tac_occ_t \<Rightarrow> wake_tac_t \<Rightarrow> wake_tac_t" where
  "put_occ j oc t = t\<lparr>t_occ := (t_occ t)[j := oc]\<rparr>"

section \<open>Sidecar index\<close>

definition occ_idx :: "wake_tac_t \<Rightarrow> u64 \<Rightarrow> nat \<Rightarrow> nat" where
  "occ_idx t ehash p =
     (let slots = th_occ_slots (t_header t); base = ehash AND ucast (slots - 1)
      in unat ((base + of_nat p) AND ucast (slots - 1)))"

fun occ_find_loop :: "wake_tac_t \<Rightarrow> u64 \<Rightarrow> bool \<Rightarrow> nat list \<Rightarrow> nat option \<times> wake_tac_t" where
  "occ_find_loop t ehash claim [] = (None, t)"
| "occ_find_loop t ehash claim (p # ps) =
     (let j = occ_idx t ehash p; oc = t_occ t ! j; e = to_entity_hash oc
      in if e = ehash then (Some j, t)
         else if e = 0
         then (if \<not> claim then (None, t)
               else (Some j, put_occ j (oc\<lparr>to_live_count := 0, to_entity_hash := ehash\<rparr>) t))
         else occ_find_loop t ehash claim ps)"

definition occ_find :: "wake_tac_t \<Rightarrow> u64 \<Rightarrow> bool \<Rightarrow> nat option \<times> wake_tac_t" where
  "occ_find t ehash claim = occ_find_loop t ehash claim [0..<WAKE_TAC_OCC_PROBE_MAX]"

definition occ_count :: "wake_tac_t \<Rightarrow> u64 \<Rightarrow> u32" where
  "occ_count t ehash =
     (case fst (occ_find t ehash False) of None \<Rightarrow> 0 | Some j \<Rightarrow> to_live_count (t_occ t ! j))"

definition occ_add_slot :: "wake_tac_t \<Rightarrow> u64 \<Rightarrow> u32 \<Rightarrow> bool \<times> wake_tac_t" where
  "occ_add_slot t0 ehash idx =
     (let (r, t) = occ_find t0 ehash True
      in case r of
           None \<Rightarrow> (False, t)
         | Some j \<Rightarrow>
             let oc = t_occ t ! j; c = to_live_count oc
             in if c \<ge> WAKE_TAC_PER_ENTITY_CAP_MAX then (False, t)
                else (True, put_occ j (oc\<lparr>to_slot := (to_slot oc)[unat c := idx],
                                            to_live_count := c + 1\<rparr>) t))"

text \<open>\<open>for (i = 0; i < c && i < 32; i++) if (slot[i] == idx)\<close>: the first match.\<close>

definition occ_del_slot :: "wake_tac_t \<Rightarrow> u64 \<Rightarrow> u32 \<Rightarrow> wake_tac_t" where
  "occ_del_slot t ehash idx =
     (case fst (occ_find t ehash False) of
        None \<Rightarrow> t
      | Some j \<Rightarrow>
          let oc = t_occ t ! j; c = to_live_count oc
          in case find_index (\<lambda>s. s = idx) (take (min (unat c) 32) (to_slot oc)) of
               None \<Rightarrow> t
             | Some i \<Rightarrow>
                 let last = to_slot oc ! unat (c - 1)
                 in put_occ j (oc\<lparr>to_slot := (to_slot oc)[i := last], to_live_count := c - 1\<rparr>) t)"

section \<open>Slot lookup\<close>

definition tac_idx :: "wake_tac_t \<Rightarrow> u64 \<Rightarrow> nat \<Rightarrow> u32" where
  "tac_idx t key p =
     ucast (((key AND th_mask (t_header t)) + of_nat p) AND th_mask (t_header t))"

fun find_slot_loop :: "wake_tac_t \<Rightarrow> u64 \<Rightarrow> nat list \<Rightarrow> u32" where
  "find_slot_loop t slot_key [] = UINT32_MAX"
| "find_slot_loop t slot_key (p # ps) =
     (let idx = tac_idx t slot_key p; kh = te_key_hash (t_entries t ! unat idx)
      in if kh = slot_key then idx
         else if kh = SLOT_EMPTY then UINT32_MAX
         else find_slot_loop t slot_key ps)"

definition find_slot :: "wake_tac_t \<Rightarrow> u64 \<Rightarrow> u32" where
  "find_slot t slot_key = find_slot_loop t slot_key [0..<WAKE_TAC_PROBE_MAX]"

section \<open>Life cycle\<close>

definition tac_cfg_or ::
  "wake_tac_config_t option \<Rightarrow> (wake_tac_config_t \<Rightarrow> 'a::zero) \<Rightarrow> 'a \<Rightarrow> 'a" where
  "tac_cfg_or cfg sel dflt = (case cfg of None \<Rightarrow> dflt | Some c \<Rightarrow> if sel c \<noteq> 0 then sel c else dflt)"

definition tac_header :: "wake_tac_config_t option \<Rightarrow> u64 \<Rightarrow> bytes \<Rightarrow> wake_tac_header_t" where
  "tac_header cfg tv_sec key =
     (let capacity = tac_cfg_or cfg tc_capacity WAKE_TAC_DEFAULT_CAPACITY
      in \<lparr>th_magic = WAKE_TAC_MAGIC, th_format_version = WAKE_TAC_VERSION, th_capacity = capacity,
          th_mask = ucast (capacity - 1), th_hash_key = key,
          th_epoch = current_epoch_seconds tv_sec,
          th_decay_novel_fp16 = tac_cfg_or cfg tc_decay_novel_fp16 WAKE_TAC_DEFAULT_DECAY_NOVEL_FP16,
          th_decay_corr_fp16 = tac_cfg_or cfg tc_decay_corr_fp16 WAKE_TAC_DEFAULT_DECAY_CORR_FP16,
          th_noise_floor = tac_cfg_or cfg tc_noise_floor WAKE_TAC_DEFAULT_NOISE_FLOOR,
          th_occ_slots = tac_cfg_or cfg tc_occ_slots capacity,
          th_budget_per_source = tac_cfg_or cfg tc_budget_per_source WAKE_TAC_DEFAULT_BUDGET_PER_SOURCE,
          th_per_entity_cap = tac_cfg_or cfg tc_per_entity_cap WAKE_TAC_DEFAULT_PER_ENTITY_CAP,
          th_corroboration_src_min = tac_cfg_or cfg tc_corroboration_src_min WAKE_TAC_DEFAULT_CORROBORATION_MIN,
          th_tick_seconds = tac_cfg_or cfg tc_tick_seconds WAKE_TAC_DEFAULT_TICK_SECONDS,
          th_quarantine_min_w = tac_cfg_or cfg tc_quarantine_min_w WAKE_TAC_DEFAULT_QUARANTINE_MIN_W\<rparr>)"

definition create_refused :: "wake_tac_header_t \<Rightarrow> bool" where
  "create_refused h \<longleftrightarrow>
     \<not> is_power_of_2 (th_capacity h) \<or> \<not> is_power_of_2 (th_occ_slots h)
   \<or> th_capacity h > WAKE_TAC_MAX_CAPACITY \<or> th_occ_slots h < th_capacity h
   \<or> th_occ_slots h > WAKE_TAC_MAX_CAPACITY
   \<or> th_budget_per_source h > 65535 \<or> th_budget_per_source h < WAKE_TAC_DELTA_MAX
   \<or> th_decay_novel_fp16 h \<ge> 65536 \<or> th_decay_corr_fp16 h \<ge> 65536
   \<or> th_per_entity_cap h = 0 \<or> ucast (th_per_entity_cap h) > WAKE_TAC_PER_ENTITY_CAP_MAX"

definition wake_tac_create ::
  "create_env \<Rightarrow> wake_tac_config_t option \<Rightarrow> pht_error + wake_tac_t" where
  "wake_tac_create env cfg =
     (if create_refused (tac_header cfg (ce_tv_sec env) []) then Inl EINVAL
      else if \<not> ce_open env then Inl Sys
      else if \<not> ce_ftruncate env then Inl Sys
      else if \<not> ce_mmap env then Inl Sys
      else
        case ce_urandom env of
          None \<Rightarrow> Inl Sys
        | Some key \<Rightarrow>
            if length key \<noteq> 16 then Inl EIO
            else if \<not> ce_malloc env then Inl Sys
            else
              let h = tac_header cfg (ce_tv_sec env) key
              in Inr \<lparr>t_header = h,
                      t_entries = replicate (unat (th_capacity h)) zero_tac_entry,
                      t_occ = replicate (unat (th_occ_slots h)) zero_occ,
                      t_map_size = tac_map_size (th_capacity h) (th_occ_slots h)\<rparr>)"

definition open_refused :: "wake_tac_header_t \<Rightarrow> bool" where
  "open_refused h \<longleftrightarrow>
     th_magic h \<noteq> WAKE_TAC_MAGIC \<or> th_format_version h \<noteq> WAKE_TAC_VERSION
   \<or> \<not> is_power_of_2 (th_capacity h) \<or> \<not> is_power_of_2 (th_occ_slots h)
   \<or> th_capacity h > WAKE_TAC_MAX_CAPACITY
   \<or> th_occ_slots h < th_capacity h \<or> th_occ_slots h > WAKE_TAC_MAX_CAPACITY
   \<or> th_mask h \<noteq> ucast (th_capacity h - 1)
   \<or> th_decay_novel_fp16 h = 0 \<or> th_decay_novel_fp16 h \<ge> 65536
   \<or> th_decay_corr_fp16 h = 0 \<or> th_decay_corr_fp16 h \<ge> 65536
   \<or> th_noise_floor h = 0 \<or> th_noise_floor h \<ge> th_budget_per_source h * 5
   \<or> th_budget_per_source h < WAKE_TAC_DELTA_MAX \<or> th_budget_per_source h > 65535
   \<or> th_per_entity_cap h = 0 \<or> ucast (th_per_entity_cap h) > WAKE_TAC_PER_ENTITY_CAP_MAX
   \<or> th_corroboration_src_min h = 0"

text \<open>A file: its size, its header (\<open>None\<close>: a short read), and the two arrays behind it.\<close>

record tac_file =
  tf_size :: nat
  tf_header :: "wake_tac_header_t option"
  tf_entries :: "wake_tac_entry_t list"
  tf_occ :: "wake_tac_occ_t list"

definition wake_tac_open :: "open_env \<Rightarrow> tac_file \<Rightarrow> pht_error + wake_tac_t" where
  "wake_tac_open env file =
     (if \<not> oe_open env then Inl Sys
      else
        case tf_header file of
          None \<Rightarrow> Inl EIO
        | Some h \<Rightarrow>
            if open_refused h then Inl EINVAL
            else
              let map_size = tac_map_size (th_capacity h) (th_occ_slots h)
              in if \<not> oe_fstat env \<or> tf_size file < map_size then Inl EINVAL
                 else if \<not> oe_mmap env then Inl Sys
                 else if \<not> oe_malloc env then Inl Sys
                 else Inr \<lparr>t_header = h, t_entries = take (unat (th_capacity h)) (tf_entries file),
                           t_occ = take (unat (th_occ_slots h)) (tf_occ file),
                           t_map_size = map_size\<rparr>)"

definition wake_tac_reset :: "wake_tac_t option \<Rightarrow> wake_tac_t option" where
  "wake_tac_reset p =
     map_option (\<lambda>t. t\<lparr>t_entries := replicate (unat (th_capacity (t_header t))) zero_tac_entry,
                       t_occ := replicate (unat (th_occ_slots (t_header t))) zero_occ\<rparr>) p"

section \<open>Time and packing\<close>

definition wake_tac_now :: "u64 \<Rightarrow> wake_tac_t \<Rightarrow> u32" where
  "wake_tac_now tv_sec t = current_epoch_seconds tv_sec - th_epoch (t_header t)"

definition wake_tac_pack :: "u16 \<Rightarrow> u8 \<Rightarrow> u32" where
  "wake_tac_pack base sub = ucast base OR push_bit 16 (ucast sub)"

definition k_label_key :: bytes where
  "k_label_key = [0x77, 0x61, 0x6b, 0x65, 0x74, 0x61, 0x63, 0x6c,
                  0x61, 0x62, 0x65, 0x6c, 0x6b, 0x65, 0x79, 0x31]"

definition wake_tac_pack_label :: "bytes \<Rightarrow> u32" where
  "wake_tac_pack_label label =
     (let h = wake_hash_bytes_keyed label k_label_key
      in (ucast h AND 0x00FFFFFF) OR push_bit 24 1)"

definition WAKE_TAC_TECH_BASE :: "u32 \<Rightarrow> u16" where
  "WAKE_TAC_TECH_BASE p = ucast (p AND 0xFFFF)"

definition WAKE_TAC_TECH_SUB :: "u32 \<Rightarrow> u8" where
  "WAKE_TAC_TECH_SUB p = ucast (drop_bit 16 p AND 0xFF)"

definition WAKE_TAC_TECH_FLAGS :: "u32 \<Rightarrow> u8" where
  "WAKE_TAC_TECH_FLAGS p = ucast (drop_bit 24 p AND 0xFF)"

definition WAKE_TAC_DELTA :: "u16 \<Rightarrow> u32" where
  "WAKE_TAC_DELTA eta_fp16 = drop_bit 4 (ucast eta_fp16)"

section \<open>Budgets and quarantine\<close>

definition normalize_source :: "u16 \<Rightarrow> u16" where
  "normalize_source s = (if s = WAKE_TAC_SRC_OTHER then WAKE_TAC_SRC_OTHER - 1 else s)"

fun knows_named :: "wake_tac_budget_t list \<Rightarrow> u16 \<Rightarrow> bool option" where
  "knows_named [] source_id = None"
| "knows_named (b # bs) source_id =
     (if tb_source_id b = source_id then Some True
      else if tb_source_id b = WAKE_TAC_SRC_NONE then Some False
      else knows_named bs source_id)"

definition budget_knows_source :: "wake_tac_entry_t \<Rightarrow> u16 \<Rightarrow> bool" where
  "budget_knows_source e source_id =
     (case knows_named (take WAKE_TAC_BUDGET_NAMED (te_budget e)) source_id of
        Some r \<Rightarrow> r
      | None \<Rightarrow> tb_source_id (te_budget e ! WAKE_TAC_BUDGET_NAMED) \<noteq> WAKE_TAC_SRC_NONE)"

text \<open>
  The result, whether a new source was counted, and the entry.  The loop over the named slots
  returns at the first slot of the source and remembers the first free one.
\<close>

definition budget_charge ::
  "wake_tac_entry_t \<Rightarrow> wake_tac_header_t \<Rightarrow> u16 \<Rightarrow> u32 \<Rightarrow> bool \<times> bool \<times> wake_tac_entry_t" where
  "budget_charge e h source_id delta =
     (let named = take WAKE_TAC_BUDGET_NAMED (te_budget e)
      in case find_index (\<lambda>b. tb_source_id b = source_id) named of
           Some i \<Rightarrow>
             let b = te_budget e ! i
             in if ucast (tb_spent b) + delta > th_budget_per_source h then (False, False, e)
                else (True, False,
                      e\<lparr>te_budget := (te_budget e)[i := b\<lparr>tb_spent := ucast (ucast (tb_spent b) + delta)\<rparr>]\<rparr>)
         | None \<Rightarrow>
             (case find_index (\<lambda>b. tb_source_id b = WAKE_TAC_SRC_NONE) named of
                Some free_named \<Rightarrow>
                  if delta > th_budget_per_source h then (False, False, e)
                  else (True, True,
                        e\<lparr>te_budget := (te_budget e)[free_named :=
                             \<lparr>tb_source_id = source_id, tb_spent = ucast delta\<rparr>]\<rparr>)
              | None \<Rightarrow>
                  let b = te_budget e ! WAKE_TAC_BUDGET_NAMED
                  in if ucast (tb_spent b) + delta > th_budget_per_source h then (False, False, e)
                     else
                       let new_source = (tb_source_id b = WAKE_TAC_SRC_NONE)
                       in (True, new_source,
                           e\<lparr>te_budget := (te_budget e)[WAKE_TAC_BUDGET_NAMED :=
                                \<lparr>tb_source_id = (if new_source then WAKE_TAC_SRC_OTHER else tb_source_id b),
                                 tb_spent = ucast (ucast (tb_spent b) + delta)\<rparr>]\<rparr>)))"

definition top_spent :: "wake_tac_budget_t list \<Rightarrow> u32" where
  "top_spent bs = fold (\<lambda>b top. if ucast (tb_spent b) > top then ucast (tb_spent b) else top) bs 0"

definition quarantine_reassess :: "wake_tac_entry_t \<Rightarrow> wake_tac_header_t \<Rightarrow> wake_tac_entry_t" where
  "quarantine_reassess e h =
     (if th_quarantine_min_w h = 0 \<or> th_quarantine_min_w h = UINT32_MAX then e
      else if te_src_count e \<ge> 2 then e\<lparr>te_quarantine := 0\<rparr>
      else if te_weight e < th_quarantine_min_w h then e
      else if (ucast (top_spent (te_budget e)) :: u64) * 100
                \<ge> ucast (te_weight e) * WAKE_TAC_QUARANTINE_SHARE_PCT
      then e\<lparr>te_quarantine := 1\<rparr>
      else e)"

section \<open>Write path\<close>

text \<open>Strength of the reinforcement: the stronger and the weaker leg, and the force.\<close>

definition edge_strength :: "u16 \<Rightarrow> u16 \<Rightarrow> u16 \<Rightarrow> u16 \<times> u32" where
  "edge_strength w0_eta w1_eta w1_src =
     (let eta_hi = (if w1_src \<noteq> WAKE_TAC_SRC_NONE \<and> w1_eta > w0_eta then w1_eta else w0_eta);
          eta_lo = (if w1_src \<noteq> WAKE_TAC_SRC_NONE \<and> w1_eta < w0_eta then w1_eta else w0_eta);
          delta = WAKE_TAC_DELTA eta_lo
      in (eta_hi, if delta = 0 then 1 else delta))"

text \<open>The updates of an existing edge once its budgets are charged.\<close>

definition strengthen ::
  "wake_tac_header_t \<Rightarrow> u32 \<Rightarrow> u16 \<Rightarrow> u32 \<Rightarrow> bool \<Rightarrow> bool \<Rightarrow> wake_tac_entry_t \<Rightarrow> wake_tac_entry_t" where
  "strengthen h delta eta_hi now_rel ns0 ns1 e =
     (let bump = (if ns0 then 1 else 0) + (if ns1 then 1 else 0) :: u8;
          nsc = (ucast (te_src_count e) :: u32) + ucast bump;
          src_count' =
            (if bump \<noteq> 0 then ucast (if nsc > of_nat WAKE_TAC_BUDGET_SLOTS
                                     then of_nat WAKE_TAC_BUDGET_SLOTS else nsc)
             else te_src_count e)
      in quarantine_reassess
           (e\<lparr>te_weight := te_weight e + delta,
              te_reinf_count := te_reinf_count e + 1,
              te_last_reinf := now_rel,
              te_eta_max_fp16 := atomic_max_u16 (te_eta_max_fp16 e) eta_hi,
              te_src_count := src_count'\<rparr>) h)"

definition reinforce_existing ::
  "wake_tac_header_t \<Rightarrow> u32 \<Rightarrow> u16 \<Rightarrow> u16 \<Rightarrow> u16 \<Rightarrow> u32 \<Rightarrow> wake_tac_entry_t
     \<Rightarrow> wake_tac_result_t \<times> wake_tac_entry_t" where
  "reinforce_existing h delta eta_hi w0_src w1_src now_rel e =
     (if te_quarantine e \<noteq> 0 \<and> budget_knows_source e w0_src
         \<and> (w1_src = WAKE_TAC_SRC_NONE \<or> budget_knows_source e w1_src)
      then (WAKE_TAC_REFUSED_QUARANTINE, e)
      else
        let have2 = (w1_src \<noteq> WAKE_TAC_SRC_NONE \<and> w1_src \<noteq> w0_src);
            (ok0, ns0, e0) = budget_charge e h w0_src delta
        in if \<not> ok0
           then
             (if \<not> have2 then (WAKE_TAC_REFUSED_BUDGET, e)
              else
                let (ok1, ns1, e1) = budget_charge e0 h w1_src delta
                in if \<not> ok1 then (WAKE_TAC_REFUSED_BUDGET, e1)
                   else (WAKE_TAC_APPLIED, strengthen h delta eta_hi now_rel ns0 ns1 e1))
           else if have2
           then
             let (ok1, ns1, e1) = budget_charge e0 h w1_src delta
             in (WAKE_TAC_APPLIED, strengthen h delta eta_hi now_rel ns0 ns1 e1)
           else (WAKE_TAC_APPLIED, strengthen h delta eta_hi now_rel ns0 False e0))"

text \<open>The weakest live edge of the entity in its sidecar list: \<open>victim\<close> and \<open>weakest_w\<close>.\<close>

fun weakest_loop :: "wake_tac_t \<Rightarrow> u64 \<Rightarrow> u32 list \<Rightarrow> u32 \<Rightarrow> u32 \<Rightarrow> u32 \<times> u32" where
  "weakest_loop t ehash [] victim weakest_w = (victim, weakest_w)"
| "weakest_loop t ehash (idx # idxs) victim weakest_w =
     (if idx \<ge> th_capacity (t_header t) then weakest_loop t ehash idxs victim weakest_w
      else
        let c = t_entries t ! unat idx
        in if vacant (te_key_hash c) then weakest_loop t ehash idxs victim weakest_w
           else if te_entity_hash c \<noteq> ehash then weakest_loop t ehash idxs victim weakest_w
           else if te_weight c < weakest_w then weakest_loop t ehash idxs idx (te_weight c)
           else weakest_loop t ehash idxs victim weakest_w)"

definition weakest_edge :: "wake_tac_t \<Rightarrow> u64 \<Rightarrow> u32 \<times> u32" where
  "weakest_edge t ehash =
     (case fst (occ_find t ehash False) of
        None \<Rightarrow> (UINT32_MAX, UINT32_MAX)
      | Some j \<Rightarrow>
          let oc = t_occ t ! j; n = to_live_count oc;
              n' = (if n > WAKE_TAC_PER_ENTITY_CAP_MAX then WAKE_TAC_PER_ENTITY_CAP_MAX else n)
          in weakest_loop t ehash (take (unat n') (to_slot oc)) UINT32_MAX UINT32_MAX)"

text \<open>The first vacant slot of the probe sequence.\<close>

fun claim_loop :: "wake_tac_t \<Rightarrow> u64 \<Rightarrow> nat list \<Rightarrow> u32" where
  "claim_loop t slot_key [] = UINT32_MAX"
| "claim_loop t slot_key (p # ps) =
     (let idx = tac_idx t slot_key p; cur = te_key_hash (t_entries t ! unat idx)
      in if cur \<noteq> SLOT_EMPTY \<and> cur \<noteq> SLOT_TOMBSTONE then claim_loop t slot_key ps else idx)"

definition retire_victim :: "u64 \<Rightarrow> u32 \<Rightarrow> wake_tac_t \<Rightarrow> wake_tac_t" where
  "retire_victim ehash victim t =
     (if victim \<noteq> UINT32_MAX
      then occ_del_slot
             (put_tac (unat victim)
                ((t_entries t ! unat victim)\<lparr>te_weight := 0, te_key_hash := SLOT_TOMBSTONE\<rparr>) t)
             ehash victim
      else t)"

text \<open>The new edge, with its weight still 0.\<close>

definition build_edge ::
  "wake_tac_header_t \<Rightarrow> u64 \<Rightarrow> bytes \<Rightarrow> u32 \<Rightarrow> u32 \<Rightarrow> u16 \<Rightarrow> u32 \<Rightarrow> u16 \<Rightarrow> u16 \<Rightarrow> u32
     \<Rightarrow> wake_tac_entry_t \<Rightarrow> wake_tac_entry_t" where
  "build_edge h ehash key t_lo t_hi eta_hi delta w0_src w1_src now_rel e =
     (let e1 = e\<lparr>te_weight := 0, te_t_lo := t_lo, te_t_hi := t_hi, te_reinf_count := 1,
                 te_last_reinf := now_rel, te_eta_max_fp16 := eta_hi, te_quarantine := 0,
                 te_first_seen := now_rel, te_budget := replicate 5 zero_budget\<rparr>;
          (_, ns0, e2) = budget_charge e1 h w0_src delta;
          (ns1, e3) = (if w1_src \<noteq> WAKE_TAC_SRC_NONE \<and> w1_src \<noteq> w0_src
                       then snd (budget_charge e2 h w1_src delta) else (False, e2));
          ilen = (if length key > WAKE_TAC_IDENT_MAX then WAKE_TAC_IDENT_MAX else length key)
      in e3\<lparr>te_src_count := (if ns0 then 1 else 0) + (if ns1 then 1 else 0),
            te_version := write_version (te_version e3) + 1,
            te_entity_hash := ehash,
            te_ident_len := of_nat ilen,
            te_ident_flags := (if length key > WAKE_TAC_IDENT_MAX then 1 else 0),
            te_ident := take ilen key @ replicate (WAKE_TAC_IDENT_MAX - ilen) 0\<rparr>)"

definition insert_edge ::
  "wake_tac_t \<Rightarrow> u64 \<Rightarrow> bytes \<Rightarrow> u32 \<Rightarrow> u32 \<Rightarrow> u16 \<Rightarrow> u32 \<Rightarrow> u16 \<Rightarrow> u16 \<Rightarrow> u32 \<Rightarrow> u64
     \<Rightarrow> wake_tac_result_t \<times> wake_tac_t" where
  "insert_edge t ehash key t_lo t_hi eta_hi delta w0_src w1_src now_rel slot_key =
     (let h = t_header t;
          at_cap = (occ_count t ehash \<ge> ucast (th_per_entity_cap h));
          (victim, weakest_w) = (if at_cap then weakest_edge t ehash else (UINT32_MAX, UINT32_MAX))
      in if at_cap \<and> (victim = UINT32_MAX \<or> delta \<le> weakest_w) then (WAKE_TAC_REFUSED_CAP, t)
         else
           let claimed = claim_loop t slot_key [0..<WAKE_TAC_PROBE_MAX]
           in if claimed = UINT32_MAX then (WAKE_TAC_TABLE_FULL, t)
              else
                let t1 = put_tac (unat claimed)
                           ((t_entries t ! unat claimed)\<lparr>te_key_hash := slot_key\<rparr>) t;
                    t2 = retire_victim ehash victim t1;
                    e = build_edge h ehash key t_lo t_hi eta_hi delta w0_src w1_src now_rel
                          (t_entries t2 ! unat claimed);
                    t3 = put_tac (unat claimed) e t2;
                    (ok, t4) = occ_add_slot t3 ehash claimed
                in if \<not> ok
                   then (WAKE_TAC_REFUSED_CAP,
                         put_tac (unat claimed) (e\<lparr>te_key_hash := SLOT_TOMBSTONE\<rparr>) t4)
                   else (WAKE_TAC_APPLIED, put_tac (unat claimed) (e\<lparr>te_weight := delta\<rparr>) t4))"

definition apply_edge ::
  "wake_tac_t \<Rightarrow> u64 \<Rightarrow> bytes \<Rightarrow> u32 \<Rightarrow> u32 \<Rightarrow> u16 \<Rightarrow> u16 \<Rightarrow> u16 \<Rightarrow> u16 \<Rightarrow> u32
     \<Rightarrow> wake_tac_result_t \<times> wake_tac_t" where
  "apply_edge t ehash key t_lo t_hi w0_eta w0_src w1_eta w1_src now_rel =
     (let (eta_hi, delta) = edge_strength w0_eta w1_eta w1_src;
          slot_key = slot_hash_of t ehash t_lo t_hi;
          existing = find_slot t slot_key
      in if existing \<noteq> UINT32_MAX
         then
           let (r, e) = reinforce_existing (t_header t) delta eta_hi w0_src w1_src now_rel
                          (t_entries t ! unat existing)
           in (r, put_tac (unat existing) e t)
         else insert_edge t ehash key t_lo t_hi eta_hi delta w0_src w1_src now_rel slot_key)"

text \<open>\<open>None\<close> for the key is a NULL pointer.\<close>

definition wake_tac_reinforce ::
  "wake_tac_t \<Rightarrow> bytes option \<Rightarrow> u32 \<Rightarrow> u32 \<Rightarrow> u16 \<Rightarrow> u16 \<Rightarrow> u32 \<Rightarrow> wake_tac_result_t \<times> wake_tac_t" where
  "wake_tac_reinforce t entity_key t_a t_b eta_fp16 source_id now_rel =
     (case entity_key of
        None \<Rightarrow> (WAKE_TAC_INVALID, t)
      | Some key \<Rightarrow>
          if length key = 0 \<or> source_id = WAKE_TAC_SRC_NONE \<or> t_a = t_b then (WAKE_TAC_INVALID, t)
          else
            let t_lo = (if t_a < t_b then t_a else t_b);
                t_hi = (if t_a < t_b then t_b else t_a)
            in apply_edge t (entity_hash_of t key) key t_lo t_hi eta_fp16 (normalize_source source_id)
                 0 WAKE_TAC_SRC_NONE now_rel)"

text \<open>The pairs \<open>(i, j)\<close>, \<open>i < j\<close>, in the order of the two loops.\<close>

definition index_pairs :: "nat \<Rightarrow> (nat \<times> nat) list" where
  "index_pairs n = concat (map (\<lambda>i. map (\<lambda>j. (i, j)) [Suc i..<n]) [0..<n])"

fun batch_loop ::
  "u64 \<Rightarrow> bytes \<Rightarrow> wake_tac_activation_t list \<Rightarrow> u32 \<Rightarrow> (nat \<times> nat) list \<Rightarrow> u32 \<Rightarrow> wake_tac_t
     \<Rightarrow> u32 \<times> wake_tac_t" where
  "batch_loop ehash key acts now_rel [] applied t = (applied, t)"
| "batch_loop ehash key acts now_rel ((i, j) # ps) applied t =
     (let x = acts ! i; y = acts ! j; a = ta_technique x; b = ta_technique y
      in if ta_source_id x = WAKE_TAC_SRC_NONE \<or> ta_source_id y = WAKE_TAC_SRC_NONE \<or> a = b
         then batch_loop ehash key acts now_rel ps applied t
         else
           let (r, t') = apply_edge t ehash key (if a < b then a else b) (if a < b then b else a)
                           (ta_eta_fp16 x) (normalize_source (ta_source_id x))
                           (ta_eta_fp16 y) (normalize_source (ta_source_id y)) now_rel
           in batch_loop ehash key acts now_rel ps
                (if r = WAKE_TAC_APPLIED then applied + 1 else applied) t')"

definition wake_tac_reinforce_batch ::
  "wake_tac_t \<Rightarrow> bytes option \<Rightarrow> wake_tac_activation_t list option \<Rightarrow> u32 \<Rightarrow> u32 \<times> wake_tac_t" where
  "wake_tac_reinforce_batch t entity_key acts now_rel =
     (case (entity_key, acts) of
        (Some key, Some as) \<Rightarrow>
          if length key = 0 \<or> length as < 2 then (0, t)
          else batch_loop (entity_hash_of t key) key as now_rel (index_pairs (length as)) 0 t
      | _ \<Rightarrow> (0, t))"

section \<open>Decay\<close>

definition clear_occ :: "wake_tac_t \<Rightarrow> wake_tac_t" where
  "clear_occ t = t\<lparr>t_occ := map (\<lambda>oc. oc\<lparr>to_live_count := 0, to_entity_hash := 0\<rparr>) (t_occ t)\<rparr>"

definition decayed_weight :: "wake_tac_header_t \<Rightarrow> wake_tac_entry_t \<Rightarrow> u32" where
  "decayed_weight h e =
     (let factor = (if edge_corroborated h (te_src_count e) (te_eta_max_fp16 e)
                    then th_decay_corr_fp16 h else th_decay_novel_fp16 h)
      in ucast (drop_bit 16 ((ucast (te_weight e) :: u64) * ucast factor)))"

fun tac_decay_loop :: "nat list \<Rightarrow> u32 \<Rightarrow> wake_tac_t \<Rightarrow> u32 \<times> wake_tac_t" where
  "tac_decay_loop [] evicted t = (evicted, t)"
| "tac_decay_loop (i # is) evicted t =
     (let e = t_entries t ! i
      in if vacant (te_key_hash e) then tac_decay_loop is evicted t
         else
           let nw = decayed_weight (t_header t) e
           in if nw < th_noise_floor (t_header t)
              then tac_decay_loop is (evicted + 1) (put_tac i (e\<lparr>te_key_hash := SLOT_TOMBSTONE\<rparr>) t)
              else
                let t1 = put_tac i (e\<lparr>te_weight := nw\<rparr>) t;
                    (_, t2) = occ_add_slot t1 (te_entity_hash e) (of_nat i)
                in tac_decay_loop is evicted t2)"

definition wake_tac_decay :: "wake_tac_t \<Rightarrow> u32 \<times> wake_tac_t" where
  "wake_tac_decay t = tac_decay_loop [0..<unat (th_capacity (t_header t))] 0 (clear_occ t)"

section \<open>Read path\<close>

record wake_tac_edge_t =
  ed_t_lo :: u32
  ed_t_hi :: u32
  ed_weight :: u32
  ed_eta_max_fp16 :: u16
  ed_src_count :: u8
  ed_quarantine :: u8

record wake_tac_snapshot_t =
  sn_coupling_mass :: u32
  sn_edge_count :: u32
  sn_top :: "wake_tac_edge_t list"

record wake_tac_input_t =
  ti_technique :: u32
  ti_input_fp16 :: u32

record wake_tac_stats_t =
  ts_capacity :: u32
  ts_occupied :: u32
  ts_tombstones :: u32
  ts_entities_at_cap :: u32
  ts_quarantined :: u32
  ts_max_probe_len :: u32
  ts_total_weight :: u64

text \<open>\<open>tops\<close> is the filled prefix of the array, its length \<open>top_count\<close>.\<close>

definition top_insert :: "wake_tac_edge_t list \<Rightarrow> wake_tac_edge_t \<Rightarrow> wake_tac_edge_t list" where
  "top_insert tops cand =
     (if length tops < WAKE_TAC_QUERY_TOP_MAX then tops @ [cand]
      else
        let min_i = scan_best (\<lambda>x y. ed_weight x < ed_weight y) tops
        in if ed_weight cand > ed_weight (tops ! min_i) then tops[min_i := cand] else tops)"

definition edge_of :: "wake_tac_entry_t \<Rightarrow> wake_tac_edge_t" where
  "edge_of e = \<lparr>ed_t_lo = te_t_lo e, ed_t_hi = te_t_hi e, ed_weight = te_weight e,
     ed_eta_max_fp16 = te_eta_max_fp16 e, ed_src_count = te_src_count e, ed_quarantine = 0\<rparr>"

definition query_step :: "u64 \<Rightarrow> wake_tac_entry_t \<Rightarrow> wake_tac_snapshot_t \<Rightarrow> wake_tac_snapshot_t" where
  "query_step ehash e out =
     (if vacant (te_key_hash e) then out
      else if te_weight e = 0 then out
      else if te_entity_hash e \<noteq> ehash then out
      else if te_quarantine e \<noteq> 0 then out
      else out\<lparr>sn_coupling_mass := sn_coupling_mass out + te_weight e,
               sn_edge_count := sn_edge_count out + 1,
               sn_top := top_insert (sn_top out) (edge_of e)\<rparr>)"

text \<open>\<open>None\<close>: the query returns false without touching the output (NULL key or output, empty key).\<close>

definition wake_tac_query :: "wake_tac_t \<Rightarrow> bytes option \<Rightarrow> bool \<Rightarrow> (bool \<times> wake_tac_snapshot_t) option" where
  "wake_tac_query t entity_key out_ok =
     (case entity_key of
        None \<Rightarrow> None
      | Some key \<Rightarrow>
          if length key = 0 \<or> \<not> out_ok then None
          else
            let out = fold (query_step (entity_hash_of t key)) (t_entries t)
                        \<lparr>sn_coupling_mass = 0, sn_edge_count = 0, sn_top = []\<rparr>
            in Some (sn_edge_count out > 0, out))"

text \<open>The last position of each end of the edge among the activations that are routed.\<close>

definition route_ends :: "wake_tac_activation_t list \<Rightarrow> u32 \<Rightarrow> u32 \<Rightarrow> nat \<Rightarrow> nat option \<times> nat option
    \<Rightarrow> nat option \<times> nat option" where
  "route_ends acts el eh k ends =
     (if ta_technique (acts ! k) = el then (Some k, snd ends)
      else if ta_technique (acts ! k) = eh then (fst ends, Some k)
      else ends)"

definition route_step ::
  "u64 \<Rightarrow> wake_tac_activation_t list \<Rightarrow> nat \<Rightarrow> wake_tac_entry_t \<Rightarrow> u64 list \<Rightarrow> u64 list" where
  "route_step ehash acts m e acc =
     (if vacant (te_key_hash e) then acc
      else if te_weight e = 0 \<or> te_quarantine e \<noteq> 0 then acc
      else if te_entity_hash e \<noteq> ehash then acc
      else
        case fold (route_ends acts (te_t_lo e) (te_t_hi e)) [0..<m] (None, None) of
          (Some xi, Some xj) \<Rightarrow>
            let w = ucast (te_weight e) :: u64;
                acc1 = acc[xi := acc ! xi + drop_bit 16 (w * ucast (ta_eta_fp16 (acts ! xj)))]
            in acc1[xj := acc1 ! xj + drop_bit 16 (w * ucast (ta_eta_fp16 (acts ! xi)))]
        | _ \<Rightarrow> acc)"

definition saturate_input :: "u64 \<Rightarrow> u32" where
  "saturate_input a = (if a > ucast UINT32_MAX then UINT32_MAX else ucast a)"

definition wake_tac_route ::
  "wake_tac_t \<Rightarrow> bytes option \<Rightarrow> wake_tac_activation_t list option \<Rightarrow> nat option
     \<Rightarrow> wake_tac_input_t list" where
  "wake_tac_route t entity_key acts out_cap =
     (case (entity_key, acts, out_cap) of
        (Some key, Some as, Some cap) \<Rightarrow>
          if length key = 0 \<or> cap = 0 then []
          else
            let m0 = (if length as < cap then length as else cap);
                m = (if m0 > WAKE_TAC_QUERY_TOP_MAX then WAKE_TAC_QUERY_TOP_MAX else m0);
                acc = fold (route_step (entity_hash_of t key) as m) (t_entries t) (replicate m 0)
            in map (\<lambda>k. \<lparr>ti_technique = ta_technique (as ! k), ti_input_fp16 = saturate_input (acc ! k)\<rparr>)
                 [0..<m]
      | _ \<Rightarrow> [])"

text \<open>With a buffer for the result; the source returns false for a NULL buffer.\<close>

definition wake_tac_read_entry :: "wake_tac_t \<Rightarrow> u32 \<Rightarrow> wake_tac_entry_t option" where
  "wake_tac_read_entry t slot =
     (if slot \<ge> th_capacity (t_header t) then None
      else
        let e = t_entries t ! unat slot
        in if vacant (te_key_hash e) then None
           else if te_weight e = 0 then None
           else Some (zero_tac_entry\<lparr>te_key_hash := te_key_hash e, te_weight := te_weight e,
                   te_reinf_count := te_reinf_count e, te_last_reinf := te_last_reinf e,
                   te_t_lo := te_t_lo e, te_t_hi := te_t_hi e, te_eta_max_fp16 := te_eta_max_fp16 e,
                   te_src_count := te_src_count e, te_quarantine := te_quarantine e,
                   te_first_seen := te_first_seen e, te_entity_hash := te_entity_hash e\<rparr>))"

fun tac_iterate_loop ::
  "wake_tac_t \<Rightarrow> (wake_tac_entry_t \<Rightarrow> 'c \<Rightarrow> bool \<times> 'c) \<Rightarrow> nat list \<Rightarrow> u32 \<Rightarrow> 'c \<Rightarrow> u32 \<times> 'c" where
  "tac_iterate_loop t fn [] n ctx = (n, ctx)"
| "tac_iterate_loop t fn (i # is) n ctx =
     (case wake_tac_read_entry t (of_nat i) of
        None \<Rightarrow> tac_iterate_loop t fn is n ctx
      | Some snap \<Rightarrow>
          let (go, ctx') = fn snap ctx
          in if go then tac_iterate_loop t fn is (n + 1) ctx' else (n + 1, ctx'))"

definition wake_tac_iterate ::
  "wake_tac_t \<Rightarrow> (wake_tac_entry_t \<Rightarrow> 'c \<Rightarrow> bool \<times> 'c) \<Rightarrow> 'c \<Rightarrow> u32 \<times> 'c" where
  "wake_tac_iterate t fn ctx = tac_iterate_loop t fn [0..<unat (th_capacity (t_header t))] 0 ctx"

definition tac_stats_entry :: "wake_tac_entry_t \<Rightarrow> wake_tac_stats_t \<Rightarrow> wake_tac_stats_t" where
  "tac_stats_entry e out =
     (if te_key_hash e = SLOT_EMPTY then out
      else if te_key_hash e = SLOT_TOMBSTONE then out\<lparr>ts_tombstones := ts_tombstones out + 1\<rparr>
      else
        let out1 = out\<lparr>ts_occupied := ts_occupied out + 1,
                       ts_total_weight := ts_total_weight out + ucast (te_weight e)\<rparr>
        in if te_quarantine e \<noteq> 0 then out1\<lparr>ts_quarantined := ts_quarantined out1 + 1\<rparr> else out1)"

definition tac_stats_occ :: "u16 \<Rightarrow> wake_tac_occ_t \<Rightarrow> wake_tac_stats_t \<Rightarrow> wake_tac_stats_t" where
  "tac_stats_occ cap oc out =
     (if to_entity_hash oc = 0 then out
      else if to_live_count oc \<ge> ucast cap
      then out\<lparr>ts_entities_at_cap := ts_entities_at_cap out + 1\<rparr> else out)"

definition wake_tac_stats :: "wake_tac_t \<Rightarrow> wake_tac_stats_t" where
  "wake_tac_stats t =
     fold (tac_stats_occ (th_per_entity_cap (t_header t))) (t_occ t)
       (fold tac_stats_entry (t_entries t)
          \<lparr>ts_capacity = th_capacity (t_header t), ts_occupied = 0, ts_tombstones = 0,
           ts_entities_at_cap = 0, ts_quarantined = 0, ts_max_probe_len = 0, ts_total_weight = 0\<rparr>)"

end
