(* ===== verification/Wake_Tac_Budget.thy ===== *)
theory Wake_Tac_Budget
  imports Wake_Tac
begin

text \<open>
  Per-source budgets of one edge of the coupling table: what a charge does, that the number of
  counted sources never exceeds the number of distinct sources, and that the weight of an edge never
  exceeds what its sources have spent.
\<close>

section \<open>Well-formed budgets\<close>

definition sources :: "wake_tac_budget_t list \<Rightarrow> u16 list" where
  "sources bs = map tb_source_id bs"

definition used :: "wake_tac_budget_t list \<Rightarrow> nat" where
  "used bs = length (filter (\<lambda>s. s \<noteq> WAKE_TAC_SRC_NONE) (sources bs))"

definition total_spent :: "wake_tac_budget_t list \<Rightarrow> nat" where
  "total_spent bs = sum_list (map (\<lambda>b. unat (tb_spent b)) bs)"

text \<open>
  Four named slots, filled from the left with distinct sources, and the overflow bucket, used only
  when the named slots are full.
\<close>

definition sources_ok :: "u16 list \<Rightarrow> bool" where
  "sources_ok ss \<longleftrightarrow> length ss = 5
     \<and> (\<forall>i j. i < j \<longrightarrow> j < 4 \<longrightarrow> ss ! i = WAKE_TAC_SRC_NONE \<longrightarrow> ss ! j = WAKE_TAC_SRC_NONE)
     \<and> (\<forall>i j. i < j \<longrightarrow> j < 4 \<longrightarrow> ss ! i \<noteq> WAKE_TAC_SRC_NONE \<longrightarrow> ss ! i \<noteq> ss ! j)
     \<and> (ss ! 4 \<noteq> WAKE_TAC_SRC_NONE \<longrightarrow> (\<forall>i<4. ss ! i \<noteq> WAKE_TAC_SRC_NONE))"

text \<open>Moreover no slot has spent more than the limit, and a free slot nothing.\<close>

definition budget_ok :: "nat \<Rightarrow> wake_tac_budget_t list \<Rightarrow> bool" where
  "budget_ok lim bs \<longleftrightarrow> sources_ok (sources bs)
     \<and> (\<forall>b\<in>set bs. unat (tb_spent b) \<le> lim
          \<and> (tb_source_id b = WAKE_TAC_SRC_NONE \<longrightarrow> tb_spent b = 0))"

text \<open>The sources \<open>S\<close> account for every slot in use.\<close>

definition accounted :: "u16 set \<Rightarrow> u16 list \<Rightarrow> bool" where
  "accounted S ss \<longleftrightarrow>
     (\<forall>i<4. ss ! i \<noteq> WAKE_TAC_SRC_NONE \<longrightarrow> ss ! i \<in> S)
   \<and> (ss ! 4 \<noteq> WAKE_TAC_SRC_NONE \<longrightarrow> (\<exists>s\<in>S. \<forall>i<4. ss ! i \<noteq> s))"

lemma less_4: "(\<forall>i<4. P i) \<longleftrightarrow> P 0 \<and> P 1 \<and> P 2 \<and> P (3 :: nat)"
  by (auto simp: numeral_eq_Suc less_Suc_eq)

lemma pairs_4:
  "(\<forall>i j. i < j \<longrightarrow> j < 4 \<longrightarrow> P i j) \<longleftrightarrow> P 0 1 \<and> P 0 2 \<and> P 0 3 \<and> P 1 2 \<and> P 1 3 \<and> P 2 (3 :: nat)"
  by (auto simp: numeral_eq_Suc less_Suc_eq)

lemma five_slots:
  assumes "length ss = 5"
  obtains a b c d e where "ss = [a, b, c, d, e]"
  using assms by (auto simp: numeral_eq_Suc length_Suc_conv)

lemma length_sources [simp]: "length (sources bs) = length bs"
  by (simp add: sources_def)

lemma nth_sources: "i < length bs \<Longrightarrow> sources bs ! i = tb_source_id (bs ! i)"
  by (simp add: sources_def)

lemma accounted_mono: "accounted S ss \<Longrightarrow> S \<subseteq> T \<Longrightarrow> accounted T ss"
  unfolding accounted_def by blast

text \<open>As many distinct sources as slots in use.\<close>

lemma used_le_card:
  assumes "sources_ok ss" "accounted S ss" "finite S"
  shows "length (filter (\<lambda>s. s \<noteq> WAKE_TAC_SRC_NONE) ss) \<le> card S"
proof -
  have "length ss = 5" using assms(1) by (simp add: sources_ok_def)
  then obtain a b c d e where ss: "ss = [a, b, c, d, e]" by (rule five_slots)
  define n where "n = filter (\<lambda>s. s \<noteq> WAKE_TAC_SRC_NONE) [a, b, c, d]"
  have dist: "distinct n" and sub: "set n \<subseteq> S"
    using assms(1,2) by (auto simp: n_def ss sources_ok_def accounted_def less_4 pairs_4)
  have split: "filter (\<lambda>s. s \<noteq> WAKE_TAC_SRC_NONE) ss = n @ filter (\<lambda>s. s \<noteq> WAKE_TAC_SRC_NONE) [e]"
    unfolding n_def filter_append [symmetric] by (simp add: ss)
  show ?thesis
  proof (cases "e = WAKE_TAC_SRC_NONE")
    case True
    then show ?thesis
      using card_mono [OF assms(3) sub] distinct_card [OF dist] by (simp add: split)
  next
    case False
    with assms(2) obtain x where "x \<in> S" "\<forall>i<4. ss ! i \<noteq> x"
      by (auto simp: ss accounted_def)
    then have x: "x \<in> S" "x \<notin> set n"
      by (auto simp: n_def ss less_4)
    with sub have "insert x (set n) \<subseteq> S" by simp
    from card_mono [OF assms(3) this] x(2) distinct_card [OF dist] False show ?thesis
      by (simp add: split)
  qed
qed

lemma charge_fits:
  assumes "\<not> ucast (sp :: u16) + delta > (lim :: u32)" "lim \<le> 65535" "delta \<le> WAKE_TAC_DELTA_MAX"
  shows "unat (ucast (ucast sp + delta) :: u16) = unat sp + unat delta" "unat sp + unat delta \<le> unat lim"
proof -
  have d: "unat delta \<le> 4095" using assms(3) by (simp add: word_le_nat_alt)
  have sp: "unat sp < 65536" by (rule unat_u16_less)
  have sum: "unat (ucast sp + delta) = unat sp + unat delta"
    using d sp by (simp add: unat_word_ariths)
  with assms(1) show le: "unat sp + unat delta \<le> unat lim"
    by (simp add: not_less word_le_nat_alt)
  moreover have "unat lim \<le> 65535" using assms(2) by (simp add: word_le_nat_alt)
  ultimately show "unat (ucast (ucast sp + delta) :: u16) = unat sp + unat delta"
    by (simp add: unsigned_ucast_eq sum take_bit_nat_eq_self)
qed

lemma delta_fits:
  assumes "delta \<le> WAKE_TAC_DELTA_MAX"
  shows "unat (ucast delta :: u16) = unat delta"
proof -
  have "unat delta \<le> 4095" using assms by (simp add: word_le_nat_alt)
  then show ?thesis by (simp add: unsigned_ucast_eq take_bit_nat_eq_self)
qed

section \<open>Charging\<close>

text \<open>
  What a charge of \<open>delta\<close> to source \<open>s\<close> does: refused, it changes nothing; accepted, it adds
  \<open>delta\<close> to what has been spent, and it counts a source only if \<open>s\<close> is not accounted for.
\<close>

definition charged :: "nat \<Rightarrow> u16 \<Rightarrow> u32 \<Rightarrow> wake_tac_entry_t \<Rightarrow> bool \<times> bool \<times> wake_tac_entry_t \<Rightarrow> bool" where
  "charged lim s delta e r \<longleftrightarrow>
     (case r of (ok, ns, e') \<Rightarrow> \<exists>bs'. e' = e\<lparr>te_budget := bs'\<rparr> \<and> budget_ok lim bs'
        \<and> used bs' = used (te_budget e) + (if ns then 1 else 0)
        \<and> total_spent bs' = total_spent (te_budget e) + (if ok then unat delta else 0)
        \<and> (\<not> ok \<longrightarrow> bs' = te_budget e \<and> \<not> ns)
        \<and> (\<forall>S. accounted S (sources (te_budget e)) \<longrightarrow> accounted (insert s S) (sources bs')))"

lemma charged_refuse:
  assumes "budget_ok lim (te_budget e)"
  shows "charged lim s delta e (False, False, e)"
  using assms unfolding charged_def
  by (auto intro!: exI [of _ "te_budget e"] elim!: accounted_mono)

text \<open>A write of one slot that adds \<open>delta\<close> to what it has spent.\<close>

lemma charged_update:
  assumes ok: "budget_ok lim (te_budget e)" and i: "i < 5"
    and sp: "unat (tb_spent b) = unat (tb_spent (te_budget e ! i)) + unat delta" "unat (tb_spent b) \<le> lim"
    and src: "sources_ok ((sources (te_budget e))[i := tb_source_id b])"
      "\<And>S. accounted S (sources (te_budget e)) \<Longrightarrow> accounted (insert s S) ((sources (te_budget e))[i := tb_source_id b])"
      "tb_source_id b \<noteq> WAKE_TAC_SRC_NONE" "ns \<longleftrightarrow> tb_source_id (te_budget e ! i) = WAKE_TAC_SRC_NONE"
  shows "charged lim s delta e (True, ns, e\<lparr>te_budget := (te_budget e)[i := b]\<rparr>)"
proof -
  let ?bs = "te_budget e" and ?bs' = "(te_budget e)[i := b]"
  have len: "length ?bs = 5" using ok by (simp add: budget_ok_def sources_ok_def)
  have srcs: "sources ?bs' = (sources ?bs)[i := tb_source_id b]" by (simp add: sources_def map_update)
  have "budget_ok lim ?bs'"
    using ok src(1,3) sp(2) set_update_subset_insert [of ?bs i b]
    by (auto simp: budget_ok_def srcs)
  moreover have "total_spent ?bs' = total_spent ?bs + unat delta"
  proof -
    have "map (\<lambda>b. unat (tb_spent b)) ?bs' = (map (\<lambda>b. unat (tb_spent b)) ?bs)[i := unat (tb_spent b)]"
      by (simp add: map_update)
    moreover have "unat (tb_spent (?bs ! i)) \<le> sum_list (map (\<lambda>b. unat (tb_spent b)) ?bs)"
      using i len by (intro member_le_sum_list) auto
    ultimately show ?thesis
      using i len sp(1) by (simp add: total_spent_def sum_list_update)
  qed
  moreover have "used ?bs' = used ?bs + (if ns then 1 else 0)"
    using length_filter_update [of i "sources ?bs" "\<lambda>s. s \<noteq> WAKE_TAC_SRC_NONE" "tb_source_id b"] i len src(3,4)
    by (auto simp: used_def srcs nth_sources split: if_splits)
  ultimately show ?thesis
    using src(2) unfolding charged_def by (auto simp: srcs)
qed

text \<open>The three ways a charge is accepted.\<close>

lemma charged_named:
  assumes ok: "budget_ok lim (te_budget e)" and i: "i < 4" "tb_source_id (te_budget e ! i) = s"
    and s: "s \<noteq> WAKE_TAC_SRC_NONE" and b: "tb_source_id b = s"
    and sp: "unat (tb_spent b) = unat (tb_spent (te_budget e ! i)) + unat delta" "unat (tb_spent b) \<le> lim"
  shows "charged lim s delta e (True, False, e\<lparr>te_budget := (te_budget e)[i := b]\<rparr>)"
proof (rule charged_update [OF ok _ sp])
  have len: "length (te_budget e) = 5" using ok by (simp add: budget_ok_def sources_ok_def)
  then have same: "(sources (te_budget e))[i := tb_source_id b] = sources (te_budget e)"
    using i b by (simp add: nth_sources list_update_same_conv)
  with ok show "sources_ok ((sources (te_budget e))[i := tb_source_id b])"
    by (simp add: budget_ok_def)
  show "accounted (insert s S) ((sources (te_budget e))[i := tb_source_id b])"
    if "accounted S (sources (te_budget e))" for S
    using that unfolding same by (rule accounted_mono) blast
qed (use i s b in simp_all)

lemma sources_named_free:
  assumes "sources_ok ss" "i < 4" "ss ! i = WAKE_TAC_SRC_NONE"
    and "\<forall>j<4. j < i \<longrightarrow> ss ! j \<noteq> WAKE_TAC_SRC_NONE"
    and "s \<notin> set (take 4 ss)" "s \<noteq> WAKE_TAC_SRC_NONE"
  shows "sources_ok (ss[i := s])" "accounted S ss \<Longrightarrow> accounted (insert s S) (ss[i := s])"
proof -
  have "length ss = 5" using assms(1) by (simp add: sources_ok_def)
  then obtain a b c d e where ss: "ss = [a, b, c, d, e]" by (rule five_slots)
  from assms(2) have i: "i = 0 \<or> i = 1 \<or> i = 2 \<or> i = 3" by linarith
  then show "sources_ok (ss[i := s])"
    by (elim disjE) (use assms in \<open>auto simp: ss sources_ok_def pairs_4 less_4\<close>)
  from i have "e = WAKE_TAC_SRC_NONE"
    by (elim disjE) (use assms(1,3) in \<open>simp_all add: ss sources_ok_def less_4\<close>)
  with i show "accounted S ss \<Longrightarrow> accounted (insert s S) (ss[i := s])"
    by (elim disjE) (use assms(5,6) in \<open>simp_all add: ss accounted_def less_4\<close>)
qed

lemma sources_overflow:
  assumes "sources_ok ss" "\<forall>i<4. ss ! i \<noteq> WAKE_TAC_SRC_NONE"
    and "s \<notin> set (take 4 ss)" "x \<noteq> WAKE_TAC_SRC_NONE"
  shows "sources_ok (ss[4 := x])" "accounted S ss \<Longrightarrow> accounted (insert s S) (ss[4 := x])"
proof -
  have "length ss = 5" using assms(1) by (simp add: sources_ok_def)
  then obtain a b c d e where ss: "ss = [a, b, c, d, e]" by (rule five_slots)
  from assms(1,2,4) show "sources_ok (ss[4 := x])"
    unfolding sources_ok_def pairs_4 less_4 ss by auto
  from assms(3) show "accounted S ss \<Longrightarrow> accounted (insert s S) (ss[4 := x])"
    unfolding accounted_def less_4 ss by auto
qed

lemma set_take_sources: "set (take 4 (sources bs)) = tb_source_id ` set (take 4 bs)"
  by (simp add: sources_def take_map)

lemma budget_charge_charged:
  assumes ok: "budget_ok (unat (th_budget_per_source h)) (te_budget e)"
    and h: "th_budget_per_source h \<le> 65535" and d: "delta \<le> WAKE_TAC_DELTA_MAX"
    and s: "s \<noteq> WAKE_TAC_SRC_NONE"
  shows "charged (unat (th_budget_per_source h)) s delta e (budget_charge e h s delta)"
proof -
  define bs where "bs = te_budget e"
  define known where "known = find_index (\<lambda>b. tb_source_id b = s) (take 4 bs)"
  define free where "free = find_index (\<lambda>b. tb_source_id b = WAKE_TAC_SRC_NONE) (take 4 bs)"
  have len: "length bs = 5" and so: "sources_ok (sources bs)"
    using ok by (simp_all add: bs_def budget_ok_def sources_ok_def)
  have unused: "tb_spent (bs ! i) = 0" if "i < 5" "tb_source_id (bs ! i) = WAKE_TAC_SRC_NONE" for i
    using ok that len by (simp add: bs_def budget_ok_def)
  note defs = budget_charge_def Let_def bs_def [symmetric] known_def [symmetric] free_def [symmetric]
  show ?thesis
  proof (cases known)
    case (Some i)
    then have i: "i < 4" "tb_source_id (bs ! i) = s"
      using len by (auto simp: known_def find_index_Some_iff)
    show ?thesis
    proof (cases "ucast (tb_spent (bs ! i)) + delta > th_budget_per_source h")
      case True
      then show ?thesis using charged_refuse [OF ok] Some by (simp add: defs)
    next
      case False
      note fit = charge_fits [OF False h d]
      have "charged (unat (th_budget_per_source h)) s delta e (True, False, e\<lparr>te_budget :=
          bs[i := (bs ! i)\<lparr>tb_spent := ucast (ucast (tb_spent (bs ! i)) + delta)\<rparr>]\<rparr>)"
        unfolding bs_def by (rule charged_named [OF ok i [unfolded bs_def] s])
          (use fit i in \<open>simp_all add: bs_def\<close>)
      with False Some show ?thesis by (simp add: defs)
    qed
  next
    case None
    then have fresh: "s \<notin> set (take 4 (sources bs))"
      by (auto simp: known_def find_index_None_iff set_take_sources)
    show ?thesis
    proof (cases free)
      case (Some i)
      then have i: "i < 4" "tb_source_id (bs ! i) = WAKE_TAC_SRC_NONE"
          "\<forall>j<i. tb_source_id (bs ! j) \<noteq> WAKE_TAC_SRC_NONE"
        using len by (auto simp: free_def find_index_Some_iff)
      then have i': "sources bs ! i = WAKE_TAC_SRC_NONE" "\<forall>j<4. j < i \<longrightarrow> sources bs ! j \<noteq> WAKE_TAC_SRC_NONE"
        using len by (auto simp: nth_sources)
      note src = sources_named_free [OF so i(1) i' fresh s]
      have "charged (unat (th_budget_per_source h)) s delta e (True, True, e\<lparr>te_budget :=
          bs[i := \<lparr>tb_source_id = s, tb_spent = ucast delta\<rparr>]\<rparr>)"
        if "\<not> delta > th_budget_per_source h"
        unfolding bs_def
        by (rule charged_update [OF ok])
          (use i unused [of i] that delta_fits [OF d] src s in
            \<open>simp_all add: bs_def [symmetric] not_less word_le_nat_alt\<close>)
      with Some None charged_refuse [OF ok] show ?thesis
        by (cases "delta > th_budget_per_source h") (simp_all add: defs)
    next
      case none: None
      then have full: "\<forall>i<4. sources bs ! i \<noteq> WAKE_TAC_SRC_NONE"
        using len by (auto simp: free_def find_index_None_iff nth_sources all_set_conv_all_nth)
      let ?new = "tb_source_id (bs ! 4) = WAKE_TAC_SRC_NONE"
      define x where "x = (if ?new then WAKE_TAC_SRC_OTHER else tb_source_id (bs ! 4))"
      have x: "x \<noteq> WAKE_TAC_SRC_NONE" by (simp add: x_def)
      note src = sources_overflow [OF so full fresh x]
      have "charged (unat (th_budget_per_source h)) s delta e (True, ?new, e\<lparr>te_budget :=
          bs[4 := \<lparr>tb_source_id = x, tb_spent = ucast (ucast (tb_spent (bs ! 4)) + delta)\<rparr>]\<rparr>)"
        if "\<not> ucast (tb_spent (bs ! 4)) + delta > th_budget_per_source h"
        unfolding bs_def
        by (rule charged_update [OF ok])
          (use charge_fits [OF that h d] src x in \<open>simp_all add: bs_def [symmetric]\<close>)
      with none None charged_refuse [OF ok] show ?thesis
        by (cases "ucast (tb_spent (bs ! 4)) + delta > th_budget_per_source h")
          (simp_all add: defs x_def [symmetric])
    qed
  qed
qed

section \<open>Edges\<close>

text \<open>
  An edge whose budgets are well formed, whose source count is the number of slots in use, whose
  weight has been paid for by its sources, and whose slots are accounted for by the sources \<open>S\<close>.
\<close>

definition edge_ok :: "u16 set \<Rightarrow> wake_tac_header_t \<Rightarrow> wake_tac_entry_t \<Rightarrow> bool" where
  "edge_ok S h e \<longleftrightarrow> budget_ok (unat (th_budget_per_source h)) (te_budget e)
     \<and> unat (te_src_count e) = used (te_budget e)
     \<and> unat (te_weight e) \<le> total_spent (te_budget e)
     \<and> accounted S (sources (te_budget e))"

lemma edge_okD:
  assumes "edge_ok S h e"
  shows "budget_ok (unat (th_budget_per_source h)) (te_budget e)"
    "unat (te_src_count e) = used (te_budget e)" "unat (te_weight e) \<le> total_spent (te_budget e)"
    "accounted S (sources (te_budget e))"
  using assms by (simp_all add: edge_ok_def)

lemma used_le_5: "budget_ok lim bs \<Longrightarrow> used bs \<le> 5"
  using length_filter_le [of "\<lambda>s. s \<noteq> WAKE_TAC_SRC_NONE" "sources bs"]
  by (simp add: used_def budget_ok_def sources_ok_def)

lemma total_spent_le:
  assumes "budget_ok lim bs"
  shows "total_spent bs \<le> 5 * lim"
proof -
  have "length bs = 5" using assms by (simp add: budget_ok_def sources_ok_def)
  then obtain a b c d e where "bs = [a, b, c, d, e]" by (rule five_slots)
  with assms show ?thesis by (simp add: budget_ok_def total_spent_def)
qed

lemma edge_ok_sources:
  assumes "edge_ok S h e" "finite S"
  shows "unat (te_src_count e) \<le> card S"
  using used_le_card [OF _ edge_okD(4) [OF assms(1)] assms(2)] edge_okD(1,2) [OF assms(1)]
  by (simp add: used_def budget_ok_def)

lemma chargedE:
  assumes "charged lim s delta e (ok, ns, e')" "s \<in> S" "accounted S (sources (te_budget e))"
  obtains bs where "e' = e\<lparr>te_budget := bs\<rparr>" "budget_ok lim bs"
    "used bs = used (te_budget e) + (if ns then 1 else 0)"
    "total_spent bs = total_spent (te_budget e) + (if ok then unat delta else 0)"
    "\<not> ok \<longrightarrow> bs = te_budget e \<and> \<not> ns" "accounted S (sources bs)"
proof -
  from assms(1) obtain bs where bs: "e' = e\<lparr>te_budget := bs\<rparr>" "budget_ok lim bs"
    "used bs = used (te_budget e) + (if ns then 1 else 0)"
    "total_spent bs = total_spent (te_budget e) + (if ok then unat delta else 0)"
    "\<not> ok \<longrightarrow> bs = te_budget e \<and> \<not> ns"
    and acc: "\<forall>S. accounted S (sources (te_budget e)) \<longrightarrow> accounted (insert s S) (sources bs)"
    unfolding charged_def prod.case by (elim exE conjE)
  from acc assms(2,3) have "accounted S (sources bs)"
    using insert_absorb [OF assms(2)] by metis
  with bs show thesis by (intro that) simp_all
qed

lemma reassess_edge_ok [simp]: "edge_ok S h (quarantine_reassess e h') = edge_ok S h e"
  by (simp add: quarantine_reassess_def edge_ok_def)

lemma strengthen_edge_ok:
  assumes e: "edge_ok S h e" and h: "th_budget_per_source h \<le> 65535"
    and bs: "budget_ok (unat (th_budget_per_source h)) bs" "accounted S (sources bs)"
      "used bs = used (te_budget e) + (if ns0 then 1 else 0) + (if ns1 then 1 else 0)"
      "total_spent (te_budget e) + unat delta \<le> total_spent bs"
  shows "edge_ok S h (strengthen h delta eta_hi now_rel ns0 ns1 (e\<lparr>te_budget := bs\<rparr>))"
proof -
  define bump :: u8 where "bump = (if ns0 then 1 else 0) + (if ns1 then 1 else 0)"
  define nsc where "nsc = (ucast (te_src_count e) :: u32) + ucast bump"
  have bump: "unat bump = (if ns0 then 1 else 0) + (if ns1 then 1 else 0)" by (simp add: bump_def)
  have le5: "used bs \<le> 5" by (rule used_le_5 [OF bs(1)])
  have src: "unat (te_src_count e) + unat bump = used bs"
    unfolding bump using edge_okD(2) [OF e] bs(3) by simp
  then have nsc: "unat nsc = used bs"
    using le5 by (simp add: nsc_def unat_word_ariths)
  then have "\<not> nsc > 5" using le5 by (simp add: word_less_nat_alt)
  moreover have "unat (ucast nsc :: u8) = used bs"
    using nsc le5 by (simp add: unsigned_ucast_eq take_bit_nat_eq_self)
  moreover have "bump = 0 \<Longrightarrow> unat (te_src_count e) = used bs" using src by simp
  moreover define c where "c = (if bump \<noteq> 0 then ucast (if nsc > 5 then 5 else nsc) else te_src_count e)"
  ultimately have count: "unat c = used bs" by simp
  have "unat (te_weight e) + unat delta \<le> total_spent bs"
    using edge_okD(3) [OF e] bs(4) by simp
  moreover have "total_spent bs \<le> 5 * 65535"
    using total_spent_le [OF bs(1)] h by (simp add: word_le_nat_alt)
  ultimately have weight: "unat (te_weight e + delta) \<le> total_spent bs"
    by (simp add: unat_word_ariths)
  have "strengthen h delta eta_hi now_rel ns0 ns1 (e\<lparr>te_budget := bs\<rparr>) =
      quarantine_reassess (e\<lparr>te_budget := bs, te_weight := te_weight e + delta,
        te_reinf_count := te_reinf_count e + 1, te_last_reinf := now_rel,
        te_eta_max_fp16 := atomic_max_u16 (te_eta_max_fp16 e) eta_hi, te_src_count := c\<rparr>) h"
    by (simp add: strengthen_def Let_def bump_def [symmetric] nsc_def [symmetric] c_def)
  moreover have "edge_ok S h (e\<lparr>te_budget := bs, te_weight := te_weight e + delta,
        te_reinf_count := te_reinf_count e + 1, te_last_reinf := now_rel,
        te_eta_max_fp16 := atomic_max_u16 (te_eta_max_fp16 e) eta_hi, te_src_count := c\<rparr>)"
    using bs(1,2) count weight by (simp add: edge_ok_def)
  ultimately show ?thesis by (simp only: reassess_edge_ok)
qed


text \<open>A charge in these terms.\<close>

definition paid :: "u16 set \<Rightarrow> wake_tac_header_t \<Rightarrow> wake_tac_entry_t \<Rightarrow> bool" where
  "paid S h e \<longleftrightarrow> budget_ok (unat (th_budget_per_source h)) (te_budget e) \<and> accounted S (sources (te_budget e))"

lemma charge_paid:
  assumes "paid S h e" "th_budget_per_source h \<le> 65535" "delta \<le> WAKE_TAC_DELTA_MAX"
    and "s \<in> S" "s \<noteq> WAKE_TAC_SRC_NONE" "budget_charge e h s delta = (ok, ns, e')"
  obtains bs where "e' = e\<lparr>te_budget := bs\<rparr>" "paid S h e'"
    "used bs = used (te_budget e) + (if ns then 1 else 0)"
    "total_spent bs = total_spent (te_budget e) + (if ok then unat delta else 0)"
    "\<not> ok \<longrightarrow> bs = te_budget e \<and> \<not> ns"
proof -
  have b: "budget_ok (unat (th_budget_per_source h)) (te_budget e)" "accounted S (sources (te_budget e))"
    using assms(1) by (simp_all add: paid_def)
  have "charged (unat (th_budget_per_source h)) s delta e (ok, ns, e')"
    using budget_charge_charged [OF b(1) assms(2,3,5)] assms(6) by simp
  then obtain bs where "e' = e\<lparr>te_budget := bs\<rparr>" "budget_ok (unat (th_budget_per_source h)) bs"
    "used bs = used (te_budget e) + (if ns then 1 else 0)"
    "total_spent bs = total_spent (te_budget e) + (if ok then unat delta else 0)"
    "\<not> ok \<longrightarrow> bs = te_budget e \<and> \<not> ns" "accounted S (sources bs)"
    by (rule chargedE [OF _ assms(4) b(2)])
  then show thesis by (intro that [of bs]) (simp_all add: paid_def)
qed

lemma reinforce_existing_ok:
  assumes e: "edge_ok S h e" and h: "th_budget_per_source h \<le> 65535"
    and d: "delta \<le> WAKE_TAC_DELTA_MAX"
    and w0: "w0_src \<in> S" "w0_src \<noteq> WAKE_TAC_SRC_NONE"
    and w1: "w1_src \<noteq> WAKE_TAC_SRC_NONE \<Longrightarrow> w1_src \<in> S"
  shows "edge_ok S h (snd (reinforce_existing h delta eta_hi w0_src w1_src now_rel e))"
proof -
  obtain ok0 ns0 e0 where c0: "budget_charge e h w0_src delta = (ok0, ns0, e0)" by (metis prod_cases3)
  have p: "paid S h e" using e by (simp add: edge_ok_def paid_def)
  obtain b0 where b0: "e0 = e\<lparr>te_budget := b0\<rparr>" "paid S h e0"
      "used b0 = used (te_budget e) + (if ns0 then 1 else 0)"
      "total_spent b0 = total_spent (te_budget e) + (if ok0 then unat delta else 0)"
      "\<not> ok0 \<longrightarrow> b0 = te_budget e \<and> \<not> ns0"
    by (rule charge_paid [OF p h d w0 c0])
  have one: "edge_ok S h (strengthen h delta eta_hi now_rel ns0 False e0)" if ok0
    unfolding b0(1) by (rule strengthen_edge_ok [OF e h])
      (use b0 that in \<open>simp_all add: paid_def\<close>)
  show ?thesis
  proof (cases "w1_src \<noteq> WAKE_TAC_SRC_NONE \<and> w1_src \<noteq> w0_src")
    case False
    with e one show ?thesis
      by (auto simp: reinforce_existing_def Let_def c0)
  next
    case True
    obtain ok1 ns1 e1 where c1: "budget_charge e0 h w1_src delta = (ok1, ns1, e1)" by (metis prod_cases3)
    from True w1 have w1': "w1_src \<in> S" "w1_src \<noteq> WAKE_TAC_SRC_NONE" by simp_all
    obtain b1 where b1: "e1 = e0\<lparr>te_budget := b1\<rparr>" "paid S h e1"
        "used b1 = used (te_budget e0) + (if ns1 then 1 else 0)"
        "total_spent b1 = total_spent (te_budget e0) + (if ok1 then unat delta else 0)"
        "\<not> ok1 \<longrightarrow> b1 = te_budget e0 \<and> \<not> ns1"
      by (rule charge_paid [OF b0(2) h d w1' c1])
    have e1: "e1 = e\<lparr>te_budget := b1\<rparr>" using b0(1) b1(1) by simp
    have two: "edge_ok S h (strengthen h delta eta_hi now_rel ns0 ns1 e1)" if "ok0 \<or> ok1"
      unfolding e1 by (rule strengthen_edge_ok [OF e h])
        (use b0 b1 that in \<open>auto simp: paid_def\<close>)
    have "edge_ok S h e1" if "\<not> ok0" "\<not> ok1"
      using b0(1,5) b1(1,5) that e by simp
    with True e two show ?thesis
      by (auto simp: reinforce_existing_def Let_def c0 c1)
  qed
qed

lemma quarantine_reassess_frame [simp]:
  "te_key_hash (quarantine_reassess e h) = te_key_hash e"
  "te_entity_hash (quarantine_reassess e h) = te_entity_hash e"
  "te_budget (quarantine_reassess e h) = te_budget e"
  by (simp_all add: quarantine_reassess_def)

lemma budget_charge_frame [simp]:
  "te_key_hash (snd (snd (budget_charge e h s delta))) = te_key_hash e"
  "te_entity_hash (snd (snd (budget_charge e h s delta))) = te_entity_hash e"
  "te_weight (snd (snd (budget_charge e h s delta))) = te_weight e"
  by (simp_all add: budget_charge_def Let_def split: option.split)

lemma strengthen_frame [simp]:
  "te_key_hash (strengthen h delta eta now ns0 ns1 e) = te_key_hash e"
  "te_entity_hash (strengthen h delta eta now ns0 ns1 e) = te_entity_hash e"
  by (simp_all add: strengthen_def Let_def)

lemma reinforce_existing_frame [simp]:
  "te_key_hash (snd (reinforce_existing h delta eta w0 w1 now e)) = te_key_hash e"
  "te_entity_hash (snd (reinforce_existing h delta eta w0 w1 now e)) = te_entity_hash e"
  by (simp_all add: reinforce_existing_def Let_def case_prod_unfold)

text \<open>A new edge.\<close>

lemma five_free: "budget_ok lim (replicate 5 zero_budget)" "accounted S (sources (replicate 5 zero_budget))"
    "used (replicate 5 zero_budget) = 0" "total_spent (replicate 5 zero_budget) = 0"
  by (simp_all add: budget_ok_def sources_ok_def sources_def zero_budget_def accounted_def used_def
      total_spent_def)

lemma fresh_charge:
  assumes "te_budget e = replicate 5 zero_budget" "s \<noteq> WAKE_TAC_SRC_NONE" "delta \<le> th_budget_per_source h"
  shows "fst (budget_charge e h s delta)"
  using assms by (simp add: budget_charge_def zero_budget_def numeral_eq_Suc)

lemma build_edge_ok:
  assumes h: "WAKE_TAC_DELTA_MAX \<le> th_budget_per_source h" "th_budget_per_source h \<le> 65535"
    and d: "delta \<le> WAKE_TAC_DELTA_MAX"
    and w0: "w0_src \<in> S" "w0_src \<noteq> WAKE_TAC_SRC_NONE"
    and w1: "w1_src \<noteq> WAKE_TAC_SRC_NONE \<Longrightarrow> w1_src \<in> S"
    and w: "w = 0 \<or> w = delta"
  shows "edge_ok S h ((build_edge h ehash key t_lo t_hi eta_hi delta w0_src w1_src now_rel e)\<lparr>te_weight := w\<rparr>)"
proof -
  define e1 where "e1 = e\<lparr>te_weight := 0, te_t_lo := t_lo, te_t_hi := t_hi, te_reinf_count := 1,
     te_last_reinf := now_rel, te_eta_max_fp16 := eta_hi, te_quarantine := 0,
     te_first_seen := now_rel, te_budget := replicate 5 zero_budget\<rparr>"
  have free: "te_budget e1 = replicate 5 zero_budget" by (simp add: e1_def)
  then have p: "paid S h e1" by (simp only: paid_def five_free)
  obtain ok0 ns0 e2 where c0: "budget_charge e1 h w0_src delta = (ok0, ns0, e2)" by (metis prod_cases3)
  have "ok0" using fresh_charge [OF free w0(2), of delta h] c0 d h(1) by simp
  obtain b0 where b0: "e2 = e1\<lparr>te_budget := b0\<rparr>" "paid S h e2"
      "used b0 = used (te_budget e1) + (if ns0 then 1 else 0)"
      "total_spent b0 = total_spent (te_budget e1) + (if ok0 then unat delta else 0)"
      "\<not> ok0 \<longrightarrow> b0 = te_budget e1 \<and> \<not> ns0"
    by (rule charge_paid [OF p h(2) d w0 c0])
  define second where "second \<longleftrightarrow> w1_src \<noteq> WAKE_TAC_SRC_NONE \<and> w1_src \<noteq> w0_src"
  define r where "r = (if second then snd (budget_charge e2 h w1_src delta) else (False, e2))"
  have "paid S h (snd r) \<and> used (te_budget (snd r)) = (if ns0 then 1 else 0) + (if fst r then 1 else 0)
      \<and> unat delta \<le> total_spent (te_budget (snd r))"
  proof (cases second)
    case True
    then have w1': "w1_src \<in> S" "w1_src \<noteq> WAKE_TAC_SRC_NONE" using w1 by (simp_all add: second_def)
    obtain ok1 ns1 e3 where c1: "budget_charge e2 h w1_src delta = (ok1, ns1, e3)" by (metis prod_cases3)
    obtain b1 where b1: "e3 = e2\<lparr>te_budget := b1\<rparr>" "paid S h e3"
        "used b1 = used (te_budget e2) + (if ns1 then 1 else 0)"
        "total_spent b1 = total_spent (te_budget e2) + (if ok1 then unat delta else 0)"
        "\<not> ok1 \<longrightarrow> b1 = te_budget e2 \<and> \<not> ns1"
      by (rule charge_paid [OF b0(2) h(2) d w1' c1])
    with True c1 b0 \<open>ok0\<close> show ?thesis
      unfolding free five_free by (simp add: r_def)
  next
    case False
    with b0 \<open>ok0\<close> show ?thesis
      unfolding free five_free by (simp add: r_def)
  qed
  moreover define b where "b = build_edge h ehash key t_lo t_hi eta_hi delta w0_src w1_src now_rel e"
  moreover have "te_budget b = te_budget (snd r)"
      "te_src_count b = (if ns0 then 1 else 0) + (if fst r then 1 else 0)"
    unfolding b_def build_edge_def Let_def e1_def [symmetric] c0 prod.case second_def [symmetric]
      case_prod_unfold by (simp_all add: r_def)
  ultimately show ?thesis
    using w by (auto simp: edge_ok_def paid_def)
qed

lemma edge_ok_frame [simp]:
  "edge_ok S h (e\<lparr>te_key_hash := k\<rparr>) = edge_ok S h e"
  by (simp add: edge_ok_def)

lemma edge_ok_lighter: "edge_ok S h e \<Longrightarrow> w \<le> te_weight e \<Longrightarrow> edge_ok S h (e\<lparr>te_weight := w\<rparr>)"
  by (auto simp: edge_ok_def word_le_nat_alt)

lemma build_edge_frame [simp]:
  "te_key_hash (build_edge h ehash key t_lo t_hi eta_hi delta w0_src w1_src now_rel e) = te_key_hash e"
  "te_entity_hash (build_edge h ehash key t_lo t_hi eta_hi delta w0_src w1_src now_rel e) = ehash"
  "te_weight (build_edge h ehash key t_lo t_hi eta_hi delta w0_src w1_src now_rel e) = 0"
  by (simp_all add: build_edge_def Let_def case_prod_unfold)

end
