(* ===== verification/Wake_Tac_Inv.thy ===== *)
theory Wake_Tac_Inv
  imports Wake_Tac_Budget
begin

text \<open>
  The invariant of the coupling table: the layout, the two open-addressing arrays (the edges and
  the sidecar index) as instances of the interface of bounded probing, well-formed edges; and what
  the sidecar operations, the lookup and the claim of a slot do on a table that satisfies it.
\<close>

section \<open>Invariant\<close>

definition tac_header_ok :: "wake_tac_header_t \<Rightarrow> bool" where
  "tac_header_ok h \<longleftrightarrow>
     is_power_of_2 (th_capacity h) \<and> is_power_of_2 (th_occ_slots h)
   \<and> th_capacity h \<le> WAKE_TAC_MAX_CAPACITY \<and> th_occ_slots h \<le> WAKE_TAC_MAX_CAPACITY
   \<and> th_mask h = ucast (th_capacity h - 1)
   \<and> WAKE_TAC_DELTA_MAX \<le> th_budget_per_source h \<and> th_budget_per_source h \<le> 65535
   \<and> th_decay_novel_fp16 h < 65536 \<and> th_decay_corr_fp16 h < 65536
   \<and> th_noise_floor h \<noteq> 0
   \<and> th_per_entity_cap h \<noteq> 0 \<and> ucast (th_per_entity_cap h) \<le> WAKE_TAC_PER_ENTITY_CAP_MAX"

definition tac_layout :: "wake_tac_t \<Rightarrow> bool" where
  "tac_layout t \<longleftrightarrow> tac_header_ok (t_header t)
     \<and> length (t_entries t) = unat (th_capacity (t_header t))
     \<and> length (t_occ t) = unat (th_occ_slots (t_header t))
     \<and> t_map_size t = tac_map_size (th_capacity (t_header t)) (th_occ_slots (t_header t))"

definition tac_keys :: "wake_tac_t \<Rightarrow> u64 list" where
  "tac_keys t = map te_key_hash (t_entries t)"

definition tac_slot :: "wake_tac_t \<Rightarrow> u64 \<Rightarrow> nat \<Rightarrow> nat" where
  "tac_slot t k d = unat (tac_idx t k d)"

definition occ_keys :: "wake_tac_t \<Rightarrow> u64 list" where
  "occ_keys t = map to_entity_hash (t_occ t)"

lemma tac_slot_less:
  assumes "tac_layout t"
  shows "tac_slot t k d < length (t_entries t)"
proof -
  let ?c = "th_capacity (t_header t)"
  define x where "x = ((k AND th_mask (t_header t)) + of_nat d) AND th_mask (t_header t)"
  have pos: "0 < ?c" and mask: "th_mask (t_header t) = ucast (?c - 1)"
    using assms by (simp_all add: tac_layout_def tac_header_ok_def is_power_of_2_def)
  have less: "unat x < unat ?c"
    unfolding x_def mask by (rule unat_and_mask_less [OF pos])
  moreover have "unat ?c < 2 ^ 32" using unsigned_less [of ?c, where ?'a = nat] by simp
  ultimately have "unat (ucast x :: u32) = unat x"
    by (simp add: unsigned_ucast_eq take_bit_nat_eq_self)
  with less assms show ?thesis
    by (simp add: tac_slot_def tac_idx_def x_def [symmetric] tac_layout_def)
qed

lemma occ_idx_less:
  assumes "tac_layout t"
  shows "occ_idx t k d < length (t_occ t)"
proof -
  have "0 < th_occ_slots (t_header t)"
    using assms by (simp add: tac_layout_def tac_header_ok_def is_power_of_2_def)
  from unat_and_mask_less [OF this] assms show ?thesis
    by (simp add: occ_idx_def Let_def tac_layout_def)
qed

lemma length_tac_keys [simp]: "length (tac_keys t) = length (t_entries t)"
    and length_occ_keys [simp]: "length (occ_keys t) = length (t_occ t)"
  by (simp_all add: tac_keys_def occ_keys_def)

text \<open>Edges leave tombstones; an entity, once in the sidecar, stays until the next decay.\<close>

interpretation tct: tombstone_table tac_keys tac_slot WAKE_TAC_PROBE_MAX tac_layout vacant
  by unfold_locales (simp_all add: tac_slot_less)

interpretation oct: probe_table occ_keys occ_idx WAKE_TAC_OCC_PROBE_MAX tac_layout "\<lambda>k. k = 0"
  by unfold_locales (simp_all add: occ_idx_less)

definition occ_ok :: "wake_tac_occ_t \<Rightarrow> bool" where
  "occ_ok oc \<longleftrightarrow> length (to_slot oc) = 32 \<and> to_live_count oc \<le> WAKE_TAC_PER_ENTITY_CAP_MAX"

text \<open>Every live edge but those at the positions \<open>X\<close> names its entity.\<close>

definition named :: "nat set \<Rightarrow> wake_tac_t \<Rightarrow> bool" where
  "named X t \<longleftrightarrow> (\<forall>i<length (t_entries t). i \<notin> X \<longrightarrow> \<not> vacant (te_key_hash (t_entries t ! i))
     \<longrightarrow> te_entity_hash (t_entries t ! i) \<noteq> 0)"

definition tac_shape :: "u16 set \<Rightarrow> wake_tac_t \<Rightarrow> bool" where
  "tac_shape S t \<longleftrightarrow> tac_layout t \<and> tct.chained t \<and> oct.chained t
     \<and> (\<forall>e\<in>set (t_entries t). edge_ok S (t_header t) e) \<and> (\<forall>oc\<in>set (t_occ t). occ_ok oc)"

definition tac_inv :: "u16 set \<Rightarrow> wake_tac_t \<Rightarrow> bool" where
  "tac_inv S t \<longleftrightarrow> tac_shape S t \<and> named {} t"

lemma tac_shapeD:
  assumes "tac_shape S t"
  shows "tac_layout t" "tct.chained t" "oct.chained t"
    "\<And>i. i < length (t_entries t) \<Longrightarrow> edge_ok S (t_header t) (t_entries t ! i)"
    "\<And>j. j < length (t_occ t) \<Longrightarrow> occ_ok (t_occ t ! j)"
  using assms by (simp_all add: tac_shape_def)

lemma tac_keys_nth [simp]: "i < length (t_entries t) \<Longrightarrow> tac_keys t ! i = te_key_hash (t_entries t ! i)"
    and occ_keys_nth [simp]: "j < length (t_occ t) \<Longrightarrow> occ_keys t ! j = to_entity_hash (t_occ t ! j)"
  by (simp_all add: tac_keys_def occ_keys_def)

section \<open>Writes of one slot\<close>

lemma put_tac_frame [simp]:
  "t_header (put_tac i e t) = t_header t" "t_occ (put_tac i e t) = t_occ t"
  "t_entries (put_tac i e t) = (t_entries t)[i := e]"
  "tac_slot (put_tac i e t) = tac_slot t" "occ_idx (put_tac i e t) = occ_idx t"
  "tac_layout (put_tac i e t) = tac_layout t" "occ_keys (put_tac i e t) = occ_keys t"
  "tac_keys (put_tac i e t) = (tac_keys t)[i := te_key_hash e]"
  by (simp_all add: put_tac_def tac_slot_def fun_eq_iff tac_idx_def occ_idx_def tac_layout_def
      occ_keys_def tac_keys_def map_update)

lemma put_occ_frame [simp]:
  "t_header (put_occ j oc t) = t_header t" "t_entries (put_occ j oc t) = t_entries t"
  "t_occ (put_occ j oc t) = (t_occ t)[j := oc]"
  "tac_slot (put_occ j oc t) = tac_slot t" "occ_idx (put_occ j oc t) = occ_idx t"
  "tac_layout (put_occ j oc t) = tac_layout t" "tac_keys (put_occ j oc t) = tac_keys t"
  "occ_keys (put_occ j oc t) = (occ_keys t)[j := to_entity_hash oc]"
  by (simp_all add: put_occ_def tac_slot_def fun_eq_iff tac_idx_def occ_idx_def tac_layout_def
      occ_keys_def tac_keys_def map_update)

lemma tac_shape_put_tac:
  assumes "tac_shape S t" "edge_ok S (t_header t) e" "tct.chained (put_tac i e t)"
  shows "tac_shape S (put_tac i e t)"
  using assms set_update_subset_insert [of "t_entries t" i e]
    oct.chained_same [of t "put_tac i e t"]
  by (auto simp: tac_shape_def)

lemma tac_shape_put_occ:
  assumes "tac_shape S t" "occ_ok oc" "oct.chained (put_occ j oc t)"
  shows "tac_shape S (put_occ j oc t)"
  using assms set_update_subset_insert [of "t_occ t" j oc]
    tct.chained_same [of t "put_occ j oc t"]
  by (auto simp: tac_shape_def)

lemma tac_shape_put_same:
  assumes "tac_shape S t" "edge_ok S (t_header t) e" "i < length (t_entries t)"
    and "te_key_hash e = te_key_hash (t_entries t ! i)"
  shows "tac_shape S (put_tac i e t)"
proof (rule tac_shape_put_tac [OF assms(1,2)])
  have "tac_keys (put_tac i e t) = tac_keys t"
    using assms(3,4) by (simp add: list_update_same_conv)
  then show "tct.chained (put_tac i e t)"
    using tct.chained_same [of t "put_tac i e t"] assms(1) by (simp add: tac_shape_def)
qed

lemma tac_shape_bury:
  assumes "tac_shape S t" "edge_ok S (t_header t) e" "i < length (t_entries t)"
    and "te_key_hash e = SLOT_TOMBSTONE"
  shows "tac_shape S (put_tac i e t)"
  using tct.chained_bury [of t i "put_tac i e t"] assms
  by (intro tac_shape_put_tac) (simp_all add: tac_shape_def)

lemma tac_shape_occ_same:
  assumes "tac_shape S t" "occ_ok oc" "j < length (t_occ t)"
    and "to_entity_hash oc = to_entity_hash (t_occ t ! j)"
  shows "tac_shape S (put_occ j oc t)"
proof (rule tac_shape_put_occ [OF assms(1,2)])
  have "occ_keys (put_occ j oc t) = occ_keys t"
    using assms(3,4) by (simp add: list_update_same_conv)
  then show "oct.chained (put_occ j oc t)"
    using oct.chained_same [of t "put_occ j oc t"] assms(1) by (simp add: tac_shape_def)
qed

lemma nth_update_if: "i < length xs \<Longrightarrow> xs[k := x] ! i = (if i = k then x else xs ! i)"
  by simp

lemma named_put:
  "named X t \<Longrightarrow> i \<in> X \<or> vacant (te_key_hash e) \<or> te_entity_hash e \<noteq> 0 \<Longrightarrow> named X (put_tac i e t)"
  by (auto simp: named_def nth_update_if)

lemma named_settle:
  "named {i} t \<Longrightarrow> vacant (te_key_hash e) \<or> te_entity_hash e \<noteq> 0 \<Longrightarrow> named {} (put_tac i e t)"
  by (auto simp: named_def nth_update_if)

lemma named_put_occ [simp]: "named X (put_occ j oc t) = named X t"
  by (simp add: named_def)

section \<open>Sidecar index\<close>

definition claim_occ :: "u64 \<Rightarrow> nat \<Rightarrow> wake_tac_t \<Rightarrow> wake_tac_t" where
  "claim_occ ehash j t = put_occ j ((t_occ t ! j)\<lparr>to_live_count := 0, to_entity_hash := ehash\<rparr>) t"

lemma find_upt_Some:
  "find P [0..<n] = Some d \<longleftrightarrow> d < n \<and> P d \<and> (\<forall>d'<d. \<not> P d')"
  by (auto simp: find_Some_iff)

lemma find_upt_None: "find P [0..<n] = None \<longleftrightarrow> (\<forall>d<n. \<not> P d)"
  by (auto simp: find_None_iff)

lemma occ_find_loop_eq:
  assumes "tac_layout t"
  shows "occ_find_loop t ehash claim ps =
     (case find (\<lambda>p. occ_keys t ! occ_idx t ehash p = ehash \<or> occ_keys t ! occ_idx t ehash p = 0) ps of
        None \<Rightarrow> (None, t)
      | Some p \<Rightarrow>
          if occ_keys t ! occ_idx t ehash p = ehash then (Some (occ_idx t ehash p), t)
          else if claim then (Some (occ_idx t ehash p), claim_occ ehash (occ_idx t ehash p) t)
          else (None, t))"
  by (induction ps) (simp_all add: Let_def claim_occ_def occ_idx_less [OF assms])

text \<open>The three ways the search of the sidecar ends.\<close>

lemma occ_find_cases [consumes 2, case_names found fresh none]:
  assumes "tac_shape S t" "ehash \<noteq> 0"
  obtains (found) j where "j < length (t_occ t)" "to_entity_hash (t_occ t ! j) = ehash"
      "occ_find t ehash claim = (Some j, t)"
  | (fresh) d where "ehash \<notin> set (occ_keys t)" "d < WAKE_TAC_OCC_PROBE_MAX"
      "occ_keys t ! occ_idx t ehash d = 0" "\<And>d'. d' < d \<Longrightarrow> occ_keys t ! occ_idx t ehash d' \<noteq> 0" claim
      "occ_find t ehash claim = (Some (occ_idx t ehash d), claim_occ ehash (occ_idx t ehash d) t)"
  | (none) "ehash \<notin> set (occ_keys t)" "occ_find t ehash claim = (None, t)"
proof -
  define P where "P p \<longleftrightarrow> occ_keys t ! occ_idx t ehash p = ehash \<or> occ_keys t ! occ_idx t ehash p = 0" for p
  have lay: "tac_layout t" by (rule tac_shapeD(1) [OF assms(1)])
  note eq = occ_find_def occ_find_loop_eq [OF lay] P_def [symmetric]
  note absent = oct.absent [OF tac_shapeD(3) [OF assms(1)] assms(2)]
  show thesis
  proof (cases "find P [0..<WAKE_TAC_OCC_PROBE_MAX]")
    case None
    then have "ehash \<notin> set (occ_keys t)"
      by (intro absent [of WAKE_TAC_OCC_PROBE_MAX]) (simp_all add: find_upt_None P_def)
    with None show thesis by (intro none) (simp_all add: eq)
  next
    case (Some d)
    then have d: "d < WAKE_TAC_OCC_PROBE_MAX" "P d" "\<forall>d'<d. \<not> P d'" by (simp_all add: find_upt_Some)
    show thesis
    proof (cases "occ_keys t ! occ_idx t ehash d = ehash")
      case True
      with Some show thesis
        using occ_idx_less [OF lay, of ehash d] by (intro found [of "occ_idx t ehash d"]) (simp_all add: eq)
    next
      case False
      with d have 0: "occ_keys t ! occ_idx t ehash d = 0" by (simp add: P_def)
      have abs: "ehash \<notin> set (occ_keys t)"
        using d 0 by (intro absent [of d]) (simp_all add: P_def)
      show thesis
      proof (cases claim)
        case True
        with False Some have
          "occ_find t ehash claim = (Some (occ_idx t ehash d), claim_occ ehash (occ_idx t ehash d) t)"
          by (simp add: eq)
        with abs d 0 True show thesis by (intro fresh [of d]) (simp_all add: P_def)
      next
        case noclaim: False
        with abs False Some show thesis by (intro none) (simp_all add: eq)
      qed
    qed
  qed
qed

lemma claim_occ_shape:
  assumes "tac_shape S t" "ehash \<noteq> 0" "ehash \<notin> set (occ_keys t)" "d < WAKE_TAC_OCC_PROBE_MAX"
    and "occ_keys t ! occ_idx t ehash d = 0" "\<And>d'. d' < d \<Longrightarrow> occ_keys t ! occ_idx t ehash d' \<noteq> 0"
  shows "tac_shape S (claim_occ ehash (occ_idx t ehash d) t)"
  unfolding claim_occ_def
proof (rule tac_shape_put_occ [OF assms(1)])
  let ?j = "occ_idx t ehash d"
  have "occ_ok (t_occ t ! ?j)"
    using tac_shapeD(5) [OF assms(1)] occ_idx_less [OF tac_shapeD(1) [OF assms(1)]] by simp
  then show "occ_ok ((t_occ t ! ?j)\<lparr>to_live_count := 0, to_entity_hash := ehash\<rparr>)"
    by (simp add: occ_ok_def)
  show "oct.chained (put_occ ?j ((t_occ t ! ?j)\<lparr>to_live_count := 0, to_entity_hash := ehash\<rparr>) t)"
    by (rule oct.chained_fill [OF tac_shapeD(3,1) [OF assms(1)] assms(2-6)]) simp_all
qed

text \<open>The sidecar as a map from entities to the slots of their edges.\<close>

definition occ_list :: "wake_tac_t \<Rightarrow> u64 \<Rightarrow> u32 list" where
  "occ_list t eh =
     (if eh = 0 then []
      else case find (\<lambda>oc. to_entity_hash oc = eh) (t_occ t) of
             None \<Rightarrow> []
           | Some oc \<Rightarrow> take (unat (to_live_count oc)) (to_slot oc))"

lemma occ_list_at:
  assumes "oct.chained t" "j < length (t_occ t)" "to_entity_hash (t_occ t ! j) = eh" "eh \<noteq> 0"
  shows "occ_list t eh = take (unat (to_live_count (t_occ t ! j))) (to_slot (t_occ t ! j))"
proof -
  have "i = j" if "i < length (t_occ t)" "to_entity_hash (t_occ t ! i) = eh" for i
    using oct.chainedD(2) [OF assms(1), of j i] that assms by simp
  with assms(2,3) have "find (\<lambda>oc. to_entity_hash oc = eh) (t_occ t) = Some (t_occ t ! j)"
    by (rule find_unique)
  with assms(4) show ?thesis by (simp add: occ_list_def)
qed

lemma occ_list_absent: "eh \<notin> set (occ_keys t) \<Longrightarrow> occ_list t eh = []"
  by (auto simp: occ_list_def occ_keys_def find_Some_iff split: option.split)

lemma occ_list_same: "t_occ t' = t_occ t \<Longrightarrow> occ_list t' = occ_list t"
  by (simp add: occ_list_def fun_eq_iff)

lemma occ_list_put_tac [simp]: "occ_list (put_tac i e t) = occ_list t"
  by (rule occ_list_same) simp

text \<open>Writing sidecar slot \<open>j\<close> for entity \<open>eh\<close> changes the list of \<open>eh\<close> alone.\<close>

lemma occ_list_put:
  assumes chained: "oct.chained t" "oct.chained (put_occ j oc t)" and j: "j < length (t_occ t)"
    and eh: "to_entity_hash oc = eh" "eh \<noteq> 0"
    and old: "to_entity_hash (t_occ t ! j) = eh \<or> to_entity_hash (t_occ t ! j) = 0"
  shows "occ_list (put_occ j oc t) = (occ_list t)(eh := take (unat (to_live_count oc)) (to_slot oc))"
proof
  fix x
  show "occ_list (put_occ j oc t) x = ((occ_list t)(eh := take (unat (to_live_count oc)) (to_slot oc))) x"
  proof (cases "x = eh")
    case True
    with occ_list_at [OF chained(2), of j eh] j eh show ?thesis by simp
  next
    case ne: False
    show ?thesis
    proof (cases "x \<noteq> 0 \<and> x \<in> set (occ_keys t)")
      case True
      then obtain i where i: "i < length (t_occ t)" "to_entity_hash (t_occ t ! i) = x"
        by (auto simp: in_set_conv_nth)
      with True ne old have "i \<noteq> j" by auto
      with True ne i occ_list_at [OF chained(1) i] occ_list_at [OF chained(2), of i x] show ?thesis by simp
    next
      case False
      with ne eh set_update_subset_insert [of "occ_keys t" j eh]
      have "x = 0 \<or> x \<notin> set (occ_keys t) \<and> x \<notin> set (occ_keys (put_occ j oc t))" by auto
      with ne show ?thesis by (auto simp: occ_list_absent) (simp_all add: occ_list_def)
    qed
  qed
qed

lemma occ_list_le: "tac_shape S t \<Longrightarrow> length (occ_list t eh) \<le> 32"
  by (auto simp: occ_list_def tac_shape_def occ_ok_def find_Some_iff word_le_nat_alt split: option.split)

lemma occ_count_list:
  assumes "tac_shape S t" "eh \<noteq> 0"
  shows "unat (occ_count t eh) = length (occ_list t eh)"
using assms proof (cases rule: occ_find_cases [where claim = False])
  case (found j)
  with occ_list_at [OF tac_shapeD(3) [OF assms(1)] found(1,2) assms(2)] tac_shapeD(5) [OF assms(1) found(1)]
  show ?thesis by (simp add: occ_count_def occ_ok_def word_le_nat_alt)
qed (simp_all add: occ_count_def occ_list_absent)

text \<open>Adding a slot appends it to the list of its entity, or fails and changes no list.\<close>

definition push_slot :: "u32 \<Rightarrow> wake_tac_occ_t \<Rightarrow> wake_tac_occ_t" where
  "push_slot idx oc = oc\<lparr>to_slot := (to_slot oc)[unat (to_live_count oc) := idx],
     to_live_count := to_live_count oc + 1\<rparr>"

lemma push_slot_spec:
  assumes "tac_shape S t" "j < length (t_occ t)" "to_entity_hash (t_occ t ! j) = ehash" "ehash \<noteq> 0"
    and "\<not> to_live_count (t_occ t ! j) \<ge> WAKE_TAC_PER_ENTITY_CAP_MAX"
  shows "tac_shape S (put_occ j (push_slot idx (t_occ t ! j)) t)"
    "occ_list (put_occ j (push_slot idx (t_occ t ! j)) t) = (occ_list t)(ehash := occ_list t ehash @ [idx])"
proof -
  define oc where "oc = t_occ t ! j"
  have old: "occ_ok oc" unfolding oc_def by (rule tac_shapeD(5) [OF assms(1,2)])
  have c: "unat (to_live_count oc) < 32"
    using assms(5) by (simp add: oc_def not_le word_less_nat_alt)
  have c': "unat (to_live_count oc + 1) = Suc (unat (to_live_count oc))"
    using unat_Suc_less [OF c] by simp
  have ok: "occ_ok (push_slot idx oc)" using old c c' by (simp add: occ_ok_def push_slot_def word_le_nat_alt)
  show shape: "tac_shape S (put_occ j (push_slot idx (t_occ t ! j)) t)"
    by (rule tac_shape_occ_same [OF assms(1) ok [unfolded oc_def] assms(2)]) (simp add: push_slot_def)
  have "occ_list (put_occ j (push_slot idx oc) t)
      = (occ_list t)(ehash := take (unat (to_live_count (push_slot idx oc))) (to_slot (push_slot idx oc)))"
    unfolding oc_def
    by (rule occ_list_put [OF tac_shapeD(3) [OF assms(1)] tac_shapeD(3) [OF shape] assms(2)])
      (use assms(3,4) in \<open>simp_all add: push_slot_def\<close>)
  also have "take (unat (to_live_count (push_slot idx oc))) (to_slot (push_slot idx oc)) = occ_list t ehash @ [idx]"
    using occ_list_at [OF tac_shapeD(3) [OF assms(1)] assms(2,3,4)] c c' old
    by (simp add: occ_ok_def push_slot_def oc_def)
  finally show "occ_list (put_occ j (push_slot idx (t_occ t ! j)) t) = (occ_list t)(ehash := occ_list t ehash @ [idx])"
    by (simp add: oc_def fun_upd_def)
qed

lemma claim_occ_list:
  assumes "tac_shape S t" "ehash \<noteq> 0" "ehash \<notin> set (occ_keys t)" "j < length (t_occ t)"
    and "occ_keys t ! j = 0" "tac_shape S (claim_occ ehash j t)"
  shows "occ_list (claim_occ ehash j t) = occ_list t"
proof -
  define oc where "oc = (t_occ t ! j)\<lparr>to_live_count := 0, to_entity_hash := ehash\<rparr>"
  have "occ_list (put_occ j oc t) = (occ_list t)(ehash := take (unat (to_live_count oc)) (to_slot oc))"
    by (rule occ_list_put [OF tac_shapeD(3) [OF assms(1)] tac_shapeD(3)
          [OF assms(6) [unfolded claim_occ_def oc_def [symmetric]]] assms(4)])
      (use assms(2,4,5) in \<open>simp_all add: oc_def\<close>)
  then show ?thesis
    using occ_list_absent [OF assms(3)] by (auto simp: claim_occ_def oc_def fun_eq_iff)
qed

lemma occ_add_slot_eq:
  "occ_find t ehash True = (Some j, t1) \<Longrightarrow> occ_add_slot t ehash idx =
     (if to_live_count (t_occ t1 ! j) \<ge> WAKE_TAC_PER_ENTITY_CAP_MAX then (False, t1)
      else (True, put_occ j (push_slot idx (t_occ t1 ! j)) t1))"
  by (simp add: occ_add_slot_def push_slot_def Let_def)

lemma occ_add_slot_spec:
  assumes "tac_shape S t" "ehash \<noteq> 0" "occ_add_slot t ehash idx = (ok, t')"
  shows "tac_shape S t' \<and> t_entries t' = t_entries t \<and> t_header t' = t_header t
     \<and> occ_list t' = (if ok then (occ_list t)(ehash := occ_list t ehash @ [idx]) else occ_list t)"
  using assms(1,2)
proof (cases rule: occ_find_cases [where claim = True])
  case (found j)
  with push_slot_spec [OF assms(1) found(1,2) assms(2)] assms(1,3) show ?thesis
    by (auto simp: occ_add_slot_eq split: if_splits)
next
  case (fresh d)
  define t1 where "t1 = claim_occ ehash (occ_idx t ehash d) t"
  have j: "occ_idx t ehash d < length (t_occ t)" by (rule occ_idx_less [OF tac_shapeD(1) [OF assms(1)]])
  have shape: "tac_shape S t1"
    unfolding t1_def by (rule claim_occ_shape [OF assms(1,2) fresh(1-4)])
  have list: "occ_list t1 = occ_list t"
    unfolding t1_def by (rule claim_occ_list [OF assms(1,2) fresh(1) j fresh(3) shape [unfolded t1_def]])
  have t1: "occ_idx t ehash d < length (t_occ t1)" "to_entity_hash (t_occ t1 ! occ_idx t ehash d) = ehash"
      "t_entries t1 = t_entries t" "t_header t1 = t_header t"
    using j by (simp_all add: t1_def claim_occ_def)
  from push_slot_spec [OF shape t1(1,2) assms(2)] list shape t1 assms(3) fresh(6) show ?thesis
    by (auto simp: occ_add_slot_eq t1_def [symmetric] split: if_splits)
next
  case none
  with assms show ?thesis by (auto simp: occ_add_slot_def)
qed

text \<open>Removing a slot overwrites it by the last one of the list.\<close>

lemma swap_remove_subset:
  assumes "i < length xs"
  shows "set xs - {xs ! i} \<subseteq> set (butlast (xs[i := last xs]))"
proof
  fix y
  assume y: "y \<in> set xs - {xs ! i}"
  then obtain k where k: "k < length xs" "xs ! k = y" "k \<noteq> i" by (auto simp: in_set_conv_nth)
  have last: "last xs = xs ! (length xs - 1)" using assms by (intro last_conv_nth) auto
  let ?p = "if k = length xs - 1 then i else k"
  have "?p < length (butlast (xs[i := last xs]))" using k assms by auto
  moreover have "butlast (xs[i := last xs]) ! ?p = y"
    using k assms last calculation by (auto simp: nth_butlast nth_list_update)
  ultimately show "y \<in> set (butlast (xs[i := last xs]))" by (metis nth_mem)
qed

lemma occ_del_slot_spec:
  assumes "tac_shape S t" "ehash \<noteq> 0" "idx \<in> set (occ_list t ehash)"
  obtains xs where "tac_shape S (occ_del_slot t ehash idx)"
    "t_entries (occ_del_slot t ehash idx) = t_entries t" "t_header (occ_del_slot t ehash idx) = t_header t"
    "occ_list (occ_del_slot t ehash idx) = (occ_list t)(ehash := xs)"
    "length xs = length (occ_list t ehash) - 1" "set (occ_list t ehash) - {idx} \<subseteq> set xs"
proof -
  from assms(1,2) obtain j where found: "j < length (t_occ t)" "to_entity_hash (t_occ t ! j) = ehash"
      "occ_find t ehash False = (Some j, t)"
    using assms(3) by (cases rule: occ_find_cases [where claim = False]) (auto simp: occ_list_absent)
  define oc where "oc = t_occ t ! j"
  define l where "l = occ_list t ehash"
  have ok: "length (to_slot oc) = 32" "unat (to_live_count oc) \<le> 32"
    using tac_shapeD(5) [OF assms(1) found(1)] by (simp_all add: oc_def occ_ok_def word_le_nat_alt)
  have l: "l = take (unat (to_live_count oc)) (to_slot oc)"
    unfolding l_def oc_def by (rule occ_list_at [OF tac_shapeD(3) [OF assms(1)] found(1,2) assms(2)])
  obtain i where fi: "find_index (\<lambda>s. s = idx) l = Some i"
    using find_index_ex [of idx l "\<lambda>s. s = idx"] assms(3) by (auto simp: l_def)
  then have i: "i < length l" "l ! i = idx" by (auto dest: find_index_SomeD)
  have len: "length l = unat (to_live_count oc)" using ok by (simp add: l)
  have pos: "to_live_count oc \<noteq> 0" using i(1) len by auto
  then have dec: "unat (to_live_count oc - 1) = length l - 1" by (simp add: unat_minus_one len)
  have last: "to_slot oc ! unat (to_live_count oc - 1) = last l"
    using i(1) unfolding dec by (subst last_conv_nth) (auto simp: l)
  define oc' where "oc' = oc\<lparr>to_slot := (to_slot oc)[i := last l], to_live_count := to_live_count oc - 1\<rparr>"
  have eq: "occ_del_slot t ehash idx = put_occ j oc' t"
    using fi by (simp add: occ_del_slot_def found(3) Let_def oc_def [symmetric] ok min_absorb1
        l [symmetric] last oc'_def)
  have ok': "occ_ok oc'" using ok dec len by (simp add: occ_ok_def oc'_def word_le_nat_alt)
  have shape: "tac_shape S (put_occ j oc' t)"
    using found by (intro tac_shape_occ_same [OF assms(1) ok']) (simp_all add: oc'_def oc_def)
  have "occ_list (put_occ j oc' t) = (occ_list t)(ehash := take (unat (to_live_count oc')) (to_slot oc'))"
    by (rule occ_list_put [OF tac_shapeD(3) [OF assms(1)] tac_shapeD(3) [OF shape] found(1)])
      (use found(2) assms(2) in \<open>simp_all add: oc'_def oc_def\<close>)
  moreover have "take (unat (to_live_count oc')) (to_slot oc') = butlast (l[i := last l])"
    using ok i by (simp add: oc'_def dec butlast_conv_take len) (simp add: l take_update_swap)
  ultimately show thesis
    using that [of "butlast (l[i := last l])"] shape swap_remove_subset [OF i(1)] i(2)
    by (simp add: eq l_def)
qed

section \<open>Probing for an edge\<close>

lemma tac_idx_in_range:
  assumes "tac_layout t"
  shows "tac_idx t k d < th_capacity (t_header t)" "tac_idx t k d \<noteq> UINT32_MAX"
proof -
  have "unat (tac_idx t k d) < unat (th_capacity (t_header t))"
    using tac_slot_less [OF assms, of k d] assms by (simp add: tac_slot_def tac_layout_def)
  moreover have "unat (th_capacity (t_header t)) \<le> 0x1000000"
    using assms by (simp add: tac_layout_def tac_header_ok_def word_le_nat_alt)
  ultimately have "unat (tac_idx t k d) < 0x1000000" "unat (tac_idx t k d) < unat (th_capacity (t_header t))"
    by linarith+
  then show "tac_idx t k d < th_capacity (t_header t)" "tac_idx t k d \<noteq> UINT32_MAX"
    by (auto simp: word_less_nat_alt)
qed

lemma slot_hash_live: "\<not> vacant (slot_hash_of t ehash t_lo t_hi)"
  by (simp add: slot_hash_of_def Let_def vacant_def)

lemma find_slot_loop_eq:
  assumes "tac_layout t"
  shows "find_slot_loop t k ps =
     (case find (\<lambda>p. tac_keys t ! tac_slot t k p = k \<or> tac_keys t ! tac_slot t k p = SLOT_EMPTY) ps of
        None \<Rightarrow> UINT32_MAX
      | Some p \<Rightarrow> if tac_keys t ! tac_slot t k p = k then tac_idx t k p else UINT32_MAX)"
  by (induction ps)
    (simp_all add: Let_def tac_slot_less [OF assms] tac_slot_less [OF assms, unfolded tac_slot_def]
      tac_slot_def)

text \<open>The bounded probe agrees with a search of the whole table.\<close>

lemma find_slot_cases [consumes 2, case_names found absent]:
  assumes "tac_shape S t" "\<not> vacant k"
  obtains (found) d where "find_slot t k = tac_idx t k d" "te_key_hash (t_entries t ! unat (tac_idx t k d)) = k"
  | (absent) "find_slot t k = UINT32_MAX" "k \<notin> set (tac_keys t)"
proof -
  define P where "P p \<longleftrightarrow> tac_keys t ! tac_slot t k p = k \<or> tac_keys t ! tac_slot t k p = SLOT_EMPTY" for p
  have lay: "tac_layout t" by (rule tac_shapeD(1) [OF assms(1)])
  note eq = find_slot_def find_slot_loop_eq [OF lay] P_def [symmetric]
  note abs = tct.absent [OF tac_shapeD(2) [OF assms(1)] assms(2)]
  show thesis
  proof (cases "find P [0..<WAKE_TAC_PROBE_MAX]")
    case None
    then have "k \<notin> set (tac_keys t)"
      by (intro abs [of WAKE_TAC_PROBE_MAX]) (simp_all add: find_upt_None P_def)
    with None show thesis by (intro absent) (simp_all add: eq)
  next
    case (Some d)
    then have d: "d < WAKE_TAC_PROBE_MAX" "P d" "\<forall>d'<d. \<not> P d'" by (simp_all add: find_upt_Some)
    show thesis
    proof (cases "tac_keys t ! tac_slot t k d = k")
      case True
      with Some have "find_slot t k = tac_idx t k d" by (simp add: eq)
      with True show thesis
        using tac_slot_less [OF lay, of k d] by (intro found [of d]) (simp_all add: tac_slot_def)
    next
      case False
      with d have "k \<notin> set (tac_keys t)"
        by (intro abs [of d]) (simp_all add: P_def)
      with False Some show thesis by (intro absent) (simp_all add: eq)
    qed
  qed
qed

lemma claim_loop_eq:
  assumes "tac_layout t"
  shows "claim_loop t k ps =
     (case find (\<lambda>p. vacant (tac_keys t ! tac_slot t k p)) ps of None \<Rightarrow> UINT32_MAX | Some p \<Rightarrow> tac_idx t k p)"
  by (induction ps)
    (simp_all add: Let_def vacant_def tac_slot_less [OF assms, unfolded tac_slot_def] tac_slot_def)

text \<open>An edge that is not in the table takes the first vacant slot of its probe.\<close>

lemma claim_shape:
  assumes "tac_shape S t" "\<not> vacant k" "k \<notin> set (tac_keys t)"
    and "claim_loop t k [0..<WAKE_TAC_PROBE_MAX] = c" "c \<noteq> UINT32_MAX"
  shows "unat c < length (t_entries t)" "vacant (te_key_hash (t_entries t ! unat c))"
    "tac_shape S (put_tac (unat c) ((t_entries t ! unat c)\<lparr>te_key_hash := k\<rparr>) t)"
proof -
  have lay: "tac_layout t" by (rule tac_shapeD(1) [OF assms(1)])
  from assms(4,5) obtain d where d: "c = tac_idx t k d" "d < WAKE_TAC_PROBE_MAX"
      "vacant (tac_keys t ! tac_slot t k d)" "\<forall>d'<d. \<not> vacant (tac_keys t ! tac_slot t k d')"
    by (auto simp: claim_loop_eq [OF lay] find_upt_Some split: option.splits)
  then have c: "unat c = tac_slot t k d" by (simp add: tac_slot_def)
  show less: "unat c < length (t_entries t)" unfolding c by (rule tac_slot_less [OF lay])
  with d(3) c show "vacant (te_key_hash (t_entries t ! unat c))" by simp
  let ?e = "(t_entries t ! unat c)\<lparr>te_key_hash := k\<rparr>"
  show "tac_shape S (put_tac (unat c) ?e t)"
  proof (rule tac_shape_put_tac [OF assms(1)])
    show "edge_ok S (t_header t) ?e" using tac_shapeD(4) [OF assms(1) less] by simp
    show "tct.chained (put_tac (unat c) ?e t)"
      by (rule tct.chained_fill [OF tac_shapeD(2,1) [OF assms(1)] assms(2,3) d(2,3)])
        (use d(4) vacant_zero_word in \<open>auto simp: c\<close>)
  qed
qed

end
