(* ===== verification/Wake_Tac_Ops.thy ===== *)
theory Wake_Tac_Ops
  imports Wake_Tac_Inv
begin

text \<open>
  What the operations of the coupling table keep: the invariant, and the hard bound on the number
  of edges of an entity.
\<close>

section \<open>The bound on the edges of an entity\<close>

text \<open>Every live edge but those at the positions \<open>X\<close> is in the sidecar list of its entity.\<close>

definition tracked :: "nat set \<Rightarrow> wake_tac_t \<Rightarrow> bool" where
  "tracked X t \<longleftrightarrow> (\<forall>i<length (t_entries t). i \<notin> X \<longrightarrow> \<not> vacant (te_key_hash (t_entries t ! i))
     \<longrightarrow> of_nat i \<in> set (occ_list t (te_entity_hash (t_entries t ! i))))"

definition within_cap :: "wake_tac_t \<Rightarrow> bool" where
  "within_cap t \<longleftrightarrow> (\<forall>eh. length (occ_list t eh) \<le> unat (th_per_entity_cap (t_header t)))"

definition live_edges :: "wake_tac_t \<Rightarrow> u64 \<Rightarrow> nat set" where
  "live_edges t eh = {i. i < length (t_entries t) \<and> \<not> vacant (te_key_hash (t_entries t ! i))
     \<and> te_entity_hash (t_entries t ! i) = eh}"

lemma slot_of_nat:
  assumes "tac_layout t" "i < length (t_entries t)"
  shows "unat (of_nat i :: u32) = i"
proof -
  have "length (t_entries t) \<le> 0x1000000"
    using assms(1) by (simp add: tac_layout_def tac_header_ok_def word_le_nat_alt)
  with assms(2) show ?thesis by (simp add: unat_of_nat take_bit_nat_eq_self)
qed

lemma live_edges_le:
  assumes "tac_shape S t" "tracked {} t"
  shows "card (live_edges t eh) \<le> length (occ_list t eh)"
proof -
  have inverse: "unat (of_nat i :: u32) = i" if "i \<in> live_edges t eh" for i
    using slot_of_nat [OF tac_shapeD(1) [OF assms(1)], of i] that by (simp add: live_edges_def)
  have "inj_on (of_nat :: nat \<Rightarrow> u32) (live_edges t eh)"
    by (rule inj_on_inverseI [of _ unat]) (rule inverse)
  moreover have "(of_nat :: nat \<Rightarrow> u32) ` live_edges t eh \<subseteq> set (occ_list t eh)"
    using assms(2) by (auto simp: tracked_def live_edges_def)
  ultimately have "card (live_edges t eh) \<le> card (set (occ_list t eh))"
    by (rule card_inj_on_le) simp
  also have "\<dots> \<le> length (occ_list t eh)" by (rule card_length)
  finally show ?thesis .
qed

lemma tracked_put:
  "tracked X t \<Longrightarrow> i \<in> X \<or> vacant (te_key_hash e) \<Longrightarrow> tracked X (put_tac i e t)"
  by (auto simp: tracked_def nth_update_if)

lemma tracked_settle:
  "tracked {i} t \<Longrightarrow> vacant (te_key_hash e) \<or> of_nat i \<in> set (occ_list t (te_entity_hash e))
     \<Longrightarrow> tracked {} (put_tac i e t)"
  by (auto simp: tracked_def nth_update_if)

lemma tracked_more:
  "tracked X t \<Longrightarrow> t_entries t' = t_entries t \<Longrightarrow> (\<And>eh. set (occ_list t eh) \<subseteq> set (occ_list t' eh))
     \<Longrightarrow> tracked X t'"
  by (fastforce simp: tracked_def)

section \<open>Choosing and retiring a victim\<close>

lemma weakest_edge_list:
  assumes "tac_shape S t" "ehash \<noteq> 0"
  shows "weakest_edge t ehash = weakest_loop t ehash (occ_list t ehash) UINT32_MAX UINT32_MAX"
  using assms
proof (cases rule: occ_find_cases [where claim = False])
  case (found j)
  with occ_list_at [OF tac_shapeD(3) [OF assms(1)] found(1,2) assms(2)] tac_shapeD(5) [OF assms(1) found(1)]
  show ?thesis by (simp add: weakest_edge_def Let_def occ_ok_def not_less [symmetric])
qed (simp_all add: weakest_edge_def occ_list_absent)

text \<open>The victim is a live edge of the entity, and no live edge of its list is lighter.\<close>

definition live_of :: "wake_tac_t \<Rightarrow> u64 \<Rightarrow> u32 \<Rightarrow> bool" where
  "live_of t ehash i \<longleftrightarrow> i < th_capacity (t_header t) \<and> \<not> vacant (te_key_hash (t_entries t ! unat i))
     \<and> te_entity_hash (t_entries t ! unat i) = ehash"

lemma weakest_loop_spec:
  "weakest_loop t ehash idxs v0 w0 = (v, w) \<Longrightarrow>
     (v = v0 \<and> w = w0 \<or> v \<in> set idxs \<and> live_of t ehash v \<and> te_weight (t_entries t ! unat v) = w)
   \<and> w \<le> w0 \<and> (\<forall>i\<in>set idxs. live_of t ehash i \<longrightarrow> w \<le> te_weight (t_entries t ! unat i))"
proof (induction idxs arbitrary: v0 w0)
  case Nil
  then show ?case by simp
next
  case (Cons i idxs)
  show ?case
  proof (cases "live_of t ehash i \<and> te_weight (t_entries t ! unat i) < w0")
    case True
    with Cons.prems have "weakest_loop t ehash idxs i (te_weight (t_entries t ! unat i)) = (v, w)"
      by (simp add: live_of_def not_less [symmetric])
    from Cons.IH [OF this] True show ?thesis by auto
  next
    case False
    with Cons.prems have "weakest_loop t ehash idxs v0 w0 = (v, w)"
      by (auto simp: live_of_def Let_def split: if_splits)
    from Cons.IH [OF this] False show ?thesis by auto
  qed
qed

lemma retire_victim_spec:
  assumes "tac_shape S t" "ehash \<noteq> 0" "v \<noteq> UINT32_MAX" "v \<in> set (occ_list t ehash)"
    and "unat v < length (t_entries t)"
  obtains xs where "tac_shape S (retire_victim ehash v t)" "t_header (retire_victim ehash v t) = t_header t"
    "t_entries (retire_victim ehash v t) =
       (t_entries t)[unat v := (t_entries t ! unat v)\<lparr>te_weight := 0, te_key_hash := SLOT_TOMBSTONE\<rparr>]"
    "occ_list (retire_victim ehash v t) = (occ_list t)(ehash := xs)"
    "length xs = length (occ_list t ehash) - 1" "set (occ_list t ehash) - {v} \<subseteq> set xs"
proof -
  define e where "e = (t_entries t ! unat v)\<lparr>te_weight := 0, te_key_hash := SLOT_TOMBSTONE\<rparr>"
  have "edge_ok S (t_header t) e"
    using edge_ok_lighter [OF tac_shapeD(4) [OF assms(1,5)], of 0] by (simp add: e_def)
  then have shape: "tac_shape S (put_tac (unat v) e t)"
    using assms(1,5) by (intro tac_shape_bury) (simp_all add: e_def)
  have "v \<in> set (occ_list (put_tac (unat v) e t) ehash)" using assms(4) by simp
  from occ_del_slot_spec [OF shape assms(2) this] obtain xs where
    "tac_shape S (occ_del_slot (put_tac (unat v) e t) ehash v)"
    "t_entries (occ_del_slot (put_tac (unat v) e t) ehash v) = t_entries (put_tac (unat v) e t)"
    "t_header (occ_del_slot (put_tac (unat v) e t) ehash v) = t_header (put_tac (unat v) e t)"
    "occ_list (occ_del_slot (put_tac (unat v) e t) ehash v) = (occ_list (put_tac (unat v) e t))(ehash := xs)"
    "length xs = length (occ_list (put_tac (unat v) e t) ehash) - 1"
    "set (occ_list (put_tac (unat v) e t) ehash) - {v} \<subseteq> set xs" by metis
  with assms(3) show thesis
    by (intro that [of xs]) (simp_all add: retire_victim_def e_def [symmetric])
qed

section \<open>Inserting an edge\<close>

text \<open>
  What a state transition that touches the edges of one entity keeps: the shape, and, everywhere
  but at the position \<open>c\<close> of the edge under construction, that edges are named and tracked.
\<close>

lemma retire_step:
  assumes "tac_shape S t" "ehash \<noteq> 0" "named {c} t"
    and "v = UINT32_MAX \<or> v \<in> set (occ_list t ehash) \<and> unat v < length (t_entries t) \<and> unat v \<noteq> c"
  shows "tac_shape S (retire_victim ehash v t) \<and> t_header (retire_victim ehash v t) = t_header t
     \<and> length (t_entries (retire_victim ehash v t)) = length (t_entries t)
     \<and> t_entries (retire_victim ehash v t) ! c = t_entries t ! c
     \<and> named {c} (retire_victim ehash v t)
     \<and> (tracked {c} t \<longrightarrow> tracked {c} (retire_victim ehash v t))
     \<and> (\<forall>eh. eh \<noteq> ehash \<longrightarrow> occ_list (retire_victim ehash v t) eh = occ_list t eh)
     \<and> length (occ_list (retire_victim ehash v t) ehash) =
         length (occ_list t ehash) - (if v = UINT32_MAX then 0 else 1)"
proof (cases "v = UINT32_MAX")
  case True
  with assms show ?thesis by (simp add: retire_victim_def)
next
  case False
  with assms(4) have v: "v \<in> set (occ_list t ehash)" "unat v < length (t_entries t)" "unat v \<noteq> c" by simp_all
  obtain xs where r: "tac_shape S (retire_victim ehash v t)" "t_header (retire_victim ehash v t) = t_header t"
    "t_entries (retire_victim ehash v t) =
       (t_entries t)[unat v := (t_entries t ! unat v)\<lparr>te_weight := 0, te_key_hash := SLOT_TOMBSTONE\<rparr>]"
    "occ_list (retire_victim ehash v t) = (occ_list t)(ehash := xs)"
    "length xs = length (occ_list t ehash) - 1" "set (occ_list t ehash) - {v} \<subseteq> set xs"
    by (rule retire_victim_spec [OF assms(1,2) False v(1,2)])
  have "tracked {c} (retire_victim ehash v t)" if tr: "tracked {c} t"
    unfolding tracked_def
  proof (intro allI impI)
    fix i
    assume i: "i < length (t_entries (retire_victim ehash v t))" "i \<notin> {c}"
      "\<not> vacant (te_key_hash (t_entries (retire_victim ehash v t) ! i))"
    then have ne: "i \<noteq> unat v" and i': "i < length (t_entries t)" "t_entries (retire_victim ehash v t) ! i = t_entries t ! i"
      by (auto simp: r(3) nth_update_if split: if_splits)
    have "unat (of_nat i :: u32) = i" by (rule slot_of_nat [OF tac_shapeD(1) [OF assms(1)] i'(1)])
    with ne have "of_nat i \<noteq> v" by auto
    moreover have "of_nat i \<in> set (occ_list t (te_entity_hash (t_entries t ! i)))"
      using tr i i' by (simp add: tracked_def)
    ultimately show "of_nat i \<in> set (occ_list (retire_victim ehash v t)
        (te_entity_hash (t_entries (retire_victim ehash v t) ! i)))"
      using r(6) by (auto simp: i'(2) r(4))
  qed
  moreover have "named {c} (retire_victim ehash v t)"
    using assms(3) by (auto simp: named_def r(3) nth_update_if)
  ultimately show ?thesis
    using r v False by simp
qed

text \<open>Building the edge, registering it and publishing its weight, or giving the slot up.\<close>

definition publish_edge :: "u64 \<Rightarrow> u32 \<Rightarrow> wake_tac_entry_t \<Rightarrow> u32 \<Rightarrow> wake_tac_t \<Rightarrow> wake_tac_result_t \<times> wake_tac_t" where
  "publish_edge ehash c e delta t =
     (let (ok, t4) = occ_add_slot (put_tac (unat c) e t) ehash c
      in if \<not> ok then (WAKE_TAC_REFUSED_CAP, put_tac (unat c) (e\<lparr>te_key_hash := SLOT_TOMBSTONE\<rparr>) t4)
         else (WAKE_TAC_APPLIED, put_tac (unat c) (e\<lparr>te_weight := delta\<rparr>) t4))"

lemma publish_edge_spec:
  assumes "tac_shape S t" "named {unat c} t" "ehash \<noteq> 0" "unat c < length (t_entries t)"
    and e: "edge_ok S (t_header t) e" "edge_ok S (t_header t) (e\<lparr>te_weight := delta\<rparr>)"
      "te_key_hash e = te_key_hash (t_entries t ! unat c)" "te_entity_hash e = ehash"
    and pub: "publish_edge ehash c e delta t = (r, t')"
  shows "tac_inv S t' \<and> t_header t' = t_header t
     \<and> (\<forall>eh. eh \<noteq> ehash \<longrightarrow> occ_list t' eh = occ_list t eh)
     \<and> length (occ_list t' ehash) = length (occ_list t ehash) + (if r = WAKE_TAC_APPLIED then 1 else 0)
     \<and> (tracked {unat c} t \<longrightarrow> tracked {} t')
     \<and> length (t_entries t') = length (t_entries t)
     \<and> (r = WAKE_TAC_APPLIED \<longrightarrow> t_entries t' ! unat c = e\<lparr>te_weight := delta\<rparr>)"
proof -
  define t3 where "t3 = put_tac (unat c) e t"
  have shape3: "tac_shape S t3"
    unfolding t3_def by (rule tac_shape_put_same [OF assms(1) e(1) assms(4) e(3)])
  obtain ok t4 where add: "occ_add_slot t3 ehash c = (ok, t4)" by fastforce
  have t4: "tac_shape S t4" "t_entries t4 = t_entries t3" "t_header t4 = t_header t"
    "occ_list t4 = (if ok then (occ_list t)(ehash := occ_list t ehash @ [c]) else occ_list t)"
    using occ_add_slot_spec [OF shape3 assms(3) add] by (simp_all add: t3_def)
  have c4: "unat c < length (t_entries t4)" "t_entries t4 ! unat c = e" using t4(2) assms(4) by (simp_all add: t3_def)
  have named4: "named {unat c} t4"
    using named_put [OF assms(2), of "unat c" e] t4(2) by (simp add: named_def t3_def)
  have tracked4: "tracked {unat c} t4" if "tracked {unat c} t"
  proof (rule tracked_more)
    show "tracked {unat c} t3" unfolding t3_def by (rule tracked_put [OF that]) simp
    show "t_entries t4 = t_entries t3" by (rule t4(2))
    show "set (occ_list t3 eh) \<subseteq> set (occ_list t4 eh)" for eh
      by (cases "eh = ehash") (auto simp: t4(4) t3_def)
  qed
  show ?thesis
  proof (cases ok)
    case True
    then have t': "t' = put_tac (unat c) (e\<lparr>te_weight := delta\<rparr>) t4" "r = WAKE_TAC_APPLIED"
      using pub add by (simp_all add: publish_edge_def t3_def [symmetric])
    have "tac_shape S t'" unfolding t'
      by (rule tac_shape_put_same [OF t4(1) _ c4(1)]) (use e(2) t4(3) c4 in simp_all)
    moreover have "named {} t'" unfolding t' using named4 e(4) assms(3) by (intro named_settle) simp_all
    moreover have "tracked {unat c} t \<longrightarrow> tracked {} t'"
      unfolding t' using tracked4 e(4) True t4(4) by (intro impI tracked_settle) simp_all
    ultimately show ?thesis using t' t4 c4(1) True by (simp add: tac_inv_def t3_def)
  next
    case False
    then have t': "t' = put_tac (unat c) (e\<lparr>te_key_hash := SLOT_TOMBSTONE\<rparr>) t4" "r = WAKE_TAC_REFUSED_CAP"
      using pub add by (simp_all add: publish_edge_def t3_def [symmetric])
    have "tac_shape S t'" unfolding t'
      by (rule tac_shape_bury [OF t4(1) _ c4(1)]) (use e(1) t4(3) in simp_all)
    moreover have "named {} t'" unfolding t' using named4 by (intro named_settle) simp_all
    moreover have "tracked {unat c} t \<longrightarrow> tracked {} t'"
      unfolding t' using tracked4 by (intro impI tracked_settle) simp_all
    ultimately show ?thesis using t' t4 False by (simp add: tac_inv_def t3_def)
  qed
qed

lemma insert_edge_eq:
  "insert_edge t ehash key t_lo t_hi eta_hi delta w0_src w1_src now_rel slot_key =
     (let at_cap = (occ_count t ehash \<ge> ucast (th_per_entity_cap (t_header t)));
          (victim, weakest_w) = (if at_cap then weakest_edge t ehash else (UINT32_MAX, UINT32_MAX));
          c = claim_loop t slot_key [0..<WAKE_TAC_PROBE_MAX];
          t2 = retire_victim ehash victim
                 (put_tac (unat c) ((t_entries t ! unat c)\<lparr>te_key_hash := slot_key\<rparr>) t)
      in if at_cap \<and> (victim = UINT32_MAX \<or> delta \<le> weakest_w) then (WAKE_TAC_REFUSED_CAP, t)
         else if c = UINT32_MAX then (WAKE_TAC_TABLE_FULL, t)
         else publish_edge ehash c
                (build_edge (t_header t) ehash key t_lo t_hi eta_hi delta w0_src w1_src now_rel
                   (t_entries t2 ! unat c)) delta t2)"
  unfolding insert_edge_def publish_edge_def Let_def case_prod_unfold by (rule refl)

definition capped :: "wake_tac_t \<Rightarrow> bool" where
  "capped t \<longleftrightarrow> tracked {} t \<and> within_cap t"

lemma tracked_weaken: "tracked {} t \<Longrightarrow> tracked X t"
    and named_weaken: "named {} t \<Longrightarrow> named X t"
  by (simp_all add: tracked_def named_def)

text \<open>The entity has as many edges as it may have.\<close>

definition at_cap :: "wake_tac_t \<Rightarrow> u64 \<Rightarrow> bool" where
  "at_cap t ehash \<longleftrightarrow> occ_count t ehash \<ge> ucast (th_per_entity_cap (t_header t))"

definition take_slot :: "u64 \<Rightarrow> u32 \<Rightarrow> wake_tac_t \<Rightarrow> wake_tac_t" where
  "take_slot k c t = put_tac (unat c) ((t_entries t ! unat c)\<lparr>te_key_hash := k\<rparr>) t"

text \<open>The two ways an insertion goes: refused outright, or a slot is taken and the edge published.\<close>

lemma insert_edge_cases:
  assumes shape: "tac_shape S t" and eh: "ehash \<noteq> 0" and k: "\<not> vacant k" "k \<notin> set (tac_keys t)"
    and ins: "insert_edge t ehash key t_lo t_hi eta_hi delta w0_src w1_src now_rel k = (r, t')"
  obtains (refused) "r \<noteq> WAKE_TAC_APPLIED" "t' = t"
  | (published) c v where "unat c < length (t_entries t)" "vacant (te_key_hash (t_entries t ! unat c))"
      "tac_shape S (take_slot k c t)"
      "v = UINT32_MAX \<and> \<not> at_cap t ehash \<or> at_cap t ehash \<and> v \<noteq> UINT32_MAX
        \<and> v \<in> set (occ_list (take_slot k c t) ehash) \<and> unat v < length (t_entries (take_slot k c t)) \<and> unat v \<noteq> unat c"
      "publish_edge ehash c (build_edge (t_header t) ehash key t_lo t_hi eta_hi delta w0_src w1_src now_rel
         (t_entries (retire_victim ehash v (take_slot k c t)) ! unat c)) delta
         (retire_victim ehash v (take_slot k c t)) = (r, t')"
proof -
  obtain v w where vw: "(if at_cap t ehash then weakest_edge t ehash else (UINT32_MAX, UINT32_MAX)) = (v, w)"
    by fastforce
  define c where "c = claim_loop t k [0..<WAKE_TAC_PROBE_MAX]"
  note eq = insert_edge_eq Let_def at_cap_def [symmetric] vw c_def [symmetric] take_slot_def [symmetric]
  show thesis
  proof (cases "at_cap t ehash \<and> (v = UINT32_MAX \<or> delta \<le> w) \<or> c = UINT32_MAX")
    case True
    with ins show thesis by (intro refused) (auto simp: eq split: if_splits)
  next
    case False
    have c: "unat c < length (t_entries t)" "vacant (te_key_hash (t_entries t ! unat c))"
        "tac_shape S (take_slot k c t)"
      using claim_shape [OF shape k, of c] False by (simp_all add: c_def take_slot_def)
    have v: "v = UINT32_MAX \<and> \<not> at_cap t ehash \<or> at_cap t ehash \<and> v \<noteq> UINT32_MAX
        \<and> v \<in> set (occ_list (take_slot k c t) ehash) \<and> unat v < length (t_entries (take_slot k c t)) \<and> unat v \<noteq> unat c"
    proof (cases "at_cap t ehash")
      case True
      with vw have "weakest_loop t ehash (occ_list t ehash) UINT32_MAX UINT32_MAX = (v, w)"
        by (simp add: weakest_edge_list [OF shape eh])
      from weakest_loop_spec [OF this] False True
      have "v \<in> set (occ_list t ehash)" "live_of t ehash v" by auto
      moreover from this c(2) have "unat v \<noteq> unat c" by (auto simp: live_of_def)
      ultimately show ?thesis
        using tac_shapeD(1) [OF shape] True False
        by (auto simp: live_of_def take_slot_def tac_layout_def word_less_nat_alt)
    qed (use vw in simp)
    from False ins show thesis
      by (intro published [OF c v]) (simp add: eq split: if_splits)
  qed
qed

lemma insert_edge_spec:
  assumes inv: "tac_inv S t" and eh: "ehash \<noteq> 0" and k: "\<not> vacant k" "k \<notin> set (tac_keys t)"
    and d: "delta \<le> WAKE_TAC_DELTA_MAX"
    and w0: "w0_src \<in> S" "w0_src \<noteq> WAKE_TAC_SRC_NONE"
    and w1: "w1_src \<noteq> WAKE_TAC_SRC_NONE \<Longrightarrow> w1_src \<in> S"
    and ins: "insert_edge t ehash key t_lo t_hi eta_hi delta w0_src w1_src now_rel k = (r, t')"
  shows "tac_inv S t' \<and> t_header t' = t_header t \<and> (capped t \<longrightarrow> capped t')
     \<and> (r = WAKE_TAC_APPLIED \<longrightarrow> (\<exists>e\<in>set (t_entries t'). te_key_hash e = k \<and> te_weight e = delta))"
proof -
  have shape: "tac_shape S t" and named: "named {} t" using inv by (simp_all add: tac_inv_def)
  show ?thesis
  proof (rule insert_edge_cases [OF shape eh k ins])
    assume "r \<noteq> WAKE_TAC_APPLIED" "t' = t"
    with inv show ?thesis by simp
  next
    fix c v
    assume c: "unat c < length (t_entries t)" "vacant (te_key_hash (t_entries t ! unat c))"
      and "tac_shape S (take_slot k c t)"
      and "v = UINT32_MAX \<and> \<not> at_cap t ehash \<or> at_cap t ehash \<and> v \<noteq> UINT32_MAX
        \<and> v \<in> set (occ_list (take_slot k c t) ehash) \<and> unat v < length (t_entries (take_slot k c t)) \<and> unat v \<noteq> unat c"
      and "publish_edge ehash c (build_edge (t_header t) ehash key t_lo t_hi eta_hi delta w0_src w1_src now_rel
         (t_entries (retire_victim ehash v (take_slot k c t)) ! unat c)) delta
         (retire_victim ehash v (take_slot k c t)) = (r, t')"
    moreover define t1 where "t1 = take_slot k c t"
    moreover define t2 where "t2 = retire_victim ehash v t1"
    moreover define e where "e = build_edge (t_header t) ehash key t_lo t_hi eta_hi delta w0_src w1_src now_rel
                   (t_entries t2 ! unat c)"
    ultimately have shape1: "tac_shape S t1" and v: "v = UINT32_MAX \<and> \<not> at_cap t ehash \<or> at_cap t ehash \<and> v \<noteq> UINT32_MAX
        \<and> v \<in> set (occ_list t1 ehash) \<and> unat v < length (t_entries t1) \<and> unat v \<noteq> unat c"
      and pub: "publish_edge ehash c e delta t2 = (r, t')" by simp_all
    have named1: "named {unat c} t1"
      unfolding t1_def take_slot_def by (rule named_put [OF named_weaken [OF named]]) simp
    have t2: "tac_shape S t2" "t_header t2 = t_header t" "length (t_entries t2) = length (t_entries t)"
      "t_entries t2 ! unat c = t_entries t1 ! unat c" "named {unat c} t2"
      "tracked {unat c} t1 \<longrightarrow> tracked {unat c} t2" "\<forall>eh. eh \<noteq> ehash \<longrightarrow> occ_list t2 eh = occ_list t eh"
      "length (occ_list t2 ehash) = length (occ_list t ehash) - (if v = UINT32_MAX then 0 else 1)"
      using retire_step [OF shape1 eh named1, of v] v by (auto simp: t2_def t1_def take_slot_def)
    have h: "WAKE_TAC_DELTA_MAX \<le> th_budget_per_source (t_header t)" "th_budget_per_source (t_header t) \<le> 65535"
      using tac_shapeD(1) [OF shape] by (simp_all add: tac_layout_def tac_header_ok_def)
    have e: "edge_ok S (t_header t) (e\<lparr>te_weight := 0\<rparr>)" "edge_ok S (t_header t) (e\<lparr>te_weight := delta\<rparr>)"
      unfolding e_def by (rule build_edge_ok [OF h d w0 w1]; simp)+
    then have e0: "edge_ok S (t_header t) e" by (simp add: e_def edge_ok_def)
    have t': "tac_inv S t'" "t_header t' = t_header t2" "\<forall>eh. eh \<noteq> ehash \<longrightarrow> occ_list t' eh = occ_list t2 eh"
      "length (occ_list t' ehash) = length (occ_list t2 ehash) + (if r = WAKE_TAC_APPLIED then 1 else 0)"
      "tracked {unat c} t2 \<longrightarrow> tracked {} t'" "length (t_entries t') = length (t_entries t)"
      "r = WAKE_TAC_APPLIED \<longrightarrow> t_entries t' ! unat c = e\<lparr>te_weight := delta\<rparr>"
      using publish_edge_spec [OF t2(1,5) eh _ _ _ _ _ pub] c(1) t2(2-4) e0 e(2) by (simp_all add: e_def)
    have "tracked {} t'" if "tracked {} t"
      using t'(5) t2(6) tracked_put [OF tracked_weaken [OF that], of "unat c" "{unat c}"]
      by (simp add: t1_def take_slot_def)
    moreover have "within_cap t'" if cap: "within_cap t"
      unfolding within_cap_def
    proof
      fix x
      have room: "length (occ_list t ehash) < unat (th_per_entity_cap (t_header t))" if "\<not> at_cap t ehash"
        using that occ_count_list [OF shape eh] by (simp add: at_cap_def not_le word_less_nat_alt)
      have "0 < unat (th_per_entity_cap (t_header t))"
        using tac_shapeD(1) [OF shape] by (simp add: tac_layout_def tac_header_ok_def unat_gt_0)
      with room v t'(4) t2(8) spec [OF cap [unfolded within_cap_def], of ehash]
      have "length (occ_list t' ehash) \<le> unat (th_per_entity_cap (t_header t))" by auto
      with cap t' t2 show "length (occ_list t' x) \<le> unat (th_per_entity_cap (t_header t'))"
        by (cases "x = ehash") (simp_all add: within_cap_def)
    qed
    moreover have "\<exists>e\<in>set (t_entries t'). te_key_hash e = k \<and> te_weight e = delta" if "r = WAKE_TAC_APPLIED"
    proof (rule bexI [of _ "t_entries t' ! unat c"])
      show "t_entries t' ! unat c \<in> set (t_entries t')" using c(1) t'(6) by simp
      show "te_key_hash (t_entries t' ! unat c) = k \<and> te_weight (t_entries t' ! unat c) = delta"
        using that t'(7) t2(4) c(1) by (simp add: e_def t1_def take_slot_def)
    qed
    ultimately show ?thesis using t'(1,2) t2(2) by (simp add: capped_def)
  qed
qed

section \<open>Reinforcement\<close>

text \<open>What every operation of the write path keeps.\<close>

definition keeps :: "u16 set \<Rightarrow> wake_tac_t \<Rightarrow> wake_tac_t \<Rightarrow> bool" where
  "keeps S t t' \<longleftrightarrow> tac_inv S t' \<and> t_header t' = t_header t \<and> (capped t \<longrightarrow> capped t')"

lemma keeps_refl: "tac_inv S t \<Longrightarrow> keeps S t t"
  by (simp add: keeps_def)

lemma keeps_trans: "keeps S t t' \<Longrightarrow> keeps S t' t'' \<Longrightarrow> keeps S t t''"
  by (auto simp: keeps_def)

lemma entity_hash_of_nonzero: "entity_hash_of t key \<noteq> 0"
  by (simp add: entity_hash_of_def Let_def)

lemma edge_strength_bounds:
  "snd (edge_strength w0_eta w1_eta w1_src) \<le> WAKE_TAC_DELTA_MAX"
  "snd (edge_strength w0_eta w1_eta w1_src) \<noteq> 0"
proof -
  have "WAKE_TAC_DELTA x \<le> WAKE_TAC_DELTA_MAX" for x
    using unat_u16_less [of x] by (simp add: WAKE_TAC_DELTA_def word_le_nat_alt)
  then show "snd (edge_strength w0_eta w1_eta w1_src) \<le> WAKE_TAC_DELTA_MAX"
    by (simp add: edge_strength_def Let_def)
  show "snd (edge_strength w0_eta w1_eta w1_src) \<noteq> 0"
    by (simp add: edge_strength_def Let_def)
qed

lemma keeps_update:
  assumes inv: "tac_inv S t" and i: "i < length (t_entries t)" and e: "edge_ok S (t_header t) e"
    and same: "te_key_hash e = te_key_hash (t_entries t ! i)" "te_entity_hash e = te_entity_hash (t_entries t ! i)"
  shows "keeps S t (put_tac i e t)"
proof -
  have "tac_shape S (put_tac i e t)"
    using inv by (intro tac_shape_put_same [OF _ e i same(1)]) (simp add: tac_inv_def)
  moreover have "named {} (put_tac i e t)" "tracked {} t \<Longrightarrow> tracked {} (put_tac i e t)"
    using inv same by (auto simp: tac_inv_def named_def tracked_def nth_update_if)
  ultimately show ?thesis
    by (auto simp: keeps_def tac_inv_def capped_def within_cap_def)
qed

lemma apply_edge_keeps:
  assumes inv: "tac_inv S t" and eh: "ehash \<noteq> 0"
    and w0: "w0_src \<in> S" "w0_src \<noteq> WAKE_TAC_SRC_NONE"
    and w1: "w1_src \<noteq> WAKE_TAC_SRC_NONE \<Longrightarrow> w1_src \<in> S"
  shows "keeps S t (snd (apply_edge t ehash key t_lo t_hi w0_eta w0_src w1_eta w1_src now_rel))"
proof -
  have shape: "tac_shape S t" using inv by (simp add: tac_inv_def)
  have lay: "tac_layout t" by (rule tac_shapeD(1) [OF shape])
  obtain eta_hi delta where str: "edge_strength w0_eta w1_eta w1_src = (eta_hi, delta)" by fastforce
  have d: "delta \<le> WAKE_TAC_DELTA_MAX" using edge_strength_bounds(1) [of w0_eta w1_eta w1_src] by (simp add: str)
  define k where "k = slot_hash_of t ehash t_lo t_hi"
  have k: "\<not> vacant k" unfolding k_def by (rule slot_hash_live)
  from shape k show ?thesis
  proof (cases rule: find_slot_cases)
    case (found p)
    have i: "unat (tac_idx t k p) < length (t_entries t)"
      using tac_slot_less [OF lay, of k p] by (simp add: tac_slot_def)
    have h: "th_budget_per_source (t_header t) \<le> 65535"
      using lay by (simp add: tac_layout_def tac_header_ok_def)
    have "keeps S t (put_tac (unat (tac_idx t k p)) (snd (reinforce_existing (t_header t) delta eta_hi w0_src w1_src
        now_rel (t_entries t ! unat (tac_idx t k p)))) t)"
      by (rule keeps_update [OF inv i reinforce_existing_ok [OF tac_shapeD(4) [OF shape i] h d w0 w1]]) simp_all
    then show ?thesis
      using tac_idx_in_range(2) [OF lay, of k p]
      by (simp add: apply_edge_def str Let_def k_def [symmetric] found case_prod_unfold)
  next
    case absent
    obtain r t' where ins: "insert_edge t ehash key t_lo t_hi eta_hi delta w0_src w1_src now_rel k = (r, t')"
      by fastforce
    from insert_edge_spec [OF inv eh k absent(2) d w0 w1 ins] ins absent(1) show ?thesis
      by (simp add: apply_edge_def str Let_def k_def [symmetric] keeps_def)
  qed
qed

lemma find_key_nth:
  assumes "tac_shape S t" "i < length (t_entries t)" "te_key_hash (t_entries t ! i) = k" "\<not> vacant k"
  shows "find (\<lambda>e. te_key_hash e = k) (t_entries t) = Some (t_entries t ! i)"
proof -
  have "j = i" if "j < length (t_entries t)" "te_key_hash (t_entries t ! j) = k" for j
    using tct.chainedD(2) [OF tac_shapeD(2) [OF assms(1)], of i j] that assms by simp
  with assms(2,3) show ?thesis by (rule find_unique)
qed

text \<open>A lookup returns the edge with the key, wherever it is.\<close>

lemma find_slot_lookup:
  assumes shape: "tac_shape S t" and k: "\<not> vacant k"
  shows "case find (\<lambda>e. te_key_hash e = k) (t_entries t) of
      None \<Rightarrow> find_slot t k = UINT32_MAX
    | Some e \<Rightarrow> find_slot t k \<noteq> UINT32_MAX \<and> t_entries t ! unat (find_slot t k) = e"
  using assms
proof (cases rule: find_slot_cases)
  case (found p)
  have lay: "tac_layout t" by (rule tac_shapeD(1) [OF shape])
  define i where "i = unat (tac_idx t k p)"
  have i: "i < length (t_entries t)" using tac_slot_less [OF lay, of k p] by (simp add: tac_slot_def i_def)
  have ik: "te_key_hash (t_entries t ! i) = k" using found(2) by (simp add: i_def)
  have "find (\<lambda>e. te_key_hash e = k) (t_entries t) = Some (t_entries t ! i)"
    by (rule find_key_nth [OF shape i ik k])
  with found(1) tac_idx_in_range(2) [OF lay, of k p] show ?thesis by (simp add: i_def)
next
  case absent
  then have "find (\<lambda>e. te_key_hash e = k) (t_entries t) = None"
    by (auto simp: find_None_iff tac_keys_def)
  with absent show ?thesis by simp
qed

text \<open>What an applied reinforcement adds.\<close>

lemma strengthen_weight: "te_weight (strengthen h delta eta_hi now_rel ns0 ns1 e) = te_weight e + delta"
  by (simp add: strengthen_def Let_def quarantine_reassess_def)

lemma reinforce_existing_applied:
  "fst (reinforce_existing h delta eta_hi w0_src w1_src now_rel e) = WAKE_TAC_APPLIED \<Longrightarrow>
     te_weight (snd (reinforce_existing h delta eta_hi w0_src w1_src now_rel e)) = te_weight e + delta"
  by (auto simp: reinforce_existing_def Let_def strengthen_weight case_prod_unfold split: if_splits)

lemma apply_edge_applied:
  assumes inv: "tac_inv S t" and eh: "ehash \<noteq> 0"
    and w0: "w0_src \<in> S" "w0_src \<noteq> WAKE_TAC_SRC_NONE"
    and w1: "w1_src \<noteq> WAKE_TAC_SRC_NONE \<Longrightarrow> w1_src \<in> S"
    and app: "apply_edge t ehash key t_lo t_hi w0_eta w0_src w1_eta w1_src now_rel = (WAKE_TAC_APPLIED, t')"
  defines "k \<equiv> slot_hash_of t ehash t_lo t_hi"
  shows "\<exists>e\<in>set (t_entries t'). te_key_hash e = k \<and> te_weight e =
     (case find (\<lambda>e. te_key_hash e = k) (t_entries t) of None \<Rightarrow> 0 | Some e \<Rightarrow> te_weight e)
       + snd (edge_strength w0_eta w1_eta w1_src)"
proof -
  have shape: "tac_shape S t" using inv by (simp add: tac_inv_def)
  have lay: "tac_layout t" by (rule tac_shapeD(1) [OF shape])
  obtain eta_hi delta where str: "edge_strength w0_eta w1_eta w1_src = (eta_hi, delta)" by fastforce
  have d: "delta \<le> WAKE_TAC_DELTA_MAX" using edge_strength_bounds(1) [of w0_eta w1_eta w1_src] by (simp add: str)
  have k: "\<not> vacant k" unfolding k_def by (rule slot_hash_live)
  from shape k show ?thesis
  proof (cases rule: find_slot_cases)
    case (found p)
    define i where "i = unat (tac_idx t k p)"
    define e where "e = reinforce_existing (t_header t) delta eta_hi w0_src w1_src now_rel (t_entries t ! i)"
    have i: "i < length (t_entries t)" using tac_slot_less [OF lay, of k p] by (simp add: tac_slot_def i_def)
    have ik: "te_key_hash (t_entries t ! i) = k" using found(2) by (simp add: i_def)
    have old: "find (\<lambda>e. te_key_hash e = k) (t_entries t) = Some (t_entries t ! i)"
      using find_slot_lookup [OF shape k] found(1) tac_idx_in_range(2) [OF lay, of k p]
      by (auto simp: i_def split: option.splits)
    have "fst e = WAKE_TAC_APPLIED" "t' = put_tac i (snd e) t"
      using app tac_idx_in_range(2) [OF lay, of k p]
      by (simp_all add: apply_edge_def str Let_def k_def [symmetric] found(1) case_prod_unfold i_def [symmetric] e_def [symmetric])
    with i ik show ?thesis
      by (intro bexI [of _ "snd e"])
        (simp_all add: e_def reinforce_existing_applied old str set_update_memI)
  next
    case absent
    then have ins: "insert_edge t ehash key t_lo t_hi eta_hi delta w0_src w1_src now_rel k = (WAKE_TAC_APPLIED, t')"
      using app by (simp add: apply_edge_def str Let_def k_def [symmetric])
    have "find (\<lambda>e. te_key_hash e = k) (t_entries t) = None"
      using absent(2) by (auto simp: find_None_iff tac_keys_def)
    with insert_edge_spec [OF inv eh k absent(2) d w0 w1 ins] show ?thesis by (simp add: str)
  qed
qed

lemma normalize_source_none [simp]: "normalize_source s = WAKE_TAC_SRC_NONE \<longleftrightarrow> s = WAKE_TAC_SRC_NONE"
  by (simp add: normalize_source_def)

lemma wake_tac_reinforce_keeps:
  assumes "tac_inv S t" "normalize_source source_id \<in> S"
  shows "keeps S t (snd (wake_tac_reinforce t entity_key t_a t_b eta_fp16 source_id now_rel))"
  using assms keeps_refl [OF assms(1)]
  by (auto simp: wake_tac_reinforce_def Let_def entity_hash_of_nonzero split: option.split
      intro!: apply_edge_keeps)

lemma batch_loop_keeps:
  assumes eh: "ehash \<noteq> 0"
    and src: "\<And>i. i < length acts \<Longrightarrow> ta_source_id (acts ! i) \<noteq> WAKE_TAC_SRC_NONE
       \<Longrightarrow> normalize_source (ta_source_id (acts ! i)) \<in> S"
  shows "tac_inv S t \<Longrightarrow> \<forall>(i, j)\<in>set ps. i < length acts \<and> j < length acts \<Longrightarrow>
     keeps S t (snd (batch_loop ehash key acts now_rel ps applied t))"
proof (induction ps arbitrary: applied t)
  case Nil
  then show ?case by (simp add: keeps_refl)
next
  case (Cons p ps)
  obtain i j where p: "p = (i, j)" by fastforce
  let ?x = "acts ! i" and ?y = "acts ! j"
  show ?case
  proof (cases "ta_source_id ?x = WAKE_TAC_SRC_NONE \<or> ta_source_id ?y = WAKE_TAC_SRC_NONE
      \<or> ta_technique ?x = ta_technique ?y")
    case True
    with Cons show ?thesis by (simp add: p Let_def)
  next
    case False
    obtain r t' where app: "apply_edge t ehash key
        (if ta_technique ?x < ta_technique ?y then ta_technique ?x else ta_technique ?y)
        (if ta_technique ?x < ta_technique ?y then ta_technique ?y else ta_technique ?x)
        (ta_eta_fp16 ?x) (normalize_source (ta_source_id ?x))
        (ta_eta_fp16 ?y) (normalize_source (ta_source_id ?y)) now_rel = (r, t')" by fastforce
    have ij: "i < length acts" "j < length acts" using Cons.prems(2) by (simp_all add: p)
    have "keeps S t (snd (r, t'))"
      unfolding app [symmetric] using False src ij Cons.prems(1)
      by (intro apply_edge_keeps eh) simp_all
    then have k: "keeps S t t'" and inv: "tac_inv S t'" by (simp_all add: keeps_def)
    have "\<forall>(i, j)\<in>set ps. i < length acts \<and> j < length acts" using Cons.prems(2) by simp
    from keeps_trans [OF k Cons.IH [OF inv this]] False app show ?thesis
      by (simp add: p Let_def)
  qed
qed

lemma index_pairs_less: "\<forall>(i, j)\<in>set (index_pairs n). i < n \<and> j < n"
  by (auto simp: index_pairs_def)

lemma wake_tac_reinforce_batch_keeps:
  assumes "tac_inv S t"
    and "\<And>a. a \<in> set as \<Longrightarrow> ta_source_id a \<noteq> WAKE_TAC_SRC_NONE \<Longrightarrow> normalize_source (ta_source_id a) \<in> S"
  shows "keeps S t (snd (wake_tac_reinforce_batch t entity_key (Some as) now_rel))"
  using keeps_refl [OF assms(1)]
    batch_loop_keeps [OF entity_hash_of_nonzero _ assms(1) index_pairs_less, of as] assms(2)
  by (auto simp: wake_tac_reinforce_batch_def split: option.split)

section \<open>Reset and decay\<close>

lemma zero_tac_entry_simps [simp]:
  "te_key_hash zero_tac_entry = 0" "edge_ok S h zero_tac_entry"
  by (simp_all add: zero_tac_entry_def edge_ok_def five_free)

lemma tac_inv_zero:
  assumes "tac_header_ok h" "t_header t = h"
    and "t_entries t = replicate (unat (th_capacity h)) zero_tac_entry"
    and "t_occ t = replicate (unat (th_occ_slots h)) zero_occ"
    and "t_map_size t = tac_map_size (th_capacity h) (th_occ_slots h)"
  shows "tac_inv S t" "capped t"
proof -
  have lay: "tac_layout t" using assms by (simp add: tac_layout_def)
  have "tct.chained t" by (rule tct.chained_empty) (simp add: assms(3))
  moreover have "oct.chained t" by (rule oct.chained_empty) (simp add: assms(4) zero_occ_def)
  ultimately show "tac_inv S t"
    using lay assms by (simp add: tac_inv_def tac_shape_def named_def occ_ok_def zero_occ_def)
  have "occ_list t eh = []" for eh
    by (auto simp: occ_list_def assms(4) find_Some_iff zero_occ_def split: option.split)
  then show "capped t" by (simp add: capped_def tracked_def within_cap_def assms(3))
qed

text \<open>The rebuild starts from an empty sidecar.\<close>

lemma clear_occ_spec:
  assumes "tac_inv S t"
  shows "tac_inv S (clear_occ t)" "occ_list (clear_occ t) = (\<lambda>eh. [])"
    "t_entries (clear_occ t) = t_entries t" "t_header (clear_occ t) = t_header t"
proof -
  let ?t = "clear_occ t"
  show frame: "t_entries ?t = t_entries t" "t_header ?t = t_header t" by (simp_all add: clear_occ_def)
  have shape: "tac_shape S t" and named: "named {} t" using assms by (simp_all add: tac_inv_def)
  have keys: "tac_keys ?t = tac_keys t" by (simp add: tac_keys_def frame)
  have slot: "tac_slot ?t = tac_slot t" by (intro ext) (simp add: tac_slot_def tac_idx_def frame)
  have "tct.chained ?t" by (rule tct.chained_same [OF tac_shapeD(2) [OF shape] keys slot])
  moreover have "oct.chained ?t" by (rule oct.chained_empty) (simp add: clear_occ_def)
  moreover have "tac_layout ?t" using tac_shapeD(1) [OF shape] by (simp add: tac_layout_def clear_occ_def)
  moreover have "\<forall>oc\<in>set (t_occ ?t). occ_ok oc"
    using shape by (simp add: tac_shape_def clear_occ_def occ_ok_def)
  moreover have "\<forall>e\<in>set (t_entries ?t). edge_ok S (t_header ?t) e"
    using shape by (simp add: tac_shape_def frame)
  moreover have "named {} ?t" using named by (simp add: named_def frame)
  ultimately show "tac_inv S ?t" by (simp add: tac_inv_def tac_shape_def)
  show "occ_list ?t = (\<lambda>eh. [])"
    by (auto simp: fun_eq_iff occ_list_def clear_occ_def find_Some_iff split: option.split)
qed

text \<open>Decay multiplies a weight by a fixed-point factor below 1, rounding down.\<close>

definition decay_factor :: "wake_tac_header_t \<Rightarrow> wake_tac_entry_t \<Rightarrow> nat" where
  "decay_factor h e = unat (if edge_corroborated h (te_src_count e) (te_eta_max_fp16 e)
     then th_decay_corr_fp16 h else th_decay_novel_fp16 h)"

lemma decay_factor_less: "tac_header_ok h \<Longrightarrow> decay_factor h e < 65536"
  by (simp add: tac_header_ok_def decay_factor_def word_less_nat_alt)

lemma unat_fixed_point:
  assumes "unat (f :: u32) < 65536"
  shows "unat (ucast (drop_bit 16 ((ucast (w :: u32) :: u64) * ucast f)) :: u32) = unat w * unat f div 65536"
proof -
  have "unat w < 2 ^ 32" using unsigned_less [of w, where ?'a = nat] by simp
  with assms have "unat w * unat f < 2 ^ 32 * 65536"
    by (intro mult_strict_mono) simp_all
  then have m: "unat w * unat f < 0x1000000000000" by simp
  then have "unat ((ucast w :: u64) * ucast f) = unat w * unat f" by (simp add: unat_word_ariths)
  moreover have "unat w * unat f div 65536 < 0x100000000" using m by simp
  ultimately show ?thesis by (simp add: unsigned_ucast_eq take_bit_nat_eq_self)
qed

lemma unat_decayed_weight:
  assumes "tac_header_ok h"
  shows "unat (decayed_weight h e) = unat (te_weight e) * decay_factor h e div 65536"
  using decay_factor_less [OF assms, of e] unfolding decayed_weight_def Let_def decay_factor_def
  by (rule unat_fixed_point)

lemma decayed_weight_le: "tac_header_ok h \<Longrightarrow> decayed_weight h e \<le> te_weight e"
  using decay_factor_less [of h e] div_le_mono [of "unat (te_weight e) * decay_factor h e" "unat (te_weight e) * 65536" 65536]
  by (simp add: word_le_nat_alt unat_decayed_weight)

definition fade_entry :: "wake_tac_header_t \<Rightarrow> wake_tac_entry_t \<Rightarrow> wake_tac_entry_t" where
  "fade_entry h e =
     (if vacant (te_key_hash e) then e
      else if decayed_weight h e < th_noise_floor h then e\<lparr>te_key_hash := SLOT_TOMBSTONE\<rparr>
      else e\<lparr>te_weight := decayed_weight h e\<rparr>)"

definition faded :: "wake_tac_header_t \<Rightarrow> wake_tac_entry_t \<Rightarrow> bool" where
  "faded h e \<longleftrightarrow> \<not> vacant (te_key_hash e) \<and> decayed_weight h e < th_noise_floor h"

definition edge_count :: "wake_tac_entry_t list \<Rightarrow> u64 \<Rightarrow> nat" where
  "edge_count es eh = length (filter (\<lambda>e. \<not> vacant (te_key_hash e) \<and> te_entity_hash e = eh) es)"

text \<open>One iteration of the loop.\<close>

definition decay_one :: "nat \<Rightarrow> wake_tac_t \<Rightarrow> wake_tac_t" where
  "decay_one i t =
     (let e = t_entries t ! i; t1 = put_tac i (fade_entry (t_header t) e) t
      in if vacant (te_key_hash e) then t
         else if faded (t_header t) e then t1
         else snd (occ_add_slot t1 (te_entity_hash e) (of_nat i)))"

lemma tac_decay_loop_Cons:
  "tac_decay_loop (i # is) evicted t =
     tac_decay_loop is (if faded (t_header t) (t_entries t ! i) then evicted + 1 else evicted) (decay_one i t)"
  by (simp add: Let_def decay_one_def fade_entry_def faded_def case_prod_unfold)

lemma fade_put:
  assumes inv: "tac_inv S t" and i: "i < length (t_entries t)"
  shows "tac_inv S (put_tac i (fade_entry (t_header t) (t_entries t ! i)) t)"
proof -
  define e where "e = t_entries t ! i"
  have shape: "tac_shape S t" and named: "named {} t" using inv by (simp_all add: tac_inv_def)
  have h: "tac_header_ok (t_header t)" using tac_shapeD(1) [OF shape] by (simp add: tac_layout_def)
  have e: "edge_ok S (t_header t) e" using tac_shapeD(4) [OF shape i] by (simp add: e_def)
  have e': "edge_ok S (t_header t) (fade_entry (t_header t) e)"
    using e edge_ok_lighter [OF e decayed_weight_le [OF h]] by (simp add: fade_entry_def)
  have "tac_shape S (put_tac i (fade_entry (t_header t) e) t)"
    using tac_shape_put_same [OF shape e' i] tac_shape_bury [OF shape e' i]
    by (auto simp: fade_entry_def e_def split: if_splits)
  moreover have "named {} (put_tac i (fade_entry (t_header t) e) t)"
    using named i by (intro named_put) (auto simp: fade_entry_def named_def e_def)
  ultimately show ?thesis by (simp add: tac_inv_def e_def)
qed

lemma decay_one_spec:
  assumes inv: "tac_inv S t" and i: "i < length (t_entries t)"
  shows "tac_inv S (decay_one i t)" "t_header (decay_one i t) = t_header t"
    "t_entries (decay_one i t) = (t_entries t)[i := fade_entry (t_header t) (t_entries t ! i)]"
    "length (occ_list (decay_one i t) eh) \<le> length (occ_list t eh) + edge_count [t_entries t ! i] eh"
proof -
  define e where "e = t_entries t ! i"
  define t1 where "t1 = put_tac i (fade_entry (t_header t) e) t"
  have named: "named {} t" using inv by (simp add: tac_inv_def)
  have shape1: "tac_shape S t1" and named1: "named {} t1"
    using fade_put [OF inv i] by (simp_all add: t1_def e_def tac_inv_def)
  consider (dead) "vacant (te_key_hash e)" | (faded) "faded (t_header t) e"
    | (kept) "\<not> vacant (te_key_hash e)" "\<not> faded (t_header t) e" by blast
  then have "tac_inv S (decay_one i t) \<and> t_header (decay_one i t) = t_header t
    \<and> t_entries (decay_one i t) = (t_entries t)[i := fade_entry (t_header t) e]
    \<and> length (occ_list (decay_one i t) eh) \<le> length (occ_list t eh) + edge_count [e] eh"
  proof cases
    case dead
    then show ?thesis using inv by (simp add: decay_one_def e_def fade_entry_def)
  next
    case faded
    then have "decay_one i t = t1" by (simp add: decay_one_def e_def t1_def faded_def)
    then show ?thesis using shape1 named1 by (simp add: tac_inv_def t1_def)
  next
    case kept
    have eh: "te_entity_hash e \<noteq> 0" using named i kept(1) by (simp add: named_def e_def)
    obtain ok t2 where add: "occ_add_slot t1 (te_entity_hash e) (of_nat i) = (ok, t2)" by fastforce
    have "decay_one i t = t2"
      using kept add by (simp add: decay_one_def e_def [symmetric] t1_def [symmetric])
    then show ?thesis
      using occ_add_slot_spec [OF shape1 eh add] named1 kept(1)
      by (auto simp: tac_inv_def t1_def edge_count_def named_def)
  qed
  then show "tac_inv S (decay_one i t)" "t_header (decay_one i t) = t_header t"
    "t_entries (decay_one i t) = (t_entries t)[i := fade_entry (t_header t) (t_entries t ! i)]"
    "length (occ_list (decay_one i t) eh) \<le> length (occ_list t eh) + edge_count [t_entries t ! i] eh"
    by (simp_all add: e_def)
qed

lemma tac_decay_loop_spec:
  assumes "tac_inv S t" "i \<le> length (t_entries t)"
    and "tac_decay_loop [i..<length (t_entries t)] ev t = (ev', t')"
  shows "tac_inv S t' \<and> t_header t' = t_header t
     \<and> t_entries t' = take i (t_entries t) @ map (fade_entry (t_header t)) (drop i (t_entries t))
     \<and> ev' = ev + of_nat (length (filter (faded (t_header t)) (drop i (t_entries t))))
     \<and> (\<forall>eh. length (occ_list t' eh) \<le> length (occ_list t eh) + edge_count (drop i (t_entries t)) eh)"
  using assms
proof (induction "length (t_entries t) - i" arbitrary: i ev t)
  case 0
  then show ?case by simp
next
  case (Suc n)
  define t1 where "t1 = decay_one i t"
  let ?es = "t_entries t" and ?h = "t_header t"
  have i: "i < length ?es" using Suc.hyps(2) by simp
  have t1: "tac_inv S t1" "t_header t1 = ?h" "t_entries t1 = ?es[i := fade_entry ?h (?es ! i)]"
    "\<And>eh. length (occ_list t1 eh) \<le> length (occ_list t eh) + edge_count [?es ! i] eh"
    unfolding t1_def by (rule decay_one_spec [OF Suc.prems(1) i])+
  have drop: "drop i ?es = ?es ! i # drop (Suc i) ?es" using Cons_nth_drop_Suc [OF i] by simp
  have "tac_decay_loop [Suc i..<length (t_entries t1)] (if faded ?h (?es ! i) then ev + 1 else ev) t1 = (ev', t')"
    using Suc.prems(3) i by (simp add: upt_conv_Cons t1(3) tac_decay_loop_Cons t1_def [symmetric] del: tac_decay_loop.simps)
  moreover have "n = length (t_entries t1) - Suc i" "Suc i \<le> length (t_entries t1)"
    using Suc.hyps(2) i t1(3) by simp_all
  ultimately have IH: "tac_inv S t'" "t_header t' = t_header t1"
      "t_entries t' = take (Suc i) (t_entries t1) @ map (fade_entry (t_header t1)) (drop (Suc i) (t_entries t1))"
      "ev' = (if faded ?h (?es ! i) then ev + 1 else ev)
         + of_nat (length (filter (faded (t_header t1)) (drop (Suc i) (t_entries t1))))"
      "\<forall>eh. length (occ_list t' eh) \<le> length (occ_list t1 eh) + edge_count (drop (Suc i) (t_entries t1)) eh"
    using Suc.hyps(1) [of t1 "Suc i"] t1(1) by blast+
  have "length (occ_list t' eh) \<le> length (occ_list t eh) + edge_count (drop i ?es) eh" for eh
  proof -
    have "edge_count (drop i ?es) eh = edge_count [?es ! i] eh + edge_count (drop (Suc i) ?es) eh"
      by (simp add: drop edge_count_def)
    with spec [OF IH(5), of eh] t1(4) [of eh] show ?thesis by (simp add: t1(3))
  qed
  moreover have "t_entries t' = take i ?es @ map (fade_entry ?h) (drop i ?es)"
    using i by (simp add: IH(3) t1(2,3) drop)
  moreover have "ev' = ev + of_nat (length (filter (faded ?h) (drop i ?es)))"
    using i by (simp add: IH(4) t1(2,3) drop)
  ultimately show ?case using IH(1,2) t1(2) by simp
qed

lemma edge_count_live_edges: "edge_count (t_entries t) eh = card (live_edges t eh)"
  unfolding edge_count_def live_edges_def by (simp add: length_filter_conv_card)

text \<open>Decay, as a map over the entries; the rebuilt lists are no longer than the entities have edges.\<close>

lemma wake_tac_decay_spec:
  assumes "tac_inv S t"
  shows "tac_inv S (snd (wake_tac_decay t))" "t_header (snd (wake_tac_decay t)) = t_header t"
    "t_entries (snd (wake_tac_decay t)) = map (fade_entry (t_header t)) (t_entries t)"
    "fst (wake_tac_decay t) = of_nat (length (filter (faded (t_header t)) (t_entries t)))"
    "capped t \<Longrightarrow> within_cap (snd (wake_tac_decay t))"
proof -
  note c = clear_occ_spec [OF assms]
  have len: "length (t_entries (clear_occ t)) = unat (th_capacity (t_header t))"
    using assms by (simp add: c(3) tac_inv_def tac_shape_def tac_layout_def)
  obtain ev t' where d: "wake_tac_decay t = (ev, t')" by fastforce
  then have "tac_decay_loop [0..<length (t_entries (clear_occ t))] 0 (clear_occ t) = (ev, t')"
    by (simp add: wake_tac_decay_def len)
  from tac_decay_loop_spec [OF c(1) _ this] have l: "tac_inv S t'" "t_header t' = t_header t"
      "t_entries t' = map (fade_entry (t_header t)) (t_entries t)"
      "ev = of_nat (length (filter (faded (t_header t)) (t_entries t)))"
      "\<And>eh. length (occ_list t' eh) \<le> edge_count (t_entries t) eh"
    by (simp_all add: c)
  then show "tac_inv S (snd (wake_tac_decay t))" "t_header (snd (wake_tac_decay t)) = t_header t"
    "t_entries (snd (wake_tac_decay t)) = map (fade_entry (t_header t)) (t_entries t)"
    "fst (wake_tac_decay t) = of_nat (length (filter (faded (t_header t)) (t_entries t)))"
    by (simp_all add: d)
  assume cap: "capped t"
  have "tac_shape S t" using assms by (simp add: tac_inv_def)
  then have "edge_count (t_entries t) eh \<le> length (occ_list t eh)" for eh
    using live_edges_le [of S t eh] cap by (simp add: edge_count_live_edges capped_def)
  moreover have "length (occ_list t eh) \<le> unat (th_per_entity_cap (t_header t))" for eh
    using cap by (simp add: capped_def within_cap_def)
  ultimately have "length (occ_list t' eh) \<le> unat (th_per_entity_cap (t_header t))" for eh
    using l(5) [of eh] order_trans by metis
  then show "within_cap (snd (wake_tac_decay t))" by (simp add: within_cap_def d l(2))
qed

end
