(* ===== verification/Wake_Tac_Props.thy ===== *)
theory Wake_Tac_Props
  imports Wake_Tac_Ops
begin

text \<open>
  The properties of the coupling table: safety of every reachable table, corroboration needs as
  many distinct sources as configured, and the hard bound on the edges of an entity.
\<close>

section \<open>Reachable tables\<close>

definition tac_init :: "wake_tac_t \<Rightarrow> bool" where
  "tac_init t \<longleftrightarrow> (\<exists>env cfg. wake_tac_create env cfg = Inr t)"

text \<open>The steps of a table that only the sources \<open>S\<close> write to.\<close>

inductive tac_step :: "u16 set \<Rightarrow> wake_tac_t \<Rightarrow> wake_tac_t \<Rightarrow> bool" for S where
  ts_reinforce: "normalize_source s \<in> S \<Longrightarrow>
     tac_step S t (snd (wake_tac_reinforce t key t_a t_b eta s now_rel))"
| ts_batch: "(\<And>a. a \<in> set acts \<Longrightarrow> ta_source_id a \<noteq> WAKE_TAC_SRC_NONE \<Longrightarrow>
        normalize_source (ta_source_id a) \<in> S) \<Longrightarrow>
     tac_step S t (snd (wake_tac_reinforce_batch t key (Some acts) now_rel))"
| ts_decay: "tac_step S t (snd (wake_tac_decay t))"
| ts_reset: "wake_tac_reset (Some t) = Some t' \<Longrightarrow> tac_step S t t'"
| ts_reopen: "wake_tac_open env \<lparr>tf_size = n, tf_header = Some (t_header t),
        tf_entries = t_entries t @ es, tf_occ = t_occ t @ os\<rparr> = Inr t' \<Longrightarrow> tac_step S t t'"

lemma create_tac_header:
  assumes "wake_tac_create env cfg = Inr t"
  shows "tac_header_ok (t_header t)"
    and "t_entries t = replicate (unat (th_capacity (t_header t))) zero_tac_entry"
    and "t_occ t = replicate (unat (th_occ_slots (t_header t))) zero_occ"
    and "t_map_size t = tac_map_size (th_capacity (t_header t)) (th_occ_slots (t_header t))"
proof -
  from assms obtain key where ref: "\<not> create_refused (tac_header cfg (ce_tv_sec env) [])"
    and t: "t = \<lparr>t_header = tac_header cfg (ce_tv_sec env) key,
        t_entries = replicate (unat (th_capacity (tac_header cfg (ce_tv_sec env) key))) zero_tac_entry,
        t_occ = replicate (unat (th_occ_slots (tac_header cfg (ce_tv_sec env) key))) zero_occ,
        t_map_size = tac_map_size (th_capacity (tac_header cfg (ce_tv_sec env) key))
          (th_occ_slots (tac_header cfg (ce_tv_sec env) key))\<rparr>"
    by (auto simp: wake_tac_create_def Let_def split: if_splits option.splits)
  define h where "h = tac_header cfg (ce_tv_sec env) key"
  have "create_refused h = create_refused (tac_header cfg (ce_tv_sec env) [])"
    by (simp add: h_def create_refused_def tac_header_def Let_def)
  with ref have "\<not> create_refused h" by simp
  moreover have "th_mask h = ucast (th_capacity h - 1)" and "th_noise_floor h \<noteq> 0"
    by (simp_all add: h_def tac_header_def Let_def tac_cfg_or_def split: option.split)
  ultimately have "tac_header_ok h"
    by (simp add: tac_header_ok_def create_refused_def not_le not_less)
  then show "tac_header_ok (t_header t)" by (simp add: t h_def)
qed (use assms in \<open>auto simp: wake_tac_create_def Let_def split: if_splits option.splits\<close>)

lemma tac_reopen_same:
  assumes "tac_inv S t" "wake_tac_open env \<lparr>tf_size = n, tf_header = Some (t_header t),
        tf_entries = t_entries t @ es, tf_occ = t_occ t @ os\<rparr> = Inr t'"
  shows "t' = t"
  using assms by (auto simp: wake_tac_open_def Let_def tac_inv_def tac_shape_def tac_layout_def split: if_splits)

lemma tac_reset_keeps:
  assumes "tac_inv S t" "wake_tac_reset (Some t) = Some t'"
  shows "tac_inv S t'" "capped t'" "t_header t' = t_header t"
proof -
  have h: "tac_layout t" using assms(1) by (simp add: tac_inv_def tac_shape_def)
  show "t_header t' = t_header t" using assms(2) by (auto simp: wake_tac_reset_def)
  show "tac_inv S t'" "capped t'"
    using assms(2) h by (auto intro!: tac_inv_zero [of "t_header t"] simp: wake_tac_reset_def tac_layout_def)
qed

lemma tac_step_keeps:
  assumes "tac_inv S t" "tac_step S t t'"
  shows "tac_inv S t' \<and> t_header t' = t_header t
     \<and> (capped t \<longrightarrow> (t' = snd (wake_tac_decay t) \<longrightarrow> tracked {} t') \<longrightarrow> capped t')"
  using assms(2)
proof cases
  case (ts_reinforce s key t_a t_b eta now_rel)
  from wake_tac_reinforce_keeps [OF assms(1) ts_reinforce(2)] show ?thesis
    by (simp add: ts_reinforce(1) keeps_def)
next
  case (ts_batch acts key now_rel)
  from wake_tac_reinforce_batch_keeps [OF assms(1) ts_batch(2)] show ?thesis
    by (simp add: ts_batch(1) keeps_def)
next
  case ts_decay
  from wake_tac_decay_spec [OF assms(1)] show ?thesis
    by (simp add: ts_decay capped_def)
next
  case ts_reset
  from tac_reset_keeps [OF assms(1) ts_reset] show ?thesis by simp
next
  case (ts_reopen env n es os)
  from tac_reopen_same [OF assms(1) ts_reopen] assms(1) show ?thesis by simp
qed

interpretation tac: invariant_machine tac_init "tac_step S" "tac_inv S" for S
proof unfold_locales
  show "tac_inv S t" if "tac_init t" for t
    using that tac_inv_zero(1) [OF create_tac_header(1) refl create_tac_header(2-4)] by (auto simp: tac_init_def)
  show "tac_inv S t'" if "tac_inv S t" "tac_step S t t'" for t t'
    using tac_step_keeps [OF that] by simp
qed

text \<open>Steps after which the sidecar lists every edge: a decay finds room for each edge it keeps.\<close>

definition tracked_step :: "wake_tac_t \<Rightarrow> wake_tac_t \<Rightarrow> bool" where
  "tracked_step t t' \<longleftrightarrow> tac_step UNIV t t' \<and> (t' = snd (wake_tac_decay t) \<longrightarrow> tracked {} t')"

interpretation tac_cap: invariant_machine tac_init tracked_step "\<lambda>t. tac_inv UNIV t \<and> capped t"
proof unfold_locales
  show "tac_inv UNIV t \<and> capped t" if "tac_init t" for t
    using that tac_inv_zero [OF create_tac_header(1) refl create_tac_header(2-4)] by (auto simp: tac_init_def)
  show "tac_inv UNIV t' \<and> capped t'" if "tac_inv UNIV t \<and> capped t" "tracked_step t t'" for t t'
    using tac_step_keeps [of UNIV t t'] that by (simp add: tracked_step_def)
qed

section \<open>An instance for the witnesses\<close>

definition demo_tac :: wake_tac_t where
  "demo_tac =
     (let h = tac_header (Some \<lparr>tc_capacity = 8, tc_occ_slots = 16, tc_decay_novel_fp16 = 0,
                tc_decay_corr_fp16 = 0, tc_noise_floor = 0, tc_budget_per_source = 0,
                tc_per_entity_cap = 2, tc_corroboration_src_min = 2, tc_tick_seconds = 0,
                tc_quarantine_min_w = 0\<rparr>) 1700000000 (replicate 16 7)
      in \<lparr>t_header = h, t_entries = replicate 8 zero_tac_entry, t_occ = replicate 16 zero_occ,
          t_map_size = tac_map_size 8 16\<rparr>)"

lemma demo_tac_init: "tac_init demo_tac"
proof -
  have "wake_tac_create
      \<lparr>ce_open = True, ce_ftruncate = True, ce_mmap = True, ce_urandom = Some (replicate 16 7),
       ce_malloc = True, ce_tv_sec = 1700000000\<rparr>
      (Some \<lparr>tc_capacity = 8, tc_occ_slots = 16, tc_decay_novel_fp16 = 0,
                tc_decay_corr_fp16 = 0, tc_noise_floor = 0, tc_budget_per_source = 0,
                tc_per_entity_cap = 2, tc_corroboration_src_min = 2, tc_tick_seconds = 0,
                tc_quarantine_min_w = 0\<rparr>) = Inr demo_tac"
    by (simp add: wake_tac_create_def create_refused_def tac_header_def tac_cfg_or_def is_power_of_2_def
        demo_tac_def Let_def)
  then show ?thesis unfolding tac_init_def by blast
qed

lemma demo_tac_reach: "reach tac_init step demo_tac"
  by (rule reach_init) (rule demo_tac_init)

text \<open>The demo table after one reinforcement by source 3.\<close>

definition demo_tac1 :: wake_tac_t where
  "demo_tac1 = snd (wake_tac_reinforce demo_tac (Some [10, 0, 0, 1]) 1 2 60000 3 5)"

lemma demo_tac1_reach: "normalize_source 3 \<in> S \<Longrightarrow> reach tac_init (tac_step S) demo_tac1"
  unfolding demo_tac1_def by (intro reach_step [OF demo_tac_reach] ts_reinforce)

lemma demo_tac1_header: "t_header demo_tac1 = t_header demo_tac"
proof -
  have "tac_inv UNIV demo_tac" by (rule tac.reach_inv [OF demo_tac_reach])
  from tac_step_keeps [OF this ts_reinforce] show ?thesis by (simp add: demo_tac1_def)
qed

section \<open>Safety\<close>

text \<open>
  C5. In every coupling table that \<open>wake_tac_create\<close> and any sequence of reinforcements, batches,
  decay passes, resets and reopenings can produce: every probe of the edge array and of the sidecar
  stays inside its array, every sidecar entry has 32 slots and counts at most 32 of them in use, live
  edges have distinct keys within eight probes of their home slot, and the weight of an edge is at
  most what its five budget slots have spent, at most five times the per-source budget, so that the
  32-bit weight never wraps around.
\<close>

theorem tac_reachable_safe:
  assumes "reach tac_init (tac_step S) t"
  shows "(\<forall>k d. unat (tac_idx t k d) < length (t_entries t) \<and> occ_idx t k d < length (t_occ t))
     \<and> (\<forall>oc\<in>set (t_occ t). length (to_slot oc) = 32 \<and> unat (to_live_count oc) \<le> 32)
     \<and> (\<forall>i<length (t_entries t). \<not> vacant (te_key_hash (t_entries t ! i)) \<longrightarrow>
          (\<exists>d<WAKE_TAC_PROBE_MAX. unat (tac_idx t (te_key_hash (t_entries t ! i)) d) = i)
        \<and> (\<forall>j<length (t_entries t).
             te_key_hash (t_entries t ! j) = te_key_hash (t_entries t ! i) \<longrightarrow> j = i))
     \<and> (\<forall>e\<in>set (t_entries t).
          unat (te_weight e) \<le> sum_list (map (\<lambda>b. unat (tb_spent b)) (te_budget e))
        \<and> unat (te_weight e) \<le> 5 * unat (th_budget_per_source (t_header t))
        \<and> unat (te_src_count e) \<le> WAKE_TAC_BUDGET_SLOTS)"
proof -
  have "tac_inv S t" by (rule tac.reach_inv [OF assms])
  then have shape: "tac_shape S t" by (simp add: tac_inv_def)
  have "(\<exists>d<WAKE_TAC_PROBE_MAX. unat (tac_idx t (te_key_hash (t_entries t ! i)) d) = i)
        \<and> (\<forall>j<length (t_entries t). te_key_hash (t_entries t ! j) = te_key_hash (t_entries t ! i) \<longrightarrow> j = i)"
    if "i < length (t_entries t)" "\<not> vacant (te_key_hash (t_entries t ! i))" for i
    using tct.chainedD [OF tac_shapeD(2) [OF shape], of i] that by (auto simp: tac_slot_def)
  moreover have "unat (te_weight e) \<le> sum_list (map (\<lambda>b. unat (tb_spent b)) (te_budget e))
        \<and> unat (te_weight e) \<le> 5 * unat (th_budget_per_source (t_header t))
        \<and> unat (te_src_count e) \<le> WAKE_TAC_BUDGET_SLOTS" if "e \<in> set (t_entries t)" for e
  proof -
    have e: "edge_ok S (t_header t) e" using shape that by (simp add: tac_shape_def)
    from edge_okD(3) [OF e] total_spent_le [OF edge_okD(1) [OF e]] used_le_5 [OF edge_okD(1) [OF e]] edge_okD(2) [OF e]
    show ?thesis by (simp add: total_spent_def)
  qed
  ultimately show ?thesis
    using tac_slot_less [OF tac_shapeD(1) [OF shape]] occ_idx_less [OF tac_shapeD(1) [OF shape]] shape
    by (simp add: tac_slot_def tac_shape_def occ_ok_def word_le_nat_alt)
qed

theorem tac_reachable_safe_witness:
  "unat (tac_idx demo_tac1 77 3) < length (t_entries demo_tac1)
   \<and> filter (\<lambda>e. unat (te_weight e) > 100000) (t_entries demo_tac1) = []"
  using tac_reachable_safe [OF demo_tac1_reach [of UNIV]]
  by (simp add: filter_empty_conv not_less demo_tac1_header demo_tac_def tac_header_def tac_cfg_or_def Let_def)

section \<open>Corroboration\<close>

text \<open>
  C6. An edge is corroborated only by distinct sources: when all reinforcements of a table come
  from a set of sources smaller than the configured minimum, no edge ever counts as corroborated,
  however often and in whatever order these sources reinforce it, in whatever batches, across
  decay passes and evictions.  In general the source count of an edge never exceeds the number of
  distinct sources that have written to the table.
\<close>

theorem corroboration_needs_sources:
  assumes "reach tac_init (tac_step S) t" "finite S" "e \<in> set (t_entries t)"
  shows "unat (te_src_count e) \<le> card S
     \<and> (card S < unat (th_corroboration_src_min (t_header t)) \<longrightarrow>
          \<not> edge_corroborated (t_header t) (te_src_count e) (te_eta_max_fp16 e))"
proof -
  have "edge_ok S (t_header t) e"
    using tac.reach_inv [OF assms(1)] assms(3) by (simp add: tac_inv_def tac_shape_def)
  from edge_ok_sources [OF this assms(2)] show ?thesis
    by (simp add: edge_corroborated_def word_le_nat_alt)
qed

theorem corroboration_needs_sources_witness:
  "filter (\<lambda>e. edge_corroborated (t_header demo_tac1) (te_src_count e) (te_eta_max_fp16 e))
     (t_entries demo_tac1) = []"
  using corroboration_needs_sources [OF demo_tac1_reach [of "{3}"]]
  by (simp add: filter_empty_conv demo_tac1_header demo_tac_def tac_header_def tac_cfg_or_def Let_def normalize_source_def)

section \<open>The bound on the edges of an entity\<close>

text \<open>
  C7. The number of live edges of an entity never exceeds the per-entity cap, in every table that is
  reached by steps after which the sidecar lists every live edge.  Only a decay pass whose rebuild
  finds no room in the sidecar for an edge it keeps is excluded: all other operations keep the
  sidecar complete by themselves.
\<close>

theorem entity_edges_bounded:
  assumes "reach tac_init tracked_step t"
  shows "card {i. i < length (t_entries t) \<and> \<not> vacant (te_key_hash (t_entries t ! i))
            \<and> te_entity_hash (t_entries t ! i) = eh} \<le> unat (th_per_entity_cap (t_header t))"
proof -
  have "tac_shape UNIV t" "tracked {} t" "within_cap t"
    using tac_cap.reach_inv [OF assms] by (simp_all add: tac_inv_def capped_def)
  then show ?thesis
    using live_edges_le [of UNIV t eh] unfolding live_edges_def within_cap_def by (meson order_trans)
qed

lemma demo_tac1_tracked: "reach tac_init tracked_step demo_tac1"
proof (rule reach_step [OF demo_tac_reach])
  have "tac_inv UNIV demo_tac" "capped demo_tac"
    using tac_cap.reach_inv [OF demo_tac_reach] by simp_all
  with wake_tac_reinforce_keeps [of UNIV demo_tac] have "capped demo_tac1"
    by (simp add: demo_tac1_def keeps_def)
  then show "tracked_step demo_tac demo_tac1"
    by (auto simp: tracked_step_def demo_tac1_def capped_def intro: ts_reinforce)
qed

theorem entity_edges_bounded_witness:
  "card {i. i < length (t_entries demo_tac1) \<and> \<not> vacant (te_key_hash (t_entries demo_tac1 ! i))
     \<and> te_entity_hash (t_entries demo_tac1 ! i) = entity_hash_of demo_tac [10, 0, 0, 1]} \<le> 2"
  using entity_edges_bounded [OF demo_tac1_tracked, of "entity_hash_of demo_tac [10, 0, 0, 1]"]
  by (simp add: demo_tac1_header demo_tac_def tac_header_def tac_cfg_or_def Let_def)

end
