(* ===== verification/Wake_Tac_Query.thy ===== *)
theory Wake_Tac_Query
  imports Wake_Tac_Props
begin

text \<open>
  Decay and the read path of the coupling table: what one decay pass computes, that repeated decay
  empties the table, that a query reports exactly the edges of the entity, that a reinforcement is
  found by the next lookup, which files open again, and the packing of technique identifiers.
\<close>

section \<open>Decay\<close>

text \<open>
  C34. One decay pass multiplies the weight of every live edge by its fixed-point factor (the slower
  one when the edge is corroborated), rounding down, turns exactly the edges that fall below the
  noise floor into tombstones, leaves everything else of every slot alone, and returns the number
  of edges it evicted.
\<close>

theorem tac_decay_exact:
  assumes "reach tac_init (tac_step S) t"
  shows "(\<forall>i<length (t_entries t).
       let e = t_entries t ! i; e' = t_entries (snd (wake_tac_decay t)) ! i; h = t_header t;
           f = (if edge_corroborated h (te_src_count e) (te_eta_max_fp16 e)
                then th_decay_corr_fp16 h else th_decay_novel_fp16 h);
           w = unat (te_weight e) * unat f div 65536
       in if vacant (te_key_hash e) then e' = e
          else if w < unat (th_noise_floor h) then e' = e\<lparr>te_key_hash := SLOT_TOMBSTONE\<rparr>
          else e' = e\<lparr>te_weight := of_nat w\<rparr> \<and> w \<le> unat (te_weight e))
     \<and> length (t_entries (snd (wake_tac_decay t))) = length (t_entries t)
     \<and> unat (fst (wake_tac_decay t)) =
         card {i. i < length (t_entries t) \<and> \<not> vacant (te_key_hash (t_entries t ! i))
                \<and> te_key_hash (t_entries (snd (wake_tac_decay t)) ! i) = SLOT_TOMBSTONE}"
proof -
  have inv: "tac_inv S t" by (rule tac.reach_inv [OF assms])
  have lay: "tac_layout t" using inv by (simp add: tac_inv_def tac_shape_def)
  then have h: "tac_header_ok (t_header t)" by (simp add: tac_layout_def)
  note spec = wake_tac_decay_spec [OF inv]
  have nw: "unat (decayed_weight (t_header t) e) = unat (te_weight e) * decay_factor (t_header t) e div 65536" for e
    by (rule unat_decayed_weight [OF h])
  have low: "decayed_weight (t_header t) e < th_noise_floor (t_header t) \<longleftrightarrow>
      unat (te_weight e) * decay_factor (t_header t) e div 65536 < unat (th_noise_floor (t_header t))" for e
    by (simp add: word_less_nat_alt nw)
  have word: "decayed_weight (t_header t) e = of_nat (unat (te_weight e) * decay_factor (t_header t) e div 65536)" for e
    by (simp flip: nw)
  have le: "unat (te_weight e) * decay_factor (t_header t) e div 65536 \<le> unat (te_weight e)" for e
    using decayed_weight_le [OF h, of e] by (simp add: word_le_nat_alt nw)
  have nth: "t_entries (snd (wake_tac_decay t)) ! i = fade_entry (t_header t) (t_entries t ! i)"
    if "i < length (t_entries t)" for i
    using that by (simp add: spec(3))
  have "length (filter (faded (t_header t)) (t_entries t)) \<le> length (t_entries t)"
    by (rule length_filter_le)
  also have "\<dots> \<le> 0x1000000"
    using lay by (simp add: tac_layout_def tac_header_ok_def word_le_nat_alt)
  finally have "unat (fst (wake_tac_decay t)) = length (filter (faded (t_header t)) (t_entries t))"
    unfolding spec(4) by (rule unat_of_nat_le) simp
  also have "\<dots> = card {i. i < length (t_entries t) \<and> faded (t_header t) (t_entries t ! i)}"
    by (rule length_filter_conv_card)
  also have "{i. i < length (t_entries t) \<and> faded (t_header t) (t_entries t ! i)} =
      {i. i < length (t_entries t) \<and> \<not> vacant (te_key_hash (t_entries t ! i))
                \<and> te_key_hash (t_entries (snd (wake_tac_decay t)) ! i) = SLOT_TOMBSTONE}"
    by (auto simp: nth faded_def fade_entry_def vacant_def split: if_splits)
  finally have count: "unat (fst (wake_tac_decay t)) = card \<dots>" .
  have "fade_entry (t_header t) e =
      (if vacant (te_key_hash e) then e
       else if unat (te_weight e) * decay_factor (t_header t) e div 65536 < unat (th_noise_floor (t_header t))
       then e\<lparr>te_key_hash := SLOT_TOMBSTONE\<rparr>
       else e\<lparr>te_weight := of_nat (unat (te_weight e) * decay_factor (t_header t) e div 65536)\<rparr>)" for e
    unfolding fade_entry_def low unfolding word by (rule refl)
  then show ?thesis
    unfolding count Let_def decay_factor_def [symmetric] using le by (auto simp: nth spec(3))
qed

theorem tac_decay_exact_witness:
  "length (t_entries (snd (wake_tac_decay demo_tac1))) = length (t_entries demo_tac1)
   \<and> unat (fst (wake_tac_decay demo_tac1)) =
         card {i. i < length (t_entries demo_tac1) \<and> \<not> vacant (te_key_hash (t_entries demo_tac1 ! i))
                \<and> te_key_hash (t_entries (snd (wake_tac_decay demo_tac1)) ! i) = SLOT_TOMBSTONE}"
  using tac_decay_exact [OF demo_tac1_reach [of UNIV]] by simp

section \<open>Forgetting\<close>

text \<open>Every live edge weighs less than \<open>w\<close>.\<close>

definition lighter :: "nat \<Rightarrow> wake_tac_t \<Rightarrow> bool" where
  "lighter w t \<longleftrightarrow> (\<forall>e\<in>set (t_entries t). \<not> vacant (te_key_hash e) \<longrightarrow> unat (te_weight e) < w)"

lemma decay_loses: "f < 65536 \<Longrightarrow> w * f div 65536 \<le> w - (1 :: nat)"
proof (cases w)
  case (Suc n)
  assume f: "f < 65536"
  have "w * f < w * 65536" using f Suc by (intro mult_strict_left_mono) simp_all
  then have "w * f div 65536 < w" by (simp add: less_mult_imp_div_less)
  then show ?thesis by simp
qed simp

lemma lighter_decay:
  assumes inv: "tac_inv S t" and l: "lighter (Suc w) t"
  shows "lighter w (snd (wake_tac_decay t))"
proof -
  have h: "tac_header_ok (t_header t)" using inv by (simp add: tac_inv_def tac_shape_def tac_layout_def)
  have "unat (te_weight (fade_entry (t_header t) e)) < w"
    if "e \<in> set (t_entries t)" "\<not> vacant (te_key_hash (fade_entry (t_header t) e))" for e
  proof -
    from that(2) have live: "\<not> vacant (te_key_hash e)" "\<not> decayed_weight (t_header t) e < th_noise_floor (t_header t)"
      by (auto simp: fade_entry_def split: if_splits)
    have "0 < unat (th_noise_floor (t_header t))" using h by (simp add: tac_header_ok_def unat_gt_0)
    with live(2) have pos: "0 < unat (decayed_weight (t_header t) e)"
      by (simp add: not_less word_le_nat_alt)
    have "unat (decayed_weight (t_header t) e) \<le> unat (te_weight e) - 1"
      unfolding unat_decayed_weight [OF h] by (rule decay_loses [OF decay_factor_less [OF h]])
    moreover have "unat (te_weight e) < Suc w" using l that(1) live(1) by (simp add: lighter_def)
    ultimately show ?thesis using pos live by (simp add: fade_entry_def)
  qed
  then show ?thesis by (auto simp: lighter_def wake_tac_decay_spec(3) [OF inv])
qed

lemma lighter_decays:
  "tac_inv S t \<Longrightarrow> lighter (n + w) t \<Longrightarrow>
     lighter w (((\<lambda>t. snd (wake_tac_decay t)) ^^ n) t)"
proof (induction n arbitrary: t)
  case 0
  then show ?case by simp
next
  case (Suc n)
  then have "lighter (n + w) (snd (wake_tac_decay t))" by (intro lighter_decay) simp_all
  from Suc.IH [OF wake_tac_decay_spec(1) [OF Suc.prems(1)] this] show ?case
    by (simp add: funpow_Suc_right del: funpow.simps)
qed

text \<open>
  A coupling table that is no longer reinforced forgets: from every reachable table, a number of
  decay passes that is bounded in advance (five times the largest per-source budget, plus one)
  leaves no live edge.
\<close>

theorem tac_decay_empties:
  assumes "reach tac_init (tac_step S) t"
    and "n > 5 * unat (th_budget_per_source (t_header t))"
  shows "\<forall>e\<in>set (t_entries (((\<lambda>t. snd (wake_tac_decay t)) ^^ n) t)). vacant (te_key_hash e)"
proof -
  have inv: "tac_inv S t" by (rule tac.reach_inv [OF assms(1)])
  have "unat (te_weight e) < n + 0" if "e \<in> set (t_entries t)" for e
  proof -
    have e: "edge_ok S (t_header t) e" using inv that by (simp add: tac_inv_def tac_shape_def)
    from edge_okD(3) [OF e] total_spent_le [OF edge_okD(1) [OF e]] assms(2) show ?thesis by simp
  qed
  then have "lighter (n + 0) t" by (simp add: lighter_def)
  from lighter_decays [OF inv this] show ?thesis by (auto simp: lighter_def)
qed

theorem tac_decay_empties_witness:
  "filter (\<lambda>e. \<not> vacant (te_key_hash e)) (t_entries (((\<lambda>t. snd (wake_tac_decay t)) ^^ 100001) demo_tac1)) = []"
  using tac_decay_empties [OF demo_tac1_reach [of UNIV], of 100001]
  by (simp add: filter_empty_conv demo_tac1_header demo_tac_def tac_header_def tac_cfg_or_def Let_def)

section \<open>Queries\<close>

definition visible :: "u64 \<Rightarrow> wake_tac_entry_t \<Rightarrow> bool" where
  "visible eh e \<longleftrightarrow> \<not> vacant (te_key_hash e) \<and> te_weight e \<noteq> 0 \<and> te_entity_hash e = eh \<and> te_quarantine e = 0"

lemma query_step_eq:
  "length (sn_top out) < 32 \<Longrightarrow> query_step eh e out =
     (if visible eh e then out\<lparr>sn_coupling_mass := sn_coupling_mass out + te_weight e,
        sn_edge_count := sn_edge_count out + 1, sn_top := sn_top out @ [edge_of e]\<rparr> else out)"
  "\<not> visible eh e \<Longrightarrow> query_step eh e out = out"
  by (auto simp: query_step_def visible_def top_insert_def)

text \<open>As long as the snapshot has room for all edges it simply collects them.\<close>

lemma fold_query:
  "length (sn_top out) + length (filter (visible eh) es) \<le> 32 \<Longrightarrow>
     fold (query_step eh) es out =
       out\<lparr>sn_coupling_mass := sn_coupling_mass out + sum_list (map te_weight (filter (visible eh) es)),
           sn_edge_count := sn_edge_count out + of_nat (length (filter (visible eh) es)),
           sn_top := sn_top out @ map edge_of (filter (visible eh) es)\<rparr>"
proof (induction es arbitrary: out)
  case Nil
  then show ?case by simp
next
  case (Cons e es)
  show ?case
  proof (cases "visible eh e")
    case True
    define out1 where "out1 = out\<lparr>sn_coupling_mass := sn_coupling_mass out + te_weight e,
        sn_edge_count := sn_edge_count out + 1, sn_top := sn_top out @ [edge_of e]\<rparr>"
    have "query_step eh e out = out1"
      using True Cons.prems by (simp add: query_step_eq(1) out1_def)
    moreover have "length (sn_top out1) + length (filter (visible eh) es) \<le> 32"
      using True Cons.prems by (simp add: out1_def)
    ultimately show ?thesis using True Cons.IH [of out1] by (simp add: out1_def algebra_simps)
  next
    case False
    with Cons show ?thesis by (simp add: query_step_eq(2))
  qed
qed

lemma visible_le: "length (filter (visible eh) es) \<le> edge_count es eh"
  by (induction es) (auto simp: visible_def edge_count_def)

lemma sum_list_bounded: "(\<And>x. x \<in> set xs \<Longrightarrow> f x \<le> (b :: nat)) \<Longrightarrow> sum_list (map f xs) \<le> length xs * b"
  by (induction xs) (simp_all add: add_mono)

lemma unat_sum_list_word:
  "sum_list (map unat ws) < 2 ^ LENGTH('a) \<Longrightarrow> unat (sum_list (ws :: 'a::len word list)) = sum_list (map unat ws)"
  by (induction ws) (simp_all add: unat_word_ariths)

text \<open>
  C33. In every table that is reached by steps after which the sidecar lists every live edge (only a
  decay pass whose rebuild finds no room in the sidecar for an edge it keeps is excluded, because an
  entity can then exceed its cap), what a query reports of an entity is exact: the number of its live edges that are not in
  quarantine, the sum of their weights without wrap-around, and every one of them (the 32 places of
  the snapshot are enough, because of the per-entity cap); and it answers false exactly when there
  are none.
\<close>

theorem tac_query_exact:
  assumes "reach tac_init tracked_step t" "key \<noteq> []"
    and "es = filter (\<lambda>e. \<not> vacant (te_key_hash e) \<and> te_weight e \<noteq> 0
            \<and> te_entity_hash e = entity_hash_of t key \<and> te_quarantine e = 0) (t_entries t)"
  shows "\<exists>out. wake_tac_query t (Some key) True = Some (es \<noteq> [], out)
     \<and> unat (sn_edge_count out) = length es
     \<and> unat (sn_coupling_mass out) = sum_list (map (\<lambda>e. unat (te_weight e)) es)
     \<and> sn_top out = map edge_of es"
proof -
  let ?eh = "entity_hash_of t key"
  have es: "es = filter (visible ?eh) (t_entries t)" unfolding assms(3) visible_def by (rule refl)
  have inv: "tac_inv UNIV t" "capped t" using tac_cap.reach_inv [OF assms(1)] by simp_all
  have shape: "tac_shape UNIV t" using inv(1) by (simp add: tac_inv_def)
  have "length es \<le> edge_count (t_entries t) ?eh"
    unfolding es by (rule visible_le)
  also have "\<dots> \<le> length (occ_list t ?eh)"
    using live_edges_le [OF shape, of ?eh] inv(2) by (simp add: edge_count_live_edges capped_def)
  also have "\<dots> \<le> 32" by (rule occ_list_le [OF shape])
  finally have len: "length es \<le> 32" .
  define out where "out = \<lparr>sn_coupling_mass = sum_list (map te_weight es),
     sn_edge_count = of_nat (length es), sn_top = map edge_of es\<rparr>"
  have q: "fold (query_step ?eh) (t_entries t) \<lparr>sn_coupling_mass = 0, sn_edge_count = 0, sn_top = []\<rparr> = out"
    using len by (subst fold_query) (simp_all add: es [symmetric] out_def)
  have count: "unat (of_nat (length es) :: u32) = length es"
    using len by (rule unat_of_nat_le) simp
  have "unat (te_weight e) \<le> 5 * 65535" if "e \<in> set es" for e
  proof -
    have e: "edge_ok UNIV (t_header t) e" using shape that by (simp add: es tac_shape_def)
    have "unat (th_budget_per_source (t_header t)) \<le> 65535"
      using tac_shapeD(1) [OF shape] by (simp add: tac_layout_def tac_header_ok_def word_le_nat_alt)
    with edge_okD(3) [OF e] total_spent_le [OF edge_okD(1) [OF e]] show ?thesis by simp
  qed
  then have "sum_list (map (\<lambda>e. unat (te_weight e)) es) \<le> length es * (5 * 65535)"
    by (simp add: sum_list_bounded)
  with len have "sum_list (map unat (map te_weight es)) < 2 ^ 32" by (simp add: o_def)
  then have mass: "unat (sum_list (map te_weight es)) = sum_list (map (\<lambda>e. unat (te_weight e)) es)"
    by (subst unat_sum_list_word) (simp_all add: o_def)
  have pos: "(of_nat (length es) :: u32) > 0 \<longleftrightarrow> es \<noteq> []"
    using count by (auto simp: word_less_nat_alt)
  have "wake_tac_query t (Some key) True = Some (es \<noteq> [], out)"
    using assms(2) q pos by (simp add: wake_tac_query_def Let_def out_def)
  with count mass show ?thesis by (auto simp: out_def)
qed

theorem tac_query_exact_witness:
  "\<exists>b out. wake_tac_query demo_tac1 (Some [10, 0, 0, 1]) True = Some (b, out)
     \<and> length (sn_top out) = unat (sn_edge_count out)"
  using tac_query_exact [OF demo_tac1_tracked _ refl, of "[10, 0, 0, 1]"] by auto

section \<open>Reinforcement and lookup\<close>

text \<open>The weight under a key, 0 when the edge is not in the table.\<close>

definition weight_of :: "wake_tac_t \<Rightarrow> u64 \<Rightarrow> nat" where
  "weight_of t k = (if find_slot t k = UINT32_MAX then 0 else unat (te_weight (t_entries t ! unat (find_slot t k))))"

lemma weight_of_eq:
  assumes "tac_shape S t" "\<not> vacant k"
  shows "weight_of t k = (case find (\<lambda>e. te_key_hash e = k) (t_entries t) of None \<Rightarrow> 0 | Some e \<Rightarrow> unat (te_weight e))"
  using find_slot_lookup [OF assms] by (auto simp: weight_of_def split: option.splits)

lemma weight_of_bound:
  assumes "tac_shape S t" "\<not> vacant k"
  shows "weight_of t k \<le> 5 * 65535"
proof (cases "find (\<lambda>e. te_key_hash e = k) (t_entries t)")
  case (Some e)
  then have "e \<in> set (t_entries t)" by (auto simp: find_Some_iff)
  with assms(1) have e: "edge_ok S (t_header t) e" by (simp add: tac_shape_def)
  have "unat (th_budget_per_source (t_header t)) \<le> 65535"
    using tac_shapeD(1) [OF assms(1)] by (simp add: tac_layout_def tac_header_ok_def word_le_nat_alt)
  with edge_okD(3) [OF e] total_spent_le [OF edge_okD(1) [OF e]] Some show ?thesis
    by (simp add: weight_of_eq [OF assms])
qed (simp add: weight_of_eq [OF assms])

text \<open>
  A reinforcement that reports \<open>WAKE_TAC_APPLIED\<close> is found by the next lookup of the same entity
  and pair of techniques, in either order: the edge is in the table afterwards, and its weight is
  what it was before (0 for a new edge) plus the reinforcement force (the activation divided by 16,
  at least 1), without wrap-around.
\<close>

theorem reinforce_then_lookup:
  assumes "reach tac_init (tac_step UNIV) t"
    and "wake_tac_reinforce t (Some key) t_a t_b eta s now_rel = (WAKE_TAC_APPLIED, t')"
    and "k = slot_hash_of t (entity_hash_of t key) (if t_a < t_b then t_a else t_b) (if t_a < t_b then t_b else t_a)"
  shows "find_slot t' k \<noteq> UINT32_MAX
     \<and> te_key_hash (t_entries t' ! unat (find_slot t' k)) = k
     \<and> weight_of t' k = weight_of t k + max 1 (unat eta div 16)"
proof -
  have inv: "tac_inv UNIV t" by (rule tac.reach_inv [OF assms(1)])
  then have shape: "tac_shape UNIV t" by (simp add: tac_inv_def)
  have "keeps UNIV t (snd (wake_tac_reinforce t (Some key) t_a t_b eta s now_rel))"
    by (rule wake_tac_reinforce_keeps [OF inv]) simp
  then have shape': "tac_shape UNIV t'" using assms(2) by (simp add: keeps_def tac_inv_def)
  have k: "\<not> vacant k" unfolding assms(3) by (rule slot_hash_live)
  define delta where "delta = snd (edge_strength eta 0 WAKE_TAC_SRC_NONE)"
  have ok: "s \<noteq> WAKE_TAC_SRC_NONE"
    and app: "apply_edge t (entity_hash_of t key) key (if t_a < t_b then t_a else t_b) (if t_a < t_b then t_b else t_a)
      eta (normalize_source s) 0 WAKE_TAC_SRC_NONE now_rel = (WAKE_TAC_APPLIED, t')"
    using assms(2) by (simp_all add: wake_tac_reinforce_def Let_def split: if_splits)
  have "\<exists>e\<in>set (t_entries t'). te_key_hash e = k \<and> te_weight e =
     (case find (\<lambda>e. te_key_hash e = k) (t_entries t) of None \<Rightarrow> 0 | Some e \<Rightarrow> te_weight e) + delta"
    unfolding delta_def assms(3)
    by (rule apply_edge_applied [OF inv entity_hash_of_nonzero _ _ _ app]) (use ok in simp_all)
  then obtain e where e: "e \<in> set (t_entries t')" "te_key_hash e = k"
      "te_weight e = (case find (\<lambda>e. te_key_hash e = k) (t_entries t) of None \<Rightarrow> 0 | Some e \<Rightarrow> te_weight e) + delta"
    by blast
  then obtain i where i: "i < length (t_entries t')" "t_entries t' ! i = e" by (auto simp: in_set_conv_nth)
  have f: "find (\<lambda>e. te_key_hash e = k) (t_entries t') = Some e"
    using find_key_nth [OF shape' i(1) _ k] i(2) e(2) by simp
  have "unat delta = max 1 (unat eta div 16)"
    by (simp add: delta_def edge_strength_def WAKE_TAC_DELTA_def Let_def max_def unat_eq_zero [symmetric])
  moreover have "unat delta \<le> 4095"
    using edge_strength_bounds(1) [of eta 0 WAKE_TAC_SRC_NONE] by (simp add: delta_def word_le_nat_alt)
  moreover have "unat (te_weight e) = weight_of t k + unat delta"
    using e(3) weight_of_bound [OF shape k] calculation(2)
    by (auto simp: weight_of_eq [OF shape k] unat_word_ariths split: option.splits)
  ultimately show ?thesis
    using find_slot_lookup [OF shape' k] f e(2) by (simp add: weight_of_eq [OF shape' k])
qed

text \<open>The first reinforcement of the demo table is applied.\<close>

lemma upt_0_Cons: "0 < n \<Longrightarrow> [0..<n] = 0 # [1..<n]"
  by (simp add: upt_conv_Cons)

lemma occ_add_slot_free:
  assumes "tac_layout t" "ehash \<noteq> 0" "to_entity_hash (t_occ t ! occ_idx t ehash 0) = 0"
  shows "fst (occ_add_slot t ehash idx)"
proof -
  have "occ_find t ehash True = (Some (occ_idx t ehash 0), claim_occ ehash (occ_idx t ehash 0) t)"
    using assms occ_idx_less [OF assms(1), of ehash 0]
    by (simp add: occ_find_def upt_0_Cons Let_def claim_occ_def)
  then show ?thesis
    using occ_idx_less [OF assms(1), of ehash 0] by (simp add: occ_add_slot_eq claim_occ_def)
qed

lemma demo_tac_slots:
  "tac_shape UNIV demo_tac" "i < 8 \<Longrightarrow> te_key_hash (t_entries demo_tac ! i) = 0"
  "j < 16 \<Longrightarrow> to_entity_hash (t_occ demo_tac ! j) = 0" "length (t_entries demo_tac) = 8" "length (t_occ demo_tac) = 16"
  using tac.reach_inv [OF demo_tac_reach [of "tac_step UNIV"]]
  by (simp_all add: demo_tac_def tac_inv_def Let_def zero_occ_def)

lemma demo_insert:
  assumes k: "\<not> vacant k" and eh: "ehash \<noteq> 0"
  shows "fst (insert_edge demo_tac ehash key t_lo t_hi eta_hi delta w0_src w1_src now_rel k) = WAKE_TAC_APPLIED"
proof -
  note lay = tac_shapeD(1) [OF demo_tac_slots(1)]
  have "occ_list demo_tac ehash = []"
    by (rule occ_list_absent) (use eh in \<open>auto simp: in_set_conv_nth demo_tac_slots\<close>)
  with occ_count_list [OF demo_tac_slots(1) eh] have "occ_count demo_tac ehash = 0" by (simp add: unat_eq_zero)
  moreover have "ucast (th_per_entity_cap (t_header demo_tac)) = (2 :: u32)"
    by (simp add: demo_tac_def tac_header_def tac_cfg_or_def Let_def)
  moreover define c where "c = claim_loop demo_tac k [0..<WAKE_TAC_PROBE_MAX]"
  moreover have c: "c = tac_idx demo_tac k 0"
    using tac_slot_less [OF lay, of k 0] by (simp add: c_def upt_0_Cons Let_def tac_slot_def demo_tac_slots)
  moreover have "c \<noteq> UINT32_MAX" unfolding c by (rule tac_idx_in_range(2) [OF lay])
  moreover have "fst (occ_add_slot (put_tac (unat c) e (put_tac (unat c) e' demo_tac)) ehash c)" for e e'
    using lay eh occ_idx_less [OF lay, of ehash 0] by (intro occ_add_slot_free) (simp_all add: demo_tac_slots)
  ultimately show ?thesis
    by (simp add: insert_edge_eq publish_edge_def Let_def case_prod_unfold retire_victim_def)
qed

lemma demo_applied:
  "wake_tac_reinforce demo_tac (Some [10, 0, 0, 1]) 1 2 60000 3 5 = (WAKE_TAC_APPLIED, demo_tac1)"
proof -
  let ?eh = "entity_hash_of demo_tac [10, 0, 0, 1]"
  have "find (\<lambda>e. te_key_hash e = k) (t_entries demo_tac) = None" if "\<not> vacant k" for k
    using that by (auto simp: find_None_iff in_set_conv_nth demo_tac_slots)
  with find_slot_lookup [OF demo_tac_slots(1) slot_hash_live]
  have "find_slot demo_tac (slot_hash_of demo_tac ?eh 1 2) = UINT32_MAX"
    by (fastforce simp: slot_hash_live)
  then have "fst (wake_tac_reinforce demo_tac (Some [10, 0, 0, 1]) 1 2 60000 3 5) = WAKE_TAC_APPLIED"
    using demo_insert [OF slot_hash_live entity_hash_of_nonzero]
    by (simp add: wake_tac_reinforce_def apply_edge_def Let_def case_prod_unfold)
  then show ?thesis by (simp add: demo_tac1_def prod_eq_iff)
qed

theorem reinforce_then_lookup_witness:
  "find_slot demo_tac1 (slot_hash_of demo_tac (entity_hash_of demo_tac [10, 0, 0, 1]) 1 2) \<noteq> UINT32_MAX
   \<and> weight_of demo_tac1 (slot_hash_of demo_tac (entity_hash_of demo_tac [10, 0, 0, 1]) 1 2) =
     weight_of demo_tac (slot_hash_of demo_tac (entity_hash_of demo_tac [10, 0, 0, 1]) 1 2) + 3750"
  using reinforce_then_lookup [OF demo_tac_reach demo_applied refl] by simp

section \<open>Files\<close>

text \<open>
  A table that \<open>wake_tac_create\<close> made is accepted again by the header checks of \<open>wake_tac_open\<close>
  exactly when its noise floor is below five times the per-source budget: creation does not check
  the noise floor, opening does.
\<close>

theorem tac_reopen_iff:
  assumes "wake_tac_create env cfg = Inr t"
  shows "open_refused (t_header t) \<longleftrightarrow>
     unat (th_noise_floor (t_header t)) \<ge> 5 * unat (th_budget_per_source (t_header t))"
proof -
  from assms obtain key where t: "t_header t = tac_header cfg (ce_tv_sec env) key"
      and ref: "\<not> create_refused (tac_header cfg (ce_tv_sec env) [])"
    by (auto simp: wake_tac_create_def Let_def split: if_splits option.splits)
  have ok: "tac_header_ok (t_header t)" by (rule create_tac_header(1) [OF assms])
  have "th_occ_slots (t_header t) \<ge> th_capacity (t_header t)"
    using ref by (simp add: t create_refused_def tac_header_def Let_def not_less)
  moreover have "th_decay_novel_fp16 (t_header t) \<noteq> 0" "th_decay_corr_fp16 (t_header t) \<noteq> 0"
    "th_corroboration_src_min (t_header t) \<noteq> 0" "th_magic (t_header t) = WAKE_TAC_MAGIC"
    "th_format_version (t_header t) = 1"
    by (simp_all add: t tac_header_def Let_def tac_cfg_or_def split: option.split)
  moreover have "unat (th_budget_per_source (t_header t) * 5) = 5 * unat (th_budget_per_source (t_header t))"
    using ok by (simp add: tac_header_ok_def word_le_nat_alt unat_word_ariths)
  ultimately show ?thesis
    using ok unfolding tac_header_ok_def open_refused_def word_le_nat_alt [of "_ * 5"]
    by (auto simp: not_le not_less)
qed

theorem tac_reopen_iff_witness:
  "\<not> open_refused (t_header demo_tac)
   \<and> (\<exists>env cfg t. wake_tac_create env cfg = Inr t \<and> open_refused (t_header t))"
proof
  obtain env cfg where c: "wake_tac_create env cfg = Inr demo_tac" using demo_tac_init by (auto simp: tac_init_def)
  show "\<not> open_refused (t_header demo_tac)"
    using tac_reopen_iff [OF c] by (simp add: demo_tac_def tac_header_def tac_cfg_or_def Let_def)
  define cfg' :: "wake_tac_config_t option" where
    "cfg' = Some \<lparr>tc_capacity = 8, tc_occ_slots = 16, tc_decay_novel_fp16 = 0,
                tc_decay_corr_fp16 = 0, tc_noise_floor = 200000, tc_budget_per_source = 0,
                tc_per_entity_cap = 2, tc_corroboration_src_min = 2, tc_tick_seconds = 0,
                tc_quarantine_min_w = 0\<rparr>"
  define env' where "env' = \<lparr>ce_open = True, ce_ftruncate = True, ce_mmap = True,
    ce_urandom = Some (replicate 16 7), ce_malloc = True, ce_tv_sec = 1700000000\<rparr>"
  have "\<exists>t. wake_tac_create env' cfg' = Inr t \<and> t_header t = tac_header cfg' 1700000000 (replicate 16 7)"
    by (simp add: wake_tac_create_def create_refused_def tac_header_def tac_cfg_or_def is_power_of_2_def
        cfg'_def env'_def Let_def)
  then obtain t where t: "wake_tac_create env' cfg' = Inr t" "t_header t = tac_header cfg' 1700000000 (replicate 16 7)"
    by blast
  then have "open_refused (t_header t)"
    using tac_reopen_iff [OF t(1)] by (simp add: tac_header_def tac_cfg_or_def cfg'_def Let_def)
  with t(1) show "\<exists>env cfg t. wake_tac_create env cfg = Inr t \<and> open_refused (t_header t)" by blast
qed

section \<open>Technique identifiers\<close>

text \<open>
  Packing a technique number and a subtechnique loses nothing, and the identifier of a label can
  never equal the identifier of a numbered technique: the two differ in their flags byte.
\<close>

theorem tac_pack_roundtrip:
  "WAKE_TAC_TECH_BASE (wake_tac_pack base sub) = base \<and> WAKE_TAC_TECH_SUB (wake_tac_pack base sub) = sub
   \<and> WAKE_TAC_TECH_FLAGS (wake_tac_pack base sub) = 0 \<and> WAKE_TAC_TECH_FLAGS (wake_tac_pack_label label) = 1
   \<and> wake_tac_pack_label label \<noteq> wake_tac_pack base sub"
proof -
  have m: "(0xFFFF :: u32) = mask 16" "(0xFF :: u32) = mask 8" "(0xFFFFFF :: u32) = mask 24"
    by (simp_all add: mask_eq_exp_minus_1)
  note defs = wake_tac_pack_def m bit_simps
  have "WAKE_TAC_TECH_BASE (wake_tac_pack base sub) = base"
    unfolding WAKE_TAC_TECH_BASE_def by (rule bit_word_eqI) (auto simp: defs)
  moreover have "WAKE_TAC_TECH_SUB (wake_tac_pack base sub) = sub"
    unfolding WAKE_TAC_TECH_SUB_def
    by (rule bit_word_eqI) (auto simp: defs dest: bit_imp_le_length)
  moreover have p: "WAKE_TAC_TECH_FLAGS (wake_tac_pack base sub) = 0"
    unfolding WAKE_TAC_TECH_FLAGS_def
    by (rule bit_word_eqI) (auto simp: defs dest: bit_imp_le_length)
  moreover have l: "WAKE_TAC_TECH_FLAGS (wake_tac_pack_label label) = 1"
    unfolding WAKE_TAC_TECH_FLAGS_def wake_tac_pack_label_def Let_def
    by (rule bit_word_eqI) (auto simp: m bit_simps)
  moreover from p l have "wake_tac_pack_label label \<noteq> wake_tac_pack base sub" by force
  ultimately show ?thesis by simp
qed

end
