(* ===== verification/Wake_Tac_Refuse.thy ===== *)
theory Wake_Tac_Refuse
  imports Wake_Tac_Query
begin

text \<open>
  A reinforcement of the coupling table that is refused, for whatever reason, leaves every live
  edge as it was.
\<close>

text \<open>The live edges of \<open>t\<close> are unchanged in \<open>t'\<close>, and no edge has appeared.\<close>

definition same_edges :: "wake_tac_t \<Rightarrow> wake_tac_t \<Rightarrow> bool" where
  "same_edges t t' \<longleftrightarrow> length (t_entries t') = length (t_entries t)
     \<and> (\<forall>i<length (t_entries t).
          if vacant (te_key_hash (t_entries t ! i)) then vacant (te_key_hash (t_entries t' ! i))
          else t_entries t' ! i = t_entries t ! i)"

lemma same_edges_refl [simp]: "same_edges t t"
  by (simp add: same_edges_def)

lemma budget_charge_refused: "\<not> fst (budget_charge e h s delta) \<Longrightarrow> snd (snd (budget_charge e h s delta)) = e"
proof -
  have "fst (budget_charge e h s delta) \<or> snd (snd (budget_charge e h s delta)) = e"
    by (simp add: budget_charge_def Let_def split: option.split)
  then show "\<not> fst (budget_charge e h s delta) \<Longrightarrow> snd (snd (budget_charge e h s delta)) = e" by blast
qed

lemma reinforce_existing_refused:
  "fst (reinforce_existing h delta eta_hi w0_src w1_src now_rel e) \<noteq> WAKE_TAC_APPLIED \<Longrightarrow>
     snd (reinforce_existing h delta eta_hi w0_src w1_src now_rel e) = e"
  by (auto simp: reinforce_existing_def Let_def case_prod_unfold budget_charge_refused split: if_splits)

text \<open>An entity the sidecar knows, and whose list is not full, can always be given one more slot.\<close>

lemma occ_add_slot_known:
  assumes "tac_shape S t" "ehash \<noteq> 0" "ehash \<in> set (occ_keys t)" "length (occ_list t ehash) < 32"
  shows "fst (occ_add_slot t ehash idx)"
  using assms(1,2)
proof (cases rule: occ_find_cases [where claim = True])
  case (found j)
  have "occ_ok (t_occ t ! j)" by (rule tac_shapeD(5) [OF assms(1) found(1)])
  with occ_list_at [OF tac_shapeD(3) [OF assms(1)] found(1,2) assms(2)] assms(4)
  have "unat (to_live_count (t_occ t ! j)) < 32" by (simp add: occ_ok_def)
  then have "\<not> to_live_count (t_occ t ! j) \<ge> WAKE_TAC_PER_ENTITY_CAP_MAX" by (simp add: word_le_nat_alt)
  with found(3) show ?thesis by (simp add: occ_add_slot_eq)
qed (use assms(3) in simp_all)

lemma occ_del_slot_keys:
  assumes "tac_shape S t" "ehash \<noteq> 0"
  shows "occ_keys (occ_del_slot t ehash idx) = occ_keys t"
  using assms
proof (cases rule: occ_find_cases [where claim = False])
  case (found j)
  then show ?thesis
    by (auto simp: occ_del_slot_def Let_def list_update_same_conv split: option.split)
qed (simp_all add: occ_del_slot_def)

lemma retire_victim_keys:
  assumes "tac_shape S t" "ehash \<noteq> 0" "unat v < length (t_entries t)"
  shows "occ_keys (retire_victim ehash v t) = occ_keys t"
proof -
  define e where "e = (t_entries t ! unat v)\<lparr>te_weight := 0, te_key_hash := SLOT_TOMBSTONE\<rparr>"
  have "edge_ok S (t_header t) e"
    using edge_ok_lighter [OF tac_shapeD(4) [OF assms(1,3)], of 0] by (simp add: e_def)
  then have "tac_shape S (put_tac (unat v) e t)"
    using assms(1,3) by (intro tac_shape_bury) (simp_all add: e_def)
  from occ_del_slot_keys [OF this assms(2)] show ?thesis
    by (simp add: retire_victim_def e_def [symmetric])
qed

lemma publish_edge_refused:
  assumes "publish_edge ehash c e delta t = (r, t')" "r \<noteq> WAKE_TAC_APPLIED"
  shows "\<not> fst (occ_add_slot (put_tac (unat c) e t) ehash c)"
    "t' = put_tac (unat c) (e\<lparr>te_key_hash := SLOT_TOMBSTONE\<rparr>) (snd (occ_add_slot (put_tac (unat c) e t) ehash c))"
  using assms by (auto simp: publish_edge_def Let_def case_prod_unfold split: if_splits)

lemma insert_edge_refused:
  assumes inv: "tac_inv S t" and eh: "ehash \<noteq> 0" and k: "\<not> vacant k" "k \<notin> set (tac_keys t)"
    and d: "delta \<le> WAKE_TAC_DELTA_MAX"
    and w0: "w0_src \<in> S" "w0_src \<noteq> WAKE_TAC_SRC_NONE"
    and w1: "w1_src \<noteq> WAKE_TAC_SRC_NONE \<Longrightarrow> w1_src \<in> S"
    and ins: "insert_edge t ehash key t_lo t_hi eta_hi delta w0_src w1_src now_rel k = (r, t')"
    and r: "r \<noteq> WAKE_TAC_APPLIED"
  shows "same_edges t t'"
proof -
  have shape: "tac_shape S t" and named: "named {} t" using inv by (simp_all add: tac_inv_def)
  show ?thesis
  proof (rule insert_edge_cases [OF shape eh k ins])
    assume "t' = t"
    then show ?thesis by simp
  next
    fix c v
    assume c: "unat c < length (t_entries t)" "vacant (te_key_hash (t_entries t ! unat c))"
      and shape1: "tac_shape S (take_slot k c t)"
      and v: "v = UINT32_MAX \<and> \<not> at_cap t ehash \<or> at_cap t ehash \<and> v \<noteq> UINT32_MAX
        \<and> v \<in> set (occ_list (take_slot k c t) ehash) \<and> unat v < length (t_entries (take_slot k c t)) \<and> unat v \<noteq> unat c"
      and pub: "publish_edge ehash c (build_edge (t_header t) ehash key t_lo t_hi eta_hi delta w0_src w1_src now_rel
         (t_entries (retire_victim ehash v (take_slot k c t)) ! unat c)) delta
         (retire_victim ehash v (take_slot k c t)) = (r, t')"
    define t2 where "t2 = retire_victim ehash v (take_slot k c t)"
    define e where "e = build_edge (t_header t) ehash key t_lo t_hi eta_hi delta w0_src w1_src now_rel
                   (t_entries t2 ! unat c)"
    have named1: "named {unat c} (take_slot k c t)"
      unfolding take_slot_def by (rule named_put [OF named_weaken [OF named]]) simp
    have t2: "tac_shape S t2" "t_header t2 = t_header t" "length (t_entries t2) = length (t_entries t)"
      "length (occ_list t2 ehash) = length (occ_list (take_slot k c t) ehash) - (if v = UINT32_MAX then 0 else 1)"
      using retire_step [OF shape1 eh named1, of v] v by (auto simp: t2_def take_slot_def)
    have h: "WAKE_TAC_DELTA_MAX \<le> th_budget_per_source (t_header t)" "th_budget_per_source (t_header t) \<le> 65535"
      using tac_shapeD(1) [OF shape] by (simp_all add: tac_layout_def tac_header_ok_def)
    have "edge_ok S (t_header t) (e\<lparr>te_weight := 0\<rparr>)"
      unfolding e_def by (rule build_edge_ok [OF h d w0 w1]) simp_all
    then have "edge_ok S (t_header t2) e" by (simp add: e_def edge_ok_def t2(2))
    then have shape3: "tac_shape S (put_tac (unat c) e t2)"
      using c(1) t2(3) by (intro tac_shape_put_same [OF t2(1)]) (simp_all add: e_def)
    note ref = publish_edge_refused [OF pub [folded t2_def, folded e_def] r]
    have "v = UINT32_MAX"
    proof (rule ccontr)
      assume ne: "v \<noteq> UINT32_MAX"
      with v have v': "v \<in> set (occ_list (take_slot k c t) ehash)" "unat v < length (t_entries (take_slot k c t))"
        by auto
      have "ehash \<in> set (occ_keys (take_slot k c t))"
        by (rule ccontr) (use v'(1) occ_list_absent [of ehash "take_slot k c t"] in simp)
      then have "ehash \<in> set (occ_keys (put_tac (unat c) e t2))"
        using retire_victim_keys [OF shape1 eh v'(2)] by (simp add: t2_def)
      moreover have "length (occ_list (put_tac (unat c) e t2) ehash) < 32"
        using t2(4) ne v'(1) occ_list_le [OF shape1, of ehash] by (cases "occ_list (take_slot k c t) ehash") auto
      ultimately have "fst (occ_add_slot (put_tac (unat c) e t2) ehash c)"
        by (rule occ_add_slot_known [OF shape3 eh])
      with ref(1) show False by simp
    qed
    then have t2_eq: "t2 = take_slot k c t" by (simp add: t2_def retire_victim_def)
    have "t_entries (snd (occ_add_slot (put_tac (unat c) e t2) ehash c)) = t_entries (put_tac (unat c) e t2)"
      using occ_add_slot_spec [OF shape3 eh prod.collapse [symmetric]] by blast
    then have "t_entries t' = (t_entries t)[unat c := e\<lparr>te_key_hash := SLOT_TOMBSTONE\<rparr>]"
      by (simp add: ref(2) t2_eq take_slot_def)
    with c(2) show ?thesis by (simp add: same_edges_def nth_update_if)
  qed
qed

text \<open>
  C28. A reinforcement that is not applied changes no edge: whichever refusal it reports (invalid
  arguments, budget, quarantine, cap, table full), every live edge of the table is exactly as
  before and no edge has appeared.  In particular the eviction of the weakest edge never happens
  without its replacement being published.
\<close>

theorem refused_changes_nothing:
  assumes "reach tac_init (tac_step UNIV) t"
    and "wake_tac_reinforce t key t_a t_b eta s now_rel = (r, t')" "r \<noteq> WAKE_TAC_APPLIED"
  shows "length (t_entries t') = length (t_entries t)
     \<and> (\<forall>i<length (t_entries t).
          if vacant (te_key_hash (t_entries t ! i)) then vacant (te_key_hash (t_entries t' ! i))
          else t_entries t' ! i = t_entries t ! i)"
proof -
  have inv: "tac_inv UNIV t" by (rule tac.reach_inv [OF assms(1)])
  then have shape: "tac_shape UNIV t" by (simp add: tac_inv_def)
  have "same_edges t t'"
    if app: "apply_edge t (entity_hash_of t k) k t_lo t_hi eta (normalize_source s) 0 WAKE_TAC_SRC_NONE now_rel = (r, t')"
      and s: "s \<noteq> WAKE_TAC_SRC_NONE" for k t_lo t_hi
  proof -
    obtain eta_hi delta where str: "edge_strength eta 0 WAKE_TAC_SRC_NONE = (eta_hi, delta)" by fastforce
    have d: "delta \<le> WAKE_TAC_DELTA_MAX" using edge_strength_bounds(1) [of eta 0 WAKE_TAC_SRC_NONE] by (simp add: str)
    define sk where "sk = slot_hash_of t (entity_hash_of t k) t_lo t_hi"
    have sk: "\<not> vacant sk" unfolding sk_def by (rule slot_hash_live)
    from shape sk show ?thesis
    proof (cases rule: find_slot_cases)
      case (found p)
      have i: "unat (tac_idx t sk p) < length (t_entries t)"
        using tac_slot_less [OF tac_shapeD(1) [OF shape], of sk p] by (simp add: tac_slot_def)
      have "t' = put_tac (unat (tac_idx t sk p)) (t_entries t ! unat (tac_idx t sk p)) t"
        using app assms(3) tac_idx_in_range(2) [OF tac_shapeD(1) [OF shape], of sk p]
        by (auto simp: apply_edge_def str Let_def sk_def [symmetric] found(1) case_prod_unfold
            reinforce_existing_refused)
      then show ?thesis by (simp add: same_edges_def)
    next
      case absent
      then have "insert_edge t (entity_hash_of t k) k t_lo t_hi eta_hi delta (normalize_source s)
          WAKE_TAC_SRC_NONE now_rel sk = (r, t')"
        using app by (simp add: apply_edge_def str Let_def sk_def [symmetric])
      from insert_edge_refused [OF inv entity_hash_of_nonzero sk absent(2) d _ _ _ this assms(3)] s
      show ?thesis by simp
    qed
  qed
  then have "same_edges t t'"
    using assms(2) by (auto simp: wake_tac_reinforce_def Let_def split: option.splits if_splits)
  then show ?thesis by (simp add: same_edges_def)
qed

theorem refused_changes_nothing_witness:
  "fst (wake_tac_reinforce demo_tac1 (Some [10, 0, 0, 1]) 1 1 60000 3 5) = WAKE_TAC_INVALID
   \<and> length (t_entries (snd (wake_tac_reinforce demo_tac1 (Some [10, 0, 0, 1]) 1 1 60000 3 5))) = length (t_entries demo_tac1)"
  using refused_changes_nothing [OF demo_tac1_reach, of "Some [10, 0, 0, 1]" 1 1 60000 3 5]
  by (simp add: wake_tac_reinforce_def)

end
