(* ===== verification/Wake_Tac_Conc.thy ===== *)
theory Wake_Tac_Conc
  imports Wake_Tac_Budget
begin

text \<open>
  Readers of the coupling table that run concurrently with its single writer
  (\<open>src/src/wake_tac.c\<close>).  A write to a slot is the list of its stores in program order, and its
  history the contents of the slot before the first and after each of them.  A reader performs its
  loads one by one; each sees the slot at some point of the history.  Which points these may be
  depends on the memory order.  \<open>acquire_points\<close> demands only what the source asks for: the first
  two loads, of \<open>key_hash\<close> and \<open>weight\<close>, are acquire loads, so that every load behind them sees the slot no
  earlier than they do; the relaxed loads that follow, and the second load of \<open>key_hash\<close>, may be
  performed in any order.  \<open>load_points\<close>, all loads in program order, is the special case that a
  counterexample may choose.  What is proved for every reader rests on \<open>acquire_points\<close> and on stores
  that are published by a release store of the weight; it does not use the order of relaxed stores.
  The stores in order have the effect that the sequential model of \<open>Wake_Tac\<close> gives to the
  operation.
\<close>

section \<open>Histories and loads\<close>

primrec history :: "('e \<Rightarrow> 'e) list \<Rightarrow> 'e \<Rightarrow> 'e list" where
  "history [] e = [e]"
| "history (f # fs) e = e # history fs (f e)"

definition run_stores :: "('e \<Rightarrow> 'e) list \<Rightarrow> 'e \<Rightarrow> 'e" where
  "run_stores fs e = fold (\<lambda>f. f) fs e"

text \<open>The points of the history at which the loads of a reader happen.\<close>

definition load_points :: "'e list \<Rightarrow> nat \<Rightarrow> nat list \<Rightarrow> bool" where
  "load_points hist n ps \<longleftrightarrow> length ps = n \<and> sorted ps \<and> (\<forall>p\<in>set ps. p < length hist)"

text \<open>The points that the acquire loads allow; the first two loads are acquire loads.\<close>

definition acquire_points :: "'e list \<Rightarrow> nat \<Rightarrow> nat list \<Rightarrow> bool" where
  "acquire_points hist n ps \<longleftrightarrow> length ps = n \<and> 1 < n \<and> list_all (\<lambda>p. p < length hist) ps
     \<and> list_all (\<lambda>p. ps ! 0 \<le> p) ps \<and> list_all (\<lambda>p. ps ! 1 \<le> p) (drop 1 ps)"

lemma in_order_acquire: "load_points hist n ps \<Longrightarrow> 1 < n \<Longrightarrow> acquire_points hist n ps"
  by (auto simp: load_points_def acquire_points_def list_all_iff in_set_conv_nth sorted_iff_nth_mono)

definition loads :: "'e list \<Rightarrow> nat list \<Rightarrow> 'e list" where
  "loads hist ps = map (\<lambda>p. hist ! p) ps"

lemma run_stores_simps [simp]:
  "run_stores [] e = e" "run_stores (f # fs) e = run_stores fs (f e)"
  by (simp_all add: run_stores_def)

lemma history_not_Nil [simp]: "history fs e \<noteq> []"
  by (cases fs) simp_all

lemma last_history: "last (history fs e) = run_stores fs e"
  by (induction fs arbitrary: e) simp_all

lemma length_history [simp]: "length (history fs e) = Suc (length fs)"
  by (induction fs arbitrary: e) simp_all

lemma history_append: "history (fs @ gs) e = butlast (history fs e) @ history gs (run_stores fs e)"
  by (induction fs arbitrary: e) simp_all

lemma run_stores_append: "run_stores (fs @ gs) e = run_stores gs (run_stores fs e)"
  by (simp add: run_stores_def)

text \<open>What every store leaves alone is the same at every point of the history.\<close>

lemma history_frame:
  assumes "\<And>f x. f \<in> set fs \<Longrightarrow> g (f x) = g x" "x \<in> set (history fs e)"
  shows "g x = g e"
  using assms by (induction fs arbitrary: e) auto

section \<open>Readers\<close>

text \<open>
  \<open>wake_tac_read_entry\<close> with the slot as each of its twelve loads sees it, in program order:
  \<open>key_hash\<close>, \<open>weight\<close>, \<open>reinf_count\<close>, \<open>last_reinf\<close>, \<open>t_lo\<close>, \<open>t_hi\<close>, \<open>eta_max_fp16\<close>,
  \<open>src_count\<close>, \<open>quarantine\<close>, \<open>first_seen\<close>, \<open>entity_hash\<close>, and \<open>key_hash\<close> again.
\<close>

definition read_entry_at :: "wake_tac_entry_t list \<Rightarrow> wake_tac_entry_t option" where
  "read_entry_at cs =
     (let kh = te_key_hash (cs ! 0); w = te_weight (cs ! 1)
      in if vacant kh then None
         else if w = 0 then None
         else if te_key_hash (cs ! 11) \<noteq> kh then None
         else Some (zero_tac_entry\<lparr>te_key_hash := kh, te_weight := w,
                 te_reinf_count := te_reinf_count (cs ! 2), te_last_reinf := te_last_reinf (cs ! 3),
                 te_t_lo := te_t_lo (cs ! 4), te_t_hi := te_t_hi (cs ! 5),
                 te_eta_max_fp16 := te_eta_max_fp16 (cs ! 6), te_src_count := te_src_count (cs ! 7),
                 te_quarantine := te_quarantine (cs ! 8), te_first_seen := te_first_seen (cs ! 9),
                 te_entity_hash := te_entity_hash (cs ! 10)\<rparr>))"

text \<open>
  The visit of a slot by \<open>wake_tac_query\<close>, with its eight loads: \<open>key_hash\<close>, \<open>weight\<close>,
  \<open>entity_hash\<close>, \<open>quarantine\<close>, \<open>t_lo\<close>, \<open>t_hi\<close>, \<open>eta_max_fp16\<close>, \<open>src_count\<close>.
\<close>

definition query_visit_at :: "u64 \<Rightarrow> wake_tac_entry_t list \<Rightarrow> wake_tac_edge_t option" where
  "query_visit_at ehash cs =
     (if vacant (te_key_hash (cs ! 0)) then None
      else if te_weight (cs ! 1) = 0 then None
      else if te_entity_hash (cs ! 2) \<noteq> ehash then None
      else if te_quarantine (cs ! 3) \<noteq> 0 then None
      else Some \<lparr>ed_t_lo = te_t_lo (cs ! 4), ed_t_hi = te_t_hi (cs ! 5), ed_weight = te_weight (cs ! 1),
                 ed_eta_max_fp16 = te_eta_max_fp16 (cs ! 6), ed_src_count = te_src_count (cs ! 7),
                 ed_quarantine = 0\<rparr>)"

text \<open>On a slot that does not change the visits are those of the sequential model.\<close>

definition snapshot :: "wake_tac_entry_t \<Rightarrow> wake_tac_entry_t option" where
  "snapshot e = read_entry_at (replicate 12 e)"

lemma read_entry_quiescent:
  "wake_tac_read_entry t slot =
     (if slot \<ge> th_capacity (t_header t) then None else snapshot (t_entries t ! unat slot))"
  by (simp add: wake_tac_read_entry_def read_entry_at_def snapshot_def Let_def)

lemma query_visit_quiescent:
  "query_step ehash e out =
     (case query_visit_at ehash (replicate 8 e) of
        None \<Rightarrow> out
      | Some ed \<Rightarrow> out\<lparr>sn_coupling_mass := sn_coupling_mass out + ed_weight ed,
                       sn_edge_count := sn_edge_count out + 1,
                       sn_top := top_insert (sn_top out) ed\<rparr>)"
  by (simp add: query_step_def query_visit_at_def edge_of_def)

section \<open>Stores of the writer\<close>

text \<open>
  Insertion into the slot the writer has claimed, from the compare-and-swap of \<open>key_hash\<close> to the
  publication of the weight.  The budgets and the identity are plain memory no reader looks at.
\<close>

definition insert_stores ::
  "wake_tac_header_t \<Rightarrow> u64 \<Rightarrow> bytes \<Rightarrow> u32 \<Rightarrow> u32 \<Rightarrow> u16 \<Rightarrow> u32 \<Rightarrow> u16 \<Rightarrow> u16 \<Rightarrow> u32 \<Rightarrow> u64
     \<Rightarrow> (wake_tac_entry_t \<Rightarrow> wake_tac_entry_t) list" where
  "insert_stores h ehash key t_lo t_hi eta_hi delta w0_src w1_src now_rel slot_key =
     (let (_, ns0, b0) = budget_charge zero_tac_entry h w0_src delta;
          two = (w1_src \<noteq> WAKE_TAC_SRC_NONE \<and> w1_src \<noteq> w0_src);
          (ns1, b1) = (if two then snd (budget_charge b0 h w1_src delta) else (False, b0));
          ilen = (if length key > WAKE_TAC_IDENT_MAX then WAKE_TAC_IDENT_MAX else length key)
      in [\<lambda>e. e\<lparr>te_key_hash := slot_key\<rparr>,
          \<lambda>e. e\<lparr>te_weight := 0\<rparr>,
          \<lambda>e. e\<lparr>te_t_lo := t_lo\<rparr>,
          \<lambda>e. e\<lparr>te_t_hi := t_hi\<rparr>,
          \<lambda>e. e\<lparr>te_reinf_count := 1\<rparr>,
          \<lambda>e. e\<lparr>te_last_reinf := now_rel\<rparr>,
          \<lambda>e. e\<lparr>te_eta_max_fp16 := eta_hi\<rparr>,
          \<lambda>e. e\<lparr>te_quarantine := 0\<rparr>,
          \<lambda>e. e\<lparr>te_first_seen := now_rel\<rparr>,
          \<lambda>e. e\<lparr>te_budget := replicate 5 zero_budget\<rparr>,
          \<lambda>e. e\<lparr>te_budget := te_budget b0\<rparr>,
          \<lambda>e. e\<lparr>te_budget := te_budget b1\<rparr>,
          \<lambda>e. e\<lparr>te_src_count := (if ns0 then 1 else 0) + (if ns1 then 1 else 0)\<rparr>,
          \<lambda>e. e\<lparr>te_version := write_version (te_version e)\<rparr>,
          \<lambda>e. e\<lparr>te_entity_hash := ehash\<rparr>,
          \<lambda>e. e\<lparr>te_ident_len := of_nat ilen\<rparr>,
          \<lambda>e. e\<lparr>te_ident_flags := (if length key > WAKE_TAC_IDENT_MAX then 1 else 0)\<rparr>,
          \<lambda>e. e\<lparr>te_ident := take ilen key @ replicate (WAKE_TAC_IDENT_MAX - ilen) 0\<rparr>,
          \<lambda>e. e\<lparr>te_version := te_version e + 1\<rparr>,
          \<lambda>e. e\<lparr>te_weight := delta\<rparr>])"

text \<open>A charge depends on the budgets alone and changes nothing else.\<close>

lemma budget_charge_budget:
  assumes "te_budget e = te_budget e'"
  shows "fst (budget_charge e h s d) = fst (budget_charge e' h s d)"
    and "fst (snd (budget_charge e h s d)) = fst (snd (budget_charge e' h s d))"
    and "te_budget (snd (snd (budget_charge e h s d))) = te_budget (snd (snd (budget_charge e' h s d)))"
    and "snd (snd (budget_charge e h s d))
           = e\<lparr>te_budget := te_budget (snd (snd (budget_charge e' h s d)))\<rparr>"
  using assms by (simp_all add: budget_charge_def Let_def split: option.split)


lemma run_insert_stores:
  "run_stores (insert_stores h ehash key t_lo t_hi eta_hi delta w0_src w1_src now_rel slot_key) e
     = (build_edge h ehash key t_lo t_hi eta_hi delta w0_src w1_src now_rel
          (e\<lparr>te_key_hash := slot_key\<rparr>))\<lparr>te_weight := delta\<rparr>"
proof -
  define e1 where "e1 = e\<lparr>te_key_hash := slot_key, te_weight := 0, te_t_lo := t_lo, te_t_hi := t_hi,
    te_reinf_count := 1, te_last_reinf := now_rel, te_eta_max_fp16 := eta_hi, te_quarantine := 0,
    te_first_seen := now_rel, te_budget := replicate 5 zero_budget\<rparr>"
  define b0 where "b0 = budget_charge zero_tac_entry h w0_src delta"
  define b1 where "b1 = budget_charge (snd (snd b0)) h w1_src delta"
  have same: "te_budget e1 = te_budget zero_tac_entry" by (simp add: e1_def zero_tac_entry_def)
  have c0: "budget_charge e1 h w0_src delta = (fst b0, fst (snd b0), e1\<lparr>te_budget := te_budget (snd (snd b0))\<rparr>)"
    using budget_charge_budget [OF same, of h w0_src delta] by (simp add: b0_def prod_eq_iff)
  have c1: "budget_charge (e1\<lparr>te_budget := te_budget (snd (snd b0))\<rparr>) h w1_src delta
      = (fst b1, fst (snd b1), e1\<lparr>te_budget := te_budget (snd (snd b1))\<rparr>)"
    using budget_charge_budget [of "e1\<lparr>te_budget := te_budget (snd (snd b0))\<rparr>" "snd (snd b0)" h w1_src delta]
    by (simp add: b1_def prod_eq_iff)
  show ?thesis
    using c0 c1
    by (simp add: insert_stores_def build_edge_def Let_def case_prod_unfold b0_def [symmetric]
        b1_def [symmetric] e1_def [symmetric])
qed

text \<open>
  The writer undoes an insertion that the sidecar cannot track: the weight is not published and
  the slot is buried.
\<close>

definition undo_insert_stores ::
  "(wake_tac_entry_t \<Rightarrow> wake_tac_entry_t) list \<Rightarrow> (wake_tac_entry_t \<Rightarrow> wake_tac_entry_t) list" where
  "undo_insert_stores ins = butlast ins @ [\<lambda>e. e\<lparr>te_key_hash := SLOT_TOMBSTONE\<rparr>]"

text \<open>
  Reinforcement of the edge in a slot: the charges to the budgets, then the fields that
  \<open>strengthen\<close> computes.
\<close>

definition strengthen_stores ::
  "wake_tac_header_t \<Rightarrow> u32 \<Rightarrow> u16 \<Rightarrow> u32 \<Rightarrow> bool \<Rightarrow> bool \<Rightarrow> (wake_tac_entry_t \<Rightarrow> wake_tac_entry_t) list" where
  "strengthen_stores h delta eta_hi now_rel ns0 ns1 =
     (let bump = (if ns0 then 1 else 0) + (if ns1 then 1 else 0) :: u8
      in [\<lambda>e. e\<lparr>te_weight := te_weight e + delta\<rparr>,
          \<lambda>e. e\<lparr>te_reinf_count := te_reinf_count e + 1\<rparr>,
          \<lambda>e. e\<lparr>te_last_reinf := now_rel\<rparr>,
          \<lambda>e. e\<lparr>te_eta_max_fp16 := atomic_max_u16 (te_eta_max_fp16 e) eta_hi\<rparr>,
          \<lambda>e. if bump \<noteq> 0
              then let nsc = (ucast (te_src_count e) :: u32) + ucast bump
                   in e\<lparr>te_src_count := ucast (if nsc > of_nat WAKE_TAC_BUDGET_SLOTS
                                              then of_nat WAKE_TAC_BUDGET_SLOTS else nsc)\<rparr>
              else e,
          \<lambda>e. quarantine_reassess e h])"

definition reinforce_stores ::
  "wake_tac_header_t \<Rightarrow> u32 \<Rightarrow> u16 \<Rightarrow> u16 \<Rightarrow> u16 \<Rightarrow> u32 \<Rightarrow> wake_tac_entry_t
     \<Rightarrow> (wake_tac_entry_t \<Rightarrow> wake_tac_entry_t) list" where
  "reinforce_stores h delta eta_hi w0_src w1_src now_rel e0 =
     (let have2 = (w1_src \<noteq> WAKE_TAC_SRC_NONE \<and> w1_src \<noteq> w0_src);
          (_, ns0, b0) = budget_charge e0 h w0_src delta;
          (ns1, b1) = (if have2 then snd (budget_charge b0 h w1_src delta) else (False, b0))
      in [\<lambda>e. e\<lparr>te_budget := te_budget b0\<rparr>, \<lambda>e. e\<lparr>te_budget := te_budget b1\<rparr>]
           @ strengthen_stores h delta eta_hi now_rel ns0 ns1)"

lemma run_strengthen_stores:
  "run_stores (strengthen_stores h delta eta_hi now_rel ns0 ns1) e = strengthen h delta eta_hi now_rel ns0 ns1 e"
  by (simp add: strengthen_stores_def strengthen_def Let_def)

lemma charge_shape:
  obtains ok ns B where "budget_charge e h s d = (ok, ns, e\<lparr>te_budget := B\<rparr>)"
proof -
  obtain ok ns e' where c: "budget_charge e h s d = (ok, ns, e')" by (cases "budget_charge e h s d")
  with budget_charge_budget(4) [of e e h s d] have "e' = e\<lparr>te_budget := te_budget e'\<rparr>" by simp
  with c that [of ok ns "te_budget e'"] show thesis by simp
qed

lemma charge_refused: "\<not> fst (budget_charge e h s d) \<Longrightarrow> \<not> fst (snd (budget_charge e h s d))"
proof -
  have "fst (budget_charge e h s d) \<or> \<not> fst (snd (budget_charge e h s d))"
    by (simp add: budget_charge_def Let_def split: option.split)
  then show "\<not> fst (budget_charge e h s d) \<Longrightarrow> \<not> fst (snd (budget_charge e h s d))" by blast
qed

lemma run_reinforce_stores:
  assumes "fst (reinforce_existing h delta eta_hi w0_src w1_src now_rel e) = WAKE_TAC_APPLIED"
  shows "run_stores (reinforce_stores h delta eta_hi w0_src w1_src now_rel e) e
     = snd (reinforce_existing h delta eta_hi w0_src w1_src now_rel e)"
proof -
  obtain ok0 ns0 B0 where c0: "budget_charge e h w0_src delta = (ok0, ns0, e\<lparr>te_budget := B0\<rparr>)"
    by (rule charge_shape)
  obtain ok1 ns1 B1 where c1:
    "budget_charge (e\<lparr>te_budget := B0\<rparr>) h w1_src delta = (ok1, ns1, e\<lparr>te_budget := B0, te_budget := B1\<rparr>)"
    by (rule charge_shape)
  have r0: "\<not> ok0 \<Longrightarrow> \<not> ns0" using charge_refused [of e h w0_src delta] by (simp add: c0)
  define two where "two \<longleftrightarrow> w1_src \<noteq> WAKE_TAC_SRC_NONE \<and> w1_src \<noteq> w0_src"
  define known where "known \<longleftrightarrow> te_quarantine e \<noteq> 0 \<and> budget_knows_source e w0_src
    \<and> (w1_src = WAKE_TAC_SRC_NONE \<or> budget_knows_source e w1_src)"
  note eq = reinforce_existing_def [of h delta eta_hi w0_src w1_src now_rel e, folded known_def two_def,
    unfolded Let_def c0 prod.case c1]
  have "\<not> known" using assms by (auto simp only: eq if_True fst_conv wake_tac_result_t.simps)
  moreover have "ok0 \<or> two \<and> ok1" using assms \<open>\<not> known\<close> by (auto simp: eq split: if_splits)
  ultimately show ?thesis
    using r0
    by (cases two; cases ok0)
      (simp_all add: eq reinforce_stores_def run_strengthen_stores Let_def c0 c1 two_def [symmetric])
qed

text \<open>
  The retirement of an edge for a stronger one, and what decay stores: the tombstone of an edge
  below the noise floor, or the scaled weight \<open>w\<close>.
\<close>

definition retire_stores :: "(wake_tac_entry_t \<Rightarrow> wake_tac_entry_t) list" where
  "retire_stores = [\<lambda>e. e\<lparr>te_weight := 0\<rparr>, \<lambda>e. e\<lparr>te_key_hash := SLOT_TOMBSTONE\<rparr>]"

definition bury_stores :: "(wake_tac_entry_t \<Rightarrow> wake_tac_entry_t) list" where
  "bury_stores = [\<lambda>e. e\<lparr>te_key_hash := SLOT_TOMBSTONE\<rparr>]"

definition scale_stores :: "u32 \<Rightarrow> (wake_tac_entry_t \<Rightarrow> wake_tac_entry_t) list" where
  "scale_stores w = [\<lambda>e. e\<lparr>te_weight := w\<rparr>]"

lemmas short_stores_defs = retire_stores_def bury_stores_def scale_stores_def

text \<open>
  The writes of the single writer to one slot with contents \<open>e\<close>.  Only a vacant slot is claimed;
  edges are reinforced, scaled, evicted by decay and retired for a stronger edge while live.
\<close>

inductive slot_write ::
  "wake_tac_header_t \<Rightarrow> wake_tac_entry_t \<Rightarrow> bool \<Rightarrow> (wake_tac_entry_t \<Rightarrow> wake_tac_entry_t) list \<Rightarrow> bool"
  for h e where
  sw_insert:
    "vacant (te_key_hash e) \<Longrightarrow> \<not> vacant slot_key \<Longrightarrow>
       slot_write h e False
         (insert_stores h ehash key t_lo t_hi eta_hi delta w0_src w1_src now_rel slot_key)"
| sw_undo:
    "vacant (te_key_hash e) \<Longrightarrow> \<not> vacant slot_key \<Longrightarrow>
       slot_write h e False
         (undo_insert_stores
            (insert_stores h ehash key t_lo t_hi eta_hi delta w0_src w1_src now_rel slot_key))"
| sw_reinforce:
    "\<not> vacant (te_key_hash e) \<Longrightarrow>
       fst (reinforce_existing h delta eta_hi w0_src w1_src now_rel e) = WAKE_TAC_APPLIED \<Longrightarrow>
       slot_write h e True (reinforce_stores h delta eta_hi w0_src w1_src now_rel e)"
| sw_retire:
    "\<not> vacant (te_key_hash e) \<Longrightarrow>
       slot_write h e False retire_stores"
| sw_decay_evict:
    "\<not> vacant (te_key_hash e) \<Longrightarrow> slot_write h e False bury_stores"
| sw_decay_keep:
    "\<not> vacant (te_key_hash e) \<Longrightarrow> slot_write h e False (scale_stores (decayed_weight h e))"

section \<open>Loads against a history\<close>

lemma load_pointsD:
  assumes "acquire_points hist n ps" "i < n"
  shows "loads hist ps ! i = hist ! (ps ! i)" "ps ! i < length hist" "loads hist ps ! i \<in> set hist"
  using assms by (auto simp: acquire_points_def loads_def list_all_length)

lemma load_points_mono:
  assumes "acquire_points hist n ps" "i \<le> 1" "i \<le> j" "j < n"
  shows "ps ! i \<le> ps ! j"
proof -
  have "ps ! 0 \<le> ps ! j" using assms(1,4) by (simp add: acquire_points_def list_all_length)
  moreover have "ps ! 1 \<le> ps ! j" if "1 \<le> j"
  proof -
    have "j - 1 < length (drop 1 ps)" using that assms(1,4) by (simp add: acquire_points_def)
    then have "ps ! 1 \<le> drop 1 ps ! (j - 1)" using assms(1) by (simp add: acquire_points_def list_all_length)
    with that assms(1) show ?thesis by (simp add: acquire_points_def)
  qed
  moreover have "i = 0 \<or> i = 1" using assms(2) by auto
  ultimately show ?thesis using assms(3) by auto
qed

text \<open>
  A load that sees what only the last point of the history has puts all later loads there too.
\<close>

lemma loads_after_publication:
  assumes "acquire_points hist n ps" "hist \<noteq> []" "\<And>x. x \<in> set (butlast hist) \<Longrightarrow> \<not> P x"
    and "P (loads hist ps ! i)" "i \<le> 1" "i \<le> j" "j < n"
  shows "loads hist ps ! j = last hist"
proof -
  have i: "i < n" using assms(6,7) by simp
  have "ps ! i = length hist - 1"
  proof (rule ccontr)
    assume "ps ! i \<noteq> length hist - 1"
    with load_pointsD(2) [OF assms(1) i] have "ps ! i < length (butlast hist)" by simp
    with assms(3,4) load_pointsD(1) [OF assms(1) i] show False
      by (metis nth_butlast nth_mem)
  qed
  with load_points_mono [OF assms(1,5,6,7)] load_pointsD(2) [OF assms(1,7)] have "ps ! j = length hist - 1"
    by simp
  with assms(2) load_pointsD(1) [OF assms(1,7)] show ?thesis by (simp add: last_conv_nth)
qed


lemma read_entry_SomeD:
  assumes "read_entry_at cs = Some s"
  shows "\<not> vacant (te_key_hash (cs ! 0))" "te_weight (cs ! 1) \<noteq> 0" "te_key_hash (cs ! 11) = te_key_hash (cs ! 0)"
  using assms by (auto simp: read_entry_at_def Let_def split: if_splits)

text \<open>While nothing but the last store makes the weight non-zero, a reader sees the final edge.\<close>

lemma read_after_publication:
  assumes "acquire_points hist 12 ps" "hist \<noteq> []" "\<And>x. x \<in> set (butlast hist) \<Longrightarrow> te_weight x = 0"
    and "read_entry_at (loads hist ps) = Some s"
  shows "snapshot (last hist) = Some s"
proof -
  define cs where "cs = loads hist ps"
  note D = read_entry_SomeD [OF assms(4), folded cs_def]
  have l: "cs ! j = last hist" if "0 < j" "j < 12" for j
    unfolding cs_def
    by (rule loads_after_publication [where P = "\<lambda>x. te_weight x \<noteq> 0" and i = 1, OF assms(1,2)])
      (use assms(3) D(2) that in \<open>auto simp: cs_def\<close>)
  have "te_key_hash (cs ! 0) = te_key_hash (last hist)" using D(3) l [of 11] by simp
  with assms(4) show ?thesis
    by (simp add: cs_def [symmetric] read_entry_at_def snapshot_def Let_def l split: if_splits)
qed

text \<open>While only key and weight change, a reader sees the other fields as they are.\<close>

lemma same_but_key_weight:
  assumes "x\<lparr>te_key_hash := 0, te_weight := 0\<rparr> = y\<lparr>te_key_hash := 0, te_weight := 0\<rparr>"
  shows "te_reinf_count x = te_reinf_count y" "te_last_reinf x = te_last_reinf y" "te_t_lo x = te_t_lo y"
    "te_t_hi x = te_t_hi y" "te_eta_max_fp16 x = te_eta_max_fp16 y" "te_src_count x = te_src_count y"
    "te_quarantine x = te_quarantine y" "te_first_seen x = te_first_seen y"
    "te_entity_hash x = te_entity_hash y"
  using assms by (cases x; cases y; simp)+

lemma read_key_weight:
  assumes "acquire_points hist 12 ps"
    and "\<And>x. x \<in> set hist \<Longrightarrow> x\<lparr>te_key_hash := 0, te_weight := 0\<rparr> = e\<lparr>te_key_hash := 0, te_weight := 0\<rparr>"
    and "read_entry_at (loads hist ps) = Some s"
  shows "snapshot (e\<lparr>te_key_hash := te_key_hash (loads hist ps ! 0), te_weight := te_weight (loads hist ps ! 1)\<rparr>)
      = Some s"
proof -
  define cs where "cs = loads hist ps"
  note D = read_entry_SomeD [OF assms(3), folded cs_def]
  have same: "(cs ! i)\<lparr>te_key_hash := 0, te_weight := 0\<rparr> = e\<lparr>te_key_hash := 0, te_weight := 0\<rparr>" if "i < 12" for i
    unfolding cs_def using assms(1) that by (intro assms(2)) (rule load_pointsD)
  note f = same_but_key_weight [OF same]
  show ?thesis
    using assms(3) D
    by (simp add: cs_def [symmetric] read_entry_at_def snapshot_def Let_def f split: if_splits)
qed

lemma insert_history_weight:
  assumes "te_weight e = 0"
    "x \<in> set (butlast (history (insert_stores h ehash key t_lo t_hi eta_hi delta w0_src w1_src now_rel slot_key) e))"
  shows "te_weight x = 0"
  using assms by (auto simp: insert_stores_def Let_def case_prod_unfold)


section \<open>What a concurrent reader sees\<close>

text \<open>The edge a reader reports is identified by its key, its techniques and its entity.\<close>

definition same_edge :: "wake_tac_entry_t \<Rightarrow> wake_tac_entry_t \<Rightarrow> bool" where
  "same_edge s e \<longleftrightarrow> te_key_hash s = te_key_hash e \<and> te_t_lo s = te_t_lo e \<and> te_t_hi s = te_t_hi e
     \<and> te_entity_hash s = te_entity_hash e"

lemma snapshot_same_edge: "snapshot e = Some s \<Longrightarrow> same_edge s e"
  by (auto simp: snapshot_def read_entry_at_def same_edge_def Let_def split: if_splits)

lemma snapshot_frame_weight:
  assumes "x = e\<lparr>te_weight := w\<rparr>"
  shows "te_key_hash x = te_key_hash e" "te_t_lo x = te_t_lo e" "te_t_hi x = te_t_hi e"
    "te_entity_hash x = te_entity_hash e"
  using assms by simp_all

lemma read_none_of_zero:
  assumes "acquire_points hist 12 ps" "\<And>x. x \<in> set hist \<Longrightarrow> te_weight x = 0"
  shows "read_entry_at (loads hist ps) = None"
  using load_pointsD(3) [OF assms(1), of 1] assms(2) by (simp add: read_entry_at_def Let_def)

lemma undo_history_weight:
  assumes "te_weight e = 0"
    "x \<in> set (history (undo_insert_stores
        (insert_stores h ehash key t_lo t_hi eta_hi delta w0_src w1_src now_rel slot_key)) e)"
  shows "te_weight x = 0"
  using assms by (auto simp: insert_stores_def undo_insert_stores_def Let_def case_prod_unfold)

lemma strengthen_store_frame:
  assumes "f \<in> set (strengthen_stores h delta eta_hi now_rel ns0 ns1)"
  shows "te_key_hash (f x) = te_key_hash x \<and> te_t_lo (f x) = te_t_lo x \<and> te_t_hi (f x) = te_t_hi x
    \<and> te_entity_hash (f x) = te_entity_hash x"
proof -
  have "te_t_lo (quarantine_reassess x h) = te_t_lo x" "te_t_hi (quarantine_reassess x h) = te_t_hi x"
    by (simp_all add: quarantine_reassess_def)
  with assms show ?thesis by (auto simp: strengthen_stores_def Let_def)
qed

lemma reinforce_store_frame:
  assumes "f \<in> set (reinforce_stores h delta eta_hi w0_src w1_src now_rel e)"
  shows "te_key_hash (f x) = te_key_hash x" "te_t_lo (f x) = te_t_lo x" "te_t_hi (f x) = te_t_hi x"
    "te_entity_hash (f x) = te_entity_hash x"
proof -
  obtain B0 B1 ns0 ns1 where "f = (\<lambda>e. e\<lparr>te_budget := B0\<rparr>) \<or> f = (\<lambda>e. e\<lparr>te_budget := B1\<rparr>)
      \<or> f \<in> set (strengthen_stores h delta eta_hi now_rel ns0 ns1)"
    using assms by (simp add: reinforce_stores_def Let_def case_prod_unfold)
  then show "te_key_hash (f x) = te_key_hash x" "te_t_lo (f x) = te_t_lo x" "te_t_hi (f x) = te_t_hi x"
    "te_entity_hash (f x) = te_entity_hash x"
    using strengthen_store_frame by auto
qed

lemma reinforce_history_frame:
  assumes "x \<in> set (history (reinforce_stores h delta eta_hi w0_src w1_src now_rel e) e)"
  shows "te_key_hash x = te_key_hash e" "te_t_lo x = te_t_lo e" "te_t_hi x = te_t_hi e"
    "te_entity_hash x = te_entity_hash e"
  by (rule history_frame [OF _ assms], erule reinforce_store_frame)+

lemma reinforce_read_same:
  assumes "acquire_points (history (reinforce_stores h delta eta_hi w0_src w1_src now_rel e) e) 12 ps"
    "read_entry_at (loads (history (reinforce_stores h delta eta_hi w0_src w1_src now_rel e) e) ps) = Some s"
  shows "same_edge s e"
proof -
  define cs where "cs = loads (history (reinforce_stores h delta eta_hi w0_src w1_src now_rel e) e) ps"
  have "te_key_hash (cs ! i) = te_key_hash e" "te_t_lo (cs ! i) = te_t_lo e" "te_t_hi (cs ! i) = te_t_hi e"
    "te_entity_hash (cs ! i) = te_entity_hash e" if "i < 12" for i
    using reinforce_history_frame [OF load_pointsD(3) [OF assms(1) that]] by (simp_all add: cs_def)
  with assms(2) show ?thesis
    by (auto simp: cs_def [symmetric] read_entry_at_def same_edge_def Let_def split: if_splits)
qed


lemma live_write_read:
  assumes live: "\<not> vacant (te_key_hash e)" and lp: "acquire_points hist 12 ps"
    and hist: "\<And>x. x \<in> set hist \<Longrightarrow> x\<lparr>te_key_hash := 0, te_weight := 0\<rparr> = e\<lparr>te_key_hash := 0, te_weight := 0\<rparr>
      \<and> (te_key_hash x = te_key_hash e \<or> te_key_hash x = SLOT_TOMBSTONE)"
    and rd: "read_entry_at (loads hist ps) = Some s"
  shows "snapshot (e\<lparr>te_weight := te_weight (loads hist ps ! 1)\<rparr>) = Some s"
proof -
  have "te_key_hash (loads hist ps ! 0) = te_key_hash e"
    using hist [OF load_pointsD(3) [OF lp, of 0]] read_entry_SomeD(1) [OF rd] by (auto simp: vacant_def)
  moreover have "snapshot (e\<lparr>te_key_hash := te_key_hash (loads hist ps ! 0),
      te_weight := te_weight (loads hist ps ! 1)\<rparr>) = Some s"
    using lp _ rd by (rule read_key_weight) (use hist in blast)
  ultimately show ?thesis by (cases e) simp
qed

lemma read_atomic:
  assumes "slot_write h e False fs" and zero: "vacant (te_key_hash e) \<Longrightarrow> te_weight e = 0"
    and lp: "acquire_points (history fs e) 12 ps" and rd: "read_entry_at (loads (history fs e) ps) = Some s"
  shows "\<exists>x. x \<in> set (history fs e) \<and> snapshot x = Some s
    \<and> x = (if vacant (te_key_hash e) then run_stores fs e else e\<lparr>te_weight := te_weight x\<rparr>)"
  using assms(1)
proof cases
  case (sw_insert slot_key ehash key t_lo t_hi eta_hi delta w0_src w1_src now_rel)
  have "snapshot (last (history fs e)) = Some s"
    using lp _ _ rd
    by (rule read_after_publication)
      (use insert_history_weight zero sw_insert in auto)
  with sw_insert(2) show ?thesis
    by (intro exI [of _ "run_stores fs e"]) (simp add: last_history [symmetric])
next
  case (sw_undo slot_key ehash key t_lo t_hi eta_hi delta w0_src w1_src now_rel)
  have "read_entry_at (loads (history fs e) ps) = None"
    using lp by (rule read_none_of_zero) (use undo_history_weight zero sw_undo in blast)
  with rd show ?thesis by simp
next
  case sw_retire
  define x where "x = e\<lparr>te_weight := te_weight (loads (history fs e) ps ! 1)\<rparr>"
  have "snapshot x = Some s"
    unfolding x_def using sw_retire(2) lp _ rd by (rule live_write_read) (use sw_retire in \<open>auto simp: short_stores_defs\<close>)
  moreover have "te_weight (loads (history fs e) ps ! 1) = te_weight e"
    using load_pointsD(3) [OF lp, of 1] read_entry_SomeD(2) [OF rd] sw_retire(1) by (auto simp: short_stores_defs)
  then have "x = e" by (simp add: x_def)
  ultimately show ?thesis using sw_retire by (intro exI [of _ e]) (simp add: short_stores_defs)
next
  case sw_decay_evict
  define x where "x = e\<lparr>te_weight := te_weight (loads (history fs e) ps ! 1)\<rparr>"
  have "snapshot x = Some s"
    unfolding x_def using sw_decay_evict(2) lp _ rd by (rule live_write_read) (use sw_decay_evict in \<open>auto simp: short_stores_defs\<close>)
  moreover have "te_weight (loads (history fs e) ps ! 1) = te_weight e"
    using load_pointsD(3) [OF lp, of 1] sw_decay_evict(1) by (auto simp: short_stores_defs)
  then have "x = e" by (simp add: x_def)
  ultimately show ?thesis using sw_decay_evict by (intro exI [of _ e]) (simp add: short_stores_defs)
next
  case sw_decay_keep
  define x where "x = e\<lparr>te_weight := te_weight (loads (history fs e) ps ! 1)\<rparr>"
  have "snapshot x = Some s"
    unfolding x_def using sw_decay_keep(2) lp _ rd by (rule live_write_read) (use sw_decay_keep in \<open>auto simp: short_stores_defs\<close>)
  moreover have "x \<in> set (history fs e)"
    using load_pointsD(3) [OF lp, of 1] sw_decay_keep(1) by (auto simp: x_def short_stores_defs)
  ultimately show ?thesis using sw_decay_keep(2) by (intro exI [of _ x]) (simp add: x_def)
qed simp

text \<open>
  C15. A reader that runs concurrently with one write to a slot which holds an
  edge, or is vacant with weight 0, never splices two edges: wherever its loads fall, as long as
  none falls before the two acquire loads in front of it, the snapshot has key, techniques and entity of the one edge involved (for an insertion, the new one).
  Except for a reinforcement, whose fields change one at a time, the whole snapshot is that of the
  slot at a single moment.
\<close>

theorem concurrent_reader_consistent:
  assumes "slot_write h e reinf fs" and "vacant (te_key_hash e) \<longrightarrow> te_weight e = 0"
    and "acquire_points (history fs e) 12 ps"
    and "read_entry_at (loads (history fs e) ps) = Some s"
  shows "same_edge s (if vacant (te_key_hash e) then run_stores fs e else e)
    \<and> (reinf \<or> Some s \<in> snapshot ` set (history fs e))"
proof (cases reinf)
  case True
  with assms(1) obtain delta eta_hi w0_src w1_src now_rel where
    fs: "fs = reinforce_stores h delta eta_hi w0_src w1_src now_rel e" and live: "\<not> vacant (te_key_hash e)"
    by (auto elim: slot_write.cases)
  from live True reinforce_read_same [OF assms(3,4) [unfolded fs]] show ?thesis by simp
next
  case False
  with read_atomic [of h e fs ps s] assms obtain x where
    x: "x \<in> set (history fs e)" "snapshot x = Some s"
      "x = (if vacant (te_key_hash e) then run_stores fs e else e\<lparr>te_weight := te_weight x\<rparr>)"
    by auto
  have "same_edge s (if vacant (te_key_hash e) then run_stores fs e else e)"
  proof (cases "vacant (te_key_hash e)")
    case False
    with x(3) have "same_edge x e" by (metis (full_types) same_edge_def snapshot_frame_weight)
    with snapshot_same_edge [OF x(2)] False show ?thesis by (simp add: same_edge_def)
  qed (use x snapshot_same_edge in auto)
  with x(1,2) show ?thesis by (metis image_eqI)
qed


text \<open>A header, and an insertion into a fresh slot read from the claim on.\<close>

definition conc_header :: wake_tac_header_t where
  "conc_header = \<lparr>th_magic = WAKE_TAC_MAGIC, th_format_version = 1, th_capacity = 64, th_mask = 63,
     th_hash_key = replicate 16 0, th_epoch = 0, th_decay_novel_fp16 = 62576, th_decay_corr_fp16 = 65504,
     th_noise_floor = 1000, th_occ_slots = 64, th_budget_per_source = 20000, th_per_entity_cap = 8,
     th_corroboration_src_min = 2, th_tick_seconds = 60, th_quarantine_min_w = 4000\<rparr>"

definition conc_stores :: "(wake_tac_entry_t \<Rightarrow> wake_tac_entry_t) list" where
  "conc_stores = insert_stores conc_header 9 [1] 3 4 40000 2500 7 0 11 5"

definition conc_points :: "nat list" where
  "conc_points = 1 # replicate 11 20"

definition conc_snapshot :: wake_tac_entry_t where
  "conc_snapshot = zero_tac_entry\<lparr>te_key_hash := 5, te_weight := 2500, te_reinf_count := 1,
     te_last_reinf := 11, te_t_lo := 3, te_t_hi := 4, te_eta_max_fp16 := 40000, te_src_count := 1,
     te_quarantine := 0, te_first_seen := 11, te_entity_hash := 9\<rparr>"

lemma conc_charge:
  "budget_charge zero_tac_entry conc_header 7 2500 = (True, True,
     zero_tac_entry\<lparr>te_budget := (replicate 5 zero_budget)[0 := \<lparr>tb_source_id = 7, tb_spent = 2500\<rparr>]\<rparr>)"
  by code_simp

lemma conc_read:
  "acquire_points (history conc_stores zero_tac_entry) 12 conc_points"
  "read_entry_at (loads (history conc_stores zero_tac_entry) conc_points) = Some conc_snapshot"
  by code_simp+

theorem concurrent_reader_consistent_witness:
  "same_edge conc_snapshot (run_stores conc_stores zero_tac_entry)
    \<and> snapshot (run_stores conc_stores zero_tac_entry) = Some conc_snapshot"
proof -
  have z: "vacant (te_key_hash zero_tac_entry)" "te_weight zero_tac_entry = 0"
    by (simp_all add: zero_tac_entry_def vacant_def)
  have w: "slot_write conc_header zero_tac_entry False conc_stores"
    unfolding conc_stores_def by (rule sw_insert) (simp_all add: zero_tac_entry_def vacant_def)
  from concurrent_reader_consistent [OF w _ conc_read] z
  have "same_edge conc_snapshot (run_stores conc_stores zero_tac_entry)" by simp
  moreover have "snapshot (run_stores conc_stores zero_tac_entry) = Some conc_snapshot" by code_simp
  ultimately show ?thesis by simp
qed

text \<open>
  C38. The condition on the weight is needed.  Decay buries an edge without
  clearing its weight, and an insertion publishes its key before it hides that weight: after the
  compare-and-swap \<open>wake_tac_read_entry\<close> can return the evicted edge under the key of the new one,
  and \<open>wake_tac_query\<close> for the new entity can report the new edge with the weight of the evicted one.
\<close>

theorem reader_sees_evicted_edge:
  fixes e h ehash key t_lo t_hi eta_hi delta w0_src w1_src now_rel slot_key
  defines "ins \<equiv> insert_stores h ehash key t_lo t_hi eta_hi delta w0_src w1_src now_rel slot_key"
  defines "hist \<equiv> history ((\<lambda>x. x\<lparr>te_key_hash := SLOT_TOMBSTONE\<rparr>) # ins) e"
  assumes "\<not> vacant (te_key_hash e)" and "te_weight e \<noteq> 0" and "\<not> vacant slot_key"
  shows "load_points hist 12 (replicate 12 2)
    \<and> read_entry_at (loads hist (replicate 12 2)) = snapshot (e\<lparr>te_key_hash := slot_key\<rparr>)
    \<and> snapshot (e\<lparr>te_key_hash := slot_key\<rparr>) \<noteq> None
    \<and> load_points hist 8 ([2, 2] @ replicate 6 20)
    \<and> query_visit_at ehash (loads hist ([2, 2] @ replicate 6 20))
        = Some \<lparr>ed_t_lo = t_lo, ed_t_hi = t_hi, ed_weight = te_weight e, ed_eta_max_fp16 = eta_hi,
                ed_src_count = te_src_count (run_stores ins e), ed_quarantine = 0\<rparr>"
proof -
  have len: "length hist = 22"
    by (simp add: hist_def ins_def insert_stores_def Let_def case_prod_unfold)
  have h2: "hist ! 2 = e\<lparr>te_key_hash := slot_key\<rparr>"
    by (simp add: hist_def ins_def insert_stores_def Let_def case_prod_unfold numeral_2_eq_2)
  have h20: "te_entity_hash (hist ! 20) = ehash" "te_quarantine (hist ! 20) = 0" "te_t_lo (hist ! 20) = t_lo"
    "te_t_hi (hist ! 20) = t_hi" "te_eta_max_fp16 (hist ! 20) = eta_hi"
    "te_src_count (hist ! 20) = te_src_count (run_stores ins e)"
    by (simp_all add: hist_def ins_def insert_stores_def Let_def case_prod_unfold)
  show ?thesis
    using assms(3-)
    by (simp add: load_points_def loads_def len h2 h20 snapshot_def read_entry_at_def query_visit_at_def
        nth_Cons' Let_def)
qed

theorem reader_sees_evicted_edge_witness:
  "read_entry_at (loads (history ((\<lambda>x. x\<lparr>te_key_hash := SLOT_TOMBSTONE\<rparr>)
        # insert_stores conc_header 9 [1] 3 4 40000 2500 7 0 11 77) conc_snapshot) (replicate 12 2))
     = snapshot (conc_snapshot\<lparr>te_key_hash := 77\<rparr>)
   \<and> snapshot (conc_snapshot\<lparr>te_key_hash := 77\<rparr>) \<noteq> None"
  using reader_sees_evicted_edge [of conc_snapshot 77 conc_header 9 "[1]" 3 4 40000 2500 7 0 11]
  by (simp add: conc_snapshot_def vacant_def)

end
