(* ===== verification/Wake_Tac_Runs.thy ===== *)
theory Wake_Tac_Runs
  imports Wake_Tac_Conc
begin

text \<open>
  Readers of the coupling table during any number of writes to the slot they read.  As long as the slot is
  not given to another edge in the meantime, a reader reports that edge, in whatever order its
  relaxed loads are performed.  When the slot is reused, the reader relies on its second load of the
  key.  That protects it if all loads happen in program order and no key comes back to the slot; it does
  not if the key comes back, and it does not if a relaxed load is performed behind the second
  load of the key, which the memory orders of the source allow.
\<close>

inductive slot_run :: "wake_tac_header_t \<Rightarrow> wake_tac_entry_t \<Rightarrow> (wake_tac_entry_t \<Rightarrow> wake_tac_entry_t) list \<Rightarrow> bool"
  for h where
  run_none: "slot_run h e []"
| run_write: "slot_write h e reinf fs \<Longrightarrow> slot_run h (run_stores fs e) gs \<Longrightarrow> slot_run h e (fs @ gs)"

text \<open>Once an edge has left the slot, no edge takes its place.\<close>

definition unreplaced :: "wake_tac_entry_t list \<Rightarrow> bool" where
  "unreplaced hist \<longleftrightarrow> (\<forall>i j k. i \<le> j \<and> j \<le> k \<and> k < length hist \<and> \<not> vacant (te_key_hash (hist ! i))
     \<and> vacant (te_key_hash (hist ! j)) \<longrightarrow> vacant (te_key_hash (hist ! k)))"

text \<open>No key returns: between two moments with the same live key the slot has that key.\<close>

definition no_return :: "wake_tac_entry_t list \<Rightarrow> bool" where
  "no_return hist \<longleftrightarrow> (\<forall>i j k. i \<le> j \<and> j \<le> k \<and> k < length hist \<and> te_key_hash (hist ! i) = te_key_hash (hist ! k)
     \<and> \<not> vacant (te_key_hash (hist ! i)) \<longrightarrow> te_key_hash (hist ! j) = te_key_hash (hist ! i))"

lemma no_returnD:
  assumes "no_return hist" "i \<le> j" "j \<le> k" "k < length hist" "te_key_hash (hist ! i) = te_key_hash (hist ! k)"
    "\<not> vacant (te_key_hash (hist ! i))"
  shows "te_key_hash (hist ! j) = te_key_hash (hist ! i)"
  using assms unfolding no_return_def by blast

text \<open>A slot that holds no edge has weight 0.\<close>

definition hidden :: "wake_tac_entry_t list \<Rightarrow> bool" where
  "hidden hist \<longleftrightarrow> list_all (\<lambda>x. vacant (te_key_hash x) \<longrightarrow> te_weight x = 0) hist"

section \<open>Histories of several writes\<close>

lemma nth_history_append:
  "j \<le> length fs \<Longrightarrow> history (fs @ gs) e ! j = history fs e ! j"
  "length fs \<le> j \<Longrightarrow> history (fs @ gs) e ! j = history gs (run_stores fs e) ! (j - length fs)"
proof -
  show "j \<le> length fs \<Longrightarrow> history (fs @ gs) e ! j = history fs e ! j"
  proof (induction fs arbitrary: e j)
    case Nil
    then show ?case by (cases gs) simp_all
  qed (auto simp: nth_Cons split: nat.split)
  show "length fs \<le> j \<Longrightarrow> history (fs @ gs) e ! j = history gs (run_stores fs e) ! (j - length fs)"
    by (induction fs arbitrary: e j) (auto simp: nth_Cons split: nat.split)
qed

lemma history_0 [simp]: "history fs e ! 0 = e"
  by (cases fs) simp_all

lemma hidden_append: "hidden (history (fs @ gs) e) \<Longrightarrow> hidden (history gs (run_stores fs e))"
  by (simp add: history_append hidden_def)

section \<open>A published edge keeps its identity\<close>

lemma live_write_identity:
  assumes "slot_write h e reinf fs" "\<not> vacant (te_key_hash e)" "x \<in> set (history fs e)"
  shows "te_t_lo x = te_t_lo e \<and> te_t_hi x = te_t_hi e \<and> te_entity_hash x = te_entity_hash e"
  using assms(1)
proof cases
  case (sw_reinforce delta eta_hi w0_src w1_src now_rel)
  with assms(3) reinforce_history_frame [of x h delta eta_hi w0_src w1_src now_rel e] show ?thesis by simp
qed (use assms(2,3) in \<open>auto simp: short_stores_defs\<close>)

lemma vacant_write_hides:
  assumes "slot_write h e reinf fs" "vacant (te_key_hash e)" "te_weight e = 0" "p < length fs"
  shows "te_weight (history fs e ! p) = 0"
proof -
  have "history fs e ! p \<in> set (butlast (history fs e))"
    using assms(4) by (metis length_butlast length_history diff_Suc_1 nth_butlast nth_mem)
  note p = this
  from assms(1) show ?thesis
  proof cases
    case (sw_insert slot_key ehash key t_lo t_hi eta_hi delta w0_src w1_src now_rel)
    show ?thesis by (rule insert_history_weight [OF assms(3) p [unfolded sw_insert(2)], folded sw_insert(2)])
  next
    case (sw_undo slot_key ehash key t_lo t_hi eta_hi delta w0_src w1_src now_rel)
    show ?thesis by (rule undo_history_weight [OF assms(3) in_set_butlastD [OF p [unfolded sw_undo(2)]], folded sw_undo(2)])
  qed (use assms(2) in simp_all)
qed

lemma run_identity:
  assumes "slot_run h e fs" "\<not> vacant (te_key_hash e)" "q \<le> length fs"
    and "\<And>j. j \<le> q \<Longrightarrow> te_key_hash (history fs e ! j) = te_key_hash e"
  shows "same_edge (history fs e ! q) e"
  using assms
proof (induction arbitrary: q)
  case (run_none e)
  then show ?case by (simp add: same_edge_def)
next
  case (run_write e reinf fs gs)
  have first: "same_edge (history fs e ! j) e" if "j \<le> length fs" "j \<le> q" for j
  proof -
    have "history fs e ! j \<in> set (history fs e)" using that(1) by simp
    with live_write_identity [OF run_write.hyps(1) run_write.prems(1)] run_write.prems(3) [OF that(2)] that(1)
    show ?thesis by (simp add: same_edge_def nth_history_append(1))
  qed
  show ?case
  proof (cases "q \<le> length fs")
    case True
    then show ?thesis using first [of q] by (simp add: nth_history_append(1))
  next
    case False
    define e1 where "e1 = run_stores fs e"
    have e1: "history fs e ! length fs = e1" by (simp add: e1_def last_history [symmetric] last_conv_nth)
    have s: "same_edge e1 e" using first [of "length fs"] False e1 by simp
    have keys: "te_key_hash (history gs e1 ! j) = te_key_hash e1" if "j \<le> q - length fs" for j
    proof -
      have "te_key_hash (history (fs @ gs) e ! (length fs + j)) = te_key_hash e"
        using that False by (intro run_write.prems(3)) simp
      with s show ?thesis by (simp add: nth_history_append(2) e1_def [symmetric] same_edge_def)
    qed
    have "same_edge (history gs e1 ! (q - length fs)) e1"
      using run_write.IH [of "q - length fs"] keys s run_write.prems(1,2) False
      by (simp add: e1_def [symmetric] same_edge_def)
    with s False show ?thesis by (simp add: nth_history_append(2) e1_def [symmetric] same_edge_def)
  qed
qed

text \<open>From a moment at which its weight is visible, as long as the key stays.\<close>

lemma published_identity:
  assumes "slot_run h e fs" "hidden (history fs e)" "p \<le> q" "q \<le> length fs"
    and "te_weight (history fs e ! p) \<noteq> 0" "\<not> vacant K"
    and "\<And>j. p \<le> j \<Longrightarrow> j \<le> q \<Longrightarrow> te_key_hash (history fs e ! j) = K"
  shows "same_edge (history fs e ! q) (history fs e ! p)"
  using assms
proof (induction arbitrary: p q)
  case (run_none e)
  then show ?case by (simp add: same_edge_def)
next
  case (run_write e reinf fs gs)
  define e1 where "e1 = run_stores fs e"
  have shift: "history (fs @ gs) e ! (length fs + j) = history gs e1 ! j" for j
    by (simp add: nth_history_append(2) e1_def)
  show ?case
  proof (cases "length fs \<le> p")
    case True
    have "same_edge (history gs e1 ! (q - length fs)) (history gs e1 ! (p - length fs))"
      unfolding e1_def
    proof (rule run_write.IH)
      fix j
      assume "p - length fs \<le> j" "j \<le> q - length fs"
      with True run_write.prems(6) [of "length fs + j"] run_write.prems(2)
      show "te_key_hash (history gs (run_stores fs e) ! j) = K" by (simp add: shift e1_def)
    next
      show "te_weight (history gs (run_stores fs e) ! (p - length fs)) \<noteq> 0"
        using run_write.prems(4) True by (simp add: nth_history_append(2))
    qed (use run_write.prems(1-3,5) True hidden_append in auto)
    with True run_write.prems(2) show ?thesis by (simp add: nth_history_append(2) e1_def)
  next
    case False
    have "e \<in> set (history (fs @ gs) e)" by (cases "fs @ gs") simp_all
    then have z: "vacant (te_key_hash e) \<Longrightarrow> te_weight e = 0"
      using run_write.prems(1) by (auto simp: hidden_def list_all_iff)
    have live: "\<not> vacant (te_key_hash e)"
      using vacant_write_hides [OF run_write.hyps(1) _ z, of p] run_write.prems(4) False
      by (auto simp: nth_history_append(1))
    have ident: "te_t_lo x = te_t_lo e \<and> te_t_hi x = te_t_hi e \<and> te_entity_hash x = te_entity_hash e"
      if "j \<le> length fs" "x = history (fs @ gs) e ! j" for x j
      using that by (intro live_write_identity [OF run_write.hyps(1) live]) (simp add: nth_history_append(1))
    have keys: "te_key_hash (history (fs @ gs) e ! q) = K" "te_key_hash (history (fs @ gs) e ! p) = K"
      using run_write.prems(2,6) by auto
    show ?thesis
    proof (cases "q \<le> length fs")
      case True
      with False ident [of q] ident [of p] keys show ?thesis by (simp add: same_edge_def)
    next
      case q: False
      have k1: "te_key_hash e1 = K" using run_write.prems(6) [of "length fs"] shift [of 0] False q by simp
      have "same_edge (history gs e1 ! (q - length fs)) e1"
      proof (rule run_identity [OF run_write.hyps(2) [folded e1_def]])
        fix j
        assume "j \<le> q - length fs"
        with q False run_write.prems(6) [of "length fs + j"] k1 show "te_key_hash (history gs e1 ! j) = te_key_hash e1"
          by (simp add: shift)
      qed (use k1 run_write.prems(3,5) in auto)
      then have "same_edge (history (fs @ gs) e ! q) e1" using q by (simp add: nth_history_append(2) e1_def)
      with ident [of "length fs" e1] ident [of p] shift [of 0] keys k1 False show ?thesis
        by (simp add: same_edge_def)
    qed
  qed
qed

section \<open>A slot that is not reused\<close>

lemma unreplacedD:
  assumes "unreplaced hist" "i \<le> j" "j \<le> k" "k < length hist" "\<not> vacant (te_key_hash (hist ! i))"
    "vacant (te_key_hash (hist ! j))"
  shows "vacant (te_key_hash (hist ! k))"
  using assms unfolding unreplaced_def by blast

lemma unreplaced_append:
  assumes "unreplaced (history (fs @ gs) e)"
  shows "unreplaced (history gs (run_stores fs e))"
  unfolding unreplaced_def
proof (intro allI impI, elim conjE)
  fix i j k
  assume *: "i \<le> j" "j \<le> k" "k < length (history gs (run_stores fs e))"
    "\<not> vacant (te_key_hash (history gs (run_stores fs e) ! i))" "vacant (te_key_hash (history gs (run_stores fs e) ! j))"
  have shift: "history (fs @ gs) e ! (length fs + m) = history gs (run_stores fs e) ! m" for m
    by (simp add: nth_history_append(2))
  have "vacant (te_key_hash (history (fs @ gs) e ! (length fs + k)))"
    by (rule unreplacedD [OF assms, of "length fs + i" "length fs + j"]) (use * in \<open>simp_all add: shift\<close>)
  then show "vacant (te_key_hash (history gs (run_stores fs e) ! k))" by (simp add: shift)
qed

lemma live_write_key:
  assumes "slot_write h e reinf fs" "\<not> vacant (te_key_hash e)" "x \<in> set (history fs e)"
  shows "te_key_hash x = te_key_hash e \<or> te_key_hash x = SLOT_TOMBSTONE"
  using assms(1)
proof cases
  case (sw_reinforce delta eta_hi w0_src w1_src now_rel)
  with assms(3) reinforce_history_frame [of x h delta eta_hi w0_src w1_src now_rel e] show ?thesis by simp
qed (use assms(2,3) in \<open>auto simp: short_stores_defs\<close>)

text \<open>The writes to a vacant slot install a key first.\<close>

lemma vacant_write_claims:
  assumes "slot_write h e reinf fs" "vacant (te_key_hash e)"
  shows "fs \<noteq> [] \<and> \<not> vacant (te_key_hash (history fs e ! 1))"
  using assms(1)
  by cases (use assms(2) in \<open>auto simp: insert_stores_def undo_insert_stores_def Let_def case_prod_unfold\<close>)

lemma history_end: "history fs e ! length fs = run_stores fs e"
  by (simp add: last_history [symmetric] last_conv_nth)

lemma run_after_vacant:
  assumes "slot_run h e1 gs" "e1 = run_stores fs e" "unreplaced (history (fs @ gs) e)" "vacant (te_key_hash e1)"
    and "p \<le> length fs" "\<not> vacant (te_key_hash (history fs e ! p))"
  shows "gs = []"
  using assms(1)
proof cases
  case (run_write reinf fs' gs')
  note c = vacant_write_claims [OF run_write(2) assms(4)]
  have len: "1 \<le> length gs" using c run_write(1) by (cases fs') auto
  have one: "history gs e1 ! 1 = history fs' e1 ! 1"
    using c by (cases fs') (simp_all add: run_write(1) nth_history_append(1))
  have "vacant (te_key_hash (history (fs @ gs) e ! (length fs + 1)))"
  proof (rule unreplacedD [OF assms(3), of p "length fs"])
    show "vacant (te_key_hash (history (fs @ gs) e ! length fs))"
      using assms(2,4) by (simp add: nth_history_append(1) history_end)
  qed (use assms(5,6) len in \<open>auto simp: nth_history_append(1)\<close>)
  then have "vacant (te_key_hash (history gs e1 ! 1))" using assms(2) by (simp add: nth_history_append(2))
  with c show ?thesis by (simp only: one simp_thms)
qed simp

text \<open>A slot that held an edge at the beginning shows that edge, or is vacant, with its identity.\<close>

lemma unreplaced_identity:
  assumes "slot_run h e fs" "\<not> vacant (te_key_hash e)" "unreplaced (history fs e)" "x \<in> set (history fs e)"
  shows "te_t_lo x = te_t_lo e \<and> te_t_hi x = te_t_hi e \<and> te_entity_hash x = te_entity_hash e
    \<and> (te_key_hash x = te_key_hash e \<or> te_key_hash x = SLOT_TOMBSTONE)"
  using assms
proof (induction arbitrary: x)
  case (run_none e)
  then show ?case by simp
next
  case (run_write e reinf fs gs)
  define e1 where "e1 = run_stores fs e"
  note first = live_write_identity [OF run_write.hyps(1) run_write.prems(1)]
    live_write_key [OF run_write.hyps(1) run_write.prems(1)]
  have "e1 \<in> set (history fs e)" unfolding e1_def history_end [symmetric] by simp
  note e1 = first [OF this]
  from run_write.prems(3) consider "x \<in> set (history fs e)" | "x \<in> set (history gs e1)"
    by (auto simp: history_append e1_def dest: in_set_butlastD)
  then show ?case
  proof cases
    case 1
    then show ?thesis using first by blast
  next
    case 2
    show ?thesis
    proof (cases "vacant (te_key_hash e1)")
      case True
      have "gs = []"
        by (rule run_after_vacant [OF run_write.hyps(2) [folded e1_def] e1_def run_write.prems(2) True, of 0])
          (use run_write.prems(1) in simp_all)
      with 2 e1 show ?thesis by simp
    next
      case False
      with e1 have "te_key_hash e1 = te_key_hash e" by (auto simp: vacant_def)
      with run_write.IH [folded e1_def, OF False unreplaced_append [OF run_write.prems(2), folded e1_def] 2] e1
      show ?thesis by simp
    qed
  qed
qed

text \<open>A vacant slot with weight 0: nothing is visible before the insertion is complete.\<close>

lemma unreplaced_insertion:
  assumes "slot_run h e fs" "vacant (te_key_hash e)" "te_weight e = 0" "unreplaced (history fs e)"
    and "p \<le> length fs" "te_weight (history fs e ! p) \<noteq> 0"
  obtains us vs e1 where "fs = us @ vs" "e1 = run_stores us e" "slot_run h e1 vs" "\<not> vacant (te_key_hash e1)"
    "unreplaced (history vs e1)" "e1 \<in> set (history fs e)"
    "\<And>q. q < length us \<Longrightarrow> te_weight (history fs e ! q) = 0"
  using assms(1)
proof cases
  case run_none
  with assms(3,5,6) show thesis by simp
next
  case (run_write reinf us vs)
  define e1 where "e1 = run_stores us e"
  have hides: "te_weight (history fs e ! q) = 0" if "q < length us" for q
    using vacant_write_hides [OF run_write(2) assms(2,3) that] that by (simp add: run_write(1) nth_history_append(1))
  have "history fs e ! length us = e1" by (simp add: run_write(1) nth_history_append(1) history_end e1_def)
  moreover have "history fs e ! length us \<in> set (history fs e)" by (simp add: run_write(1))
  ultimately have mem: "e1 \<in> set (history fs e)" by simp
  show thesis
  proof (cases "vacant (te_key_hash e1)")
    case True
    note c = vacant_write_claims [OF run_write(2) assms(2)]
    have "vs = []"
      by (rule run_after_vacant [OF run_write(3) [folded e1_def] e1_def assms(4) [unfolded run_write(1)] True, of 1])
        (use c in \<open>cases us; simp\<close>)+
    moreover have "te_weight e1 = 0"
      using run_write(2)
    proof cases
      case (sw_undo slot_key ehash key t_lo t_hi eta_hi delta w0_src w1_src now_rel)
      have "e1 \<in> set (history us e)" unfolding e1_def history_end [symmetric] by simp
      with undo_history_weight [OF assms(3)] show ?thesis by (simp add: sw_undo(2))
    next
      case (sw_insert slot_key ehash key t_lo t_hi eta_hi delta w0_src w1_src now_rel)
      with True show ?thesis by (simp add: e1_def insert_stores_def Let_def case_prod_unfold)
    qed (use assms(2) in simp_all)
    ultimately have "te_weight (history fs e ! p) = 0"
      using hides [of p] assms(5) \<open>history fs e ! length us = e1\<close> by (cases "p = length us") (auto simp: run_write(1))
    with assms(6) show thesis by simp
  next
    case False
    show thesis
      by (rule that [OF run_write(1) e1_def run_write(3) [folded e1_def] False _ mem hides])
        (use unreplaced_append assms(4) in \<open>auto simp: run_write(1) e1_def\<close>)
  qed
qed

lemma same_edge_via: "same_edge s e \<Longrightarrow> same_edge y e \<Longrightarrow> same_edge s y"
  by (simp add: same_edge_def)

section \<open>What the reader reports\<close>

text \<open>
  C16. A reader that runs concurrently with any number of writes to the slot, an
  insertion, reinforcements, decay and an eviction, reports the one edge that was in the slot: key,
  techniques and entity of the snapshot are those of every moment at which the slot showed an edge.
  This holds for a slot that held an edge or had weight 0 at the beginning and that is not given to
  another edge after one has left it, and for every order of the loads in which none falls before
  the two acquire loads in front of it.
\<close>

theorem reader_consistent_over_writes:
  assumes "slot_run h e fs" and "unreplaced (history fs e)" and "vacant (te_key_hash e) \<longrightarrow> te_weight e = 0"
    and "acquire_points (history fs e) 12 ps"
    and "read_entry_at (loads (history fs e) ps) = Some s"
  shows "(\<exists>x. x \<in> set (history fs e) \<and> \<not> vacant (te_key_hash x) \<and> same_edge s x)
    \<and> (\<forall>y\<in>set (history fs e). \<not> vacant (te_key_hash y) \<and> te_weight y \<noteq> 0 \<longrightarrow> same_edge s y)"
proof -
  define cs where "cs = loads (history fs e) ps"
  note D = read_entry_SomeD [OF assms(5), folded cs_def]
  note at = load_pointsD [OF assms(4), folded cs_def]
  have fields: "te_key_hash s = te_key_hash (cs ! 11)" "te_t_lo s = te_t_lo (cs ! 4)" "te_t_hi s = te_t_hi (cs ! 5)"
    "te_entity_hash s = te_entity_hash (cs ! 10)"
    using assms(5) by (auto simp: cs_def [symmetric] read_entry_at_def Let_def split: if_splits)
  show ?thesis
  proof (cases "vacant (te_key_hash e)")
    case False
    note ident = unreplaced_identity [OF assms(1) False assms(2)]
    have "same_edge s e"
      using ident [OF at(3) [of 11]] ident [OF at(3) [of 4]] ident [OF at(3) [of 5]] ident [OF at(3) [of 10]] D fields
      by (auto simp: same_edge_def vacant_def)
    moreover have "e \<in> set (history fs e)" by (cases fs) simp_all
    moreover have "same_edge y e" if "y \<in> set (history fs e)" "\<not> vacant (te_key_hash y)" for y
      using ident [OF that(1)] that(2) by (auto simp: same_edge_def vacant_def)
    ultimately show ?thesis using False same_edge_via by blast
  next
    case True
    have w: "te_weight (history fs e ! (ps ! 1)) \<noteq> 0" "ps ! 1 \<le> length fs" using D(2) at(1,2) [of 1] by simp_all
    obtain us vs e1 where u: "fs = us @ vs" "e1 = run_stores us e" "slot_run h e1 vs" "\<not> vacant (te_key_hash e1)"
      "unreplaced (history vs e1)" "e1 \<in> set (history fs e)"
      "\<And>q. q < length us \<Longrightarrow> te_weight (history fs e ! q) = 0"
      using unreplaced_insertion [OF assms(1) True _ assms(2) w(2,1)] True assms(3) by blast
    note ident = unreplaced_identity [OF u(3,4,5)]
    have late: "history fs e ! q \<in> set (history vs e1)" if "length us \<le> q" "q \<le> length fs" for q
      using that by (simp add: u(1,2) nth_history_append(2))
    have "length us \<le> ps ! 1" using u(7) [of "ps ! 1"] w(1) by (meson not_le)
    then have in_vs: "cs ! i \<in> set (history vs e1)" if "1 \<le> i" "i < 12" for i
      using late [of "ps ! i"] load_points_mono [OF assms(4), of 1 i] at(1,2) [of i] that by simp
    have "same_edge s e1"
      using ident [OF in_vs [of 11]] ident [OF in_vs [of 4]] ident [OF in_vs [of 5]] ident [OF in_vs [of 10]] D fields
      by (auto simp: same_edge_def vacant_def)
    moreover have "same_edge y e1" if y: "y \<in> set (history fs e)" "\<not> vacant (te_key_hash y)" "te_weight y \<noteq> 0" for y
    proof -
      from y(1) obtain q where q: "q \<le> length fs" "y = history fs e ! q" by (auto simp: in_set_conv_nth less_Suc_eq_le)
      with u(7) [of q] y(3) have "y \<in> set (history vs e1)" using late [of q] by (meson not_le)
      with ident [of y] y(2) show ?thesis by (auto simp: same_edge_def vacant_def)
    qed
    ultimately show ?thesis using u(4,6) same_edge_via by blast
  qed
qed

section \<open>A slot that is reused\<close>

text \<open>
  With all loads in program order the second load of the key is enough, if no key returns to the slot
  and the slot has weight 0 whenever it holds no edge.
\<close>

lemma reader_consistent_in_order:
  assumes "slot_run h e fs" and "no_return (history fs e)" and "hidden (history fs e)"
    and "load_points (history fs e) 12 ps"
    and "read_entry_at (loads (history fs e) ps) = Some s"
  shows "\<exists>x. x \<in> set (history fs e) \<and> \<not> vacant (te_key_hash x) \<and> te_weight s = te_weight x \<and> te_weight x \<noteq> 0
    \<and> same_edge s x"
proof -
  define hist where "hist = history fs e"
  note lp = assms(4) [folded hist_def] and rd = assms(5) [folded hist_def]
  define cs where "cs = loads hist ps"
  note D = read_entry_SomeD [OF rd, folded cs_def]
  have at: "cs ! i = hist ! (ps ! i)" "ps ! i \<le> length fs" if "i < 12" for i
    using load_pointsD [OF in_order_acquire [OF lp] that] by (simp_all add: cs_def hist_def)
  have at0: "cs ! 0 = hist ! (ps ! 0)" and at1: "cs ! 1 = hist ! (ps ! 1)" by (rule at(1); simp)+
  have key: "te_key_hash (hist ! j) = te_key_hash (cs ! 0)" if "ps ! 0 \<le> j" "j \<le> ps ! 11" for j
  proof -
    have "ps ! 11 < length hist" "te_key_hash (hist ! (ps ! 0)) = te_key_hash (hist ! (ps ! 11))"
      "\<not> vacant (te_key_hash (hist ! (ps ! 0)))"
      using D at [of 0] at [of 11] by (simp_all add: hist_def)
    from no_returnD [OF assms(2) [folded hist_def] that this] show ?thesis by (simp only: at0)
  qed
  have mono: "ps ! i \<le> ps ! j" if "i \<le> j" "j < 12" for i j
    using lp that by (auto simp: load_points_def sorted_iff_nth_mono)
  have same: "same_edge (cs ! i) (cs ! 1)" if "1 \<le> i" "i < 12" for i
    unfolding at(1) [OF that(2)] at1 hist_def
  proof (rule published_identity [OF assms(1,3) mono [OF that]])
    show "te_weight (history fs e ! (ps ! 1)) \<noteq> 0" using D(2) unfolding at1 hist_def .
    show "te_key_hash (history fs e ! j) = te_key_hash (cs ! 0)" if "ps ! 1 \<le> j" "j \<le> ps ! i" for j
      using that mono [of 0 1] mono [of i 11] \<open>i < 12\<close> by (intro key [unfolded hist_def]) auto
  qed (use at(2) that D(1) in auto)
  have "te_key_hash (cs ! 1) = te_key_hash (cs ! 0)" unfolding at1 using mono [of 0 1] mono [of 1 11] by (intro key) simp_all
  with rd same [of 4] same [of 5] same [of 10] have "same_edge s (cs ! 1)" "te_weight s = te_weight (cs ! 1)"
    by (auto simp: cs_def [symmetric] read_entry_at_def Let_def same_edge_def split: if_splits)
  moreover have "cs ! 1 \<in> set hist" using load_pointsD(3) [OF in_order_acquire [OF lp], of 1] by (simp add: cs_def)
  ultimately show ?thesis using D \<open>te_key_hash (cs ! 1) = te_key_hash (cs ! 0)\<close> by (auto simp: hist_def)
qed

lemma retired [simp]: "run_stores retire_stores e = e\<lparr>te_weight := 0, te_key_hash := SLOT_TOMBSTONE\<rparr>"
  "length retire_stores = 2"
  by (simp_all add: retire_stores_def)

lemma inserted [simp]:
  "te_key_hash (run_stores (insert_stores h ehash key t_lo t_hi eta_hi delta w0_src w1_src now_rel slot_key) e) = slot_key"
  "te_t_lo (run_stores (insert_stores h ehash key t_lo t_hi eta_hi delta w0_src w1_src now_rel slot_key) e) = t_lo"
  "te_t_hi (run_stores (insert_stores h ehash key t_lo t_hi eta_hi delta w0_src w1_src now_rel slot_key) e) = t_hi"
  "te_entity_hash (run_stores (insert_stores h ehash key t_lo t_hi eta_hi delta w0_src w1_src now_rel slot_key) e) = ehash"
  "length (insert_stores h ehash key t_lo t_hi eta_hi delta w0_src w1_src now_rel slot_key) = 20"
  by (simp_all add: insert_stores_def Let_def case_prod_unfold)

lemma vacant_tombstone [simp]: "vacant SLOT_TOMBSTONE"
  by (simp add: vacant_def)

lemma hidden_run:
  assumes "hidden (history fs e)" "hidden (history gs (run_stores fs e))"
  shows "hidden (history (fs @ gs) e)"
  using assms by (auto simp: hidden_def history_append list_all_iff dest: in_set_butlastD)

lemma hidden_retire: "\<not> vacant (te_key_hash e) \<Longrightarrow> hidden (history retire_stores e)"
  by (simp add: hidden_def retire_stores_def)

lemma hidden_insert:
  assumes "te_weight e = 0" "\<not> vacant slot_key"
  shows "hidden (history (insert_stores h ehash key t_lo t_hi eta_hi delta w0_src w1_src now_rel slot_key) e)"
  using assms by (simp add: hidden_def insert_stores_def Let_def case_prod_unfold)

lemma run_retire:
  "\<not> vacant (te_key_hash e) \<Longrightarrow> slot_run h (run_stores retire_stores e) gs \<Longrightarrow> slot_run h e (retire_stores @ gs)"
  by (rule run_write [OF sw_retire])

lemma run_insert:
  assumes "vacant (te_key_hash e)" "\<not> vacant slot_key"
    and "slot_run h (run_stores (insert_stores h ehash key t_lo t_hi eta_hi delta w0_src w1_src now_rel slot_key) e) gs"
  shows "slot_run h e (insert_stores h ehash key t_lo t_hi eta_hi delta w0_src w1_src now_rel slot_key @ gs)"
  by (rule run_write [OF sw_insert [OF assms(1,2)] assms(3)])

text \<open>
  C39. That no key returns is needed.  An edge is retired for another, the
  other is retired in turn and the first edge comes back to its slot; whatever the two edges are, a
  reader that loads the key before and after all this returns a snapshot with the key and the weight
  of the first edge and the techniques and the entity of the other.
\<close>

theorem reader_splices_reinserted_edge:
  fixes e h eh1 key1 lo1 hi1 eta1 d1 a1 b1 n1 eh2 key2 lo2 hi2 eta2 d2 a2 b2 n2 k2
  defines "other \<equiv> insert_stores h eh2 key2 lo2 hi2 eta2 d2 a2 b2 n2 k2"
    and "again \<equiv> insert_stores h eh1 key1 lo1 hi1 eta1 d1 a1 b1 n1 (te_key_hash e)"
  defines "fs \<equiv> retire_stores @ other @ retire_stores @ again @ []"
    and "ps \<equiv> replicate 4 0 @ replicate 7 22 @ [44]"
  assumes "\<not> vacant (te_key_hash e)" and "te_weight e \<noteq> 0" and "\<not> vacant k2"
  shows "slot_run h e fs \<and> hidden (history fs e) \<and> load_points (history fs e) 12 ps
    \<and> (\<exists>s. read_entry_at (loads (history fs e) ps) = Some s
        \<and> te_key_hash s = te_key_hash e \<and> te_weight s = te_weight e
        \<and> te_t_lo s = lo2 \<and> te_t_hi s = hi2 \<and> te_entity_hash s = eh2)"
proof -
  define e1 where "e1 = run_stores (retire_stores @ other) e"
  have e1: "te_key_hash e1 = k2" "te_t_lo e1 = lo2" "te_t_hi e1 = hi2" "te_entity_hash e1 = eh2"
    unfolding e1_def other_def run_stores_append by simp_all
  have "slot_run h e fs"
    unfolding fs_def other_def again_def by (intro run_retire run_insert run_none) (use assms(5,7) in simp_all)
  moreover have "hidden (history fs e)"
    unfolding fs_def other_def again_def append_Nil2
    by (intro hidden_run hidden_retire hidden_insert) (use assms(5,7) in simp_all)
  moreover have "load_points (history fs e) 12 ps"
    by (auto simp: load_points_def fs_def other_def again_def ps_def sorted_append)
  moreover have "history fs e ! 22 = e1"
    using nth_history_append(2) [of "retire_stores @ other" 22 "retire_stores @ again" e]
    by (simp add: fs_def e1_def other_def)
  moreover have "te_key_hash (history fs e ! 44) = te_key_hash e"
    using nth_history_append(2) [of "retire_stores @ other @ retire_stores @ again" 44 "[]" e]
    by (simp add: fs_def again_def other_def run_stores_append)
  ultimately show ?thesis
    using assms(5,6) e1 by (simp add: ps_def loads_def read_entry_at_def Let_def nth_append nth_Cons')
qed

theorem reader_splices_reinserted_edge_witness:
  "(\<exists>s. read_entry_at (loads (history (retire_stores @ insert_stores conc_header 8 [2] 1 2 40000 2500 7 0 12 77
        @ retire_stores @ insert_stores conc_header 9 [1] 3 4 40000 2500 7 0 13 5) conc_snapshot)
        (replicate 4 0 @ replicate 7 22 @ [44])) = Some s
      \<and> te_key_hash s = 5 \<and> te_t_lo s = 1 \<and> te_t_hi s = 2 \<and> te_entity_hash s = 8)
   \<and> te_t_lo conc_snapshot = 3 \<and> te_entity_hash conc_snapshot = 9"
proof -
  have c: "te_key_hash conc_snapshot = 5" "te_weight conc_snapshot = 2500" "te_t_lo conc_snapshot = 3"
    "te_entity_hash conc_snapshot = 9"
    by (simp_all add: conc_snapshot_def)
  have "\<not> vacant (te_key_hash conc_snapshot)" "te_weight conc_snapshot \<noteq> 0" "\<not> vacant 77"
    by (simp_all add: c vacant_def)
  from reader_splices_reinserted_edge [OF this, of conc_header 8 "[2]" 1 2 40000 2500 7 0 12 9 "[1]" 3 4 40000 2500 7 0 13]
  show ?thesis unfolding c append_Nil2 by blast
qed

text \<open>
  And the order of the loads is needed.  The second load of the key is an acquire load behind relaxed
  loads, which orders nothing in front of it: a reader may load the techniques and the entity after it.
  One replacement of the edge is then enough for a splice.
\<close>

theorem recheck_unordered_splices:
  fixes e h ehash key t_lo t_hi eta_hi delta w0_src w1_src now_rel slot_key
  defines "fs \<equiv> retire_stores @ insert_stores h ehash key t_lo t_hi eta_hi delta w0_src w1_src now_rel slot_key @ []"
    and "ps \<equiv> replicate 4 0 @ replicate 7 22 @ [0]"
  assumes "\<not> vacant (te_key_hash e)" and "te_weight e \<noteq> 0" and "\<not> vacant slot_key"
  shows "slot_run h e fs \<and> hidden (history fs e) \<and> acquire_points (history fs e) 12 ps
    \<and> (\<exists>s. read_entry_at (loads (history fs e) ps) = Some s
        \<and> te_key_hash s = te_key_hash e \<and> te_weight s = te_weight e
        \<and> te_t_lo s = t_lo \<and> te_t_hi s = t_hi \<and> te_entity_hash s = ehash)"
proof -
  define e1 where "e1 = history fs e ! 22"
  have "length fs = 22" by (simp add: fs_def)
  then have "e1 = run_stores fs e" using history_end [of fs e] by (simp add: e1_def)
  then have e1: "te_t_lo e1 = t_lo" "te_t_hi e1 = t_hi" "te_entity_hash e1 = ehash"
    by (simp_all add: fs_def run_stores_append)
  have "slot_run h e fs"
    unfolding fs_def by (intro run_retire run_insert run_none) (use assms(3,5) in simp_all)
  moreover have "hidden (history fs e)"
    unfolding fs_def append_Nil2 by (intro hidden_run hidden_retire hidden_insert) (use assms(3,5) in simp_all)
  moreover have "acquire_points (history fs e) 12 ps"
    using \<open>length fs = 22\<close> by (simp add: acquire_points_def ps_def nth_append list_all_iff)
  ultimately show ?thesis
    using assms(3,4) e1 by (simp add: ps_def loads_def read_entry_at_def Let_def nth_append nth_Cons' e1_def [symmetric])
qed

theorem recheck_unordered_splices_witness:
  "\<exists>s. read_entry_at (loads (history (retire_stores @ insert_stores conc_header 8 [2] 1 2 40000 2500 7 0 12 77) conc_snapshot)
        (replicate 4 0 @ replicate 7 22 @ [0])) = Some s
      \<and> te_key_hash s = 5 \<and> te_t_lo s = 1 \<and> te_t_hi s = 2 \<and> te_entity_hash s = 8"
proof -
  have c: "te_key_hash conc_snapshot = 5" "te_weight conc_snapshot = 2500" by (simp_all add: conc_snapshot_def)
  have "\<not> vacant (te_key_hash conc_snapshot)" "te_weight conc_snapshot \<noteq> 0" "\<not> vacant 77"
    by (simp_all add: c vacant_def)
  from recheck_unordered_splices [OF this, of conc_header 8 "[2]" 1 2 40000 2500 7 0 12]
  show ?thesis unfolding c append_Nil2 by blast
qed

text \<open>
  An insertion and, later, the eviction of the edge by decay; a reader whose relaxed loads fall before and
  after the eviction, out of order.
\<close>

definition brief_run :: "(wake_tac_entry_t \<Rightarrow> wake_tac_entry_t) list" where
  "brief_run = conc_stores @ bury_stores @ []"

definition brief_points :: "nat list" where
  "brief_points = [1, 20, 21, 20, 21, 21, 20, 20, 20, 21, 21, 20]"

lemma unreplaced_once:
  assumes "map (\<lambda>x. vacant (te_key_hash x)) hist = replicate a True @ replicate b False @ replicate c True"
  shows "unreplaced hist"
proof -
  have len: "length hist = a + b + c" using arg_cong [OF assms, of length] by simp
  have "vacant (te_key_hash (hist ! i)) \<longleftrightarrow> i < a \<or> a + b \<le> i" if "i < length hist" for i
  proof -
    have "vacant (te_key_hash (hist ! i)) = map (\<lambda>x. vacant (te_key_hash x)) hist ! i" using that by simp
    with that len show ?thesis unfolding assms by (auto simp: nth_append)
  qed
  then show ?thesis by (auto simp: unreplaced_def)
qed

lemma brief_checks:
  "map (\<lambda>x. vacant (te_key_hash x)) (history brief_run zero_tac_entry)
     = replicate 1 True @ replicate 20 False @ replicate 1 True"
  "acquire_points (history brief_run zero_tac_entry) 12 brief_points"
  "read_entry_at (loads (history brief_run zero_tac_entry) brief_points) = Some conc_snapshot"
  by code_simp+

theorem reader_consistent_over_writes_witness:
  "\<exists>x. x \<in> set (history brief_run zero_tac_entry) \<and> te_key_hash x = 5 \<and> te_t_lo x = 3 \<and> te_entity_hash x = 9"
proof -
  have z: "vacant (te_key_hash zero_tac_entry)" "te_weight zero_tac_entry = 0" "\<not> vacant 5"
    by (simp_all add: zero_tac_entry_def vacant_def)
  have r: "slot_run conc_header zero_tac_entry brief_run"
    unfolding brief_run_def conc_stores_def
    by (intro run_insert run_write [OF sw_decay_evict] run_none) (use z in simp_all)
  from reader_consistent_over_writes [OF r unreplaced_once [OF brief_checks(1)] _ brief_checks(2,3)] z(2)
  show ?thesis by (auto simp: same_edge_def conc_snapshot_def)
qed

end
