(* ===== verification/Wake_Tac_Few.thy ===== *)
theory Wake_Tac_Few
  imports Wake_Tac_Props
begin

text \<open>
  The bound on the edges of an entity without a side condition on decay.  \<open>wake_tac_decay\<close> ignores
  a full probe window of the sidecar, so the bound of \<open>Wake_Tac_Props\<close> excludes decay passes that
  find no room.  Here: a table that is written for no more entities than a probe of the sidecar
  looks at always has room, so the bound holds after any sequence of calls.
\<close>

section \<open>The probe of the sidecar\<close>

lemma power_of_2_exp:
  assumes "is_power_of_2 c"
  shows "\<exists>n. unat c = 2 ^ n"
proof -
  have c: "0 < c" "c AND (c - 1) = 0" using assms by (simp_all add: is_power_of_2_def)
  then have pos: "1 \<le> unat c" by (simp add: Suc_leI unat_gt_0)
  obtain n where n: "2 ^ n \<le> unat c" "unat c < 2 ^ (n + 1)"
    using ex_power_ivl1 [of 2 "unat c"] pos by auto
  have "unat c = 2 ^ n"
  proof (rule ccontr)
    assume "unat c \<noteq> 2 ^ n"
    with n have m: "2 ^ n \<le> unat c - 1" "unat c - 1 < 2 ^ (n + 1)" by simp_all
    have bit: "bit x n" if "2 ^ n \<le> x" "x < 2 ^ (n + 1)" for x :: nat
    proof -
      have "x div 2 ^ n = 1" using that by (simp add: div_nat_eqI)
      then show ?thesis by (simp add: bit_iff_odd)
    qed
    have "unat (c - 1) = unat c - 1" using c(1) by (simp add: unat_minus_one word_gt_0)
    then have "bit (unat c) n" "bit (unat (c - 1)) n" using bit n m by simp_all
    then have "bit (c AND (c - 1)) n" by (simp add: bit_unsigned_iff bit_and_iff)
    with c(2) show False by simp
  qed
  then show ?thesis by blast
qed

lemma unat_and_power:
  assumes "unat (c :: u32) = 2 ^ n"
  shows "unat ((x :: u64) AND ucast (c - 1)) = unat x mod 2 ^ n"
proof -
  have "unat (c - 1) = 2 ^ n - 1" using assms by (subst unat_minus_one) auto
  then have "unat (ucast (c - 1) :: u64) = mask n" by (simp add: mask_eq_exp_minus_1)
  then have "unat (x AND ucast (c - 1)) = unat x AND mask n" by (simp add: unsigned_and_eq)
  then show ?thesis by (simp add: take_bit_eq_mask [symmetric] take_bit_eq_mod)
qed

lemma occ_idx_mod:
  assumes "tac_layout t"
  shows "occ_idx t k d = (unat k + d) mod length (t_occ t)"
proof -
  let ?c = "th_occ_slots (t_header t)"
  have len: "length (t_occ t) = unat ?c" using assms by (simp add: tac_layout_def)
  obtain n where n: "unat ?c = 2 ^ n"
    using power_of_2_exp [of ?c] assms by (auto simp: tac_layout_def tac_header_ok_def)
  have "2 ^ n < (2 :: nat) ^ 32" using unsigned_less [of ?c, where ?'a = nat] n by simp
  then have "n < 32" by (rule power_less_imp_less_exp [rotated]) simp
  then have dvd: "(2 :: nat) ^ n dvd 2 ^ 64" by (intro le_imp_power_dvd) simp
  have "occ_idx t k d = (unat k mod 2 ^ n + d) mod 2 ^ 64 mod 2 ^ n"
    by (simp add: occ_idx_def Let_def unat_and_power [OF n] unat_word_ariths unat_of_nat take_bit_eq_mod mod_add_right_eq)
  also have "\<dots> = (unat k + d) mod 2 ^ n"
    using dvd by (simp add: mod_mod_cancel mod_add_left_eq)
  finally show ?thesis by (simp add: len n)
qed

lemma mod_shift_inj:
  assumes "(a + d) mod N = (a + d') mod N" "d < N" "d' < (N :: nat)"
  shows "d = d'"
proof -
  have "y = x" if "x \<le> y" "y < N" "(a + x) mod N = (a + y) mod N" for x y
  proof -
    have "N dvd (a + y) - (a + x)" using that mod_eq_dvd_iff_nat [of "a + x" "a + y" N] by simp
    then have "N dvd y - x" by simp
    with that(1,2) show ?thesis by (meson diff_is_0_eq dvd_imp_le le_antisym less_imp_diff_less neq0_conv not_le)
  qed
  then show ?thesis using assms nat_le_linear [of d d'] by metis
qed

interpretation ocs: spread_table occ_keys occ_idx WAKE_TAC_OCC_PROBE_MAX tac_layout "\<lambda>k. k = 0"
    "\<lambda>t. min WAKE_TAC_OCC_PROBE_MAX (length (t_occ t))"
proof unfold_locales
  show "inj_on (occ_idx t k) {..<min WAKE_TAC_OCC_PROBE_MAX (length (t_occ t))}" if "tac_layout t" for t k
  proof (rule inj_onI)
    fix d d'
    assume d: "d \<in> {..<min WAKE_TAC_OCC_PROBE_MAX (length (t_occ t))}"
      "d' \<in> {..<min WAKE_TAC_OCC_PROBE_MAX (length (t_occ t))}" "occ_idx t k d = occ_idx t k d'"
    then have "(unat k + d) mod length (t_occ t) = (unat k + d') mod length (t_occ t)"
      by (simp add: occ_idx_mod [OF that])
    with d(1,2) show "d = d'" by (auto intro: mod_shift_inj)
  qed
qed simp

section \<open>Few entities\<close>

text \<open>
  The sidecar has entries for entities of \<open>K\<close> only, and every live edge but those at the positions
  \<open>X\<close> is one of theirs.
\<close>

definition few :: "u64 set \<Rightarrow> nat set \<Rightarrow> wake_tac_t \<Rightarrow> bool" where
  "few K X t \<longleftrightarrow> set (occ_keys t) \<subseteq> insert 0 K
     \<and> (\<forall>i<length (t_entries t). i \<notin> X \<longrightarrow> \<not> vacant (te_key_hash (t_entries t ! i))
          \<longrightarrow> te_entity_hash (t_entries t ! i) \<in> K)"

lemma few_put:
  "few K X t \<Longrightarrow> i \<in> X \<or> vacant (te_key_hash e) \<or> te_entity_hash e \<in> K \<Longrightarrow> few K X (put_tac i e t)"
  by (auto simp: few_def nth_update_if)

lemma few_settle:
  "few K {i} t \<Longrightarrow> vacant (te_key_hash e) \<or> te_entity_hash e \<in> K \<Longrightarrow> few K {} (put_tac i e t)"
  by (auto simp: few_def nth_update_if)

lemma few_same:
  "few K X t \<Longrightarrow> te_key_hash e = te_key_hash (t_entries t ! i)
     \<Longrightarrow> te_entity_hash e = te_entity_hash (t_entries t ! i) \<Longrightarrow> few K X (put_tac i e t)"
  by (auto simp: few_def nth_update_if)

lemma few_weaken: "few K {} t \<Longrightarrow> few K X t"
  by (simp add: few_def)

lemma few_occ:
  "few K X t \<Longrightarrow> t_entries t' = t_entries t \<Longrightarrow> set (occ_keys t') \<subseteq> insert eh (set (occ_keys t))
     \<Longrightarrow> eh \<in> K \<Longrightarrow> few K X t'"
  by (auto simp: few_def)

text \<open>The sidecar operations add at most the entity they are called for.\<close>

lemma put_occ_same_key [simp]:
  "(occ_keys t)[j := to_entity_hash (t_occ t ! j)] = occ_keys t"
  by (cases "j < length (t_occ t)") (simp_all add: list_update_same_conv list_update_beyond)

lemma occ_find_loop_keys:
  "t_entries (snd (occ_find_loop t eh claim ps)) = t_entries t
   \<and> set (occ_keys (snd (occ_find_loop t eh claim ps))) \<subseteq> insert eh (set (occ_keys t))"
  by (induction ps) (auto simp: Let_def dest: subsetD [OF set_update_subset_insert])

lemma occ_add_slot_few:
  assumes "few K X t" "eh \<in> K"
  shows "few K X (snd (occ_add_slot t eh idx))"
proof (rule few_occ [OF assms(1) _ _ assms(2)])
  show "t_entries (snd (occ_add_slot t eh idx)) = t_entries t"
    "set (occ_keys (snd (occ_add_slot t eh idx))) \<subseteq> insert eh (set (occ_keys t))"
    using occ_find_loop_keys [of t eh True "[0..<WAKE_TAC_OCC_PROBE_MAX]"]
    by (auto simp: occ_add_slot_def occ_find_def Let_def case_prod_unfold split: option.split)
qed

lemma occ_del_slot_few:
  assumes "few K X t"
  shows "few K X (occ_del_slot t eh idx)"
  using assms
  by (auto simp: few_def occ_del_slot_def Let_def split: option.split)

section \<open>Reinforcement\<close>

lemma retire_victim_few: "few K X t \<Longrightarrow> few K X (retire_victim eh v t)"
  by (simp add: retire_victim_def occ_del_slot_few few_put)

lemma publish_edge_few:
  assumes "few K {unat c} t" "eh \<in> K" "te_entity_hash e = eh"
  shows "few K {} (snd (publish_edge eh c e delta t))"
proof -
  have "few K {unat c} (snd (occ_add_slot (put_tac (unat c) e t) eh c))"
    using assms by (intro occ_add_slot_few few_put) simp_all
  then show ?thesis
    using assms(2,3) by (auto simp: publish_edge_def case_prod_unfold Let_def intro!: few_settle)
qed

lemma insert_edge_few:
  assumes "few K {} t" "eh \<in> K"
  shows "few K {} (snd (insert_edge t eh key t_lo t_hi eta_hi delta w0_src w1_src now_rel k))"
proof -
  have "few K {unat c} (retire_victim eh v (put_tac (unat c) e t))" for c :: u32 and v e
    by (rule retire_victim_few, rule few_put [OF few_weaken [OF assms(1)]]) simp
  then show ?thesis
    using assms by (simp add: insert_edge_eq Let_def case_prod_unfold publish_edge_few)
qed

lemma apply_edge_few:
  assumes "few K {} t" "eh \<in> K"
  shows "few K {} (snd (apply_edge t eh key t_lo t_hi w0_eta w0_src w1_eta w1_src now_rel))"
  using assms by (auto simp: apply_edge_def Let_def case_prod_unfold intro!: insert_edge_few few_same)

lemma batch_loop_few:
  "few K {} t \<Longrightarrow> eh \<in> K \<Longrightarrow> few K {} (snd (batch_loop eh key acts now_rel ps applied t))"
proof (induction ps arbitrary: applied t)
  case (Cons p ps)
  then show ?case
    by (cases p) (auto simp: Let_def case_prod_unfold intro!: Cons.IH apply_edge_few)
qed simp

lemma reinforce_few:
  assumes "few K {} t" "\<And>key. k = Some key \<Longrightarrow> entity_hash_of t key \<in> K"
  shows "few K {} (snd (wake_tac_reinforce t k t_a t_b eta s now_rel))"
    and "few K {} (snd (wake_tac_reinforce_batch t k acts now_rel))"
  using assms
  by (auto simp: wake_tac_reinforce_def wake_tac_reinforce_batch_def Let_def split: option.split
      intro!: apply_edge_few batch_loop_few)

section \<open>Decay\<close>

text \<open>No more entities than the probe of the sidecar looks at.\<close>

definition few_fit :: "u64 set \<Rightarrow> wake_tac_t \<Rightarrow> bool" where
  "few_fit K t \<longleftrightarrow> finite K \<and> card K \<le> min WAKE_TAC_OCC_PROBE_MAX (unat (th_occ_slots (t_header t)))"

lemma occ_add_slot_ok:
  assumes shape: "tac_shape S t" and few: "few K X t" "few_fit K t" and eh: "eh \<in> K" "eh \<noteq> 0"
    and room: "length (occ_list t eh) < 32"
  shows "fst (occ_add_slot t eh idx)"
  using shape eh(2)
proof (cases rule: occ_find_cases [where claim = True])
  case (found j)
  have "unat (to_live_count (t_occ t ! j)) = length (occ_list t eh)"
    using occ_list_at [OF tac_shapeD(3) [OF shape] found(1,2) eh(2)] tac_shapeD(5) [OF shape found(1)]
    by (simp add: occ_ok_def word_le_nat_alt)
  with found(3) room show ?thesis by (simp add: occ_add_slot_eq not_le word_less_nat_alt)
next
  case (fresh d)
  then show ?thesis
    using occ_idx_less [OF tac_shapeD(1) [OF shape], of eh d] by (simp add: occ_add_slot_eq claim_occ_def)
next
  case none
  have lay: "tac_layout t" by (rule tac_shapeD(1) [OF shape])
  have "card K \<le> min WAKE_TAC_OCC_PROBE_MAX (length (t_occ t))" "finite K"
    using few(2) lay by (simp_all add: few_fit_def tac_layout_def)
  then have "\<exists>d<WAKE_TAC_OCC_PROBE_MAX. occ_keys t ! occ_idx t eh d = eh \<or> occ_keys t ! occ_idx t eh d = 0"
    using few(1) by (intro ocs.probe_succeeds [OF tac_shapeD(3,1) [OF shape] eh(1)]) (auto simp: few_def)
  with none(2) show ?thesis
    by (auto simp: occ_find_def occ_find_loop_eq [OF lay] find_None_iff split: option.splits if_splits)
qed

lemma decay_one_tracked:
  assumes inv: "tac_inv S t" and few: "few K {} t" "few_fit K t" and i: "i < length (t_entries t)"
    and tr: "tracked {i..<length (t_entries t)} t"
    and room: "\<not> vacant (te_key_hash (t_entries t ! i))
      \<Longrightarrow> length (occ_list t (te_entity_hash (t_entries t ! i))) < 32"
  shows "few K {} (decay_one i t) \<and> tracked {Suc i..<length (t_entries t)} (decay_one i t)"
proof -
  define e where "e = t_entries t ! i"
  define t1 where "t1 = put_tac i (fade_entry (t_header t) e) t"
  have shape: "tac_shape S t" and named: "named {} t" using inv by (simp_all add: tac_inv_def)
  have tr': "of_nat k \<in> set (occ_list t (te_entity_hash (t_entries t ! k)))"
    if "k < i" "\<not> vacant (te_key_hash (t_entries t ! k))" for k
    using tr that i by (simp add: tracked_def)
  consider (dead) "vacant (te_key_hash e)" | (faded) "faded (t_header t) e"
    | (kept) "\<not> vacant (te_key_hash e)" "\<not> faded (t_header t) e" by blast
  then show ?thesis
  proof cases
    case dead
    then have "decay_one i t = t" by (simp add: decay_one_def e_def)
    moreover have "tracked {Suc i..<length (t_entries t)} t"
      using tr' dead by (auto simp: tracked_def e_def not_less_eq_eq le_Suc_eq less_Suc_eq_le)
    ultimately show ?thesis using few by simp
  next
    case faded
    then have d: "decay_one i t = t1" by (simp add: decay_one_def e_def t1_def faded_def)
    have "vacant (te_key_hash (fade_entry (t_header t) e))" using faded by (simp add: fade_entry_def faded_def)
    then show ?thesis
      unfolding d t1_def using few tr' i
      by (auto simp: few_put tracked_def nth_update_if)
  next
    case kept
    have key: "te_key_hash (fade_entry (t_header t) e) = te_key_hash e"
      "te_entity_hash (fade_entry (t_header t) e) = te_entity_hash e"
      using kept by (simp_all add: fade_entry_def faded_def)
    have few1: "few K {} t1" unfolding t1_def using few(1) key by (intro few_same) (simp_all add: e_def)
    have shape1: "tac_shape S t1" using fade_put [OF inv i] by (simp add: t1_def e_def tac_inv_def)
    have eh: "te_entity_hash e \<in> K" "te_entity_hash e \<noteq> 0"
      using few(1) named i kept(1) by (simp_all add: few_def named_def e_def)
    obtain ok t2 where add: "occ_add_slot t1 (te_entity_hash e) (of_nat i) = (ok, t2)" by fastforce
    have ok using occ_add_slot_ok [OF shape1 few1 _ eh] few(2) room kept(1) add
      by (simp add: t1_def e_def few_fit_def) (metis fst_conv)
    have d: "decay_one i t = t2"
      using kept add by (simp add: decay_one_def e_def [symmetric] t1_def [symmetric])
    have t2: "t_entries t2 = (t_entries t)[i := fade_entry (t_header t) e]"
      "occ_list t2 = (occ_list t)(te_entity_hash e := occ_list t (te_entity_hash e) @ [of_nat i])"
      using occ_add_slot_spec [OF shape1 eh(2) add] \<open>ok\<close> by (simp_all add: t1_def)
    have "few K {} t2" using occ_add_slot_few [OF few1 eh(1), of "of_nat i"] add by simp
    moreover have "tracked {Suc i..<length (t_entries t)} t2"
      unfolding tracked_def
    proof (intro allI impI)
      fix k
      assume k: "k < length (t_entries t2)" "k \<notin> {Suc i..<length (t_entries t)}" "\<not> vacant (te_key_hash (t_entries t2 ! k))"
      show "of_nat k \<in> set (occ_list t2 (te_entity_hash (t_entries t2 ! k)))"
      proof (cases "k = i")
        case True
        then show ?thesis using i by (simp add: t2 key)
      next
        case False
        with k have "k < i" by (simp add: t2)
        with tr' [of k] k False show ?thesis by (auto simp: t2)
      qed
    qed
    ultimately show ?thesis by (simp add: d)
  qed
qed

lemma decay_loop_tracked:
  assumes "tac_inv S t" "few K {} t" "few_fit K t" "i \<le> length (t_entries t)"
    and "tracked {i..<length (t_entries t)} t"
    and "\<And>eh. length (occ_list t eh) + edge_count (drop i (t_entries t)) eh \<le> 32"
    and "tac_decay_loop [i..<length (t_entries t)] ev t = (ev', t')"
  shows "few K {} t' \<and> tracked {} t'"
  using assms
proof (induction "length (t_entries t) - i" arbitrary: i ev t)
  case 0
  then show ?case by simp
next
  case (Suc n)
  define t1 where "t1 = decay_one i t"
  let ?es = "t_entries t" and ?h = "t_header t"
  have i: "i < length ?es" using Suc.hyps(2) by simp
  have drop: "drop i ?es = ?es ! i # drop (Suc i) ?es" using Cons_nth_drop_Suc [OF i] by simp
  note t1 = decay_one_spec [OF Suc.prems(1) i, folded t1_def]
  have "length (occ_list t (te_entity_hash (?es ! i))) < 32" if "\<not> vacant (te_key_hash (?es ! i))"
    using Suc.prems(6) [of "te_entity_hash (?es ! i)"] that by (simp add: drop edge_count_def)
  from decay_one_tracked [OF Suc.prems(1-3) i Suc.prems(5) this]
  have t1': "few K {} t1" "tracked {Suc i..<length (t_entries t1)} t1" by (simp_all add: t1_def [symmetric] t1(3))
  have "tac_decay_loop [Suc i..<length (t_entries t1)] (if faded ?h (?es ! i) then ev + 1 else ev) t1 = (ev', t')"
    using Suc.prems(7) i
    by (simp add: upt_conv_Cons t1(3) tac_decay_loop_Cons t1_def [symmetric] del: tac_decay_loop.simps)
  moreover have "length (occ_list t1 eh) + edge_count (drop (Suc i) (t_entries t1)) eh \<le> 32" for eh
    using t1(4) [of eh] Suc.prems(6) [of eh] by (simp add: drop edge_count_def t1(3) split: if_splits)
  moreover have "n = length (t_entries t1) - Suc i" "Suc i \<le> length (t_entries t1)" "few_fit K t1"
    using Suc.hyps(2) Suc.prems(3) i by (simp_all add: t1(2,3) few_fit_def)
  ultimately show ?case using Suc.hyps(1) [of t1 "Suc i"] t1(1) t1' by blast
qed

lemma wake_tac_decay_tracked:
  assumes "tac_inv S t" "capped t" "few K {} t" "few_fit K t"
  shows "few K {} (snd (wake_tac_decay t))" "tracked {} (snd (wake_tac_decay t))"
proof -
  note c = clear_occ_spec [OF assms(1)]
  have shape: "tac_shape S t" using assms(1) by (simp add: tac_inv_def)
  have len: "length (t_entries t) = unat (th_capacity (t_header t))"
    using tac_shapeD(1) [OF shape] by (simp add: tac_layout_def)
  obtain ev t' where d: "wake_tac_decay t = (ev, t')" by fastforce
  have "edge_count (t_entries t) eh \<le> 32" for eh
    using live_edges_le [of S t eh] occ_list_le [OF shape, of eh] assms(2) shape
    by (simp add: edge_count_live_edges capped_def)
  moreover have "few K {} (clear_occ t)"
    using assms(3) by (auto simp: few_def c(3)) (auto simp: occ_keys_def clear_occ_def)
  moreover have "tracked {0..<length (t_entries (clear_occ t))} (clear_occ t)" by (simp add: tracked_def)
  ultimately have "few K {} t' \<and> tracked {} t'"
    using decay_loop_tracked [OF c(1), of K 0 0 ev t'] assms(4) d
    by (simp add: wake_tac_decay_def len c few_fit_def)
  then show "few K {} (snd (wake_tac_decay t))" "tracked {} (snd (wake_tac_decay t))" by (simp_all add: d)
qed

section \<open>Tables with few entities\<close>

text \<open>A new table, and at most 16 entity keys, no more than its sidecar has slots.\<close>

definition few_init :: "bytes set \<Rightarrow> wake_tac_t \<Rightarrow> bool" where
  "few_init Ks t \<longleftrightarrow> tac_init t \<and> finite Ks \<and> card Ks \<le> WAKE_TAC_OCC_PROBE_MAX
     \<and> card Ks \<le> unat (th_occ_slots (t_header t))"

text \<open>The calls of a writer that names no other entities than \<open>Ks\<close>.\<close>

inductive few_step :: "bytes set \<Rightarrow> wake_tac_t \<Rightarrow> wake_tac_t \<Rightarrow> bool" for Ks where
  fs_reinforce: "key \<in> Ks \<Longrightarrow> few_step Ks t (snd (wake_tac_reinforce t (Some key) t_a t_b eta s now_rel))"
| fs_batch: "key \<in> Ks \<Longrightarrow> few_step Ks t (snd (wake_tac_reinforce_batch t (Some key) (Some acts) now_rel))"
| fs_decay: "few_step Ks t (snd (wake_tac_decay t))"
| fs_reset: "wake_tac_reset (Some t) = Some t' \<Longrightarrow> few_step Ks t t'"
| fs_reopen: "wake_tac_open env \<lparr>tf_size = n, tf_header = Some (t_header t),
        tf_entries = t_entries t @ es, tf_occ = t_occ t @ os\<rparr> = Inr t' \<Longrightarrow> few_step Ks t t'"

lemma few_step_tac: "few_step Ks t t' \<Longrightarrow> tac_step UNIV t t'"
  by (induction rule: few_step.induct) (auto intro: tac_step.intros)

definition few_ok :: "bytes set \<Rightarrow> wake_tac_t \<Rightarrow> bool" where
  "few_ok Ks t \<longleftrightarrow> tac_inv UNIV t \<and> capped t
     \<and> few (entity_hash_of t ` Ks) {} t \<and> few_fit (entity_hash_of t ` Ks) t"

lemma few_zero:
  "t_entries t = replicate n zero_tac_entry \<Longrightarrow> t_occ t = replicate m zero_occ \<Longrightarrow> few K X t"
  by (auto simp: few_def occ_keys_def zero_occ_def)

lemma few_step_few:
  assumes "few_ok Ks t" "few_step Ks t t'"
  shows "few (entity_hash_of t ` Ks) {} t'"
  using assms(2)
proof cases
  case (fs_decay)
  with assms(1) show ?thesis by (auto simp: few_ok_def intro: wake_tac_decay_tracked(1))
next
  case fs_reset
  then show ?thesis by (auto simp: wake_tac_reset_def intro: few_zero)
next
  case fs_reopen
  have "tac_inv UNIV t" using assms(1) by (simp add: few_ok_def)
  from tac_reopen_same [OF this fs_reopen] assms(1) show ?thesis by (simp add: few_ok_def)
qed (use assms(1) in \<open>auto simp: few_ok_def intro: reinforce_few\<close>)

interpretation few: invariant_machine "few_init Ks" "few_step Ks" "few_ok Ks" for Ks
proof unfold_locales
  fix t assume init: "few_init Ks t"
  then obtain env cfg where c: "wake_tac_create env cfg = Inr t" by (auto simp: few_init_def tac_init_def)
  have "card (entity_hash_of t ` Ks) \<le> card Ks" using init by (intro card_image_le) (simp add: few_init_def)
  with init show "few_ok Ks t"
    using tac_inv_zero [OF create_tac_header(1) [OF c] refl create_tac_header(2-4) [OF c]]
      few_zero [OF create_tac_header(2,3) [OF c]]
    by (simp add: few_ok_def few_fit_def few_init_def)
next
  fix t t' assume ok: "few_ok Ks t" and step: "few_step Ks t t'"
  have inv: "tac_inv UNIV t" "capped t" using ok by (simp_all add: few_ok_def)
  from tac_step_keeps [OF inv(1) few_step_tac [OF step]]
  have t': "tac_inv UNIV t'" "t_header t' = t_header t"
    "(t' = snd (wake_tac_decay t) \<longrightarrow> tracked {} t') \<longrightarrow> capped t'" using inv(2) by simp_all
  have "entity_hash_of t' = entity_hash_of t" by (simp add: entity_hash_of_def t'(2) fun_eq_iff)
  moreover have "capped t'"
    using t'(3) wake_tac_decay_tracked(2) [OF inv] ok by (auto simp: few_ok_def)
  ultimately show "few_ok Ks t'"
    using t' few_step_few [OF ok step] ok by (simp add: few_ok_def few_fit_def)
qed

text \<open>
  C17. In a table that is written for at most 16 entities, and no more than
  its sidecar has slots, no entity ever has more live edges than the per-entity cap, whatever the
  sequence of reinforcements, batches, decay passes, resets and reopenings: the rebuild of the
  sidecar by \<open>wake_tac_decay\<close> never runs out of room.
\<close>

theorem few_entities_bounded:
  assumes "reach (few_init Ks) (few_step Ks) t"
  shows "card {i. i < length (t_entries t) \<and> \<not> vacant (te_key_hash (t_entries t ! i))
            \<and> te_entity_hash (t_entries t ! i) = eh} \<le> unat (th_per_entity_cap (t_header t))"
proof -
  have "tac_shape UNIV t" "tracked {} t" "within_cap t"
    using few.reach_inv [OF assms] by (simp_all add: few_ok_def tac_inv_def capped_def)
  then show ?thesis
    using live_edges_le [of UNIV t eh] unfolding live_edges_def within_cap_def by (meson order_trans)
qed

theorem few_entities_bounded_witness:
  "card {i. i < length (t_entries (snd (wake_tac_decay demo_tac1)))
     \<and> \<not> vacant (te_key_hash (t_entries (snd (wake_tac_decay demo_tac1)) ! i))
     \<and> te_entity_hash (t_entries (snd (wake_tac_decay demo_tac1)) ! i) = entity_hash_of demo_tac [10, 0, 0, 1]} \<le> 2"
proof -
  have "few_init {[10, 0, 0, 1]} demo_tac"
    using demo_tac_init by (simp add: few_init_def demo_tac_def tac_header_def tac_cfg_or_def Let_def)
  then have "reach (few_init {[10, 0, 0, 1]}) (few_step {[10, 0, 0, 1]}) demo_tac1"
    unfolding demo_tac1_def by (rule reach_step [OF reach_init]) (rule fs_reinforce, simp)
  then have r: "reach (few_init {[10, 0, 0, 1]}) (few_step {[10, 0, 0, 1]}) (snd (wake_tac_decay demo_tac1))"
    by (rule reach_step) (rule fs_decay)
  have "t_header (snd (wake_tac_decay demo_tac1)) = t_header demo_tac"
    using wake_tac_decay_spec(2) [OF tac.reach_inv [OF demo_tac1_reach [of UNIV]]] demo_tac1_header by simp
  with few_entities_bounded [OF r, of "entity_hash_of demo_tac [10, 0, 0, 1]"] show ?thesis
    by (simp add: demo_tac_def tac_header_def tac_cfg_or_def Let_def)
qed

end
