(* ===== verification/Wake_Layout.thy ===== *)
theory Wake_Layout
  imports Wake_Tac
begin

text \<open>
  The bytes of the structures in a table file: for each of them a function that lays it out and one
  that reads it back, at the offsets of \<open>src/src/wake_entity.h\<close>, \<open>src/src/wake_pheromone.h\<close> and
  \<open>src/src/wake_tac.h\<close>.  The sources fix the sizes by static assertions, and with natural alignment
  no structure has padding beyond the fields it declares, which are zero.  The interface
  \<open>fixed_layout\<close> says what a pair of such functions promises; arrays of structures follow from it.
  The last section reads a whole table from the bytes of a file and writes it to them.
\<close>

section \<open>Fixed layouts\<close>

text \<open>\<open>n\<close> bytes at \<open>i\<close>.\<close>

definition bytes_at :: "bytes \<Rightarrow> nat \<Rightarrow> nat \<Rightarrow> bytes" where
  "bytes_at b i n = take n (drop i b)"

lemma length_bytes_at [simp]: "i + n \<le> length b \<Longrightarrow> length (bytes_at b i n) = n"
  by (simp add: bytes_at_def)

text \<open>The first \<open>k\<close> elements of an array of structures of \<open>n\<close> bytes.\<close>

definition raw_array :: "nat \<Rightarrow> (bytes \<Rightarrow> 'a) \<Rightarrow> nat \<Rightarrow> bytes \<Rightarrow> 'a list" where
  "raw_array n get k b = map (\<lambda>i. get (drop (i * n) b)) [0..<k]"

lemma length_raw_array [simp]: "length (raw_array n get k b) = k"
  by (simp add: raw_array_def)

lemma raw_array_Suc: "raw_array n get (Suc k) b = get b # raw_array n get k (drop n b)"
  by (simp add: raw_array_def upt_conv_Cons map_Suc_upt [symmetric] add.commute del: upt_Suc)

locale fixed_layout =
  fixes put :: "'a \<Rightarrow> bytes"
    and get :: "bytes \<Rightarrow> 'a"
    and width :: nat
    and ok :: "'a \<Rightarrow> bool"
  assumes length_put: "ok x \<Longrightarrow> length (put x) = width"
    and get_put: "ok x \<Longrightarrow> get (put x @ rest) = x"
begin

lemma length_array: "\<forall>x\<in>set xs. ok x \<Longrightarrow> length (concat (map put xs)) = length xs * width"
  by (induction xs) (simp_all add: length_put)

lemma get_array: "\<forall>x\<in>set xs. ok x \<Longrightarrow> raw_array width get (length xs) (concat (map put xs) @ rest) = xs"
  by (induction xs) (simp_all add: raw_array_Suc length_put get_put, simp add: raw_array_def)

lemma put_inject: "ok x \<Longrightarrow> ok y \<Longrightarrow> put x = put y \<longleftrightarrow> x = y"
  by (metis get_put)

end

text \<open>The array of a structure: its elements in a row, and the same array read back.\<close>

interpretation u64s: fixed_layout "le_bytes 8 :: u64 \<Rightarrow> bytes" "\<lambda>b. le_load (bytes_at b 0 8)" 8 "\<lambda>_. True"
  by unfold_locales (simp_all add: bytes_at_def)

interpretation u32s: fixed_layout "le_bytes 4 :: u32 \<Rightarrow> bytes" "\<lambda>b. le_load (bytes_at b 0 4)" 4 "\<lambda>_. True"
  by unfold_locales (simp_all add: bytes_at_def)

section \<open>Entity\<close>

definition raw_entity :: "bytes \<Rightarrow> wake_entity_t" where
  "raw_entity b = \<lparr>en_eclass = b ! 0, en_etype = b ! 1, en_value_len = b ! 2, en_flags = b ! 3,
     en_reserved = le_load (bytes_at b 4 4), en_value = bytes_at b 8 56\<rparr>"

interpretation entity_layout: fixed_layout entity_bytes raw_entity 64 "\<lambda>en. length (en_value en) = 56"
  by unfold_locales (simp_all add: entity_bytes_def raw_entity_def bytes_at_def nth_append)

section \<open>Pheromone table\<close>

definition pht_entry_bytes :: "wake_pheromone_entry_t \<Rightarrow> bytes" where
  "pht_entry_bytes e =
     le_bytes 8 (pe_key_hash e) @ le_bytes 4 (pe_confidence e) @ le_bytes 4 (pe_hit_count e)
   @ le_bytes 4 (pe_last_update e) @ le_bytes 2 (pe_src_count e) @ [pe_action e, pe_outcome e]
   @ le_bytes 4 (pe_first_seen e) @ le_bytes 4 (pe_tenant_id e) @ le_bytes 4 (pe_version e)
   @ le_bytes 4 (pe_phase_flags e) @ concat (map (le_bytes 8) (pe_reasons e)) @ entity_bytes (pe_entity e)"

definition raw_pht_entry :: "bytes \<Rightarrow> wake_pheromone_entry_t" where
  "raw_pht_entry b =
     \<lparr>pe_key_hash = le_load (bytes_at b 0 8), pe_confidence = le_load (bytes_at b 8 4),
      pe_hit_count = le_load (bytes_at b 12 4), pe_last_update = le_load (bytes_at b 16 4),
      pe_src_count = le_load (bytes_at b 20 2), pe_action = b ! 22, pe_outcome = b ! 23,
      pe_first_seen = le_load (bytes_at b 24 4), pe_tenant_id = le_load (bytes_at b 28 4),
      pe_version = le_load (bytes_at b 32 4), pe_phase_flags = le_load (bytes_at b 36 4),
      pe_reasons = raw_array 8 (\<lambda>b. le_load (bytes_at b 0 8)) 3 (drop 40 b),
      pe_entity = raw_entity (drop 64 b)\<rparr>"

definition pht_header_bytes :: "wake_pheromone_header_t \<Rightarrow> bytes" where
  "pht_header_bytes h =
     le_bytes 8 (ph_magic h) @ le_bytes 4 (ph_format_version h) @ le_bytes 4 (ph_capacity h)
   @ le_bytes 8 (ph_mask h) @ ph_hash_key h @ le_bytes 4 (ph_epoch h)
   @ le_bytes 4 (ph_decay_factor_fp16 h) @ le_bytes 4 (ph_noise_floor h) @ replicate 204 0"

definition raw_pht_header :: "bytes \<Rightarrow> wake_pheromone_header_t" where
  "raw_pht_header b =
     \<lparr>ph_magic = le_load (bytes_at b 0 8), ph_format_version = le_load (bytes_at b 8 4),
      ph_capacity = le_load (bytes_at b 12 4), ph_mask = le_load (bytes_at b 16 8),
      ph_hash_key = bytes_at b 24 16, ph_epoch = le_load (bytes_at b 40 4),
      ph_decay_factor_fp16 = le_load (bytes_at b 44 4), ph_noise_floor = le_load (bytes_at b 48 4)\<rparr>"

interpretation pht_entry: fixed_layout pht_entry_bytes raw_pht_entry 128
    "\<lambda>e. length (pe_reasons e) = 3 \<and> length (en_value (pe_entity e)) = 56"
proof unfold_locales
  fix e :: wake_pheromone_entry_t and rest :: bytes
  assume ok: "length (pe_reasons e) = 3 \<and> length (en_value (pe_entity e)) = 56"
  have r: "length (concat (map (le_bytes 8) (pe_reasons e))) = 24"
    using u64s.length_array [of "pe_reasons e"] ok by simp
  show "length (pht_entry_bytes e) = 128"
    using ok r by (simp add: pht_entry_bytes_def entity_layout.length_put)
  have "raw_array 8 (\<lambda>b. le_load (bytes_at b 0 8)) 3 (concat (map (le_bytes 8) (pe_reasons e)) @ rest') = pe_reasons e"
    for rest' using u64s.get_array [of "pe_reasons e" rest'] ok by simp
  then show "raw_pht_entry (pht_entry_bytes e @ rest) = e"
    using ok r by (simp add: raw_pht_entry_def pht_entry_bytes_def bytes_at_def nth_append entity_layout.get_put)
qed

interpretation pht_header: fixed_layout pht_header_bytes raw_pht_header 256 "\<lambda>h. length (ph_hash_key h) = 16"
  by unfold_locales (simp_all add: pht_header_bytes_def raw_pht_header_def bytes_at_def)

section \<open>Coupling table\<close>

definition budget_bytes :: "wake_tac_budget_t \<Rightarrow> bytes" where
  "budget_bytes x = le_bytes 2 (tb_source_id x) @ le_bytes 2 (tb_spent x)"

definition raw_budget :: "bytes \<Rightarrow> wake_tac_budget_t" where
  "raw_budget b = \<lparr>tb_source_id = le_load (bytes_at b 0 2), tb_spent = le_load (bytes_at b 2 2)\<rparr>"

interpretation budget_layout: fixed_layout budget_bytes raw_budget 4 "\<lambda>_. True"
  by unfold_locales (simp_all add: budget_bytes_def raw_budget_def bytes_at_def)

definition tac_entry_bytes :: "wake_tac_entry_t \<Rightarrow> bytes" where
  "tac_entry_bytes e =
     le_bytes 8 (te_key_hash e) @ le_bytes 4 (te_weight e) @ le_bytes 4 (te_reinf_count e)
   @ le_bytes 4 (te_last_reinf e) @ le_bytes 4 (te_first_seen e) @ le_bytes 4 (te_version e)
   @ le_bytes 4 (te_t_lo e) @ le_bytes 4 (te_t_hi e) @ le_bytes 2 (te_eta_max_fp16 e)
   @ [te_src_count e, te_quarantine e] @ concat (map budget_bytes (te_budget e)) @ replicate 4 0
   @ le_bytes 8 (te_entity_hash e) @ [te_ident_len e, te_ident_flags e] @ te_ident e"

definition raw_tac_entry :: "bytes \<Rightarrow> wake_tac_entry_t" where
  "raw_tac_entry b =
     \<lparr>te_key_hash = le_load (bytes_at b 0 8), te_weight = le_load (bytes_at b 8 4),
      te_reinf_count = le_load (bytes_at b 12 4), te_last_reinf = le_load (bytes_at b 16 4),
      te_first_seen = le_load (bytes_at b 20 4), te_version = le_load (bytes_at b 24 4),
      te_t_lo = le_load (bytes_at b 28 4), te_t_hi = le_load (bytes_at b 32 4),
      te_eta_max_fp16 = le_load (bytes_at b 36 2), te_src_count = b ! 38, te_quarantine = b ! 39,
      te_budget = raw_array 4 raw_budget 5 (drop 40 b), te_entity_hash = le_load (bytes_at b 64 8),
      te_ident_len = b ! 72, te_ident_flags = b ! 73, te_ident = bytes_at b 74 54\<rparr>"

definition tac_occ_bytes :: "wake_tac_occ_t \<Rightarrow> bytes" where
  "tac_occ_bytes oc = le_bytes 8 (to_entity_hash oc) @ le_bytes 4 (to_live_count oc) @ replicate 4 0
     @ concat (map (le_bytes 4) (to_slot oc))"

definition raw_tac_occ :: "bytes \<Rightarrow> wake_tac_occ_t" where
  "raw_tac_occ b = \<lparr>to_entity_hash = le_load (bytes_at b 0 8), to_live_count = le_load (bytes_at b 8 4),
     to_slot = raw_array 4 (\<lambda>b. le_load (bytes_at b 0 4)) 32 (drop 16 b)\<rparr>"

definition tac_header_bytes :: "wake_tac_header_t \<Rightarrow> bytes" where
  "tac_header_bytes h =
     le_bytes 8 (th_magic h) @ le_bytes 4 (th_format_version h) @ le_bytes 4 (th_capacity h)
   @ le_bytes 8 (th_mask h) @ th_hash_key h @ le_bytes 4 (th_epoch h)
   @ le_bytes 4 (th_decay_novel_fp16 h) @ le_bytes 4 (th_decay_corr_fp16 h) @ le_bytes 4 (th_noise_floor h)
   @ le_bytes 4 (th_occ_slots h) @ le_bytes 4 (th_budget_per_source h) @ le_bytes 2 (th_per_entity_cap h)
   @ le_bytes 2 (th_corroboration_src_min h) @ le_bytes 4 (th_tick_seconds h)
   @ le_bytes 4 (th_quarantine_min_w h) @ replicate 180 0"

definition raw_tac_header :: "bytes \<Rightarrow> wake_tac_header_t" where
  "raw_tac_header b =
     \<lparr>th_magic = le_load (bytes_at b 0 8), th_format_version = le_load (bytes_at b 8 4),
      th_capacity = le_load (bytes_at b 12 4), th_mask = le_load (bytes_at b 16 8),
      th_hash_key = bytes_at b 24 16, th_epoch = le_load (bytes_at b 40 4),
      th_decay_novel_fp16 = le_load (bytes_at b 44 4), th_decay_corr_fp16 = le_load (bytes_at b 48 4),
      th_noise_floor = le_load (bytes_at b 52 4), th_occ_slots = le_load (bytes_at b 56 4),
      th_budget_per_source = le_load (bytes_at b 60 4), th_per_entity_cap = le_load (bytes_at b 64 2),
      th_corroboration_src_min = le_load (bytes_at b 66 2), th_tick_seconds = le_load (bytes_at b 68 4),
      th_quarantine_min_w = le_load (bytes_at b 72 4)\<rparr>"

interpretation tac_entry: fixed_layout tac_entry_bytes raw_tac_entry 128
    "\<lambda>e. length (te_budget e) = 5 \<and> length (te_ident e) = 54"
proof unfold_locales
  fix e :: wake_tac_entry_t and rest :: bytes
  assume ok: "length (te_budget e) = 5 \<and> length (te_ident e) = 54"
  have r: "length (concat (map budget_bytes (te_budget e))) = 20"
    using budget_layout.length_array [of "te_budget e"] ok by simp
  show "length (tac_entry_bytes e) = 128" using ok r by (simp add: tac_entry_bytes_def)
  have "raw_array 4 raw_budget 5 (concat (map budget_bytes (te_budget e)) @ rest') = te_budget e"
    for rest' using budget_layout.get_array [of "te_budget e" rest'] ok by simp
  then show "raw_tac_entry (tac_entry_bytes e @ rest) = e"
    using ok r by (simp add: raw_tac_entry_def tac_entry_bytes_def bytes_at_def nth_append)
qed

interpretation tac_occ_layout: fixed_layout tac_occ_bytes raw_tac_occ 144 "\<lambda>oc. length (to_slot oc) = 32"
proof unfold_locales
  fix oc :: wake_tac_occ_t and rest :: bytes
  assume ok: "length (to_slot oc) = 32"
  show "length (tac_occ_bytes oc) = 144"
    using ok u32s.length_array [of "to_slot oc"] by (simp add: tac_occ_bytes_def)
  have "raw_array 4 (\<lambda>b. le_load (bytes_at b 0 4)) 32 (concat (map (le_bytes 4) (to_slot oc)) @ rest') = to_slot oc"
    for rest' using u32s.get_array [of "to_slot oc" rest'] ok by simp
  then show "raw_tac_occ (tac_occ_bytes oc @ rest) = oc"
    by (simp add: raw_tac_occ_def tac_occ_bytes_def bytes_at_def)
qed

interpretation tac_header_layout: fixed_layout tac_header_bytes raw_tac_header 256 "\<lambda>h. length (th_hash_key h) = 16"
  by unfold_locales (simp_all add: tac_header_bytes_def raw_tac_header_def bytes_at_def)

section \<open>Files\<close>

text \<open>
  What a file holds for \<open>wake_pheromone_open\<close> and \<open>wake_tac_open\<close>: a header if there are 256 bytes to
  read, the entries behind it, and for the coupling table the sidecar behind \<open>capacity\<close> entries.
\<close>

definition pht_parse :: "bytes \<Rightarrow> pht_file" where
  "pht_parse b =
     \<lparr>pf_size = length b, pf_header = (if length b < 256 then None else Some (raw_pht_header b)),
      pf_entries = raw_array 128 raw_pht_entry ((length b - 256) div 128) (drop 256 b)\<rparr>"

definition tac_parse :: "bytes \<Rightarrow> tac_file" where
  "tac_parse b =
     (let cap = unat (th_capacity (raw_tac_header b)); n = (length b - 256) div 128; sidecar = 256 + 128 * cap
      in \<lparr>tf_size = length b, tf_header = (if length b < 256 then None else Some (raw_tac_header b)),
          tf_entries = raw_array 128 raw_tac_entry (if cap < n then cap else n) (drop 256 b),
          tf_occ = raw_array 144 raw_tac_occ ((length b - sidecar) div 144) (drop sidecar b)\<rparr>)"

text \<open>The mapped bytes of a table.\<close>

definition pht_image :: "wake_pheromone_t \<Rightarrow> bytes" where
  "pht_image pt = pht_header_bytes (pt_header pt) @ concat (map pht_entry_bytes (pt_entries pt))"

definition tac_image :: "wake_tac_t \<Rightarrow> bytes" where
  "tac_image t = tac_header_bytes (t_header t) @ concat (map tac_entry_bytes (t_entries t))
     @ concat (map tac_occ_bytes (t_occ t))"

text \<open>A file that is opened holds as many structures as the header says.\<close>

lemma pht_parse_length: "length (pf_entries (pht_parse b)) = (length b - 256) div 128"
  by (simp add: pht_parse_def)

lemma tac_parse_lengths:
  assumes "tf_header (tac_parse b) = Some h" "tac_map_size (th_capacity h) (th_occ_slots h) \<le> tf_size (tac_parse b)"
  shows "length (tf_entries (tac_parse b)) = unat (th_capacity h)"
    and "unat (th_occ_slots h) \<le> length (tf_occ (tac_parse b))"
  using assms
  by (auto simp: tac_parse_def Let_def tac_map_size_def less_eq_div_iff_mult_less_eq not_less split: if_splits)

lemma pht_parse_image:
  assumes "length (ph_hash_key (pt_header pt)) = 16"
    and "\<forall>e\<in>set (pt_entries pt). length (pe_reasons e) = 3 \<and> length (en_value (pe_entity e)) = 56"
  shows "length (pht_image pt) = 256 + 128 * length (pt_entries pt)"
    and "pht_parse (pht_image pt) = \<lparr>pf_size = 256 + 128 * length (pt_entries pt),
           pf_header = Some (pt_header pt), pf_entries = pt_entries pt\<rparr>"
proof -
  have h: "length (pht_header_bytes (pt_header pt)) = 256" using assms(1) by (rule pht_header.length_put)
  show len: "length (pht_image pt) = 256 + 128 * length (pt_entries pt)"
    using h pht_entry.length_array [OF assms(2)] by (simp add: pht_image_def)
  have "raw_pht_header (pht_image pt) = pt_header pt"
    unfolding pht_image_def using assms(1) by (rule pht_header.get_put)
  moreover have "drop 256 (pht_image pt) = concat (map pht_entry_bytes (pt_entries pt)) @ []"
    using h by (simp add: pht_image_def)
  ultimately show "pht_parse (pht_image pt) = \<lparr>pf_size = 256 + 128 * length (pt_entries pt),
           pf_header = Some (pt_header pt), pf_entries = pt_entries pt\<rparr>"
    using pht_entry.get_array [OF assms(2), of "[]"] by (simp add: pht_parse_def len)
qed

lemma tac_parse_image:
  assumes "length (th_hash_key (t_header t)) = 16" "length (t_entries t) = unat (th_capacity (t_header t))"
    and e: "\<forall>e\<in>set (t_entries t). length (te_budget e) = 5 \<and> length (te_ident e) = 54"
    and oc: "\<forall>oc\<in>set (t_occ t). length (to_slot oc) = 32"
  shows "length (tac_image t) = 256 + 128 * length (t_entries t) + 144 * length (t_occ t)"
    and "tac_parse (tac_image t) = \<lparr>tf_size = 256 + 128 * length (t_entries t) + 144 * length (t_occ t),
           tf_header = Some (t_header t), tf_entries = t_entries t, tf_occ = t_occ t\<rparr>"
proof -
  have h: "length (tac_header_bytes (t_header t)) = 256" using assms(1) by (rule tac_header_layout.length_put)
  note el = tac_entry.length_array [OF e] and ol = tac_occ_layout.length_array [OF oc]
  show len: "length (tac_image t) = 256 + 128 * length (t_entries t) + 144 * length (t_occ t)"
    using h el ol by (simp add: tac_image_def)
  have rh: "raw_tac_header (tac_image t) = t_header t"
    unfolding tac_image_def using assms(1) by (rule tac_header_layout.get_put)
  have d: "drop 256 (tac_image t) = concat (map tac_entry_bytes (t_entries t)) @ concat (map tac_occ_bytes (t_occ t))"
    using h by (simp add: tac_image_def)
  have s: "drop (256 + 128 * length (t_entries t)) (tac_image t) = concat (map tac_occ_bytes (t_occ t)) @ []"
    using h el by (simp add: tac_image_def)
  show "tac_parse (tac_image t) = \<lparr>tf_size = 256 + 128 * length (t_entries t) + 144 * length (t_occ t),
           tf_header = Some (t_header t), tf_entries = t_entries t, tf_occ = t_occ t\<rparr>"
    using tac_entry.get_array [OF e] tac_occ_layout.get_array [OF oc, of "[]"] s
    by (simp add: tac_parse_def Let_def rh d len assms(2) [symmetric] not_less less_eq_div_iff_mult_less_eq)
qed

end
