(* ===== verification/Wake_Tac_Crafted.thy ===== *)
theory Wake_Tac_Crafted
  imports Wake_Tac_Few Wake_Layout
begin

text \<open>
  The coupling table on a file that no table wrote.  \<open>wake_tac_open\<close> checks the header and the size;
  the entries and the sidecar behind the header can have any contents.  The probes stay inside the
  arrays regardless; the one access that trusts a counter of the file is that of \<open>occ_del_slot\<close>,
  and a decay pass, which rebuilds the sidecar, makes it safe for good.
\<close>

section \<open>A sound sidecar\<close>

text \<open>The arrays have their sizes; every sidecar entry has 32 slots and counts at most 32 in use.\<close>

definition sidecar_ok :: "wake_tac_t \<Rightarrow> bool" where
  "sidecar_ok t \<longleftrightarrow> tac_layout t \<and> (\<forall>oc\<in>set (t_occ t). occ_ok oc)"

lemma sidecar_put_tac [simp]: "sidecar_ok (put_tac i e t) = sidecar_ok t"
  by (simp add: sidecar_ok_def)

lemma sidecar_put_occ: "sidecar_ok t \<Longrightarrow> occ_ok oc \<Longrightarrow> sidecar_ok (put_occ j oc t)"
  by (auto simp: sidecar_ok_def dest: subsetD [OF set_update_subset_insert])

lemma sidecar_nth: "sidecar_ok t \<Longrightarrow> j < length (t_occ t) \<Longrightarrow> occ_ok (t_occ t ! j)"
  by (simp add: sidecar_ok_def)

text \<open>The search returns a position inside the sidecar.\<close>

lemma occ_find_loop_sidecar:
  assumes "sidecar_ok t"
  shows "sidecar_ok (snd (occ_find_loop t eh claim ps))
    \<and> (\<forall>j. fst (occ_find_loop t eh claim ps) = Some j \<longrightarrow> j < length (t_occ (snd (occ_find_loop t eh claim ps))))"
proof (induction ps)
  case (Cons p ps)
  have j: "occ_idx t eh p < length (t_occ t)" using assms occ_idx_less by (simp add: sidecar_ok_def)
  have "occ_ok ((t_occ t ! occ_idx t eh p)\<lparr>to_live_count := 0, to_entity_hash := eh\<rparr>)"
    using sidecar_nth [OF assms j] by (simp add: occ_ok_def)
  with Cons j assms show ?case by (simp add: Let_def sidecar_put_occ)
qed (simp add: assms)

lemmas occ_find_sidecar = occ_find_loop_sidecar [where ps = "[0..<WAKE_TAC_OCC_PROBE_MAX]", folded occ_find_def]

lemma occ_add_slot_sidecar:
  assumes "sidecar_ok t"
  shows "sidecar_ok (snd (occ_add_slot t eh idx))"
proof -
  obtain r t1 where f: "occ_find t eh True = (r, t1)" by fastforce
  have t1: "sidecar_ok t1" "\<And>j. r = Some j \<Longrightarrow> j < length (t_occ t1)"
    using occ_find_sidecar [OF assms, of eh True] by (simp_all add: f)
  show ?thesis
  proof (cases r)
    case (Some j)
    define oc where "oc = t_occ t1 ! j"
    have "occ_ok (oc\<lparr>to_slot := (to_slot oc)[unat (to_live_count oc) := idx], to_live_count := to_live_count oc + 1\<rparr>)"
      if "\<not> to_live_count oc \<ge> WAKE_TAC_PER_ENTITY_CAP_MAX"
    proof -
      have "unat (to_live_count oc) < 32" using that by (simp add: not_le word_less_nat_alt)
      then have "unat (to_live_count oc + 1) = Suc (unat (to_live_count oc))" 
        by (intro unat_Suc_less [of _ 32]) simp_all
      with \<open>unat (to_live_count oc) < 32\<close> sidecar_nth [OF t1(1) t1(2) [OF Some]] show ?thesis
        by (simp add: occ_ok_def oc_def word_le_nat_alt)
    qed
    with t1(1) Some show ?thesis
      by (simp add: occ_add_slot_def f Let_def oc_def [symmetric] sidecar_put_occ)
  qed (simp add: occ_add_slot_def f t1)
qed

lemma occ_del_slot_sidecar:
  assumes "sidecar_ok t"
  shows "sidecar_ok (occ_del_slot t eh idx)"
proof (cases "fst (occ_find t eh False)")
  case (Some j)
  have no_claim: "snd (occ_find_loop t eh False ps) = t" for ps by (induction ps) (simp_all add: Let_def)
  define oc where "oc = t_occ t ! j"
  have oc: "occ_ok oc"
    using sidecar_nth [OF assms] occ_find_sidecar [OF assms, of eh False] no_claim Some
    by (simp add: oc_def occ_find_def)
  have "occ_ok (oc\<lparr>to_slot := ys, to_live_count := to_live_count oc - 1\<rparr>)"
    if "find_index P (take (min (unat (to_live_count oc)) 32) (to_slot oc)) = Some i" "length ys = 32" for P i ys
  proof -
    have "to_live_count oc \<noteq> 0" using that(1) by (auto dest: find_index_SomeD)
    then have "unat (to_live_count oc - 1) = unat (to_live_count oc) - 1" by (simp add: unat_minus_one)
    with oc that(2) show ?thesis by (auto simp: occ_ok_def word_le_nat_alt)
  qed
  with assms oc Some show ?thesis
    by (auto simp: occ_del_slot_def Let_def oc_def [symmetric] occ_ok_def intro!: sidecar_put_occ split: option.split)
qed (simp add: occ_del_slot_def assms)

section \<open>Every operation keeps it\<close>

lemma retire_victim_sidecar: "sidecar_ok t \<Longrightarrow> sidecar_ok (retire_victim eh v t)"
  by (simp add: retire_victim_def occ_del_slot_sidecar)

lemma publish_edge_sidecar: "sidecar_ok t \<Longrightarrow> sidecar_ok (snd (publish_edge eh c e delta t))"
  using occ_add_slot_sidecar [of "put_tac (unat c) e t" eh c]
  by (simp add: publish_edge_def Let_def case_prod_unfold)

lemma insert_edge_sidecar:
  "sidecar_ok t \<Longrightarrow> sidecar_ok (snd (insert_edge t eh key t_lo t_hi eta_hi delta w0_src w1_src now_rel k))"
  by (simp add: insert_edge_eq Let_def case_prod_unfold publish_edge_sidecar retire_victim_sidecar)

lemma apply_edge_sidecar:
  "sidecar_ok t \<Longrightarrow> sidecar_ok (snd (apply_edge t eh key t_lo t_hi w0_eta w0_src w1_eta w1_src now_rel))"
  by (simp add: apply_edge_def Let_def case_prod_unfold insert_edge_sidecar)

lemma batch_loop_sidecar:
  "sidecar_ok t \<Longrightarrow> sidecar_ok (snd (batch_loop eh key acts now_rel ps applied t))"
proof (induction ps arbitrary: applied t)
  case (Cons p ps)
  then show ?case
    by (cases p) (auto simp: Let_def case_prod_unfold intro!: Cons.IH apply_edge_sidecar)
qed simp

lemma tac_decay_loop_sidecar: "sidecar_ok t \<Longrightarrow> sidecar_ok (snd (tac_decay_loop is ev t))"
  by (induction "is" arbitrary: ev t) (simp_all add: Let_def case_prod_unfold occ_add_slot_sidecar)

text \<open>Decay needs nothing of the counters it finds.\<close>

lemma wake_tac_decay_sidecar:
  assumes "tac_layout t" "\<forall>oc\<in>set (t_occ t). length (to_slot oc) = 32"
  shows "sidecar_ok (snd (wake_tac_decay t))"
proof -
  have "sidecar_ok (clear_occ t)"
    using assms by (auto simp: sidecar_ok_def tac_layout_def clear_occ_def occ_ok_def)
  then show ?thesis by (simp add: wake_tac_decay_def tac_decay_loop_sidecar)
qed

lemma step_sidecar:
  assumes "sidecar_ok t" "few_step Ks t t'"
  shows "sidecar_ok t'"
  using assms(2)
proof cases
  case (fs_reinforce key t_a t_b eta s now_rel)
  with assms(1) show ?thesis by (simp add: wake_tac_reinforce_def Let_def apply_edge_sidecar)
next
  case (fs_batch key acts now_rel)
  with assms(1) show ?thesis by (simp add: wake_tac_reinforce_batch_def batch_loop_sidecar)
next
  case fs_decay
  then show ?thesis using assms(1) wake_tac_decay_sidecar [of t] by (simp add: sidecar_ok_def occ_ok_def)
next
  case fs_reset
  with assms(1) show ?thesis
    by (auto simp: wake_tac_reset_def sidecar_ok_def tac_layout_def occ_ok_def zero_occ_def)
next
  case (fs_reopen env n es os)
  then have "t' = t"
    using assms(1) by (auto simp: wake_tac_open_def Let_def sidecar_ok_def tac_layout_def split: if_splits)
  with assms(1) show ?thesis by simp
qed

section \<open>Crafted files\<close>

text \<open>A file as large as its size says, with 32 slots in each sidecar entry, and any contents.\<close>

definition file_sized :: "tac_file \<Rightarrow> bool" where
  "file_sized file \<longleftrightarrow> (\<forall>h. tf_header file = Some h \<longrightarrow>
       tac_map_size (th_capacity h) (th_occ_slots h) \<le> tf_size file \<longrightarrow>
       unat (th_capacity h) \<le> length (tf_entries file) \<and> unat (th_occ_slots h) \<le> length (tf_occ file))
     \<and> (\<forall>oc\<in>set (tf_occ file). length (to_slot oc) = 32)"

lemma open_layout:
  assumes "wake_tac_open env file = Inr t" "file_sized file"
  shows "tac_layout t" "\<forall>oc\<in>set (t_occ t). length (to_slot oc) = 32"
proof -
  from assms(1) obtain h where h: "tf_header file = Some h" "\<not> open_refused h"
    "tac_map_size (th_capacity h) (th_occ_slots h) \<le> tf_size file"
    and t: "t = \<lparr>t_header = h, t_entries = take (unat (th_capacity h)) (tf_entries file),
       t_occ = take (unat (th_occ_slots h)) (tf_occ file),
       t_map_size = tac_map_size (th_capacity h) (th_occ_slots h)\<rparr>"
    by (auto simp: wake_tac_open_def Let_def split: if_splits option.splits)
  have "tac_header_ok h" using h(2) by (auto simp: open_refused_def tac_header_ok_def not_less not_le)
  with h assms(2) show "tac_layout t" by (simp add: t tac_layout_def file_sized_def min_absorb2)
  show "\<forall>oc\<in>set (t_occ t). length (to_slot oc) = 32"
    using assms(2) by (auto simp: t file_sized_def dest: in_set_takeD)
qed

text \<open>The bytes of a file that is long enough hold the structures that its header announces.\<close>

lemma raw_tac_occ_slots: "length (to_slot (raw_tac_occ b)) = 32"
  by (simp add: raw_tac_occ_def)

lemma parsed_layout:
  assumes "wake_tac_open env (tac_parse b) = Inr t"
  shows "tac_layout t" "\<forall>oc\<in>set (t_occ t). length (to_slot oc) = 32"
proof -
  obtain h where "tf_header (tac_parse b) = Some h"
    "tac_map_size (th_capacity h) (th_occ_slots h) \<le> tf_size (tac_parse b)"
    using assms by (auto simp: wake_tac_open_def Let_def split: if_splits option.splits)
  with tac_parse_lengths [OF this] have "file_sized (tac_parse b)"
    by (auto simp: file_sized_def tac_parse_def Let_def raw_array_def raw_tac_occ_slots)
  from open_layout [OF assms this]
  show "tac_layout t" "\<forall>oc\<in>set (t_occ t). length (to_slot oc) = 32" by auto
qed

text \<open>A table that was opened from any bytes and decayed once.\<close>

definition healed_init :: "wake_tac_t \<Rightarrow> bool" where
  "healed_init t \<longleftrightarrow>
     (\<exists>env b t0. wake_tac_open env (tac_parse b) = Inr t0 \<and> t = snd (wake_tac_decay t0))"

interpretation healed: invariant_machine healed_init "few_step UNIV" sidecar_ok
proof unfold_locales
  show "sidecar_ok t" if "healed_init t" for t
    using that wake_tac_decay_sidecar [OF parsed_layout] by (auto simp: healed_init_def)
qed (rule step_sidecar)

text \<open>
  C19. Take any bytes that \<open>wake_tac_open\<close> accepts as a file, decay the table once, and then make any sequence of calls: every probe of the edges and of the
  sidecar stays inside its array, and every sidecar entry counts at most its 32 slots, so that
  \<open>occ_del_slot\<close>, which reads the slot at the counter, stays inside too.
\<close>

theorem crafted_file_heals:
  assumes "reach healed_init (few_step UNIV) t"
  shows "(\<forall>k d. unat (tac_idx t k d) < length (t_entries t) \<and> occ_idx t k d < length (t_occ t))
    \<and> (\<forall>oc\<in>set (t_occ t). length (to_slot oc) = 32 \<and> unat (to_live_count oc) \<le> 32)"
proof -
  have ok: "sidecar_ok t" by (rule healed.reach_inv [OF assms])
  then have lay: "tac_layout t" by (simp add: sidecar_ok_def)
  with ok show ?thesis
    using tac_slot_less [OF lay] occ_idx_less [OF lay]
    by (simp add: sidecar_ok_def occ_ok_def word_le_nat_alt tac_slot_def)
qed

text \<open>The header of the demo table before a sidecar that counts 99 slots in use everywhere.\<close>

definition crafted_table :: wake_tac_t where
  "crafted_table = demo_tac\<lparr>t_occ := replicate 16 (zero_occ\<lparr>to_live_count := 99, to_entity_hash := 5\<rparr>)\<rparr>"

definition all_ok :: open_env where
  "all_ok = \<lparr>oe_open = True, oe_fstat = True, oe_mmap = True, oe_malloc = True\<rparr>"

theorem crafted_file_heals_witness:
  "\<exists>t0. wake_tac_open all_ok (tac_parse (tac_image crafted_table)) = Inr t0
     \<and> filter (\<lambda>oc. unat (to_live_count oc) > 32) (t_occ (snd (wake_tac_decay t0))) = []"
proof -
  have "tac_parse (tac_image crafted_table) = \<lparr>tf_size = tac_map_size 8 16, tf_header = Some (t_header demo_tac),
     tf_entries = t_entries demo_tac, tf_occ = t_occ crafted_table\<rparr>"
    by (subst tac_parse_image(2)) (simp_all add: crafted_table_def demo_tac_def Let_def tac_header_def tac_cfg_or_def
        zero_tac_entry_def zero_occ_def tac_map_size_def)
  then obtain t0 where t0: "wake_tac_open all_ok (tac_parse (tac_image crafted_table)) = Inr t0"
    by (simp add: wake_tac_open_def all_ok_def open_refused_def demo_tac_def tac_header_def
        tac_cfg_or_def is_power_of_2_def Let_def)
  then have "healed_init (snd (wake_tac_decay t0))" unfolding healed_init_def by blast
  then have "reach healed_init (few_step UNIV) (snd (wake_tac_decay t0))" by (rule reach_init)
  from crafted_file_heals [OF this] t0 show ?thesis by (auto simp: filter_empty_conv not_less)
qed

end
