(* ===== verification/Wake_Persist.thy ===== *)
theory Wake_Persist
  imports Wake_Layout Wake_Pheromone_Props Wake_Tac_Few
begin

text \<open>
  What survives in the file of a table.  The mapping is the file: a process that opens it later reads
  the bytes of the structures.  Here a table goes through its bytes: every table that the operations
  can produce is found again, field by field, by the process that opens its file.
\<close>

section \<open>Pheromone table\<close>

definition pht_storable :: "wake_pheromone_t \<Rightarrow> bool" where
  "pht_storable pt \<longleftrightarrow> length (ph_hash_key (pt_header pt)) = 16
     \<and> (\<forall>e\<in>set (pt_entries pt). length (en_value (pe_entity e)) = 56)"

lemma pht_storable_put:
  "pht_storable pt \<Longrightarrow> (i < length (pt_entries pt) \<Longrightarrow> length (en_value (pe_entity e)) = 56) \<Longrightarrow>
     pht_storable (put_entry i e pt)"
  unfolding pht_storable_def put_entry_def by (auto dest!: ball_list_update [of "pt_entries pt" _ i e])

lemma pht_storable_nth:
  "pht_storable pt \<Longrightarrow> i < length (pt_entries pt) \<Longrightarrow> length (en_value (pe_entity (pt_entries pt ! i))) = 56"
  by (simp add: pht_storable_def)

lemma entity_of_updates [simp]:
  "pe_entity (hit_entry now dl inc ph e) = pe_entity e" "pe_entity (note_entry w e) = pe_entity e"
  "pe_entity (fill_entry k en a oc tn now dl ph e) = en"
  by (simp_all add: hit_entry_def note_entry_def Let_def fill_entry_def)

lemma entity_decayed [simp]: "pe_entity (snd (decayed pt e)) = pe_entity e"
  by (simp add: decay_entry_def Let_def)

lemma pht_storable_insert:
  assumes "pht_inv pt" "pht_storable pt" "entity_wf en" "pht_insert hs tv pt en a oc tn dl inc ph = Some (c, pt')"
  shows "pht_storable pt'"
  using assms(1,3)
  by (cases rule: pht_insert_cases [where hs = hs and tv = tv and a = a and oc = oc and tn = tn
        and dl = dl and inc = inc and ph = ph])
    (use assms in \<open>auto intro!: pht_storable_put simp: pht_storable_nth entity_wf_def\<close>)

lemma pht_step_storable:
  assumes "pht_inv pt" "pht_storable pt" "pht_step pt pt'"
  shows "pht_storable pt'"
  using assms(3)
proof cases
  case (st_remove en hs b)
  from assms(1) st_remove(1) show ?thesis
    by (cases rule: remove_cases [where hs = hs])
      (use assms(2) st_remove in \<open>auto intro!: pht_storable_put simp: pht_storable_nth\<close>)
next
  case (st_note en hs w)
  show ?thesis
  proof (cases "w AND 0xff = 0")
    case False
    from assms(1) st_note(1) False show ?thesis
      by (cases rule: note_reason_cases [where hs = hs])
        (use assms(2) st_note in \<open>auto intro!: pht_storable_put simp: pht_storable_nth\<close>)
  qed (use assms(2) st_note in \<open>simp add: wake_pheromone_note_reason_def\<close>)
next
  case (st_decay n)
  from assms(1) show ?thesis
    by (rule decay_spec) (use assms(2) st_decay in \<open>auto simp: pht_storable_def\<close>)
next
  case (st_reopen env extra hs hs')
  from pht_inv_reopen [OF assms(1) st_reopen] assms(2) show ?thesis by simp
qed (use assms in \<open>auto simp: wake_pheromone_deposit_def wake_pheromone_reinforce_def intro: pht_storable_insert\<close>)

interpretation pht_file: invariant_machine pht_init pht_step "\<lambda>pt. pht_inv pt \<and> pht_storable pt"
proof unfold_locales
  fix pt
  assume init: "pht_init pt"
  then have "pht_storable pt"
    by (auto simp: pht_init_def wake_pheromone_create_def Let_def pht_storable_def fresh_table_def zero_entry_def
        zero_entity_def split: if_splits option.splits)
  with pheromone.inv_init [OF init] show "pht_inv pt \<and> pht_storable pt" by simp
next
  fix pt pt'
  assume "pht_inv pt \<and> pht_storable pt" "pht_step pt pt'"
  then show "pht_inv pt' \<and> pht_storable pt'" using pht_step_inv pht_step_storable by blast
qed

text \<open>
  C20. A pheromone table survives its file: for every table that creation and
  any sequence of operations can produce, the file is exactly as long as the mapping, and
  \<open>wake_pheromone_open\<close> on its bytes, when the system calls succeed, returns that table and installs
  its hash key.
\<close>

theorem pheromone_file_roundtrip:
  assumes "reach pht_init pht_step pt" and "oe_open env" "oe_fstat env" "oe_mmap env" "oe_malloc env"
  shows "length (pht_image pt) = pt_map_size pt
    \<and> wake_pheromone_open env (pht_parse (pht_image pt)) hs
        = (Inr pt, wake_hash_set_key (ph_hash_key (pt_header pt)) hs)"
proof -
  from pht_file.reach_inv [OF assms(1)] have inv: "pht_inv pt" and st: "pht_storable pt" by simp_all
  then have "\<forall>e\<in>set (pt_entries pt). length (pe_reasons e) = 3 \<and> length (en_value (pe_entity e)) = 56"
    by (auto simp: pht_inv_def pe_ok_def pht_storable_def)
  note image = pht_parse_image [OF _ this]
  have lay: "256 + 128 * length (pt_entries pt) = pt_map_size pt"
    using inv by (simp add: pht_inv_def pht_layout_def compute_map_size_def)
  with image st have "length (pht_image pt) = pt_map_size pt" "pht_parse (pht_image pt) = file_of pt 0"
    by (simp_all add: pht_storable_def file_of_def)
  with reopen [OF inv assms(2-5), of 0 hs] show ?thesis by simp
qed

theorem pheromone_file_roundtrip_witness:
  "fst (wake_pheromone_open \<lparr>oe_open = True, oe_fstat = True, oe_mmap = True, oe_malloc = True\<rparr>
     (pht_parse (pht_image demo_table)) demo_hs) = Inr demo_table"
  using pheromone_file_roundtrip [OF demo_table_reachable] by simp

text \<open>The table with another mask in its header.\<close>

definition with_mask :: "u64 \<Rightarrow> wake_pheromone_t \<Rightarrow> wake_pheromone_t" where
  "with_mask m pt = pt\<lparr>pt_header := (pt_header pt)\<lparr>ph_mask := m\<rparr>\<rparr>"

lemma with_mask_sel [simp]:
  "pt_entries (with_mask m pt) = pt_entries pt" "pt_map_size (with_mask m pt) = pt_map_size pt"
  "ph_mask (pt_header (with_mask m pt)) = m" "ph_hash_key (pt_header (with_mask m pt)) = ph_hash_key (pt_header pt)"
  "ph_magic (pt_header (with_mask m pt)) = ph_magic (pt_header pt)"
  "ph_format_version (pt_header (with_mask m pt)) = ph_format_version (pt_header pt)"
  "ph_capacity (pt_header (with_mask m pt)) = ph_capacity (pt_header pt)"
  by (simp_all add: with_mask_def)

text \<open>
  C22. \<open>wake_pheromone_open\<close> trusts the mask of the file: take the file of any
  reachable table and change only the eight bytes of the mask.  It is accepted, and the first probe
  of an entity whose hash under the new mask is not below the capacity already indexes behind the
  entries: lookup, deposit, reinforcement and removal leave the mapping.
\<close>

theorem crafted_mask_escapes:
  assumes "reach pht_init pht_step pt" and "oe_open env" "oe_fstat env" "oe_mmap env" "oe_malloc env"
    and "entity_wf en" and "unat (ph_capacity (pt_header pt)) \<le> unat (pht_key hs en AND m)"
  shows "fst (wake_pheromone_open env (pht_parse (pht_image (with_mask m pt))) hs) = Inr (with_mask m pt)
    \<and> wake_pheromone_lookup hs (with_mask m pt) en = None
    \<and> wake_pheromone_remove hs (with_mask m pt) en = None
    \<and> wake_pheromone_deposit hs tv (with_mask m pt) en a oc tn dl ph = None
    \<and> wake_pheromone_reinforce hs tv (with_mask m pt) en a oc tn dl ph = None"
proof -
  from pht_file.reach_inv [OF assms(1)] have inv: "pht_inv pt" and st: "pht_storable pt" by simp_all
  then have "\<forall>e\<in>set (pt_entries (with_mask m pt)). length (pe_reasons e) = 3 \<and> length (en_value (pe_entity e)) = 56"
    by (auto simp: pht_inv_def pe_ok_def pht_storable_def)
  from pht_parse_image(2) [OF _ this] st inv have image: "pht_parse (pht_image (with_mask m pt)) =
      \<lparr>pf_size = pt_map_size pt, pf_header = Some (pt_header (with_mask m pt)), pf_entries = pt_entries pt\<rparr>"
    by (simp add: pht_storable_def pht_inv_def pht_layout_def compute_map_size_def)
  have "load_entry (with_mask m pt) (probe_idx (with_mask m pt) (pht_key hs en) 0) = None"
    using assms(7) inv by (simp add: load_entry_def probe_idx_def and.assoc pht_inv_def pht_layout_def)
  then have "find_probe (with_mask m pt) (pht_key hs en) [0..<WAKE_PHT_PROBE_MAX] = None"
    "insert_probe (with_mask m pt) (pht_key hs en) [0..<WAKE_PHT_PROBE_MAX] f = None" for f
    by (simp_all add: upt_conv_Cons)
  then show ?thesis
    using assms(2-5) inv entity_key_hash_Some(1) [OF assms(6), of hs]
    by (simp add: image wake_pheromone_open_def Let_def pht_inv_def pht_layout_def header_ok_def
        wake_pheromone_lookup_def wake_pheromone_remove_def wake_pheromone_deposit_def
        wake_pheromone_reinforce_def pht_insert_def pht_insert_race_def)
qed

text \<open>A table of one slot, opened with a mask of ones: no entity hashes to that slot.\<close>

definition one_slot :: wake_pheromone_t where
  "one_slot = fresh_table 1 62259 100 1700000000 (replicate 16 7)"

lemma one_slot_reachable: "reach pht_init pht_step one_slot"
proof (rule reach_init)
  have "fst (wake_pheromone_create
      \<lparr>ce_open = True, ce_ftruncate = True, ce_mmap = True, ce_urandom = Some (replicate 16 7),
       ce_malloc = True, ce_tv_sec = 1700000000\<rparr>
      (Some \<lparr>pc_capacity = 1, pc_decay_factor_fp16 = 0, pc_noise_floor = 0\<rparr>) demo_hs) = Inr one_slot"
    by (simp add: wake_pheromone_create_def cfg_or_def is_power_of_2_def one_slot_def Let_def)
  then show "pht_init one_slot" unfolding pht_init_def by blast
qed

theorem crafted_mask_escapes_witness:
  "wake_pheromone_lookup demo_hs (with_mask (-1) one_slot) (wake_entity_init_port WAKE_EC_WITH 80) = None"
proof -
  have "pht_key demo_hs (wake_entity_init_port WAKE_EC_WITH 80) \<noteq> 0"
    using entity_key_hash_Some(2) [OF port_wf] by (metis vacant_zero_word)
  then have "unat (ph_capacity (pt_header one_slot))
      \<le> unat (pht_key demo_hs (wake_entity_init_port WAKE_EC_WITH 80) AND -1)"
    by (simp add: one_slot_def fresh_table_def Suc_le_eq unat_gt_0)
  from crafted_mask_escapes [OF one_slot_reachable _ _ _ _ port_wf this,
      of "\<lparr>oe_open = True, oe_fstat = True, oe_mmap = True, oe_malloc = True\<rparr>"]
  show ?thesis by simp
qed

section \<open>Coupling table\<close>

text \<open>The part of the entries that the invariant of the table does not speak of.\<close>

definition idents :: "wake_tac_t \<Rightarrow> bool" where
  "idents t \<longleftrightarrow> (\<forall>e\<in>set (t_entries t). length (te_ident e) = WAKE_TAC_IDENT_MAX)"

lemma idents_put:
  "idents t \<Longrightarrow> (i < length (t_entries t) \<Longrightarrow> length (te_ident e) = WAKE_TAC_IDENT_MAX) \<Longrightarrow> idents (put_tac i e t)"
  unfolding idents_def by (auto dest!: ball_list_update [of "t_entries t" _ i e])

lemma idents_nth: "idents t \<Longrightarrow> i < length (t_entries t) \<Longrightarrow> length (te_ident (t_entries t ! i)) = WAKE_TAC_IDENT_MAX"
  by (simp add: idents_def)

lemma idents_same: "t_entries t' = t_entries t \<Longrightarrow> idents t' = idents t"
  by (simp add: idents_def)

lemma idents_add_slot [simp]: "idents (snd (occ_add_slot t eh idx)) = idents t"
  using occ_find_loop_keys [of t eh True "[0..<WAKE_TAC_OCC_PROBE_MAX]"]
  by (intro idents_same) (auto simp: occ_add_slot_def occ_find_def Let_def case_prod_unfold split: option.split)

lemma idents_del_slot [simp]: "idents (occ_del_slot t eh idx) = idents t"
  by (intro idents_same) (simp add: occ_del_slot_def Let_def split: option.split)

lemma ident_charge [simp]: "te_ident (snd (snd (budget_charge e h s delta))) = te_ident e"
  by (simp add: budget_charge_def Let_def split: option.split)

lemma ident_strengthen [simp]: "te_ident (strengthen h delta eta now ns0 ns1 e) = te_ident e"
  by (simp add: strengthen_def Let_def quarantine_reassess_def)

lemma ident_existing [simp]: "te_ident (snd (reinforce_existing h delta eta s0 s1 now e)) = te_ident e"
  by (simp add: reinforce_existing_def Let_def case_prod_unfold)

lemma length_ident_build [simp]:
  "length (te_ident (build_edge h eh key t_lo t_hi eta delta s0 s1 now e)) = WAKE_TAC_IDENT_MAX"
  by (simp add: build_edge_def Let_def case_prod_unfold)

lemma idents_retire: "idents t \<Longrightarrow> idents (retire_victim eh v t)"
  by (simp add: retire_victim_def idents_put idents_nth)

lemma idents_insert: "idents t \<Longrightarrow> idents (snd (insert_edge t eh key t_lo t_hi eta delta s0 s1 now k))"
  by (simp add: insert_edge_def Let_def case_prod_unfold idents_put idents_retire idents_nth)

lemma idents_apply: "idents t \<Longrightarrow> idents (snd (apply_edge t eh key t_lo t_hi e0 s0 e1 s1 now))"
  by (simp add: apply_edge_def Let_def case_prod_unfold idents_put idents_insert idents_nth)

lemma idents_batch: "idents t \<Longrightarrow> idents (snd (batch_loop eh key acts now ps n t))"
  by (induction ps arbitrary: n t) (auto simp: Let_def case_prod_unfold idents_apply)

lemma idents_clear [simp]: "idents (clear_occ t) = idents t"
  by (simp add: idents_def clear_occ_def)

lemma idents_decay: "idents t \<Longrightarrow> idents (snd (tac_decay_loop is n t))"
  by (induction "is" arbitrary: n t)
    (simp_all add: Let_def case_prod_unfold idents_put idents_nth)

lemma tac_step_idents:
  assumes "tac_inv S t" "idents t" "tac_step S t t'"
  shows "idents t'"
  using assms(3)
proof cases
  case ts_reset
  then show ?thesis by (auto simp: wake_tac_reset_def idents_def zero_tac_entry_def)
next
  case (ts_reopen env n es os)
  from tac_reopen_same [OF assms(1) ts_reopen] assms(2) show ?thesis by simp
qed (use assms(2) in \<open>auto simp: wake_tac_reinforce_def wake_tac_reinforce_batch_def wake_tac_decay_def Let_def
      idents_apply idents_batch intro!: idents_decay split: option.split\<close>)

text \<open>What creation puts into the header and no operation changes.\<close>

definition tac_created :: "wake_tac_header_t \<Rightarrow> bool" where
  "tac_created h \<longleftrightarrow> th_magic h = WAKE_TAC_MAGIC \<and> th_format_version h = 1 \<and> length (th_hash_key h) = 16
     \<and> th_capacity h \<le> th_occ_slots h
     \<and> th_decay_novel_fp16 h \<noteq> 0 \<and> th_decay_corr_fp16 h \<noteq> 0 \<and> th_corroboration_src_min h \<noteq> 0"

lemma tac_cfg_or_nonzero: "dflt \<noteq> 0 \<Longrightarrow> tac_cfg_or cfg sel dflt \<noteq> 0"
  by (simp add: tac_cfg_or_def split: option.split)

lemma create_tac_created:
  assumes "wake_tac_create env cfg = Inr t"
  shows "tac_created (t_header t)"
proof -
  from assms obtain key where "length key = 16" "\<not> create_refused (tac_header cfg (ce_tv_sec env) [])"
    and t: "t_header t = tac_header cfg (ce_tv_sec env) key"
    by (auto simp: wake_tac_create_def Let_def simp del: not_less split: if_splits option.splits)
  then show ?thesis
    unfolding t tac_created_def
    by (simp add: tac_header_def create_refused_def Let_def tac_cfg_or_nonzero not_less)
qed

interpretation tac_store: invariant_machine tac_init "tac_step S"
    "\<lambda>t. tac_inv S t \<and> idents t \<and> tac_created (t_header t)" for S
proof unfold_locales
  fix t
  assume init: "tac_init t"
  then have "idents t" "tac_created (t_header t)"
    by (auto simp: tac_init_def idents_def zero_tac_entry_def create_tac_header(2) create_tac_created)
  with tac.inv_init [OF init] show "tac_inv S t \<and> idents t \<and> tac_created (t_header t)" by simp
next
  fix t t'
  assume "tac_inv S t \<and> idents t \<and> tac_created (t_header t)" "tac_step S t t'"
  with tac_step_keeps [of S t t'] tac_step_idents [of S t t']
  show "tac_inv S t' \<and> idents t' \<and> tac_created (t_header t')" by simp
qed

text \<open>
  C21. A coupling table survives its file, with one exception: for every table that
  creation and any sequence of operations can produce, the file is exactly as long as the mapping, and
  \<open>wake_tac_open\<close> on its bytes, when the system calls succeed, returns that table, unless the noise
  floor it was created with is five times the budget of a source or more.
\<close>

theorem tac_file_roundtrip:
  assumes "reach tac_init (tac_step S) t" and "oe_open env" "oe_fstat env" "oe_mmap env" "oe_malloc env"
  shows "length (tac_image t) = t_map_size t
    \<and> wake_tac_open env (tac_parse (tac_image t)) =
        (if th_noise_floor (t_header t) < th_budget_per_source (t_header t) * 5 then Inr t else Inl EINVAL)"
proof -
  from tac_store.reach_inv [OF assms(1)]
  have inv: "tac_inv S t" and ids: "idents t" and cr: "tac_created (t_header t)" by simp_all
  then have lay: "tac_layout t" by (simp add: tac_inv_def tac_shape_def)
  have "\<forall>e\<in>set (t_entries t). length (te_budget e) = 5 \<and> length (te_ident e) = 54"
    using inv ids
    by (auto simp: tac_inv_def tac_shape_def edge_ok_def budget_ok_def sources_ok_def sources_def idents_def)
  moreover have "\<forall>oc\<in>set (t_occ t). length (to_slot oc) = 32"
    using inv by (auto simp: tac_inv_def tac_shape_def occ_ok_def)
  ultimately have image: "length (tac_image t) = t_map_size t"
    "tac_parse (tac_image t) = \<lparr>tf_size = t_map_size t, tf_header = Some (t_header t),
       tf_entries = t_entries t, tf_occ = t_occ t\<rparr>"
    using tac_parse_image [of t] cr lay by (simp_all add: tac_created_def tac_layout_def tac_map_size_def)
  have "open_refused (t_header t) \<longleftrightarrow> \<not> th_noise_floor (t_header t) < th_budget_per_source (t_header t) * 5"
    using cr lay by (auto simp: open_refused_def tac_created_def tac_layout_def tac_header_ok_def not_less not_le)
  with lay assms(2-5) show ?thesis
    by (simp add: image wake_tac_open_def Let_def tac_layout_def)
qed

theorem tac_file_roundtrip_witness:
  "wake_tac_open \<lparr>oe_open = True, oe_fstat = True, oe_mmap = True, oe_malloc = True\<rparr>
     (tac_parse (tac_image demo_tac)) = Inr demo_tac"
proof -
  have "th_noise_floor (t_header demo_tac) < th_budget_per_source (t_header demo_tac) * 5"
    by (simp add: demo_tac_def tac_header_def tac_cfg_or_def Let_def)
  with tac_file_roundtrip [OF demo_tac_reach [of "tac_step {}"]] show ?thesis by simp
qed

end
