(* ===== verification/Wake_Lifecycle.thy ===== *)
theory Wake_Lifecycle
  imports Wake_Swim Wake_Plumtree Wake_Quorum Wake_Tac Wake_Crypto "HOL-Library.State_Monad" "HOL-Library.Multiset"
begin

text \<open>
  What the library holds of the system: heap blocks, file descriptors, mappings.  Creation, opening,
  destruction and closing of the five kinds of objects are run here for their calls of the allocator
  and the system alone, in the order of the source and with every one of them free to fail; what they
  compute is in the theories of the components, and the two agree on when creation fails.  The
  interface \<open>owner\<close> says what such a pair of operations promises: nothing is lost on a failure, and
  destruction returns exactly what creation took.
\<close>

section \<open>The system\<close>

datatype resource = Block nat | Fd nat | Mapped nat

primrec rid :: "resource \<Rightarrow> nat" where
  "rid (Block n) = n" | "rid (Fd n) = n" | "rid (Mapped n) = n"

text \<open>
  \<open>os_fails\<close> tells for each request, by its number, whether it fails; \<open>os_faults\<close> counts releases
  of what is not held: a block freed twice, a descriptor closed twice, a mapping removed twice.
\<close>

record os =
  os_held :: "resource set"
  os_asked :: nat
  os_fails :: "nat \<Rightarrow> bool"
  os_faults :: nat

definition os_ok :: "os \<Rightarrow> bool" where
  "os_ok s \<longleftrightarrow> finite (os_held s) \<and> (\<forall>r\<in>os_held s. rid r < os_asked s)"

definition acquire :: "(nat \<Rightarrow> resource) \<Rightarrow> (os, resource option) state" where
  "acquire mk = State (\<lambda>s. let s' = s\<lparr>os_asked := os_asked s + 1\<rparr>
     in if os_fails s (os_asked s) then (None, s')
        else (Some (mk (os_asked s)), s'\<lparr>os_held := insert (mk (os_asked s)) (os_held s)\<rparr>))"

text \<open>A call that can fail and acquires nothing: \<open>ftruncate\<close>, \<open>read\<close>, \<open>fstat\<close>.\<close>

definition attempt :: "(os, bool) state" where
  "attempt = State (\<lambda>s. (\<not> os_fails s (os_asked s), s\<lparr>os_asked := os_asked s + 1\<rparr>))"

definition release :: "resource \<Rightarrow> (os, unit) state" where
  "release r = State (\<lambda>s. ((), if r \<in> os_held s then s\<lparr>os_held := os_held s - {r}\<rparr>
                               else s\<lparr>os_faults := os_faults s + 1\<rparr>))"

text \<open>\<open>free\<close> of a pointer that may be NULL.\<close>

definition free :: "resource option \<Rightarrow> (os, unit) state" where
  "free p = (case p of None \<Rightarrow> State_Monad.return () | Some r \<Rightarrow> release r)"

lemma run_acquire [simp]:
  "run_state (acquire mk) s = (if os_fails s (os_asked s) then (None, s\<lparr>os_asked := Suc (os_asked s)\<rparr>)
     else (Some (mk (os_asked s)), s\<lparr>os_asked := Suc (os_asked s), os_held := insert (mk (os_asked s)) (os_held s)\<rparr>))"
  by (simp add: acquire_def Let_def)

lemma run_attempt [simp]:
  "run_state attempt s = (\<not> os_fails s (os_asked s), s\<lparr>os_asked := Suc (os_asked s)\<rparr>)"
  by (simp add: attempt_def)

lemma release_frame [simp]:
  "os_fails (snd (run_state (release r) s)) = os_fails s" "os_asked (snd (run_state (release r) s)) = os_asked s"
  by (simp_all add: release_def)

lemma run_free [simp]:
  "run_state (free None) s = ((), s)" "run_state (free (Some r)) s = run_state (release r) s"
  by (simp_all add: free_def)

section \<open>The interface\<close>

text \<open>
  \<open>took s rs s'\<close>: between \<open>s\<close> and \<open>s'\<close> the resources \<open>rs\<close> were acquired, all of them new and no one
  twice, nothing else was, and nothing was released that was not held.
\<close>

definition took :: "os \<Rightarrow> resource list \<Rightarrow> os \<Rightarrow> bool" where
  "took s rs s' \<longleftrightarrow> os_ok s' \<and> os_held s' = os_held s \<union> set rs \<and> os_held s \<inter> set rs = {} \<and> distinct rs
     \<and> os_faults s' = os_faults s"

text \<open>
  A program that starts with \<open>rs\<close> in its hands ends with a result and resources that satisfy \<open>Q\<close>,
  whatever fails on the way.
\<close>

definition ensures :: "os \<Rightarrow> resource list \<Rightarrow> (os, 'a) state \<Rightarrow> ('a \<Rightarrow> resource list \<Rightarrow> bool) \<Rightarrow> bool" where
  "ensures s rs m Q \<longleftrightarrow> (\<forall>s1. took s rs s1 \<longrightarrow>
     (\<exists>rs'. took s rs' (snd (run_state m s1)) \<and> Q (fst (run_state m s1)) rs'))"

named_theorems ensures_intros

lemma ensures_return [ensures_intros]: "Q a rs \<Longrightarrow> ensures s rs (State_Monad.return a) Q"
  by (auto simp: ensures_def)

lemma ensures_bind [ensures_intros]:
  "ensures s rs m (\<lambda>a rs'. ensures s rs' (f a) Q) \<Longrightarrow> ensures s rs (State_Monad.bind m f) Q"
  by (fastforce simp: ensures_def case_prod_unfold)

lemma ensures_acquire:
  assumes "\<And>n. rid (mk n) = n" "Q None rs" "\<And>r. r \<notin> set rs \<Longrightarrow> Q (Some r) (r # rs)"
  shows "ensures s rs (acquire mk) Q"
  unfolding ensures_def
proof (intro allI impI)
  fix s1
  assume t: "took s rs s1"
  show "\<exists>rs'. took s rs' (snd (run_state (acquire mk) s1)) \<and> Q (fst (run_state (acquire mk) s1)) rs'"
  proof (cases "os_fails s1 (os_asked s1)")
    case True
    with t assms(2) show ?thesis by (auto simp: took_def os_ok_def less_SucI intro!: exI [of _ rs])
  next
    case False
    have new: "mk (os_asked s1) \<notin> os_held s1" 
      using t assms(1) by (metis less_irrefl os_ok_def took_def)
    with t False assms(1,3) show ?thesis
      by (auto simp: took_def os_ok_def less_SucI intro!: exI [of _ "mk (os_asked s1) # rs"])
  qed
qed

lemmas ensures_acquire_kinds [ensures_intros] =
  ensures_acquire [of Block, simplified] ensures_acquire [of Fd, simplified] ensures_acquire [of Mapped, simplified]

lemma ensures_attempt [ensures_intros]:
  assumes "\<And>b. Q b rs"
  shows "ensures s rs attempt Q"
  using assms by (auto simp: ensures_def took_def os_ok_def less_SucI intro!: exI [of _ rs])

lemma ensures_release [ensures_intros]: "r \<in> set rs \<Longrightarrow> Q () (remove1 r rs) \<Longrightarrow> ensures s rs (release r) Q"
  unfolding ensures_def took_def os_ok_def release_def
  by (auto intro!: exI [of _ "remove1 r rs"])

lemma ensures_free [ensures_intros]:
  "(p = None \<Longrightarrow> Q () rs) \<Longrightarrow> (\<And>r. p = Some r \<Longrightarrow> r \<in> set rs) \<Longrightarrow>
     (\<And>r. p = Some r \<Longrightarrow> Q () (remove1 r rs)) \<Longrightarrow> ensures s rs (free p) Q"
  by (cases p) (simp_all add: free_def ensures_return ensures_release)

lemma ensures_if [ensures_intros]:
  "(b \<Longrightarrow> ensures s rs m Q) \<Longrightarrow> (\<not> b \<Longrightarrow> ensures s rs n Q) \<Longrightarrow> ensures s rs (if b then m else n) Q"
  by simp

lemma ensures_option [ensures_intros]:
  "(p = None \<Longrightarrow> ensures s rs m Q) \<Longrightarrow> (\<And>x. p = Some x \<Longrightarrow> ensures s rs (f x) Q) \<Longrightarrow>
     ensures s rs (case p of None \<Rightarrow> m | Some x \<Rightarrow> f x) Q"
  by (cases p) simp_all

text \<open>\<open>owns h\<close> is what the object \<open>h\<close> holds.\<close>

locale owner =
  fixes create :: "'c \<Rightarrow> (os, 'h option) state"
    and destroy :: "'h option \<Rightarrow> (os, unit) state"
    and owns :: "'h \<Rightarrow> resource list"
  assumes create_owns: "ensures s [] (create c) (\<lambda>p rs. case p of None \<Rightarrow> rs = [] | Some h \<Rightarrow> mset rs = mset (owns h))"
    and destroy_owned: "ensures s (owns h) (destroy (Some h)) (\<lambda>_ rs. rs = [])"
    and destroy_null: "run_state (destroy None) s = ((), s)"

section \<open>SWIM and PlumTree\<close>

text \<open>The four blocks of an instance.\<close>

record swim_blocks =
  sb_self :: resource
  sb_members :: resource
  sb_probe_order :: resource
  sb_updates :: resource

definition swim_create_os :: "bytes option \<Rightarrow> (os, swim_blocks option) state" where
  "swim_create_os self_id =
     (if self_id = None then State_Monad.return None
      else do {
        sw \<leftarrow> acquire Block;
        case sw of
          None \<Rightarrow> State_Monad.return None
        | Some sw \<Rightarrow> do {
            members \<leftarrow> acquire Block;
            probe_order \<leftarrow> acquire Block;
            updates \<leftarrow> acquire Block;
            if members = None \<or> probe_order = None \<or> updates = None then do {
              free members;
              free probe_order;
              free updates;
              release sw;
              State_Monad.return None
            }
            else State_Monad.return (Some \<lparr>sb_self = sw, sb_members = the members,
                   sb_probe_order = the probe_order, sb_updates = the updates\<rparr>)
          }
      })"

definition wake_swim_destroy :: "swim_blocks option \<Rightarrow> (os, unit) state" where
  "wake_swim_destroy p =
     (case p of
        None \<Rightarrow> State_Monad.return ()
      | Some sw \<Rightarrow> do {
          release (sb_members sw);
          release (sb_probe_order sw);
          release (sb_updates sw);
          release (sb_self sw)
        })"

record plumtree_blocks =
  plb_self :: resource
  plb_peers :: resource
  plb_cache :: resource
  plb_pending :: resource

definition plumtree_create_os :: "bytes option \<Rightarrow> (os, plumtree_blocks option) state" where
  "plumtree_create_os self_id =
     (if self_id = None then State_Monad.return None
      else do {
        pt \<leftarrow> acquire Block;
        case pt of
          None \<Rightarrow> State_Monad.return None
        | Some pt \<Rightarrow> do {
            peers \<leftarrow> acquire Block;
            cache \<leftarrow> acquire Block;
            pending \<leftarrow> acquire Block;
            if peers = None \<or> cache = None \<or> pending = None then do {
              free peers;
              free cache;
              free pending;
              release pt;
              State_Monad.return None
            }
            else State_Monad.return (Some \<lparr>plb_self = pt, plb_peers = the peers,
                   plb_cache = the cache, plb_pending = the pending\<rparr>)
          }
      })"

definition wake_plumtree_destroy :: "plumtree_blocks option \<Rightarrow> (os, unit) state" where
  "wake_plumtree_destroy p =
     (case p of
        None \<Rightarrow> State_Monad.return ()
      | Some pt \<Rightarrow> do {
          release (plb_peers pt);
          release (plb_cache pt);
          release (plb_pending pt);
          release (plb_self pt)
        })"

definition swim_owns :: "swim_blocks \<Rightarrow> resource list" where
  "swim_owns sw = [sb_members sw, sb_probe_order sw, sb_updates sw, sb_self sw]"

definition plumtree_owns :: "plumtree_blocks \<Rightarrow> resource list" where
  "plumtree_owns pt = [plb_peers pt, plb_cache pt, plb_pending pt, plb_self pt]"

interpretation swim_own: owner swim_create_os wake_swim_destroy swim_owns
proof unfold_locales
  show "ensures s [] (swim_create_os c) (\<lambda>p rs. case p of None \<Rightarrow> rs = [] | Some h \<Rightarrow> mset rs = mset (swim_owns h))"
    for s c unfolding swim_create_os_def by (intro ensures_intros) (auto simp: swim_owns_def)
  show "ensures s (swim_owns h) (wake_swim_destroy (Some h)) (\<lambda>_ rs. rs = [])" for s h
    unfolding wake_swim_destroy_def option.case by (intro ensures_intros) (auto simp: swim_owns_def)
qed (simp add: wake_swim_destroy_def)

interpretation plumtree_own: owner plumtree_create_os wake_plumtree_destroy plumtree_owns
proof unfold_locales
  show "ensures s [] (plumtree_create_os c)
      (\<lambda>p rs. case p of None \<Rightarrow> rs = [] | Some h \<Rightarrow> mset rs = mset (plumtree_owns h))"
    for s c unfolding plumtree_create_os_def by (intro ensures_intros) (auto simp: plumtree_owns_def)
  show "ensures s (plumtree_owns h) (wake_plumtree_destroy (Some h)) (\<lambda>_ rs. rs = [])" for s h
    unfolding wake_plumtree_destroy_def option.case by (intro ensures_intros) (auto simp: plumtree_owns_def)
qed (simp add: wake_plumtree_destroy_def)

section \<open>Quorum evaluator\<close>

record quorum_blocks =
  qb_self :: resource
  qb_slots :: resource

definition quorum_create_os :: "unit \<Rightarrow> (os, quorum_blocks option) state" where
  "quorum_create_os _ = do {
     q \<leftarrow> acquire Block;
     case q of
       None \<Rightarrow> State_Monad.return None
     | Some q \<Rightarrow> do {
         slots \<leftarrow> acquire Block;
         case slots of
           None \<Rightarrow> do { release q; State_Monad.return None }
         | Some sl \<Rightarrow> State_Monad.return (Some \<lparr>qb_self = q, qb_slots = sl\<rparr>)
       }
   }"

definition wake_quorum_destroy :: "quorum_blocks option \<Rightarrow> (os, unit) state" where
  "wake_quorum_destroy p =
     (case p of
        None \<Rightarrow> State_Monad.return ()
      | Some q \<Rightarrow> do { release (qb_slots q); release (qb_self q) })"

definition quorum_owns :: "quorum_blocks \<Rightarrow> resource list" where
  "quorum_owns q = [qb_slots q, qb_self q]"

interpretation quorum_own: owner quorum_create_os wake_quorum_destroy quorum_owns
proof unfold_locales
  show "ensures s [] (quorum_create_os c) (\<lambda>p rs. case p of None \<Rightarrow> rs = [] | Some h \<Rightarrow> mset rs = mset (quorum_owns h))"
    for s c unfolding quorum_create_os_def by (intro ensures_intros) (auto simp: quorum_owns_def)
  show "ensures s (quorum_owns h) (wake_quorum_destroy (Some h)) (\<lambda>_ rs. rs = [])" for s h
    unfolding wake_quorum_destroy_def option.case by (intro ensures_intros) (auto simp: quorum_owns_def)
qed (simp add: wake_quorum_destroy_def)

section \<open>Tables in files\<close>

text \<open>The handle of a table: the mapping, the descriptor and the block itself.\<close>

record table_handle =
  tab_self :: resource
  tab_map_base :: resource
  tab_fd :: resource

text \<open>How creation and opening go on once the checks of the configuration have passed.\<close>

definition pheromone_create_os :: "wake_pheromone_config_t option \<Rightarrow> (os, table_handle option) state" where
  "pheromone_create_os cfg =
     (if \<not> is_power_of_2 (cfg_or cfg pc_capacity WAKE_PHT_DEFAULT_CAPACITY) then State_Monad.return None
      else do {
        fd \<leftarrow> acquire Fd;
        case fd of None \<Rightarrow> State_Monad.return None | Some fd \<Rightarrow> do {
          ok \<leftarrow> attempt;
          if \<not> ok then do { release fd; State_Monad.return None }
          else do {
            base \<leftarrow> acquire Mapped;
            case base of None \<Rightarrow> do { release fd; State_Monad.return None } | Some base \<Rightarrow> do {
              urand \<leftarrow> acquire Fd;
              case urand of None \<Rightarrow> do { release base; release fd; State_Monad.return None } | Some urand \<Rightarrow> do {
                n \<leftarrow> attempt;
                release urand;
                if \<not> n then do { release base; release fd; State_Monad.return None }
                else do {
                  pt \<leftarrow> acquire Block;
                  case pt of None \<Rightarrow> do { release base; release fd; State_Monad.return None }
                  | Some pt \<Rightarrow> State_Monad.return (Some \<lparr>tab_self = pt, tab_map_base = base, tab_fd = fd\<rparr>)
                }
              }
            }
          }
        }
      })"

definition tac_create_os :: "wake_tac_config_t option \<Rightarrow> (os, table_handle option) state" where
  "tac_create_os cfg =
     (if create_refused (tac_header cfg 0 []) then State_Monad.return None
      else do {
        fd \<leftarrow> acquire Fd;
        case fd of None \<Rightarrow> State_Monad.return None | Some fd \<Rightarrow> do {
          ok \<leftarrow> attempt;
          if \<not> ok then do { release fd; State_Monad.return None }
          else do {
            base \<leftarrow> acquire Mapped;
            case base of None \<Rightarrow> do { release fd; State_Monad.return None } | Some base \<Rightarrow> do {
              urand \<leftarrow> acquire Fd;
              case urand of None \<Rightarrow> do { release base; release fd; State_Monad.return None } | Some urand \<Rightarrow> do {
                n \<leftarrow> attempt;
                release urand;
                if \<not> n then do { release base; release fd; State_Monad.return None }
                else do {
                  t \<leftarrow> acquire Block;
                  case t of None \<Rightarrow> do { release base; release fd; State_Monad.return None }
                  | Some t \<Rightarrow> State_Monad.return (Some \<lparr>tab_self = t, tab_map_base = base, tab_fd = fd\<rparr>)
                }
              }
            }
          }
        }
      })"

text \<open>
  Opening; the file is what \<open>read\<close> and \<open>fstat\<close> find.  A failing \<open>read\<close> counts as a short one.
\<close>

definition pheromone_open_os :: "pht_file \<Rightarrow> (os, table_handle option) state" where
  "pheromone_open_os file = do {
     fd \<leftarrow> acquire Fd;
     case fd of None \<Rightarrow> State_Monad.return None | Some fd \<Rightarrow> do {
       n \<leftarrow> attempt;
       case (if n then pf_header file else None) of
         None \<Rightarrow> do { release fd; State_Monad.return None }
       | Some hdr \<Rightarrow>
           if ph_magic hdr \<noteq> WAKE_PHT_MAGIC then do { release fd; State_Monad.return None }
           else if ph_format_version hdr \<noteq> WAKE_PHT_VERSION then do { release fd; State_Monad.return None }
           else if \<not> is_power_of_2 (ph_capacity hdr) then do { release fd; State_Monad.return None }
           else do {
             st \<leftarrow> attempt;
             if \<not> st \<or> pf_size file < compute_map_size (ph_capacity hdr)
             then do { release fd; State_Monad.return None }
             else do {
               base \<leftarrow> acquire Mapped;
               case base of None \<Rightarrow> do { release fd; State_Monad.return None } | Some base \<Rightarrow> do {
                 pt \<leftarrow> acquire Block;
                 case pt of None \<Rightarrow> do { release base; release fd; State_Monad.return None }
                 | Some pt \<Rightarrow> State_Monad.return (Some \<lparr>tab_self = pt, tab_map_base = base, tab_fd = fd\<rparr>)
               }
             }
           }
     }
   }"

definition tac_open_os :: "tac_file \<Rightarrow> (os, table_handle option) state" where
  "tac_open_os file = do {
     fd \<leftarrow> acquire Fd;
     case fd of None \<Rightarrow> State_Monad.return None | Some fd \<Rightarrow> do {
       n \<leftarrow> attempt;
       case (if n then tf_header file else None) of
         None \<Rightarrow> do { release fd; State_Monad.return None }
       | Some h \<Rightarrow>
           if open_refused h then do { release fd; State_Monad.return None }
           else do {
             st \<leftarrow> attempt;
             if \<not> st \<or> tf_size file < tac_map_size (th_capacity h) (th_occ_slots h)
             then do { release fd; State_Monad.return None }
             else do {
               base \<leftarrow> acquire Mapped;
               case base of None \<Rightarrow> do { release fd; State_Monad.return None } | Some base \<Rightarrow> do {
                 t \<leftarrow> acquire Block;
                 case t of None \<Rightarrow> do { release base; release fd; State_Monad.return None }
                 | Some t \<Rightarrow> State_Monad.return (Some \<lparr>tab_self = t, tab_map_base = base, tab_fd = fd\<rparr>)
               }
             }
           }
     }
   }"

text \<open>A handle that creation or opening returned has a mapping and a descriptor.\<close>

definition wake_pheromone_close :: "table_handle option \<Rightarrow> (os, unit) state" where
  "wake_pheromone_close p =
     (case p of
        None \<Rightarrow> State_Monad.return ()
      | Some pt \<Rightarrow> do { release (tab_map_base pt); release (tab_fd pt); release (tab_self pt) })"

definition wake_tac_close :: "table_handle option \<Rightarrow> (os, unit) state" where
  "wake_tac_close p =
     (case p of
        None \<Rightarrow> State_Monad.return ()
      | Some t \<Rightarrow> do { release (tab_map_base t); release (tab_fd t); release (tab_self t) })"

definition table_owns :: "table_handle \<Rightarrow> resource list" where
  "table_owns h = [tab_map_base h, tab_fd h, tab_self h]"

text \<open>A file is created or opened.\<close>

definition pheromone_make_os :: "wake_pheromone_config_t option + pht_file \<Rightarrow> (os, table_handle option) state" where
  "pheromone_make_os c = (case c of Inl cfg \<Rightarrow> pheromone_create_os cfg | Inr file \<Rightarrow> pheromone_open_os file)"

definition tac_make_os :: "wake_tac_config_t option + tac_file \<Rightarrow> (os, table_handle option) state" where
  "tac_make_os c = (case c of Inl cfg \<Rightarrow> tac_create_os cfg | Inr file \<Rightarrow> tac_open_os file)"

interpretation pheromone_own: owner pheromone_make_os wake_pheromone_close table_owns
proof unfold_locales
  let ?Q = "\<lambda>p rs. case p of None \<Rightarrow> rs = [] | Some h \<Rightarrow> mset rs = mset (table_owns h)"
  have "ensures s [] (pheromone_create_os c) ?Q" "ensures s [] (pheromone_open_os f) ?Q" for s c f
    unfolding pheromone_create_os_def pheromone_open_os_def
    by (intro ensures_intros; force simp: table_owns_def)+
  then show "ensures s [] (pheromone_make_os c) ?Q" for s c
    by (simp add: pheromone_make_os_def split: sum.split)
  show "ensures s (table_owns h) (wake_pheromone_close (Some h)) (\<lambda>_ rs. rs = [])" for s h
    unfolding wake_pheromone_close_def option.case by (intro ensures_intros) (auto simp: table_owns_def)
qed (simp add: wake_pheromone_close_def)

interpretation tac_own: owner tac_make_os wake_tac_close table_owns
proof unfold_locales
  let ?Q = "\<lambda>p rs. case p of None \<Rightarrow> rs = [] | Some h \<Rightarrow> mset rs = mset (table_owns h)"
  have "ensures s [] (tac_create_os c) ?Q" "ensures s [] (tac_open_os f) ?Q" for s c f
    unfolding tac_create_os_def tac_open_os_def
    by (intro ensures_intros; force simp: table_owns_def)+
  then show "ensures s [] (tac_make_os c) ?Q" for s c
    by (simp add: tac_make_os_def split: sum.split)
  show "ensures s (table_owns h) (wake_tac_close (Some h)) (\<lambda>_ rs. rs = [])" for s h
    unfolding wake_tac_close_def option.case by (intro ensures_intros) (auto simp: table_owns_def)
qed (simp add: wake_tac_close_def)

section \<open>Random bytes\<close>

definition hash_init_os :: "(os, bool) state" where
  "hash_init_os = do {
     fd \<leftarrow> acquire Fd;
     case fd of None \<Rightarrow> State_Monad.return False | Some fd \<Rightarrow> do {
       n \<leftarrow> attempt;
       release fd;
       State_Monad.return n
     }
   }"

definition keygen_os :: "(os, bool) state" where
  "keygen_os = do {
     fd \<leftarrow> acquire Fd;
     case fd of None \<Rightarrow> State_Monad.return False | Some fd \<Rightarrow> do {
       n \<leftarrow> attempt;
       release fd;
       State_Monad.return n
     }
   }"

lemma draw_ensures: "ensures s [] hash_init_os (\<lambda>_ rs. rs = [])" "ensures s [] keygen_os (\<lambda>_ rs. rs = [])"
  unfolding hash_init_os_def keygen_os_def by (intro ensures_intros; force)+

section \<open>A host\<close>

text \<open>
  A host makes objects, drops them in any order, and draws random keys.  The objects it has are a
  list, the newest first; dropping one that does not exist is a call with NULL.
\<close>

datatype 'c command = Make 'c | Drop nat | Hash_init | Keygen

fun run_host ::
  "('c \<Rightarrow> (os, 'h option) state) \<Rightarrow> ('h option \<Rightarrow> (os, unit) state) \<Rightarrow> 'c command list \<Rightarrow> 'h list \<Rightarrow> (os, 'h list) state" where
  "run_host create destroy [] live = State_Monad.return live"
| "run_host create destroy (Make c # cs) live = do {
     p \<leftarrow> create c;
     run_host create destroy cs (case p of None \<Rightarrow> live | Some h \<Rightarrow> h # live)
   }"
| "run_host create destroy (Drop i # cs) live = do {
     destroy (if i < length live then Some (live ! i) else None);
     run_host create destroy cs (take i live @ drop (Suc i) live)
   }"
| "run_host create destroy (Hash_init # cs) live = do { hash_init_os; run_host create destroy cs live }"
| "run_host create destroy (Keygen # cs) live = do { keygen_os; run_host create destroy cs live }"

lemma took_append: "took s0 R s1 \<Longrightarrow> took s1 rs s2 \<Longrightarrow> took s0 (rs @ R) s2"
  by (auto simp: took_def)

lemma took_mset: "took s rs s' \<Longrightarrow> mset rs = mset rs' \<Longrightarrow> took s rs' s'"
  unfolding took_def by (metis mset_eq_imp_distinct_iff mset_eq_setD)

lemma took_split: "took s0 (xs @ ys) s1 \<Longrightarrow> \<exists>b. took s0 ys b \<and> took b xs s1"
  by (rule exI [of _ "s1\<lparr>os_held := os_held s1 - set xs\<rparr>"]) (auto simp: took_def os_ok_def)

lemma ensures_frame:
  assumes "took s0 R s1" "\<And>s. ensures s [] m Q"
  shows "\<exists>rs. took s0 (rs @ R) (snd (run_state m s1)) \<and> Q (fst (run_state m s1)) rs"
proof -
  have "took s1 [] s1" using assms(1) by (simp add: took_def)
  with assms(2) [of s1] show ?thesis by (auto simp: ensures_def intro: took_append [OF assms(1)])
qed

context owner
begin

lemma make_took:
  assumes "took s0 (concat (map owns live)) s1"
  shows "took s0 (concat (map owns (case fst (run_state (create c) s1) of None \<Rightarrow> live | Some h \<Rightarrow> h # live)))
    (snd (run_state (create c) s1))"
  using ensures_frame [OF assms create_owns, of c] by (auto split: option.splits) (erule took_mset, simp)

lemma drop_took:
  assumes "took s0 (concat (map owns live)) s1"
  shows "took s0 (concat (map owns (take i live @ drop (Suc i) live)))
    (snd (run_state (destroy (if i < length live then Some (live ! i) else None)) s1))"
proof (cases "i < length live")
  case True
  let ?R = "concat (map owns (take i live @ drop (Suc i) live))"
  have "concat (map owns live) = concat (map owns (take i live @ live ! i # drop (Suc i) live))"
    by (simp only: id_take_nth_drop [OF True, symmetric])
  then have "mset (concat (map owns live)) = mset (owns (live ! i) @ ?R)" by simp
  from took_split [OF took_mset [OF assms this]] obtain b
    where b: "took s0 ?R b" "took b (owns (live ! i)) s1" by blast
  with destroy_owned [of b "live ! i"] have "took b [] (snd (run_state (destroy (Some (live ! i))) s1))"
    by (auto simp: ensures_def)
  with took_append [OF b(1) this] True show ?thesis by simp
qed (use assms destroy_null in simp)

lemma host_took:
  "took s0 (concat (map owns live)) s1 \<Longrightarrow>
     took s0 (concat (map owns (fst (run_state (run_host create destroy cs live) s1))))
       (snd (run_state (run_host create destroy cs live) s1))"
proof (induction cs arbitrary: live s1)
  case (Cons c cs)
  show ?case
  proof (cases c)
    case (Make x)
    with Cons.IH [OF make_took [OF Cons.prems, of x]] show ?thesis by (simp add: case_prod_unfold)
  next
    case (Drop i)
    with Cons.IH [OF drop_took [OF Cons.prems, of i]] show ?thesis by (simp add: case_prod_unfold)
  qed (use ensures_frame [OF Cons.prems draw_ensures(1)] ensures_frame [OF Cons.prems draw_ensures(2)] Cons.IH
      in \<open>auto simp: case_prod_unfold\<close>)
qed simp

text \<open>Dropping every object ends where the host began.\<close>

lemma drop_all:
  "fst (run_state (run_host create destroy (replicate (length live) (Drop 0)) live) s) = []"
  by (induction live arbitrary: s) (simp_all add: case_prod_unfold)

end

section \<open>All objects of the library\<close>

datatype request =
    Swim_instance "bytes option"
  | Plumtree_instance "bytes option"
  | Quorum_evaluator
  | Pheromone_table "wake_pheromone_config_t option + pht_file"
  | Coupling_table "wake_tac_config_t option + tac_file"

datatype handle =
    Swim_handle swim_blocks
  | Plumtree_handle plumtree_blocks
  | Quorum_handle quorum_blocks
  | Pheromone_handle table_handle
  | Coupling_handle table_handle

definition wrapped :: "('a \<Rightarrow> 'b) \<Rightarrow> (os, 'a option) state \<Rightarrow> (os, 'b option) state" where
  "wrapped f m = do { p \<leftarrow> m; State_Monad.return (map_option f p) }"

fun make_any :: "request \<Rightarrow> (os, handle option) state" where
  "make_any (Swim_instance self_id) = wrapped Swim_handle (swim_create_os self_id)"
| "make_any (Plumtree_instance self_id) = wrapped Plumtree_handle (plumtree_create_os self_id)"
| "make_any Quorum_evaluator = wrapped Quorum_handle (quorum_create_os ())"
| "make_any (Pheromone_table c) = wrapped Pheromone_handle (pheromone_make_os c)"
| "make_any (Coupling_table c) = wrapped Coupling_handle (tac_make_os c)"

fun drop_any :: "handle option \<Rightarrow> (os, unit) state" where
  "drop_any None = wake_swim_destroy None"
| "drop_any (Some (Swim_handle h)) = wake_swim_destroy (Some h)"
| "drop_any (Some (Plumtree_handle h)) = wake_plumtree_destroy (Some h)"
| "drop_any (Some (Quorum_handle h)) = wake_quorum_destroy (Some h)"
| "drop_any (Some (Pheromone_handle h)) = wake_pheromone_close (Some h)"
| "drop_any (Some (Coupling_handle h)) = wake_tac_close (Some h)"

fun any_owns :: "handle \<Rightarrow> resource list" where
  "any_owns (Swim_handle h) = swim_owns h"
| "any_owns (Plumtree_handle h) = plumtree_owns h"
| "any_owns (Quorum_handle h) = quorum_owns h"
| "any_owns (Pheromone_handle h) = table_owns h"
| "any_owns (Coupling_handle h) = table_owns h"

lemma ensures_wrapped:
  assumes "ensures s [] m (\<lambda>p rs. case p of None \<Rightarrow> rs = [] | Some h \<Rightarrow> mset rs = mset (owns' h))"
    and "\<And>h. owns (f h) = owns' h"
  shows "ensures s [] (wrapped f m) (\<lambda>p rs. case p of None \<Rightarrow> rs = [] | Some h \<Rightarrow> mset rs = mset (owns h))"
  using assms unfolding wrapped_def ensures_def
  by (fastforce simp: case_prod_unfold split: option.splits)

interpretation library: owner make_any drop_any any_owns
proof unfold_locales
  show "ensures s [] (make_any c) (\<lambda>p rs. case p of None \<Rightarrow> rs = [] | Some h \<Rightarrow> mset rs = mset (any_owns h))" for s c
    by (cases c) (auto intro!: ensures_wrapped swim_own.create_owns plumtree_own.create_owns quorum_own.create_owns
        pheromone_own.create_owns tac_own.create_owns)
  show "ensures s (any_owns h) (drop_any (Some h)) (\<lambda>_ rs. rs = [])" for s h
    by (cases h) (auto intro: swim_own.destroy_owned plumtree_own.destroy_owned quorum_own.destroy_owned
        pheromone_own.destroy_owned tac_own.destroy_owned)
qed (simp add: swim_own.destroy_null)

text \<open>
  C18. A host makes and drops objects of all five kinds in any order and draws
  random keys, while any allocation and any system call may fail: nothing is released that is not
  held, what is held beyond what the host began with is exactly what its live objects own, each
  resource owned once, and after the live objects are dropped everything has been returned.
\<close>

theorem no_leak_no_double_free:
  assumes "os_ok s" and "run_state (run_host make_any drop_any cs []) s = (live, s')"
  shows "os_faults s' = os_faults s
    \<and> os_held s' = os_held s \<union> set (concat (map any_owns live))
    \<and> distinct (concat (map any_owns live)) \<and> os_held s \<inter> set (concat (map any_owns live)) = {}
    \<and> os_held (snd (run_state (run_host make_any drop_any (replicate (length live) (Drop 0)) live) s')) = os_held s
    \<and> os_faults (snd (run_state (run_host make_any drop_any (replicate (length live) (Drop 0)) live) s')) = os_faults s"
proof -
  have "took s (concat (map any_owns [])) s" using assms(1) by (simp add: took_def)
  from library.host_took [OF this, of cs] assms(2) have t: "took s (concat (map any_owns live)) s'" by simp
  from library.host_took [OF t, of "replicate (length live) (Drop 0)"] library.drop_all [of live s'] t
  show ?thesis by (simp add: took_def)
qed

text \<open>An instance of SWIM is made, the descriptor of a table cannot be had, an evaluator is made.\<close>

definition demo_os :: os where
  "demo_os = \<lparr>os_held = {}, os_asked = 0, os_fails = (\<lambda>n. n = 4), os_faults = 0\<rparr>"

theorem no_leak_no_double_free_witness:
  "os_held (snd (run_state (run_host make_any drop_any
     [Make (Swim_instance (Some [])), Make (Pheromone_table (Inl None)), Make Quorum_evaluator, Drop 1, Drop 0] [])
     demo_os)) = {}"
proof -
  let ?cs = "[Make (Swim_instance (Some [])), Make (Pheromone_table (Inl None)), Make Quorum_evaluator, Drop 1, Drop 0]"
  have live: "fst (run_state (run_host make_any drop_any ?cs []) demo_os) = []"
    by code_simp
  have "os_ok demo_os" by (simp add: demo_os_def os_ok_def)
  from no_leak_no_double_free [OF this prod.collapse [symmetric], of ?cs] live show ?thesis
    by (simp add: demo_os_def)
qed

section \<open>Agreement with the models of creation\<close>

text \<open>
  The answers of the system, read as the parameters of the definitions that say what creation returns:
  the same calls succeed.
\<close>

lemma swim_create_agrees:
  "fst (run_state (swim_create_os self_id) s) = None \<longleftrightarrow>
     wake_swim_create self_id a p cfg
       \<lparr>sa_handle = (if os_fails s (os_asked s) then None else Some ptr),
        sa_members = (\<not> os_fails s (os_asked s + 1)), sa_probe_order = (\<not> os_fails s (os_asked s + 2)),
        sa_updates = (\<not> os_fails s (os_asked s + 3))\<rparr> = None"
  by (auto simp: swim_create_os_def wake_swim_create_def case_prod_unfold Let_def eval_nat_numeral split: option.splits)

lemma plumtree_create_agrees:
  "fst (run_state (plumtree_create_os self_id) s) = None \<longleftrightarrow>
     wake_plumtree_create self_id cfg (\<not> os_fails s (os_asked s)) (\<not> os_fails s (os_asked s + 1))
       (\<not> os_fails s (os_asked s + 2)) (\<not> os_fails s (os_asked s + 3)) = None"
  by (auto simp: plumtree_create_os_def wake_plumtree_create_def case_prod_unfold Let_def eval_nat_numeral
      split: option.splits)

lemma quorum_create_agrees:
  "fst (run_state (quorum_create_os ()) s) = None \<longleftrightarrow>
     wake_quorum_create (\<not> os_fails s (os_asked s)) (\<not> os_fails s (os_asked s + 1)) cap cfg = None"
  by (auto simp: quorum_create_os_def wake_quorum_create_def case_prod_unfold)

text \<open>The parameters of the two tables.\<close>

definition create_answers :: "os \<Rightarrow> bytes \<Rightarrow> u64 \<Rightarrow> create_env" where
  "create_answers s key tv_sec =
     (let n = os_asked s
      in \<lparr>ce_open = (\<not> os_fails s n), ce_ftruncate = (\<not> os_fails s (n + 1)), ce_mmap = (\<not> os_fails s (n + 2)),
          ce_urandom = (if os_fails s (n + 3) then None else Some (if os_fails s (n + 4) then [] else key)),
          ce_malloc = (\<not> os_fails s (n + 5)), ce_tv_sec = tv_sec\<rparr>)"

definition open_answers :: "os \<Rightarrow> open_env" where
  "open_answers s =
     (let n = os_asked s
      in \<lparr>oe_open = (\<not> os_fails s n), oe_fstat = (\<not> os_fails s (n + 2)), oe_mmap = (\<not> os_fails s (n + 3)),
          oe_malloc = (\<not> os_fails s (n + 4))\<rparr>)"

lemma pheromone_create_agrees:
  assumes "length key = 16"
  shows "fst (run_state (pheromone_create_os cfg) s) = None \<longleftrightarrow>
     (\<exists>e. fst (wake_pheromone_create (create_answers s key tv) cfg hs) = Inl e)"
  using assms
  by (auto simp: pheromone_create_os_def wake_pheromone_create_def create_answers_def case_prod_unfold Let_def
      eval_nat_numeral)

lemma create_refused_time: "create_refused (tac_header cfg tv key) = create_refused (tac_header cfg 0 [])"
  by (simp add: create_refused_def tac_header_def Let_def)

lemma tac_create_agrees:
  assumes "length key = 16"
  shows "fst (run_state (tac_create_os cfg) s) = None \<longleftrightarrow>
     (\<exists>e. wake_tac_create (create_answers s key tv) cfg = Inl e)"
  using assms create_refused_time [of cfg tv "[]"]
  by (auto simp: tac_create_os_def wake_tac_create_def create_answers_def case_prod_unfold Let_def
      eval_nat_numeral)

lemma pheromone_open_agrees:
  assumes "\<not> os_fails s (os_asked s + 1)"
  shows "fst (run_state (pheromone_open_os file) s) = None \<longleftrightarrow>
     (\<exists>e. fst (wake_pheromone_open (open_answers s) file hs) = Inl e)"
  using assms
  by (auto simp: pheromone_open_os_def wake_pheromone_open_def open_answers_def case_prod_unfold Let_def
      eval_nat_numeral split: option.splits)

lemma tac_open_agrees:
  assumes "\<not> os_fails s (os_asked s + 1)"
  shows "fst (run_state (tac_open_os file) s) = None \<longleftrightarrow>
     (\<exists>e. wake_tac_open (open_answers s) file = Inl e)"
  using assms
  by (auto simp: tac_open_os_def wake_tac_open_def open_answers_def case_prod_unfold Let_def
      eval_nat_numeral split: option.splits)

end
