(* ===== verification/Wake_Fuzz_Tac.thy ===== *)
theory Wake_Fuzz_Tac
  imports Wake_Tac_Crafted
begin

text \<open>
  The fuzz target of the coupling table (\<open>src/src/fuzz_tac.c\<close>).  An even first byte opens the input
  as a table file; an odd one creates a small table and drives it by the rest of the input.  The
  target demands that no input inserts uncapped; that is a theorem here, for every input and every
  operation of the stream.
\<close>

section \<open>The target\<close>

text \<open>The results that the target discards, in the order of the calls.\<close>

datatype tac_call =
    Reinforced wake_tac_result_t
  | Batched u32
  | Queried "(bool \<times> wake_tac_snapshot_t) option"
  | Routed "wake_tac_input_t list"
  | Decayed u32
  | Reset
  | Surveyed wake_tac_stats_t "u32 \<times> u32 option" "wake_tac_entry_t option"
  | Packed u32 u32 u32

definition iter_keep :: "wake_tac_entry_t \<Rightarrow> u32 option \<Rightarrow> bool \<times> u32 option" where
  "iter_keep entry ctx = (True, map_option (\<lambda>n. n + 1) ctx)"

text \<open>At most \<open>n\<close> activations of 8 bytes each, while 8 bytes are left.\<close>

fun fill_acts :: "bytes \<Rightarrow> nat \<Rightarrow> wake_tac_activation_t list" where
  "fill_acts p 0 = []"
| "fill_acts p (Suc n) =
     (if length p \<ge> 8
      then \<lparr>ta_technique = le_load (take 4 p), ta_eta_fp16 = le_load (take 2 (drop 4 p)),
            ta_source_id = le_load (take 2 (drop 6 p))\<rparr> # fill_acts (drop 8 p) n
      else [])"

text \<open>The first mode: the input is a table file.\<close>

definition fuzz_tac_file :: "open_env \<Rightarrow> bytes \<Rightarrow> tac_call list" where
  "fuzz_tac_file env data =
     (case wake_tac_open env (tac_parse (take 0x100000 data)) of
        Inl _ \<Rightarrow> []
      | Inr t \<Rightarrow>
          [Queried (wake_tac_query t (Some (replicate 8 0x41)) True),
           Surveyed (wake_tac_stats t) (wake_tac_iterate t iter_keep (Some 0)) (wake_tac_read_entry t 0)])"

definition fuzz_tac_cfg :: wake_tac_config_t where
  "fuzz_tac_cfg = \<lparr>tc_capacity = 64, tc_occ_slots = 64, tc_decay_novel_fp16 = 0, tc_decay_corr_fp16 = 0,
     tc_noise_floor = 0, tc_budget_per_source = 0, tc_per_entity_cap = 8, tc_corroboration_src_min = 0,
     tc_tick_seconds = 0, tc_quarantine_min_w = 0\<rparr>"

text \<open>The keys: 16 bytes of input each, zeros when fewer are left.\<close>

fun fuzz_keys :: "nat \<Rightarrow> bytes \<Rightarrow> bytes list \<times> bytes" where
  "fuzz_keys 0 p = ([], p)"
| "fuzz_keys (Suc n) p =
     (let (k, p') = (if length p \<ge> 16 then (take 16 p, drop 16 p) else (replicate 16 0, p));
          (ks, q) = fuzz_keys n p'
      in (k # ks, q))"

text \<open>
  One operation: \<open>p\<close> is the input behind the operation byte, \<open>ops\<close> the number of operations with
  this one.  The last case is the default of the switch.
\<close>

definition fuzz_tac_op ::
  "bytes \<Rightarrow> u64 \<Rightarrow> nat \<Rightarrow> u8 \<Rightarrow> bytes \<Rightarrow> u32 \<Rightarrow> wake_tac_t \<Rightarrow> tac_call list \<times> bytes \<times> u32 \<times> wake_tac_t" where
  "fuzz_tac_op key tv_sec ops opc p now t =
     (if opc = 0 then
        if length p < 14 then ([], p, now, t)
        else
          let now' = (now AND 0xFFFF0000) OR le_load (take 2 (drop 12 p));
              (r, t') = wake_tac_reinforce t (Some key) (le_load (take 4 p)) (le_load (take 4 (drop 4 p)))
                          (le_load (take 2 (drop 8 p))) (le_load (take 2 (drop 10 p))) now'
          in ([Reinforced r], drop 14 p, now', t')
      else if opc = 1 then
        let acts = fill_acts p 8;
            (n, t') = wake_tac_reinforce_batch t (Some key) (Some acts) now
        in ([Batched n], if length acts * 8 \<le> length p then drop (length acts * 8) p else p, now, t')
      else if opc = 2 then
        ((if odd ops then [Queried (wake_tac_query t (Some (take 0 key)) True)] else [])
           @ [Queried (wake_tac_query t (Some key) True)], p, now, t)
      else if opc = 3 then
        let acts = fill_acts p 8
        in ([Routed (wake_tac_route t (Some key) (Some acts) (Some 8))],
            if length acts * 8 \<le> length p then drop (length acts * 8) p else p, now, t)
      else if opc = 4 then
        let (n, t') = wake_tac_decay t in ([Decayed n], p, now + 1, t')
      else if opc = 5 then
        case wake_tac_reset (Some t) of None \<Rightarrow> ([], p, now, t) | Some t' \<Rightarrow> ([Reset], p, now, t')
      else if opc = 6 then
        let (slot, p') = (if length p \<ge> 1 then (ucast (p ! 0), drop 1 p) else (0, p))
        in ([Surveyed (wake_tac_stats t) (wake_tac_iterate t iter_keep (Some 0)) (wake_tac_read_entry t slot)],
            p', now, t)
      else
        let (base, sub, p') = (if length p \<ge> 3 then (le_load (take 2 p), p ! 2, drop 3 p) else (1071, 1, p));
            llen = (if length p' > 8 then 8 else length p')
        in ([Packed (wake_tac_pack base sub) (wake_tac_pack_label (take llen p')) (wake_tac_now tv_sec t)],
            drop llen p', now, t))"

text \<open>The key of an operation, selected by the next byte.\<close>

definition fuzz_ksel :: "bytes \<Rightarrow> nat" where
  "fuzz_ksel p = (if length p > 0 then unat (p ! 0 AND 3) else 0)"

text \<open>The loop with \<open>k\<close> of the 48 operations to go; \<open>clock\<close> is the time at each of them.\<close>

fun fuzz_tac_loop ::
  "bytes list \<Rightarrow> (nat \<Rightarrow> u64) \<Rightarrow> nat \<Rightarrow> bytes \<Rightarrow> u32 \<Rightarrow> wake_tac_t \<Rightarrow> tac_call list \<times> wake_tac_t" where
  "fuzz_tac_loop keys clock 0 p now t = ([], t)"
| "fuzz_tac_loop keys clock (Suc k) p now t =
     (case p of
        [] \<Rightarrow> ([], t)
      | b # p' \<Rightarrow>
          let ops = 48 - k;
              (calls, q, now', t') = fuzz_tac_op (keys ! fuzz_ksel p') (clock ops) ops (b AND 7) p' now t;
              (rest, t'') = fuzz_tac_loop keys clock k q now' t'
          in (calls @ rest, t''))"

definition fuzz_tac_stream ::
  "create_env \<Rightarrow> (nat \<Rightarrow> u64) \<Rightarrow> bytes \<Rightarrow> (tac_call list \<times> wake_tac_t) option" where
  "fuzz_tac_stream env clock p =
     (case wake_tac_create env (Some fuzz_tac_cfg) of
        Inl _ \<Rightarrow> None
      | Inr t \<Rightarrow> let (keys, q) = fuzz_keys 4 p in Some (fuzz_tac_loop keys clock 48 q 1 t))"

text \<open>The entry point; \<open>mkstemp_ok\<close> tells whether the temporary file could be made.\<close>

definition fuzz_tac ::
  "bool \<Rightarrow> open_env \<Rightarrow> create_env \<Rightarrow> (nat \<Rightarrow> u64) \<Rightarrow> bytes
     \<Rightarrow> tac_call list \<times> wake_tac_t option" where
  "fuzz_tac mkstemp_ok oenv cenv clock data =
     (case data of
        [] \<Rightarrow> ([], None)
      | b # p \<Rightarrow>
          if \<not> mkstemp_ok then ([], None)
          else if b AND 1 = 0 then (fuzz_tac_file oenv data, None)
          else case fuzz_tac_stream cenv clock p of
                 None \<Rightarrow> ([], None)
               | Some (calls, t) \<Rightarrow> (calls, Some t))"

section \<open>The file mode reaches no table\<close>

lemma le_load_bit0: "bs \<noteq> [] \<Longrightarrow> bit (le_load bs :: 'a::len word) 0 \<longleftrightarrow> bit (bs ! 0) 0"
  by (simp add: bit_le_load)

text \<open>
  C40. The target opens its input as a file only when the first byte is even, but
  the first byte of the magic is 0x57: \<open>wake_tac_open\<close> refuses every such input, and none of the
  calls behind it is ever made.
\<close>

theorem fuzz_file_mode_dead:
  assumes "data ! 0 AND 1 = 0"
  shows "wake_tac_open env (tac_parse (take 0x100000 data)) \<noteq> Inr t \<and> fuzz_tac_file env data = []"
proof -
  let ?b = "take 0x100000 data"
  have "wake_tac_open env (tac_parse ?b) \<noteq> Inr t" for t
  proof
    assume t: "wake_tac_open env (tac_parse ?b) = Inr t"
    then have len: "256 \<le> length ?b" and m: "le_load (bytes_at ?b 0 8) = WAKE_TAC_MAGIC"
      by (auto simp: wake_tac_open_def tac_parse_def Let_def open_refused_def raw_tac_header_def
          split: if_splits option.splits)
    have "bit (le_load (bytes_at ?b 0 8) :: u64) 0 \<longleftrightarrow> bit (data ! 0) 0"
      using len by (subst le_load_bit0) (auto simp: bytes_at_def)
    moreover have "\<not> bit (data ! 0) 0" using assms by (simp add: bit_0 and_one_eq odd_iff_mod_2_eq_one)
    ultimately show False unfolding m by (simp add: bit_0)
  qed
  then show ?thesis by (auto simp: fuzz_tac_file_def split: sum.split)
qed

theorem fuzz_file_mode_dead_witness:
  "fuzz_tac_file \<lparr>oe_open = True, oe_fstat = True, oe_mmap = True, oe_malloc = True\<rparr> [0x56, 0x41] = []"
  using fuzz_file_mode_dead [of "[0x56, 0x41]"] by simp

section \<open>Every stream keeps the cap\<close>

lemma length_fuzz_keys [simp]: "length (fst (fuzz_keys n p)) = n"
  by (induction n arbitrary: p) (simp_all add: Let_def case_prod_unfold)

text \<open>The tables a stream goes through are reached by calls for its four keys.\<close>

definition driven :: "bytes set \<Rightarrow> wake_tac_header_t \<Rightarrow> wake_tac_t \<Rightarrow> bool" where
  "driven Ks h t \<longleftrightarrow> reach (few_init Ks) (few_step Ks) t \<and> t_header t = h"

lemma driven_step:
  assumes "driven Ks h t" "few_step Ks t t'"
  shows "driven Ks h t'"
proof -
  have "few_ok Ks t" using assms(1) by (auto simp: driven_def intro: few.reach_inv)
  then have "t_header t' = t_header t"
    using tac_step_keeps [OF _ few_step_tac [OF assms(2)]] by (simp add: few_ok_def)
  with assms show ?thesis by (auto simp: driven_def intro: reach_step)
qed

lemma fuzz_tac_op_step:
  assumes "key \<in> Ks" "driven Ks h t" "fuzz_tac_op key tv ops opc p now t = (calls, q, now', t')"
  shows "driven Ks h t'"
proof -
  have "t' = t \<or> few_step Ks t t'"
    using assms(1,3)
    by (auto simp: fuzz_tac_op_def Let_def wake_tac_reset_def prod_eq_iff case_prod_unfold
        intro: fs_reinforce fs_batch fs_decay fs_reset split: if_splits)
  with assms(2) show ?thesis by (auto intro: driven_step)
qed

lemma fuzz_tac_loop_driven:
  assumes "length keys = 4" "driven (set keys) h t"
  shows "driven (set keys) h (snd (fuzz_tac_loop keys clock k p now t))"
  using assms(2)
proof (induction k arbitrary: p now t)
  case (Suc k)
  show ?case
  proof (cases p)
    case (Cons b p')
    have "unat (x AND 3) < 4" for x :: u8
      using word_and_le1 [of x 3] by (simp add: word_le_nat_alt)
    then have key: "keys ! fuzz_ksel p' \<in> set keys" using assms(1) by (simp add: fuzz_ksel_def)
    obtain calls q now' t' where f:
      "fuzz_tac_op (keys ! fuzz_ksel p') (clock (48 - k)) (48 - k) (b AND 7) p' now t = (calls, q, now', t')"
      by (metis prod_cases4)
    from Suc.IH [OF fuzz_tac_op_step [OF key Suc.prems f]] show ?thesis
      by (simp add: Cons Let_def f case_prod_unfold)
  qed (use Suc.prems in simp)
qed simp

lemma fuzz_create:
  assumes "wake_tac_create env (Some fuzz_tac_cfg) = Inr t"
  shows "th_capacity (t_header t) = 64" "th_occ_slots (t_header t) = 64" "th_per_entity_cap (t_header t) = 8"
    "th_budget_per_source (t_header t) = 20000"
  using assms
  by (auto simp: wake_tac_create_def Let_def tac_header_def tac_cfg_or_def fuzz_tac_cfg_def
      split: if_splits option.splits)

lemma fuzz_tac_driven:
  assumes "fuzz_tac mkstemp_ok oenv cenv clock data = (calls, Some t)"
  obtains Ks t0 where "wake_tac_create cenv (Some fuzz_tac_cfg) = Inr t0" "driven Ks (t_header t0) t"
proof -
  obtain p where "fuzz_tac_stream cenv clock p = Some (calls, t)"
    using assms by (auto simp: fuzz_tac_def split: list.splits if_splits option.splits)
  then obtain t0 where c: "wake_tac_create cenv (Some fuzz_tac_cfg) = Inr t0"
    and t: "t = snd (fuzz_tac_loop (fst (fuzz_keys 4 p)) clock 48 (snd (fuzz_keys 4 p)) 1 t0)"
    by (auto simp: fuzz_tac_stream_def Let_def case_prod_unfold split: sum.splits)
  have "card (set (fst (fuzz_keys 4 p))) \<le> 4" using card_length [of "fst (fuzz_keys 4 p)"] by simp
  moreover have "tac_init t0" using c unfolding tac_init_def by blast
  ultimately have "driven (set (fst (fuzz_keys 4 p))) (t_header t0) t0"
    using fuzz_create(2) [OF c] by (auto simp: driven_def few_init_def intro!: reach_init)
  then have "driven (set (fst (fuzz_keys 4 p))) (t_header t0) t"
    unfolding t by (rule fuzz_tac_loop_driven [rotated]) simp
  with c that show thesis by blast
qed

lemma find_slot_live:
  assumes "tac_shape S t" "i < length (t_entries t)" "\<not> vacant (te_key_hash (t_entries t ! i))"
  shows "find_slot t (te_key_hash (t_entries t ! i)) = of_nat i"
  using assms(1,3)
proof (cases rule: find_slot_cases)
  case (found d)
  then have "unat (tac_idx t (te_key_hash (t_entries t ! i)) d) = i"
    using tct.chainedD(2) [OF tac_shapeD(2) [OF assms(1)], of i] assms(2,3)
      tac_slot_less [OF tac_shapeD(1) [OF assms(1)]] by (simp add: tac_slot_def)
  with found(1) show ?thesis by (metis of_nat_unat ucast_id)
next
  case absent
  with assms(2) show ?thesis by (auto simp: in_set_conv_nth)
qed

text \<open>
  C23. Whatever bytes drive the fuzz target, and whatever key and clock the
  system provides: the table it ends with has at most 8 live edges for every entity, in 64 slots,
  all of them found by the bounded probe, and no weight above five times the budget of a source.
\<close>

theorem fuzz_never_uncapped:
  assumes "fuzz_tac mkstemp_ok oenv cenv clock data = (calls, Some t)"
  shows "card {i. i < length (t_entries t) \<and> \<not> vacant (te_key_hash (t_entries t ! i))
            \<and> te_entity_hash (t_entries t ! i) = eh} \<le> 8
    \<and> length (t_entries t) = 64
    \<and> (\<forall>i<64. \<not> vacant (te_key_hash (t_entries t ! i)) \<longrightarrow>
         find_slot t (te_key_hash (t_entries t ! i)) = of_nat i)
    \<and> (\<forall>e\<in>set (t_entries t). unat (te_weight e) \<le> 100000)"
proof -
  obtain Ks t0 where c: "wake_tac_create cenv (Some fuzz_tac_cfg) = Inr t0" and dr: "driven Ks (t_header t0) t"
    using assms by (rule fuzz_tac_driven)
  have h: "t_header t = t_header t0" using dr by (simp add: driven_def)
  have ok: "few_ok Ks t" using dr by (auto simp: driven_def intro: few.reach_inv)
  then have shape: "tac_shape UNIV t" and cap: "tracked {} t" "within_cap t"
    by (simp_all add: few_ok_def tac_inv_def capped_def)
  have "card (live_edges t eh) \<le> 8"
    using live_edges_le [OF shape cap(1), of eh] spec [OF cap(2) [unfolded within_cap_def], of eh]
      fuzz_create(3) [OF c] by (simp add: h)
  moreover have len: "length (t_entries t) = 64"
    using tac_shapeD(1) [OF shape] fuzz_create(1) [OF c] by (simp add: tac_layout_def h)
  moreover have "unat (te_weight e) \<le> 100000" if "e \<in> set (t_entries t)" for e
  proof -
    have e: "edge_ok UNIV (t_header t) e" using shape that by (simp add: tac_shape_def)
    from edge_okD(3) [OF e] total_spent_le [OF edge_okD(1) [OF e]] fuzz_create(4) [OF c] show ?thesis
      by (simp add: h)
  qed
  ultimately show ?thesis using find_slot_live [OF shape] by (simp add: live_edges_def)
qed

definition fuzz_env :: create_env where
  "fuzz_env = \<lparr>ce_open = True, ce_ftruncate = True, ce_mmap = True, ce_urandom = Some (replicate 16 7),
     ce_malloc = True, ce_tv_sec = 1700000000\<rparr>"

definition no_open :: open_env where
  "no_open = \<lparr>oe_open = False, oe_fstat = False, oe_mmap = False, oe_malloc = False\<rparr>"

text \<open>A stream of a decay pass and a query.\<close>

theorem fuzz_never_uncapped_witness:
  "\<exists>calls t. fuzz_tac True no_open fuzz_env (\<lambda>_. 0) [1, 4, 2] = (calls, Some t) \<and> length (t_entries t) = 64"
proof -
  have "wake_tac_create fuzz_env (Some fuzz_tac_cfg) \<noteq> Inl e" for e
    by (simp add: fuzz_env_def wake_tac_create_def create_refused_def tac_header_def tac_cfg_or_def
        is_power_of_2_def fuzz_tac_cfg_def Let_def)
  then obtain calls t where "fuzz_tac True no_open fuzz_env (\<lambda>_. 0) [1, 4, 2] = (calls, Some t)"
    by (cases "wake_tac_create fuzz_env (Some fuzz_tac_cfg)") (auto simp: fuzz_tac_def fuzz_tac_stream_def Let_def case_prod_unfold)
  with fuzz_never_uncapped [OF this, of 5] show ?thesis by auto
qed

end
