(* ===== verification/Wake_Fuzz_Dgram.thy ===== *)
theory Wake_Fuzz_Dgram
  imports Wake_Dgram_Props
begin

text \<open>
  The fuzz target of the datagram decoder (\<open>src/src/fuzz_dgram.c\<close>): it decodes arbitrary bytes and
  encodes again what was accepted.  The target has no assertion on the result; here decoding the
  encoded message is shown to give back the accepted one, for every input.
\<close>

section \<open>The target\<close>

abbreviation WAKE_DGRAM_MAX_LEN :: nat where "WAKE_DGRAM_MAX_LEN \<equiv> 1024"

text \<open>
  The switch on the type of the accepted message; \<open>out\<close> is the buffer on the stack, \<open>data\<close> the
  input that the payload pointer aliases.  0 is also what is left when no encoder is called.
\<close>

definition fuzz_reencode :: "bytes \<Rightarrow> wake_dgram_t \<Rightarrow> bytes \<Rightarrow> nat \<times> bytes" where
  "fuzz_reencode data msg out =
     (let type = dg_msg_type msg;
          updates = take (unat (dg_n_updates msg)) (dg_updates msg)
      in if type = WAKE_DGRAM_SWIM_PING \<or> type = WAKE_DGRAM_SWIM_ACK
         then wake_dgram_encode_swim out type (dg_sender_id msg) None updates
         else if type = WAKE_DGRAM_SWIM_PING_REQ
         then wake_dgram_encode_swim out WAKE_DGRAM_SWIM_PING_REQ (dg_sender_id msg)
                (Some (dg_target_id msg)) updates
         else if type = WAKE_DGRAM_PT_GOSSIP
         then (case dg_payload msg of
                 None \<Rightarrow> wake_dgram_encode_pt_gossip out (dg_sender_id msg) (dg_msg_id msg) []
               | Some off \<Rightarrow>
                   wake_dgram_encode_pt_gossip out (dg_sender_id msg) (dg_msg_id msg)
                     (take (unat (dg_payload_len msg)) (drop off data)))
         else if type = WAKE_DGRAM_PT_IHAVE \<or> type = WAKE_DGRAM_PT_GRAFT \<or> type = WAKE_DGRAM_PT_PRUNE
         then wake_dgram_encode_pt_ctrl out type (dg_sender_id msg) (dg_msg_id msg)
         else (0, out))"

definition fuzz_dgram :: "bytes \<Rightarrow> bytes \<Rightarrow> nat \<times> bytes" where
  "fuzz_dgram data out =
     (case wake_dgram_decode (Some data) True of
        Inl _ \<Rightarrow> (0, out)
      | Inr msg \<Rightarrow> fuzz_reencode data msg out)"

section \<open>What is accepted\<close>

lemma dec_update_ok: "dec_update buf p = Inr u \<Longrightarrow> update_ok u"
  by (auto simp: dec_update_def read_Inr update_ok_def)

lemma dec_update_loop_Inr:
  assumes "dec_update_loop buf k i off us = Inr vs" "i + k \<le> length us"
  shows "\<exists>ws. length ws = k \<and> (\<forall>u\<in>set ws. update_ok u) \<and> vs = take i us @ ws @ drop (i + k) us"
  using assms
proof (induction k arbitrary: i off us)
  case (Suc k)
  from Suc.prems(1) obtain u where u: "dec_update buf off = Inr u"
    "dec_update_loop buf k (Suc i) (off + 48) (us[i := u]) = Inr vs" by (auto simp: and_then_Inr)
  from Suc.IH [OF u(2)] Suc.prems(2) obtain ws where
    ws: "length ws = k" "\<forall>u\<in>set ws. update_ok u" "vs = take (Suc i) (us[i := u]) @ ws @ drop (Suc i + k) us"
    by auto
  have "take (Suc i) (us[i := u]) = take i us @ [u]" using Suc.prems(2) by simp
  with ws dec_update_ok [OF u(1)] show ?case by (intro exI [of _ "u # ws"]) auto
qed simp

lemma dec_updates_Inr:
  assumes "dec_updates buf off out = Inr d" "off \<le> length buf"
    and "dg_updates out = replicate 8 zero_update"
  obtains ws where "length ws \<le> 8" "\<forall>u\<in>set ws. update_ok u"
    "d = out\<lparr>dg_updates := ws @ drop (length ws) (replicate 8 zero_update), dg_n_updates := of_nat (length ws)\<rparr>"
    "off + 48 * length ws \<le> length buf"
proof (cases "off \<ge> length buf")
  case True
  with assms have "d = out\<lparr>dg_updates := replicate 8 zero_update, dg_n_updates := 0\<rparr>"
    by (cases out) (simp add: dec_updates_def)
  with that [of "[]"] assms(2) show thesis by simp
next
  case False
  define c where "c = buf ! off"
  from False assms(1) obtain us where
    c: "unat c \<le> 8" "off + 1 + unat c * 48 \<le> length buf"
      "dec_update_loop buf (unat c) 0 (off + 1) (replicate 8 zero_update) = Inr us"
      "d = out\<lparr>dg_updates := us, dg_n_updates := c\<rparr>"
    by (auto simp: dec_updates_def read_Inr assms(3) c_def not_less split: if_splits)
  from dec_update_loop_Inr [OF c(3)] c(1) obtain ws where
    "length ws = unat c" "\<forall>u\<in>set ws. update_ok u" "us = ws @ drop (unat c) (replicate 8 zero_update)" by auto
  with c that [of ws] show thesis by simp
qed

text \<open>An accepted message, by its type: what it holds and how long the input was at least.\<close>

lemma decode_cases:
  assumes "dgram_decode buf = Inr d"
  obtains
    (swim) type sender t ws where
      "type \<in> {WAKE_DGRAM_SWIM_PING, WAKE_DGRAM_SWIM_ACK, WAKE_DGRAM_SWIM_PING_REQ}"
      "length sender = 32" "length t = 32" "length ws \<le> 8" "\<forall>u\<in>set ws. update_ok u"
      "d = (if type = WAKE_DGRAM_SWIM_PING_REQ
            then zero_dgram\<lparr>dg_msg_type := type, dg_sender_id := sender, dg_target_id := t\<rparr>
            else zero_dgram\<lparr>dg_msg_type := type, dg_sender_id := sender\<rparr>)
           \<lparr>dg_updates := ws @ drop (length ws) (replicate 8 zero_update), dg_n_updates := of_nat (length ws)\<rparr>"
      "36 + (if type = WAKE_DGRAM_SWIM_PING_REQ then 32 else 0) + 48 * length ws \<le> length buf"
  | (gossip) sender mid plen where
      "length sender = 32" "length mid = 16" "unat plen \<le> 256" "54 + unat plen \<le> length buf"
      "d = zero_dgram\<lparr>dg_msg_type := WAKE_DGRAM_PT_GOSSIP, dg_sender_id := sender,
             dg_msg_id := mid, dg_payload := Some 54, dg_payload_len := plen\<rparr>"
  | (ctrl) type sender mid where
      "type \<in> {WAKE_DGRAM_PT_IHAVE, WAKE_DGRAM_PT_GRAFT}" "length sender = 32" "length mid = 16"
      "52 \<le> length buf" "d = zero_dgram\<lparr>dg_msg_type := type, dg_sender_id := sender, dg_msg_id := mid\<rparr>"
  | (prune) sender where
      "length sender = 32" "36 \<le> length buf"
      "d = zero_dgram\<lparr>dg_msg_type := WAKE_DGRAM_PT_PRUNE, dg_sender_id := sender\<rparr>"
proof -
  define type sender where "type = buf ! 3" and "sender = take 32 (drop 4 buf)"
  define out where "out = zero_dgram\<lparr>dg_msg_type := type, dg_sender_id := sender\<rparr>"
  have hdr: "36 \<le> length buf" "buf ! 0 = 87" "buf ! 1 = 68" "buf ! 2 = WAKE_DGRAM_VERSION"
    using assms by (auto simp: dgram_decode_def read_Inr split: if_splits)
  have "buf \<noteq> []" using hdr by auto
  have "dgram_decode buf =
      (if type = WAKE_DGRAM_SWIM_PING \<or> type = WAKE_DGRAM_SWIM_ACK then dec_updates buf 36 out
       else if type = WAKE_DGRAM_SWIM_PING_REQ then dec_ping_req buf 36 out
       else if type = WAKE_DGRAM_PT_GOSSIP then dec_gossip buf 36 out
       else if type = WAKE_DGRAM_PT_IHAVE \<or> type = WAKE_DGRAM_PT_GRAFT then dec_ctrl buf 36 out
       else if type = WAKE_DGRAM_PT_PRUNE then Inr out
       else Inl Malformed)"
    using hdr \<open>buf \<noteq> []\<close>
    by (simp add: dgram_decode_def read_byte_def read_bytes_def Let_def type_def sender_def out_def)
  note body = this [unfolded assms, symmetric]
  have len: "length sender = 32" using hdr by (simp add: sender_def)
  consider "type = WAKE_DGRAM_SWIM_PING \<or> type = WAKE_DGRAM_SWIM_ACK" | "type = WAKE_DGRAM_SWIM_PING_REQ"
    | "type = WAKE_DGRAM_PT_GOSSIP" | "type = WAKE_DGRAM_PT_IHAVE \<or> type = WAKE_DGRAM_PT_GRAFT"
    | "type = WAKE_DGRAM_PT_PRUNE"
    using body by (auto split: if_splits)
  then show thesis
  proof cases
    case 1
    with body have "dec_updates buf 36 out = Inr d" by auto
    then obtain ws where "length ws \<le> 8" "\<forall>u\<in>set ws. update_ok u"
      "d = out\<lparr>dg_updates := ws @ drop (length ws) (replicate 8 zero_update), dg_n_updates := of_nat (length ws)\<rparr>"
      "36 + 48 * length ws \<le> length buf"
      using hdr(1) by (rule dec_updates_Inr) (simp add: out_def zero_dgram_def)
    with 1 len show thesis by (intro swim [of type sender "replicate 32 0" ws]) (auto simp: out_def)
  next
    case 2
    define t where "t = take 32 (drop 36 buf)"
    from 2 body have "68 \<le> length buf" "dec_updates buf 68 (out\<lparr>dg_target_id := t\<rparr>) = Inr d"
      by (auto simp: dec_ping_req_def read_Inr t_def split: if_splits)
    moreover from this obtain ws where "length ws \<le> 8" "\<forall>u\<in>set ws. update_ok u"
      "d = out\<lparr>dg_target_id := t, dg_updates := ws @ drop (length ws) (replicate 8 zero_update),
               dg_n_updates := of_nat (length ws)\<rparr>"
      "68 + 48 * length ws \<le> length buf"
      by (elim dec_updates_Inr) (simp_all add: out_def zero_dgram_def)
    ultimately show thesis using 2 len by (intro swim [of type sender t ws]) (auto simp: out_def t_def)
  next
    case 3
    with body len show thesis
      by (intro gossip [of sender "take 16 (drop 36 buf)" "rd16 (take 2 (drop 52 buf))"])
        (auto simp: dec_gossip_def read_Inr Let_def out_def split: if_splits)
  next
    case 4
    with body len show thesis
      by (intro ctrl [of type sender "take 16 (drop 36 buf)"])
        (auto simp: dec_ctrl_def read_Inr Let_def out_def split: if_splits)
  next
    case 5
    with body len hdr show thesis by (intro prune [of sender]) (auto simp: out_def)
  qed
qed

section \<open>Encoding it again\<close>

lemma reencode_swim:
  assumes "type \<in> {WAKE_DGRAM_SWIM_PING, WAKE_DGRAM_SWIM_ACK, WAKE_DGRAM_SWIM_PING_REQ}"
    and "length sender = 32" "length t = 32" "length ws \<le> 8" "\<forall>u\<in>set ws. update_ok u"
    and "453 \<le> length out"
  defines "d \<equiv> (if type = WAKE_DGRAM_SWIM_PING_REQ
            then zero_dgram\<lparr>dg_msg_type := type, dg_sender_id := sender, dg_target_id := t\<rparr>
            else zero_dgram\<lparr>dg_msg_type := type, dg_sender_id := sender\<rparr>)
           \<lparr>dg_updates := ws @ drop (length ws) (replicate 8 zero_update), dg_n_updates := of_nat (length ws)\<rparr>"
  defines "msg \<equiv> dgram_header type sender @ swim_body (if type = WAKE_DGRAM_SWIM_PING_REQ then t else []) ws"
  shows "fuzz_reencode data d out = (length msg, msg @ drop (length msg) out)" and "dgram_decode msg = Inr d"
    and "length msg = 37 + (if type = WAKE_DGRAM_SWIM_PING_REQ then 32 else 0) + 48 * length ws"
proof -
  have cnt: "unat (of_nat (length ws) :: u8) = length ws"
    using assms(4) by (intro unat_of_nat_le [of _ 8]) auto
  show len: "length msg = 37 + (if type = WAKE_DGRAM_SWIM_PING_REQ then 32 else 0) + 48 * length ws"
    using assms(2,3,5) by (simp add: msg_def swim_body_def)
  have "wake_dgram_encode_swim out type sender (if type = WAKE_DGRAM_SWIM_PING_REQ then Some t else None) ws
      = (length msg, msg @ drop (length msg) out)"
    using assms(2-6) len unfolding msg_def by (intro encode_swim_eq) auto
  with assms(1) cnt show "fuzz_reencode data d out = (length msg, msg @ drop (length msg) out)"
    by (auto simp: fuzz_reencode_def d_def Let_def)
  show "dgram_decode msg = Inr d" unfolding msg_def d_def by (rule decode_swim_msg [OF assms(1-3,5,4)])
qed

text \<open>
  C29. The codec loses nothing: for every input that \<open>wake_dgram_decode\<close> accepts,
  the encoder that the fuzz target calls succeeds, writes at most one byte more than the input had
  (the count of a SWIM message that ends before it), leaves the rest of its buffer alone, and
  decoding what it wrote gives exactly the accepted message, with the same payload bytes.
\<close>

theorem reencode_exact:
  assumes "wake_dgram_decode (Some data) True = Inr msg" and "length out = WAKE_DGRAM_MAX_LEN"
    and "fuzz_dgram data out = (n, buf)"
  shows "0 < n \<and> n \<le> length data + 1 \<and> length buf = WAKE_DGRAM_MAX_LEN \<and> drop n buf = drop n out
    \<and> wake_dgram_decode (Some (take n buf)) True = Inr msg
    \<and> (dg_payload msg \<noteq> None \<longrightarrow>
         take (unat (dg_payload_len msg)) (drop (the (dg_payload msg)) (take n buf))
           = take (unat (dg_payload_len msg)) (drop (the (dg_payload msg)) data))"
proof -
  from assms(1) have dec: "dgram_decode data = Inr msg" by (simp add: wake_dgram_decode_def)
  from assms(1,3) have enc: "fuzz_reencode data msg out = (n, buf)" by (simp add: fuzz_dgram_def)
  from dec show ?thesis
  proof (cases rule: decode_cases)
    case (swim type sender t ws)
    have "453 \<le> length out" using assms(2) by simp
    note re = reencode_swim [OF swim(1-5) this, folded swim(6)]
    have n: "dg_payload msg = None" by (simp add: swim(6) zero_dgram_def)
    from re enc swim(4,7) assms(2) n show ?thesis by (auto simp: wake_dgram_decode_def)
  next
    case (gossip sender mid plen)
    define pl where "pl = take (unat plen) (drop 54 data)"
    have len: "length pl = unat plen" "length pl \<le> 256" using gossip(3,4) by (auto simp: pl_def)
    have plen: "of_nat (length pl) = plen" by (simp add: len)
    have room: "54 + length pl \<le> length out" using len assms(2) by simp
    have "wake_dgram_encode_pt_gossip out sender mid pl = (n, buf)"
      using enc by (simp add: gossip(5) fuzz_reencode_def Let_def pl_def)
    with encode_gossip_eq [OF gossip(1,2) len(2) room] decode_gossip_msg [OF gossip(1,2) len(2)] plen len(1) room
      gossip(4,5) assms(2)
    show ?thesis by (auto simp: wake_dgram_decode_def pl_def [symmetric])
  next
    case (ctrl type sender mid)
    have "wake_dgram_encode_pt_ctrl out type sender mid = (n, buf)"
      using enc ctrl by (auto simp: fuzz_reencode_def Let_def)
    moreover have "wake_dgram_encode_pt_ctrl out type sender mid
        = (52, (dgram_header type sender @ mid) @ drop 52 out)"
      using encode_ctrl_eq [of sender mid out type mid] ctrl assms(2) by auto
    moreover have "dg_payload msg = None" by (simp add: ctrl(5) zero_dgram_def)
    ultimately show ?thesis
      using decode_ctrl_msg(1) [OF ctrl(2,3,1)] ctrl(2,3,4,5) assms(2) by (auto simp: wake_dgram_decode_def)
  next
    case (prune sender)
    have "wake_dgram_encode_pt_ctrl out WAKE_DGRAM_PT_PRUNE sender (replicate 16 0) = (n, buf)"
      using enc by (auto simp: prune(3) fuzz_reencode_def Let_def zero_dgram_def)
    moreover have "wake_dgram_encode_pt_ctrl out WAKE_DGRAM_PT_PRUNE sender (replicate 16 0)
        = (36, dgram_header WAKE_DGRAM_PT_PRUNE sender @ drop 36 out)"
      using encode_ctrl_eq [of sender "replicate 16 0" out WAKE_DGRAM_PT_PRUNE "[]"] prune assms(2) by auto
    moreover have "dg_payload msg = None" by (simp add: prune(3) zero_dgram_def)
    ultimately show ?thesis
      using decode_ctrl_msg(2) [of sender "replicate 16 0"] prune assms(2) by (auto simp: wake_dgram_decode_def)
  qed
qed

text \<open>A PING that ends after its header comes back with a count of 0.\<close>

theorem reencode_exact_witness:
  "\<exists>n buf. fuzz_dgram ([87, 68, 1, 0] @ replicate 32 9) (replicate 1024 0) = (n, buf) \<and> 0 < n
     \<and> wake_dgram_decode (Some (take n buf)) True
       = Inr (zero_dgram\<lparr>dg_msg_type := WAKE_DGRAM_SWIM_PING, dg_sender_id := replicate 32 9\<rparr>)"
proof -
  obtain n buf where e: "fuzz_dgram ([87, 68, 1, 0] @ replicate 32 9) (replicate 1024 0) = (n, buf)" by force
  have "wake_dgram_decode (Some ([87, 68, 1, 0] @ replicate 32 9)) True
      = Inr (zero_dgram\<lparr>dg_msg_type := WAKE_DGRAM_SWIM_PING, dg_sender_id := replicate 32 9\<rparr>)" by code_simp
  from reencode_exact [OF this _ e] e show ?thesis by auto
qed

end
