(* ===== verification/Wake_Fuzz_Mesh.thy ===== *)
theory Wake_Fuzz_Mesh
  imports Wake_Exchange Wake_Plumtree_Props Wake_Signal Wake_Pheromone_Props Wake_Layout
begin

text \<open>
  The fuzz targets of the components that face other nodes: \<open>src/src/fuzz_swim.c\<close>,
  \<open>src/src/fuzz_plumtree.c\<close>, \<open>src/src/fuzz_signal.c\<close>, \<open>src/src/fuzz_crypto.c\<close> and
  \<open>src/src/fuzz_pheromone.c\<close>.  Their comments say what must hold for every input; here it is proved.
\<close>

text \<open>A structure of \<open>n\<close> bytes that was zeroed before the input was copied over it.\<close>

definition over_zeros :: "nat \<Rightarrow> bytes \<Rightarrow> bytes" where
  "over_zeros n data = take n data @ replicate (n - length data) 0"

section \<open>SWIM\<close>

definition fuzz_swim_cfg :: wake_swim_config_t where
  "fuzz_swim_cfg = \<lparr>sc_max_members = 16, sc_update_queue_size = 16, sc_suspicion_mult = 2,
     sc_max_piggybacks = 2, sc_protocol_period_ms = 1000, sc_suspect_timeout_ms = 0, sc_prng_seed = 1\<rparr>"

definition fuzz_self :: bytes where
  "fuzz_self = 1 # replicate 31 0"

text \<open>The input as a \<open>wake_swim_update_t\<close>, in its layout.\<close>

definition raw_update :: "bytes \<Rightarrow> wake_swim_update_t" where
  "raw_update data =
     (let b = over_zeros 48 data
      in \<lparr>su_node_id = take 32 b, su_addr = le_load (take 4 (drop 32 b)),
          su_port = le_load (take 2 (drop 36 b)), su_state = b ! 38,
          su_incarnation = le_load (take 4 (drop 40 b)),
          su_piggyback_count = le_load (take 2 (drop 44 b))\<rparr>)"

definition fuzz_swim :: "swim_alloc \<Rightarrow> bytes \<Rightarrow> (wake_swim_stats_t option \<times> wake_swim_t) option" where
  "fuzz_swim al data =
     (case wake_swim_create (Some fuzz_self) 0x0100007f 7946 (Some fuzz_swim_cfg) al of
        None \<Rightarrow> None
      | Some sw \<Rightarrow>
          let (_, sw1) = swim_apply_update sw (raw_update data) 1000;
              (_, sw2) = swim_check_suspects sw1 5000;
              (_, sw3) = swim_reap sw2 8000 2000
          in Some (wake_swim_stats (Some sw3) True, sw3))"

lemma commit_member_config [simp]: "sw_config (commit_member sw i m) = sw_config sw"
  by (simp add: commit_member_def recount_alive_def Let_def)

lemma apply_update_config: "sw_config (snd (swim_apply_update sw u now)) = sw_config sw"
  by (auto simp: swim_apply_update_def apply_self_update_def apply_known_update_def apply_unknown_update_def
      swim_add_member_def Let_def case_prod_unfold split: option.split)

lemma check_fold_frame:
  "sw_config (snd (fold (check_suspect_at timeout now) ns (e, sw))) = sw_config sw
   \<and> sw_self_id (snd (fold (check_suspect_at timeout now) ns (e, sw))) = sw_self_id sw"
proof (induction ns arbitrary: e sw)
  case (Cons n ns)
  then show ?case by (metis check_suspect_at_frame(1,4) fold_simps(2) prod.collapse)
qed simp

lemma check_reap_frame:
  "sw_config (snd (swim_check_suspects sw now)) = sw_config sw"
  "sw_self_id (snd (swim_check_suspects sw now)) = sw_self_id sw"
  "sw_config (snd (swim_reap sw now retention)) = sw_config sw"
  "sw_self_id (snd (swim_reap sw now retention)) = sw_self_id sw"
  by (simp_all add: swim_check_suspects_def swim_reap_def recount_alive_def Let_def case_prod_unfold check_fold_frame)

text \<open>
  Whatever bytes are applied as an update to a new instance, followed by the
  suspicion timeout and reaping: the invariant holds, the member list stays within its 16 entries,
  the id of the node is still its own, and the node is not among its members.
\<close>

theorem fuzz_swim_safe:
  assumes "fuzz_swim al data = Some (st, sw)"
  shows "swim_inv sw \<and> unat (sw_member_count sw) \<le> 16 \<and> length (sw_members sw) = 16
    \<and> sw_self_id sw = fuzz_self \<and> swim_find sw fuzz_self = None"
proof -
  obtain s0 where c: "wake_swim_create (Some fuzz_self) 0x0100007f 7946 (Some fuzz_swim_cfg) al = Some s0"
    and sw: "sw = snd (swim_reap (snd (swim_check_suspects (snd (swim_apply_update s0 (raw_update data) 1000)) 5000)) 8000 2000)"
    using assms by (auto simp: fuzz_swim_def Let_def case_prod_unfold split: option.splits)
  have "swim_init s0" using c unfolding swim_init_def by blast
  then have "swim_reachable s0" by (rule reach_init)
  then have "swim_reachable (snd (swim_apply_update s0 (raw_update data) 1000))"
    by (rule reach_step) (rule swim_step.apply_update)
  then have "swim_reachable (snd (swim_check_suspects (snd (swim_apply_update s0 (raw_update data) 1000)) 5000))"
    by (rule reach_step) (rule swim_step.check_suspects)
  then have "swim_reachable sw" unfolding sw by (rule reach_step) (rule swim_step.reap)
  then have inv: "swim_inv sw" by (rule swim.reach_inv)
  have s0: "sw_config s0 = fuzz_swim_cfg" "sw_self_id s0 = fuzz_self"
    using c by (auto simp: wake_swim_create_def enforce_minimums_def fuzz_swim_cfg_def Let_def
        split: option.splits if_splits)
  have cfg: "sw_config sw = fuzz_swim_cfg" and self: "sw_self_id sw = fuzz_self"
    by (simp_all add: sw check_reap_frame apply_update_config s0)
  have m: "members_ok sw" using inv by (simp add: swim_inv_def)
  have "swim_find sw fuzz_self = None"
    using m self by (auto simp: swim_find_None_iff [OF inv] members_ok_def)
  with inv m cfg self show ?thesis
    by (simp add: members_ok_def fuzz_swim_cfg_def word_le_nat_alt)
qed

definition fuzz_al :: swim_alloc where
  "fuzz_al = \<lparr>sa_handle = Some 4096, sa_members = True, sa_probe_order = True, sa_updates = True\<rparr>"

text \<open>The update accuses the node itself.\<close>

theorem fuzz_swim_safe_witness:
  "\<exists>st sw. fuzz_swim fuzz_al (fuzz_self @ replicate 16 1) = Some (st, sw) \<and> sw_self_id sw = fuzz_self"
proof -
  obtain st sw where e: "fuzz_swim fuzz_al (fuzz_self @ replicate 16 1) = Some (st, sw)"
    by (simp add: fuzz_swim_def wake_swim_create_def fuzz_al_def Let_def case_prod_unfold)
  from fuzz_swim_safe [OF e] e show ?thesis by blast
qed

section \<open>PlumTree\<close>

definition fuzz_pt_cfg :: wake_plumtree_config_t where
  "fuzz_pt_cfg = \<lparr>pc_max_peers = 8, pc_cache_size = 16, pc_pending_size = 8, pc_lazy_timeout_ms = 50,
     pc_cache_ttl_ms = 200\<rparr>"

text \<open>
  The message id and the second peer are read while enough bytes are left.  \<open>send_nop\<close> and
  \<open>deliver_nop\<close> do nothing; the events are the calls of them.
\<close>

definition fuzz_pt_input :: "bytes \<Rightarrow> bytes \<times> bytes option \<times> bytes" where
  "fuzz_pt_input p0 =
     (let (mid, p1) = (if length p0 \<ge> 16 then (take 16 p0, drop 16 p0) else (replicate 16 0, p0));
          (peer, p2) = (if length p1 \<ge> 32 then (Some (take 32 p1), drop 32 p1) else (None, p1))
      in (mid, peer, take 256 p2))"

definition fuzz_pt_recv ::
  "u8 \<Rightarrow> bytes \<Rightarrow> bytes \<Rightarrow> bytes \<Rightarrow> wake_plumtree_t \<Rightarrow> pt_event list \<times> wake_plumtree_t" where
  "fuzz_pt_recv kind peer mid p pt =
     (if kind = 0 then let ((_, es), pt') = pt_recv_gossip pt peer mid p 10 True True in (es, pt')
      else if kind = 1 then ([], pt_recv_ihave pt peer mid 10)
      else if kind = 2 then pt_recv_graft pt peer mid 10 True
      else ([], pt_recv_prune pt peer 10))"

definition fuzz_plumtree :: "bool \<Rightarrow> bytes \<Rightarrow> (pt_event list \<times> wake_plumtree_t) option" where
  "fuzz_plumtree alloc_ok data =
     (case data of
        [] \<Rightarrow> None
      | b # p0 \<Rightarrow>
          (case wake_plumtree_create (Some fuzz_self) (Some fuzz_pt_cfg) alloc_ok alloc_ok alloc_ok alloc_ok of
             None \<Rightarrow> None
           | Some pt \<Rightarrow>
               let first = replicate 32 2;
                   (_, pt1) = pt_add_peer pt first 1;
                   (mid, second, p) = fuzz_pt_input p0;
                   (peer, pt2) = (case second of None \<Rightarrow> (first, pt1)
                                  | Some q \<Rightarrow> (q, snd (pt_add_peer pt1 q 1)));
                   (es, pt3) = fuzz_pt_recv (b mod 4) peer mid p pt2;
                   ((_, es'), pt4) = pt_tick pt3 100 True
               in Some (es @ es', pt4)))"

lemma fuzz_pt_recv_step: "pt_step pt (snd (fuzz_pt_recv kind peer mid p pt))"
proof -
  have "kind = 0 \<Longrightarrow> snd (fuzz_pt_recv kind peer mid p pt) = snd (pt_recv_gossip pt peer mid p 10 True True)"
    by (simp add: fuzz_pt_recv_def Let_def case_prod_unfold)
  then show ?thesis
    by (cases "kind = 0")
      (auto simp: fuzz_pt_recv_def intro: pt_step.intros)
qed

lemma set_link_config [simp]:
  "pt_config (promote_eager pt nid now) = pt_config pt" "pt_config (demote_lazy pt nid now) = pt_config pt"
  "pt_config (pending_remove_msg pt mid) = pt_config pt" "pt_config (cache_insert pt mid pl now) = pt_config pt"
  "pt_config (pending_add pt mid frm now) = pt_config pt"
  by (simp_all add: promote_eager_def demote_lazy_def set_link_def pending_remove_msg_def cache_insert_def
      pending_add_def Let_def split: option.split)

lemma fuzz_pt_recv_config [simp]: "pt_config (snd (fuzz_pt_recv kind peer mid p pt)) = pt_config pt"
  by (simp add: fuzz_pt_recv_def pt_recv_gossip_def pt_recv_ihave_def pt_recv_graft_def pt_recv_prune_def
      Let_def case_prod_unfold split: option.split)

lemma add_peer_config [simp]: "pt_config (snd (pt_add_peer pt nid now)) = pt_config pt"
  by (simp add: pt_add_peer_def Let_def split: option.split)

lemma tick_config [simp]: "pt_config (snd (pt_tick pt now send)) = pt_config pt"
proof -
  have "pt_config (snd (snd (fold (tick_pending_at now send) ns st))) = pt_config (snd (snd st))" for ns st
    by (induction ns arbitrary: st) (simp_all add: tick_pending_at_def Let_def case_prod_unfold)
  moreover have "pt_config (fold (tick_cache_at now) ns pt') = pt_config pt'" for ns pt'
    by (induction ns arbitrary: pt') simp_all
  ultimately show ?thesis by (simp add: pt_tick_def Let_def case_prod_unfold)
qed

lemma fuzz_plumtree_reach:
  assumes "fuzz_plumtree ok data = Some (es, pt)"
  shows "pt_reachable pt" "pt_config pt = fuzz_pt_cfg"
proof -
  from assms obtain b p0 pt0 where data: "data = b # p0"
    and c: "wake_plumtree_create (Some fuzz_self) (Some fuzz_pt_cfg) ok ok ok ok = Some pt0"
    by (auto simp: fuzz_plumtree_def split: list.splits option.splits)
  define first where "first = (replicate 32 2 :: bytes)"
  define mid second p where "mid = fst (fuzz_pt_input p0)" and "second = fst (snd (fuzz_pt_input p0))"
    and "p = snd (snd (fuzz_pt_input p0))"
  define pt1 where "pt1 = snd (pt_add_peer pt0 first 1)"
  define pt2 where "pt2 = (case second of None \<Rightarrow> pt1 | Some q \<Rightarrow> snd (pt_add_peer pt1 q 1))"
  define peer where "peer = (case second of None \<Rightarrow> first | Some q \<Rightarrow> q)"
  define pt3 where "pt3 = snd (fuzz_pt_recv (b mod 4) peer mid p pt2)"
  have pt: "pt = snd (pt_tick pt3 100 True)"
    using assms c by (auto simp: fuzz_plumtree_def data Let_def case_prod_unfold pt3_def pt2_def pt1_def peer_def
        first_def mid_def second_def p_def split: option.splits)
  have "pt_init pt0" using c unfolding pt_init_def by blast
  then have "pt_reachable pt0" by (rule reach_init)
  then have "pt_reachable pt1" unfolding pt1_def by (rule reach_step) (rule pt_step.add_peer)
  then have "pt_reachable pt2"
    unfolding pt2_def by (cases second) (auto elim!: reach_step intro: pt_step.add_peer)
  then have "pt_reachable pt3" unfolding pt3_def by (rule reach_step) (rule fuzz_pt_recv_step)
  then show "pt_reachable pt" unfolding pt by (rule reach_step) (rule pt_step.tick)
  have "pt_config pt0 = fuzz_pt_cfg"
    using c by (auto simp: wake_plumtree_create_def pt_enforce_minimums_def fuzz_pt_cfg_def Let_def split: if_splits)
  then show "pt_config pt = fuzz_pt_cfg"
    by (simp add: pt pt3_def pt2_def pt1_def split: option.split)
qed

text \<open>
  Whatever message the target receives, of whatever type and from whatever
  peer: the invariant holds, the cache has its 16 slots with payloads of at most 256 bytes each and
  an exact counter, and at most 8 announcements are pending.
\<close>

theorem fuzz_plumtree_safe:
  assumes "fuzz_plumtree ok data = Some (es, pt)"
  shows "pt_inv pt \<and> length (pt_cache pt) = 16 \<and> unat (pt_cache_count pt) \<le> 16
    \<and> (\<forall>e\<in>set (pt_cache pt). unat (ce_payload_len e) \<le> 256) \<and> unat (pt_pending_count pt) \<le> 8
    \<and> unat (pt_peer_count pt) \<le> 8"
proof -
  have inv: "pt_inv pt" by (rule plumtree.reach_inv [OF fuzz_plumtree_reach(1) [OF assms]])
  note cfg = fuzz_plumtree_reach(2) [OF assms]
  from inv have len: "length (pt_cache pt) = 16" "length (pt_pending pt) = 8"
    by (simp_all add: pt_inv_def pt_cache_ok_def pt_pending_ok_def cfg fuzz_pt_cfg_def)
  with inv length_filter_le [of ce_occupied "pt_cache pt"] length_filter_le [of pn_active "pt_pending pt"]
  show ?thesis
    by (simp add: pt_inv_def pt_cache_ok_def pt_pending_ok_def pt_peers_ok_def cfg fuzz_pt_cfg_def word_le_nat_alt)
qed

theorem fuzz_plumtree_safe_witness:
  "\<exists>es pt. fuzz_plumtree True [0, 1, 2, 3] = Some (es, pt) \<and> length (pt_cache pt) = 16"
proof -
  obtain es pt where e: "fuzz_plumtree True [0, 1, 2, 3] = Some (es, pt)"
    by (auto simp: fuzz_plumtree_def wake_plumtree_create_def Let_def case_prod_unfold split: option.splits)
  from fuzz_plumtree_safe [OF e] e show ?thesis by blast
qed

section \<open>Signals\<close>

text \<open>The layout of the 192-byte \<open>wake_signal_t\<close>.\<close>

definition raw_signal :: "bytes \<Rightarrow> wake_signal_t" where
  "raw_signal b = \<lparr>sg_entity = raw_entity b,
     sg_meta = \<lparr>sm_magic = le_load (bytes_at b 64 2), sm_version = b ! 66, sm_signal_type = b ! 67,
       sm_scope = b ! 68, sm_ttl = b ! 69, sm_hop_count = b ! 70, sm_action = b ! 71, sm_outcome = b ! 72,
       sm_pad0 = bytes_at b 73 3, sm_phase_flags = le_load (bytes_at b 76 4), sm_tenant_id = le_load (bytes_at b 80 4),
       sm_timestamp = le_load (bytes_at b 84 4), sm_confidence = le_load (bytes_at b 88 4),
       sm_hit_count = le_load (bytes_at b 92 4), sm_node_id = bytes_at b 96 32\<rparr>,
     sg_sig = bytes_at b 128 64\<rparr>"

definition fuzz_signal :: "monocypher \<Rightarrow> bytes \<Rightarrow> bool \<times> string \<times> string" where
  "fuzz_signal mc data =
     (let sig = raw_signal (over_zeros 192 data)
      in (wake_signal_verify mc sig, wake_signal_type_name (ucast (sm_signal_type (sg_meta sig))),
          wake_signal_scope_name (ucast (sm_scope (sg_meta sig)))))"

lemma bytes_at_join:
  "j = i + n \<Longrightarrow> bytes_at b i n @ bytes_at b j m = bytes_at b i (n + m)"
  by (simp add: bytes_at_def take_add add.commute [of i n])

lemma bytes_at_join_more:
  "j = i + n \<Longrightarrow> bytes_at b i n @ bytes_at b j m @ r = bytes_at b i (n + m) @ r"
  using bytes_at_join [of j i n b m] by (metis append_assoc)

lemma bytes_at_one: "i < length b \<Longrightarrow> b ! i # r = bytes_at b i 1 @ r"
  by (simp add: bytes_at_def take_Suc hd_drop_conv_nth)

lemma length_over_zeros [simp]: "length (over_zeros n data) = n"
  by (simp add: over_zeros_def)

lemma le_bytes_at:
  "i + n \<le> length b \<Longrightarrow> LENGTH('a) = 8 * n \<Longrightarrow> le_bytes n (le_load (bytes_at b i n) :: 'a::len word) = bytes_at b i n"
  by (simp add: le_bytes_le_load)

lemma signed_bytes_raw:
  assumes "length b = 192"
  shows "signed_bytes (raw_signal b) = take 128 b"
proof -
  have "entity_bytes (raw_entity b) = bytes_at b 0 64"
    using assms
    by (simp add: entity_bytes_def raw_entity_def le_bytes_at bytes_at_one [of _ b] bytes_at_join bytes_at_join_more
        del: append_Cons)
  moreover have "meta_bytes (sg_meta (raw_signal b)) = bytes_at b 64 64"
    using assms
    by (simp add: meta_bytes_def raw_signal_def le_bytes_at bytes_at_one [of _ b] bytes_at_join bytes_at_join_more
        del: append_Cons)
  ultimately show ?thesis
    by (simp add: signed_bytes_def raw_signal_def bytes_at_join) (simp add: bytes_at_def)
qed

lemma raw_magic:
  assumes "length b = 192"
  shows "le_load (bytes_at b 64 2) = (0x574B :: u16) \<longleftrightarrow> b ! 64 = 0x4B \<and> b ! 65 = 0x57"
proof -
  have s: "bytes_at b 64 2 = [b ! 64, b ! 65]"
    using assms by (intro nth_equalityI) (auto simp: bytes_at_def less_Suc_eq numeral_2_eq_2)
  have m: "le_bytes 2 (0x574B :: u16) = [0x4B, 0x57]" by (simp add: le_bytes_def upt_conv_Cons)
  have "le_load (bytes_at b 64 2) = (0x574B :: u16) \<longleftrightarrow> bytes_at b 64 2 = le_bytes 2 (0x574B :: u16)"
  proof
    assume "le_load (bytes_at b 64 2) = (0x574B :: u16)"
    then have "le_bytes 2 (le_load (bytes_at b 64 2) :: u16) = le_bytes 2 (0x574B :: u16)" by simp
    with assms show "bytes_at b 64 2 = le_bytes 2 (0x574B :: u16)" by (simp add: le_bytes_at)
  qed simp
  then show ?thesis by (simp add: s m)
qed

text \<open>
  C27. Verification of a received signal at the level of its bytes: an input is
  accepted exactly when, padded by zeros to 192 bytes, it has the magic 4B 57 and version 1 at byte
  64, a known type and scope, a valid entity in the first 64 bytes, and the 64 bytes from 128 on are
  a signature of the first 128 under the key at byte 96.  No input of fewer than 67 bytes is accepted.
\<close>

theorem signal_checked_bytes:
  "(fst (fuzz_signal mc data) \<longleftrightarrow>
      (let b = over_zeros 192 data
       in b ! 64 = 0x4B \<and> b ! 65 = 0x57 \<and> b ! 66 = 1 \<and> b ! 67 < 4 \<and> b ! 68 < 2
        \<and> wake_entity_valid (raw_entity b)
        \<and> crypto_ed25519_check mc (bytes_at b 128 64) (bytes_at b 96 32) (take 128 b) = 0))
   \<and> (fst (fuzz_signal mc data) \<longrightarrow> 67 \<le> length data)"
proof -
  define b where "b = over_zeros 192 data"
  have len: "length b = 192" by (simp add: b_def)
  have iff: "fst (fuzz_signal mc data) \<longleftrightarrow> b ! 64 = 0x4B \<and> b ! 65 = 0x57 \<and> b ! 66 = 1 \<and> b ! 67 < 4 \<and> b ! 68 < 2
        \<and> wake_entity_valid (raw_entity b) \<and> crypto_ed25519_check mc (bytes_at b 128 64) (bytes_at b 96 32) (take 128 b) = 0"
    by (simp add: fuzz_signal_def b_def [symmetric] verify_iff framed_def wake_ed25519_verify_def
        signed_bytes_raw [OF len]) (simp add: raw_signal_def raw_magic [OF len])
  moreover have "67 \<le> length data" if "b ! 66 = 1"
  proof (rule ccontr)
    assume "\<not> 67 \<le> length data"
    then have "b ! 66 = 0" by (simp add: b_def over_zeros_def nth_append)
    with that show False by simp
  qed
  ultimately show ?thesis by (auto simp: b_def [symmetric] Let_def)
qed

text \<open>A Monocypher in which every signature is good; the input is a framed but empty signal.\<close>

definition lax_mc :: monocypher where
  "lax_mc = \<lparr>crypto_sha512 = id, crypto_ed25519_key_pair = (\<lambda>s. (s, s)), crypto_ed25519_sign = (\<lambda>_ m. m),
     crypto_ed25519_check = (\<lambda>_ _ _. 0), crypto_x25519_public_key = id, crypto_x25519 = (\<lambda>_ p. p),
     crypto_eddsa_to_x25519 = id, crypto_aead_lock = (\<lambda>_ _ _ p. (p, p)),
     crypto_aead_unlock = (\<lambda>_ _ _ _ c. (0, c))\<rparr>"

theorem signal_checked_bytes_witness:
  "fst (fuzz_signal lax_mc (replicate 64 0 @ [0x4B, 0x57, 1])) = wake_entity_valid zero_entity"
proof -
  have e: "raw_entity (over_zeros 192 (replicate 64 0 @ [0x4B, 0x57, 1])) = zero_entity" by code_simp
  have b: "over_zeros 192 (replicate 64 0 @ [0x4B, 0x57, 1]) ! 64 = 0x4B"
    "over_zeros 192 (replicate 64 0 @ [0x4B, 0x57, 1]) ! 65 = 0x57"
    "over_zeros 192 (replicate 64 0 @ [0x4B, 0x57, 1]) ! 66 = 1"
    "over_zeros 192 (replicate 64 0 @ [0x4B, 0x57, 1]) ! 67 = 0"
    "over_zeros 192 (replicate 64 0 @ [0x4B, 0x57, 1]) ! 68 = 0"
    by code_simp+
  show ?thesis using signal_checked_bytes [of lax_mc "replicate 64 0 @ [0x4B, 0x57, 1]"] e b
    by (simp add: Let_def lax_mc_def)
qed

section \<open>Cryptographic wrappers and pheromone files\<close>

text \<open>\<open>Inl\<close>: the result of verification; \<open>Inr\<close>: that of decryption; \<open>None\<close>: neither is called.\<close>

definition fuzz_crypto :: "monocypher \<Rightarrow> bytes \<Rightarrow> (int + int \<times> bytes) option" where
  "fuzz_crypto mc data =
     (if length data = 0 then None
      else if data ! 0 AND 1 = 0
      then (if length data < 1 + 64 + 32 then None
            else Some (Inl (wake_ed25519_verify mc (bytes_at data 1 64) (drop (1 + 64 + 32) data)
                              (bytes_at data (1 + 64) 32))))
      else if length data < 1 + 32 + 24 + 16 then None
      else
        let ct = drop (1 + 32 + 24 + 16) data
        in if length ct > 4096 then None
           else Some (Inr (wake_aead_unlock mc (bytes_at data (1 + 32 + 24) 16) (bytes_at data 1 32)
                             (bytes_at data (1 + 32) 24) [] ct)))"

text \<open>The arguments partition the input behind its first byte, each with the length its primitive reads.\<close>

lemma fuzz_crypto_args:
  assumes "fuzz_crypto mc data \<noteq> None"
  shows "data ! 0 AND 1 = 0 \<Longrightarrow> length (bytes_at data 1 64) = 64 \<and> length (bytes_at data 65 32) = 32
      \<and> drop 1 data = bytes_at data 1 64 @ bytes_at data 65 32 @ drop 97 data"
    and "data ! 0 AND 1 \<noteq> 0 \<Longrightarrow> length (bytes_at data 1 32) = 32 \<and> length (bytes_at data 33 24) = 24
      \<and> length (bytes_at data 57 16) = 16 \<and> length (drop 73 data) \<le> 4096
      \<and> drop 1 data = bytes_at data 1 32 @ bytes_at data 33 24 @ bytes_at data 57 16 @ drop 73 data"
proof -
  have rest: "bytes_at data i n @ drop j data = drop i data" if "j = i + n" for i n j
    using that append_take_drop_id [of n "drop i data"] by (simp add: bytes_at_def add.commute)
  have "\<not> length data < 97" if "data ! 0 AND 1 = 0"
    using assms that by (auto simp: fuzz_crypto_def split: if_splits)
  then show "data ! 0 AND 1 = 0 \<Longrightarrow> length (bytes_at data 1 64) = 64 \<and> length (bytes_at data 65 32) = 32
      \<and> drop 1 data = bytes_at data 1 64 @ bytes_at data 65 32 @ drop 97 data"
    using rest [of 65 1 64] rest [of 97 65 32] by simp
  have "\<not> length data < 73 \<and> length (drop 73 data) \<le> 4096" if "data ! 0 AND 1 \<noteq> 0"
    using assms that by (auto simp: fuzz_crypto_def Let_def split: if_splits)
  then show "data ! 0 AND 1 \<noteq> 0 \<Longrightarrow> length (bytes_at data 1 32) = 32 \<and> length (bytes_at data 33 24) = 24
      \<and> length (bytes_at data 57 16) = 16 \<and> length (drop 73 data) \<le> 4096
      \<and> drop 1 data = bytes_at data 1 32 @ bytes_at data 33 24 @ bytes_at data 57 16 @ drop 73 data"
    using rest [of 33 1 32] rest [of 57 33 24] rest [of 73 57 16] by simp
qed

text \<open>The target writes the input to a file and opens it.\<close>

definition fuzz_pheromone ::
  "bool \<Rightarrow> open_env \<Rightarrow> hash_state \<Rightarrow> bytes \<Rightarrow> wake_pheromone_t option \<times> hash_state" where
  "fuzz_pheromone mkstemp_ok env hs data =
     (if \<not> mkstemp_ok then (None, hs)
      else case wake_pheromone_open env (pht_parse (take 0x100000 data)) hs of
             (Inl _, hs') \<Rightarrow> (None, hs')
           | (Inr pt, hs') \<Rightarrow> (Some pt, hs'))"

end
