(* ===== verification/Wake_Fuzz_Driver.thy ===== *)
theory Wake_Fuzz_Driver
  imports Wake_Fuzz_Dgram Wake_Fuzz_Mesh
begin

text \<open>
  The standalone drivers of two fuzz targets (\<open>main\<close> of \<open>src/src/fuzz_dgram.c\<close> and of
  \<open>src/src/fuzz_crypto.c\<close>), which run where no fuzzing engine does: their generator, and the inputs
  they hand to the target in the order of the calls.  A buffer is always filled up to the length that
  is passed on, so an input does not depend on the ones before it except through the generator.  The
  number of iterations is what the command line asks for, none when that is negative.
\<close>

section \<open>The generator\<close>

definition xrng :: "u64 \<Rightarrow> u64" where
  "xrng s = (let x = s XOR push_bit 13 s; x = x XOR drop_bit 7 x in x XOR push_bit 17 x)"

text \<open>\<open>n\<close> random bytes, and the state of the generator behind them.\<close>

fun random_bytes :: "nat \<Rightarrow> u64 \<Rightarrow> bytes \<times> u64" where
  "random_bytes 0 s = ([], s)"
| "random_bytes (Suc n) s =
     (let s' = xrng s; (bs, s'') = random_bytes n s' in (ucast s' # bs, s''))"

section \<open>The inputs\<close>

text \<open>\<open>sizeof(buf)\<close> of the datagram driver, which is also the largest random length.\<close>

definition dgram_buf :: nat where
  "dgram_buf = WAKE_DGRAM_MAX_LEN + 200"

text \<open>The header that the sweep writes over the first four bytes.\<close>

definition stamp :: "nat \<Rightarrow> bytes \<Rightarrow> bytes" where
  "stamp t b = (if length b \<ge> 4 then [0x57, 0x44, 1, of_nat t] @ drop 4 b else b)"

fun structured_inputs :: "(nat \<times> nat) list \<Rightarrow> u64 \<Rightarrow> bytes list \<times> u64" where
  "structured_inputs [] s = ([], s)"
| "structured_inputs ((t, len) # ps) s =
     (let (b, s') = random_bytes (if len < dgram_buf then len else dgram_buf) s;
          (rest, s'') = structured_inputs ps s'
      in (stamp t b # rest, s''))"

text \<open>\<open>iters\<close> inputs of random lengths up to \<open>maxlen\<close>.\<close>

fun random_inputs :: "nat \<Rightarrow> nat \<Rightarrow> u64 \<Rightarrow> bytes list \<times> u64" where
  "random_inputs maxlen 0 s = ([], s)"
| "random_inputs maxlen (Suc k) s =
     (let s' = xrng s; len = unat (s' mod (of_nat maxlen + 1));
          (b, s'') = random_bytes len s';
          (rest, s3) = random_inputs maxlen k s''
      in (b # rest, s3))"

definition sweep :: "(nat \<times> nat) list" where
  "sweep = concat (map (\<lambda>t. map (\<lambda>len. (t, len)) [0..<601]) [0..<9])"

definition dgram_inputs :: "nat \<Rightarrow> bytes list" where
  "dgram_inputs iters =
     (let (structured, s) = structured_inputs sweep 0x123456789abcdef0
      in structured @ fst (random_inputs dgram_buf iters s))"

definition dgram_main :: "nat \<Rightarrow> bytes \<Rightarrow> (nat \<times> bytes) list" where
  "dgram_main iters out = map (\<lambda>data. fuzz_dgram data out) (dgram_inputs iters)"

definition crypto_inputs :: "nat \<Rightarrow> bytes list" where
  "crypto_inputs iters = fst (random_inputs 512 iters 0xc0ffee1234567890)"

definition crypto_main :: "monocypher \<Rightarrow> nat \<Rightarrow> (int + int \<times> bytes) option list" where
  "crypto_main mc iters = map (fuzz_crypto mc) (crypto_inputs iters)"

section \<open>The generator never gets stuck\<close>

lemma xor_shift_left_zero:
  assumes "0 < k" "(x :: 'a::len word) XOR push_bit k x = 0"
  shows "x = 0"
proof (rule bit_word_eqI)
  fix n
  assume "n < LENGTH('a)"
  then have "\<not> bit x n"
  proof (induction n rule: less_induct)
    case (less n)
    have "bit (x XOR push_bit k x) n = False" using assms(2) by simp
    with less assms(1) show ?case by (auto simp: bit_xor_iff bit_push_bit_iff)
  qed
  then show "bit x n \<longleftrightarrow> bit 0 n" by simp
qed

lemma xor_shift_right_zero:
  assumes "0 < k" "(x :: 'a::len word) XOR drop_bit k x = 0"
  shows "x = 0"
proof (rule bit_word_eqI)
  fix n
  assume "n < LENGTH('a)"
  have "\<not> bit x n" for n
  proof (induction "LENGTH('a) - n" arbitrary: n rule: less_induct)
    case less
    have "bit (x XOR drop_bit k x) n = False" using assms(2) by simp
    with less [of "k + n"] assms(1) show ?case
      by (cases "n < LENGTH('a)") (auto simp: bit_xor_iff bit_drop_bit_eq dest: bit_imp_le_length)
  qed
  then show "bit x n \<longleftrightarrow> bit 0 n" by simp
qed

lemma xrng_zero: "xrng s = 0 \<Longrightarrow> s = 0"
  unfolding xrng_def Let_def
  by (rule xor_shift_left_zero [of 13], simp, rule xor_shift_right_zero [of 7], simp,
      rule xor_shift_left_zero [of 17], simp_all)

lemma xrng_linear: "xrng (a XOR b) = xrng a XOR xrng b"
  by (simp add: xrng_def Let_def push_bit_xor drop_bit_xor ac_simps)

lemma xrng_inj: "inj xrng"
proof (rule injI)
  fix a b
  assume "xrng a = xrng b"
  then have "xrng (a XOR b) = 0" by (simp add: xrng_linear)
  then have "a XOR b = 0" by (rule xrng_zero)
  then show "a = b" by (simp add: bit_eq_iff bit_xor_iff)
qed

lemma length_random_bytes [simp]: "length (fst (random_bytes n s)) = n"
  by (induction n arbitrary: s) (simp_all add: Let_def case_prod_unfold)

lemma random_bytes_state: "s \<noteq> 0 \<Longrightarrow> snd (random_bytes n s) \<noteq> 0"
  by (induction n arbitrary: s) (auto simp: Let_def case_prod_unfold dest: xrng_zero)

section \<open>What the drivers feed to the targets\<close>

lemma length_stamp [simp]: "length (stamp t b) = length b"
  by (simp add: stamp_def) arith

lemma structured_inputs_spec:
  "length (fst (structured_inputs ps s)) = length ps
   \<and> (\<forall>i<length ps. length (fst (structured_inputs ps s) ! i) = min (snd (ps ! i)) dgram_buf
        \<and> (4 \<le> snd (ps ! i) \<longrightarrow> take 4 (fst (structured_inputs ps s) ! i) = [0x57, 0x44, 1, of_nat (fst (ps ! i))]))
   \<and> (s \<noteq> 0 \<longrightarrow> snd (structured_inputs ps s) \<noteq> 0)"
proof (induction ps s rule: structured_inputs.induct)
  case (2 t len ps s)
  obtain b s' where b: "random_bytes (if len < dgram_buf then len else dgram_buf) s = (b, s')" by fastforce
  have len: "length b = min len dgram_buf" using length_random_bytes [of "if len < dgram_buf then len else dgram_buf" s]
    by (simp add: b)
  have "take 4 (stamp t b) = [0x57, 0x44, 1, of_nat t]" if "4 \<le> len"
    using that len by (simp add: stamp_def dgram_buf_def)
  moreover have "s \<noteq> 0 \<longrightarrow> s' \<noteq> 0"
    using random_bytes_state [of s "if len < dgram_buf then len else dgram_buf"] by (auto simp: b)
  moreover note IH = 2 [OF refl, unfolded b, OF refl]
  ultimately show ?case
    using len by (auto simp: b Let_def case_prod_unfold nth_Cons' gr0_conv_Suc)
qed simp

lemma random_inputs_spec:
  "unat (of_nat maxlen + 1 :: u64) = maxlen + 1 \<Longrightarrow>
     length (fst (random_inputs maxlen k s)) = k
     \<and> (\<forall>d\<in>set (fst (random_inputs maxlen k s)). length d \<le> maxlen)
     \<and> (s \<noteq> 0 \<longrightarrow> snd (random_inputs maxlen k s) \<noteq> 0)"
proof (induction maxlen k s rule: random_inputs.induct)
  case (2 maxlen k s)
  let ?len = "unat (xrng s mod (of_nat maxlen + 1))"
  obtain b s'' where b: "random_bytes ?len (xrng s) = (b, s'')" by fastforce
  have "?len < maxlen + 1" by (simp only: unat_mod 2(2)) simp
  then have "length b \<le> maxlen" using length_random_bytes [of ?len "xrng s"] by (simp add: b)
  moreover have "s \<noteq> 0 \<longrightarrow> s'' \<noteq> 0"
    using random_bytes_state [of "xrng s" ?len] xrng_zero [of s] by (auto simp: b)
  moreover note IH = 2(1) [OF refl refl, unfolded b, OF refl refl 2(2)]
  ultimately show ?case by (auto simp: b Let_def case_prod_unfold)
qed simp

lemma length_grid: "length (concat (map (\<lambda>t. map (\<lambda>len. (t, len)) [0..<m]) [0..<k])) = k * m"
  by (induction k) simp_all

lemma grid_nth:
  "t < k \<Longrightarrow> len < m \<Longrightarrow> concat (map (\<lambda>t. map (\<lambda>len. (t, len)) [0..<m]) [0..<k]) ! (t * m + len) = (t, len)"
proof (induction k)
  case (Suc k)
  note n = length_grid [of m k]
  show ?case
  proof (cases "t < k")
    case True
    have "t * m + len < Suc t * m" using Suc.prems(2) by simp
    also have "\<dots> \<le> k * m" using True by (intro mult_le_mono1) simp
    finally show ?thesis using Suc.IH [OF True Suc.prems(2)] n by (simp add: nth_append)
  qed (use Suc.prems n in \<open>simp add: nth_append less_Suc_eq\<close>)
qed simp

lemma length_sweep: "length sweep = 5409"
  unfolding sweep_def by (simp only: length_grid)

text \<open>
  The standalone driver of the datagram target, for any number of iterations:
  its truncation sweep feeds, for each type byte 0 to 8 and each length 0 to 600, one input of that
  length, with the header of that type as soon as four bytes fit; the random inputs follow; none is
  longer than the buffer; and the generator, a permutation of the 64-bit words, never gets stuck at 0.
\<close>

theorem dgram_driver_exact:
  assumes "t < 9" and "len \<le> 600"
  shows "length (dgram_inputs iters) = 5409 + iters
    \<and> (\<forall>d\<in>set (dgram_inputs iters). length d \<le> dgram_buf)
    \<and> length (dgram_inputs iters ! (t * 601 + len)) = len
    \<and> (4 \<le> len \<longrightarrow> take 4 (dgram_inputs iters ! (t * 601 + len)) = [0x57, 0x44, 1, of_nat t])
    \<and> snd (structured_inputs sweep 0x123456789abcdef0) \<noteq> 0 \<and> inj xrng"
proof -
  let ?s = "structured_inputs sweep 0x123456789abcdef0"
  note S = structured_inputs_spec [of sweep "0x123456789abcdef0"]
  have R: "length (fst (random_inputs dgram_buf iters (snd ?s))) = iters
      \<and> (\<forall>d\<in>set (fst (random_inputs dgram_buf iters (snd ?s))). length d \<le> dgram_buf)"
    using random_inputs_spec [of dgram_buf iters "snd ?s"] by (simp add: dgram_buf_def)
  have inputs: "dgram_inputs iters = fst ?s @ fst (random_inputs dgram_buf iters (snd ?s))"
    by (simp add: dgram_inputs_def case_prod_unfold Let_def)
  have i: "t * 601 + len < 5409" "sweep ! (t * 601 + len) = (t, len)"
    using assms grid_nth [of t 9 len 601] by (simp_all add: sweep_def)
  have "\<forall>d\<in>set (fst ?s). length d \<le> dgram_buf" using S by (auto simp: in_set_conv_nth)
  moreover have "length (fst ?s ! (t * 601 + len)) = len"
    "4 \<le> len \<longrightarrow> take 4 (fst ?s ! (t * 601 + len)) = [0x57, 0x44, 1, of_nat t]"
    using S i assms(2) by (simp_all add: length_sweep dgram_buf_def)
  ultimately show ?thesis using S R i(1) xrng_inj by (simp add: inputs length_sweep nth_append ball_Un)
qed

theorem dgram_driver_exact_witness: "take 4 (dgram_inputs 0 ! 1206) = [0x57, 0x44, 1, 2]"
  using dgram_driver_exact [of 2 4 0] by simp

lemma crypto_driver_bounded:
  "length (crypto_inputs iters) = iters \<and> (\<forall>d\<in>set (crypto_inputs iters). length d \<le> 512)"
  using random_inputs_spec [of 512 iters "0xc0ffee1234567890"] by (simp add: crypto_inputs_def)

end
