(* ===== verification/Wake_Version.thy ===== *)
theory Wake_Version
  imports Wake_Prelude
begin

text \<open>
  The release version (\<open>src/src/wake_version.c\<close>, \<open>src/src/wake_version.h\<close>): the macros, the comparable
  number and the two accessors.
\<close>

abbreviation WAKE_VERSION_MAJOR :: int where "WAKE_VERSION_MAJOR \<equiv> 0"
abbreviation WAKE_VERSION_MINOR :: int where "WAKE_VERSION_MINOR \<equiv> 3"
abbreviation WAKE_VERSION_PATCH :: int where "WAKE_VERSION_PATCH \<equiv> 1"

definition version_num :: "int \<Rightarrow> int \<Rightarrow> int \<Rightarrow> int" where
  "version_num major minor patch = push_bit 16 major OR push_bit 8 minor OR patch"

definition WAKE_VERSION_NUM :: int where
  "WAKE_VERSION_NUM = version_num WAKE_VERSION_MAJOR WAKE_VERSION_MINOR WAKE_VERSION_PATCH"

definition wake_version_string :: string where
  "wake_version_string = ''0.3.1''"

text \<open>The integers behind the three pointers, \<open>None\<close> for NULL, before and after the call.\<close>

definition wake_version :: "int option \<Rightarrow> int option \<Rightarrow> int option \<Rightarrow> int option \<times> int option \<times> int option" where
  "wake_version major minor patch =
     (map_option (\<lambda>_. WAKE_VERSION_MAJOR) major, map_option (\<lambda>_. WAKE_VERSION_MINOR) minor,
      map_option (\<lambda>_. WAKE_VERSION_PATCH) patch)"

text \<open>The number orders releases as their three parts do, while minor and patch fit into a byte.\<close>

lemma version_num_sum:
  assumes "0 \<le> a" "0 \<le> b" "b < 256" "0 \<le> c" "c < 256"
  shows "version_num a b c = 65536 * a + 256 * b + c"
proof -
  have c: "take_bit 8 c = c" using assms by (simp add: take_bit_int_eq_self)
  have low: "push_bit 8 b OR c = 256 * b + c"
    using concat_bit_eq [of 8 c b] or.commute [of "push_bit 8 b" c]
    by (simp add: concat_bit_def c push_bit_eq_mult)
  have "take_bit 16 (256 * b + c) = 256 * b + c" using assms by (simp add: take_bit_int_eq_self)
  then have "push_bit 16 a OR (256 * b + c) = 65536 * a + (256 * b + c)"
    using concat_bit_eq [of 16 "256 * b + c" a] or.commute [of "push_bit 16 a" "256 * b + c"]
    by (simp add: concat_bit_def push_bit_eq_mult)
  with low show ?thesis by (simp add: version_num_def or.assoc)
qed

lemma version_num_ordered:
  assumes "0 \<le> a" "0 \<le> b" "b < 256" "0 \<le> c" "c < 256" "0 \<le> a'" "0 \<le> b'" "b' < 256" "0 \<le> c'" "c' < 256"
  shows "version_num a b c < version_num a' b' c'
    \<longleftrightarrow> a < a' \<or> a = a' \<and> (b < b' \<or> b = b' \<and> c < c')"
  using assms by (simp add: version_num_sum) linarith

text \<open>The string spells the three numbers.\<close>

definition decimal_digit :: "int \<Rightarrow> char" where
  "decimal_digit d = char_of (nat d + 48)"

lemma version_string_agrees:
  "wake_version_string = [decimal_digit WAKE_VERSION_MAJOR, CHR ''.'', decimal_digit WAKE_VERSION_MINOR, CHR ''.'',
     decimal_digit WAKE_VERSION_PATCH]
   \<and> wake_version (Some x) (Some y) (Some z) = (Some 0, Some 3, Some 1) \<and> WAKE_VERSION_NUM = 769"
proof -
  have "wake_version_string = [decimal_digit WAKE_VERSION_MAJOR, CHR ''.'', decimal_digit WAKE_VERSION_MINOR,
      CHR ''.'', decimal_digit WAKE_VERSION_PATCH]" by code_simp
  then show ?thesis by (simp add: wake_version_def WAKE_VERSION_NUM_def version_num_sum)
qed

end
