(* ===== verification/Spec2Isabelle.thy ===== *)
theory Spec2Isabelle
  imports Wake_Swim_Expiry Wake_Exchange Wake_Plumtree_Repair Wake_Plumtree_Mend Wake_Quorum_Props Wake_Signal
    Wake_Tac_Refuse Wake_Tac_Runs Wake_Tac_Crafted Wake_Persist Wake_Lifecycle Wake_Fuzz_Tac Wake_Fuzz_Driver Wake_Version
begin

text \<open>
  libwake: a verification development.

  libwake is a C11 library for a mesh of security sensors.  Nodes find each other and detect
  failures with SWIM, spread messages with PlumTree, exchange both over a datagram codec, remember
  what they saw of an entity (an address, a domain, a file hash) in two shared-memory tables, and
  sign what they tell each other.  The sources are under \<open>src/src\<close>.

  \<^bold>\<open>Parts and theories.\<close>  Definitions keep the C names; each theory lists its parts in the order
  of the source file.

  \<^item> \<open>Wake_Prelude\<close>: C integer types as words, little-endian bytes, the loop shapes that recur (first
    match, arg-min scan, swap), handles that may be NULL, and two interfaces: \<open>keyed_store\<close> (a list
    of entries with distinct keys behind a search function) and \<open>invariant_machine\<close> (initial
    states, steps, an invariant, and that reachable states satisfy it).
  \<^item> \<open>wake_swim.c\<close>, \<open>wake_swim.h\<close> in \<open>Wake_Swim\<close>: the instance as a record, one definition per
    function: the body (\<open>swim_*\<close>) over the instance and the entry point (\<open>wake_swim_*\<close>) with its
    NULL checks.  \<open>Wake_Swim_Inv\<close> and \<open>Wake_Swim_Ops\<close> state the invariant and that every function
    keeps it; \<open>Wake_Swim_Props\<close> shows that applying an update is a merge by precedence on a
    membership map and that the order of a batch of gossip is irrelevant; \<open>Wake_Swim_Detect\<close> treats
    refutation, the probe round and delegates, \<open>Wake_Swim_Gossip\<close> and \<open>Wake_Swim_Expiry\<close>
    dissemination, the suspicion timeout, expiry and reaping.
  \<^item> \<open>wake_plumtree.c\<close>, \<open>wake_plumtree.h\<close> in \<open>Wake_Plumtree\<close>: the callbacks of the host are values
    of a datatype collected in the order of the calls.  \<open>Wake_Plumtree_Inv\<close> and
    \<open>Wake_Plumtree_Tick\<close> have the invariant, \<open>Wake_Plumtree_Props\<close> delivery, exactly-once delivery
    while the cache holds the message, repair by IHAVE and GRAFT, and the timer tick.
    \<open>Wake_Plumtree_Repair\<close> follows a message over a lazy link through all handlers of both nodes;
    \<open>Wake_Plumtree_Net\<close> composes instances to a network whose packets are lost, duplicated and
    reordered and shows that nothing is delivered that was not broadcast; \<open>Wake_Plumtree_Flood\<close> that
    a broadcast reaches every connected node exactly once when all packets are processed.
    \<open>Wake_Plumtree_Mend\<close> does the same for links that are eager or lazy, with timers that tick: an eager
    push may be lost, and the message still reaches every node to which a path of other links leads.
  \<^item> \<open>wake_dgram.c\<close>, \<open>wake_dgram.h\<close> in \<open>Wake_Dgram\<close>: every read of the decoder is a checked access of
    the buffer that can fail, so that no access outside the datagram is a theorem;
    \<open>Wake_Dgram_Props\<close> has the round trips.  \<open>Wake_Exchange\<close> composes it with SWIM: a node suspects
    another, both messages of a probe are encoded, decoded and applied, and the suspicion is cleared.
  \<^item> \<open>wake_entity.c\<close>, \<open>wake_entity.h\<close> in \<open>Wake_Entity\<close>: SipHash-2-4 and the 64-byte entity;
    \<open>Wake_Entity_Props\<close> states SipHash after the paper, with primitives of its own, proves the code
    equal to it and evaluates the published test vector, and shows what
    equality and hashing of entities depend on.
  \<^item> \<open>Wake_Probe\<close>: the interface of the three open-addressing arrays, \<open>probe_table\<close>, and its
    extensions by removal, \<open>tombstone_table\<close>, and by probes that look at different slots,
    \<open>spread_table\<close>: a bounded probe that does not find a key proves that the key is not in the table,
    filling and burying keep it so, and a probe finds room as long as there are few keys.
  \<^item> \<open>wake_pheromone.c\<close>, \<open>wake_pheromone.h\<close> in \<open>Wake_Pheromone\<close>: the table with its seqlock, reasons
    and decay; a load outside the mapping is \<open>None\<close>.  \<open>Wake_Pheromone_Inv\<close> interprets
    \<open>tombstone_table\<close> and defines the table as a map from key hashes to entries,
    \<open>Wake_Pheromone_Ops\<close> and \<open>Wake_Pheromone_Props\<close> show that every operation refines an operation
    of that map and that no reachable table makes an operation read out of range,
    \<open>Wake_Pheromone_Evidence\<close> treats decay, insertion while other writers change the table, and the
    seqlock reader.
  \<^item> \<open>wake_quorum.c\<close>, \<open>wake_quorum.h\<close> in \<open>Wake_Quorum\<close>: the evaluator that sweeps a pheromone table and
    reports threshold crossings, through the reader interface \<open>slot_reader\<close> of
    \<open>Wake_Pheromone_Evidence\<close>; \<open>Wake_Quorum_Props\<close> shows that a sweep reports exactly the crossings,
    that the two kinds of sweep agree, and that sweeping an unchanged table again reports nothing.
  \<^item> \<open>wake_crypto.c\<close>, \<open>wake_crypto.h\<close> in \<open>Wake_Crypto\<close>, \<open>wake_signal.c\<close>, \<open>wake_signal.h\<close> in
    \<open>Wake_Signal\<close>: key generation, signing, and signals.  The primitives of the vendored Monocypher
    are the fields of a record that is an argument of the definitions; \<open>ed25519_correct\<close> is what is
    relied on.  A signal is shown to travel exactly as many hops as its ttl allows and to verify at
    each of them, and the signature to cover every field.
  \<^item> \<open>wake_tac.c\<close>, \<open>wake_tac.h\<close> in \<open>Wake_Tac\<close>: the coupling table, with its sidecar index, per-source
    budgets, quarantine, eviction and two-rate decay.  \<open>Wake_Tac_Budget\<close> proves what a charge does
    to one edge; \<open>Wake_Tac_Inv\<close> interprets \<open>tombstone_table\<close> for the edges and \<open>probe_table\<close> for
    the sidecar, and reads the sidecar as a map from entities to slots; \<open>Wake_Tac_Ops\<close> carries the
    invariant and the per-entity bound through every operation; \<open>Wake_Tac_Props\<close>,
    \<open>Wake_Tac_Query\<close> and \<open>Wake_Tac_Refuse\<close> have the properties: safety, corroboration needs distinct
    sources, the bound on the edges of an entity, exact decay and forgetting, exact queries,
    reinforcement and lookup, refusals change nothing.  \<open>Wake_Tac_Conc\<close> lists the stores of the
    writer and the loads of a reader one by one and shows what a reader sees under every
    interleaving with one write, \<open>Wake_Tac_Runs\<close> with any number of them: no splice as long as the
    slot is not reused, in whatever order the relaxed loads happen, and splices when it is reused; \<open>Wake_Tac_Few\<close> proves the bound on the edges of an entity without a condition on
    decay, for tables with at most 16 entities; \<open>Wake_Tac_Crafted\<close> treats files that no table wrote:
    a decay pass makes every later access safe, whatever bytes the file holds.
  \<^item> The files of both tables.  \<open>Wake_Layout\<close> writes and reads the structures of the header files as
    bytes, by instances of the interface \<open>fixed_layout\<close>: the width that the static assertion demands,
    and reading gives back what was written.  \<open>Wake_Persist\<close> shows that every reachable table survives
    its file, with the one exception of the coupling table, and what a changed mask does to the
    pheromone table.
  \<^item> Creation, opening, destruction and closing of all objects, with the random keys, in
    \<open>Wake_Lifecycle\<close>: a state monad over the blocks, descriptors and mappings that are held, every
    request free to fail.  The interface \<open>owner\<close> is what a pair of make and drop promises; each of the
    five objects is an instance, and so is the library as a whole: nothing leaks, nothing is released twice.
  \<^item> \<open>fuzz_*.c\<close> in \<open>Wake_Fuzz_Dgram\<close>, \<open>Wake_Fuzz_Tac\<close> and \<open>Wake_Fuzz_Mesh\<close>: the fuzz targets as functions
    of their input; the standalone drivers with their generator in \<open>Wake_Fuzz_Driver\<close>.  What their comments demand is proved for every input: decoding, encoding and
    decoding again is exact, no stream of operations leaves an entity above its cap, no update and no
    message breaks the invariants of SWIM and PlumTree, and a received signal is accepted exactly when
    its bytes have the frame and the signature.  The file mode of the target of the coupling table is
    shown to open nothing.
  \<^item> \<open>wake_version.c\<close>, \<open>wake_version.h\<close> in \<open>Wake_Version\<close>: the constants, their order and the accessors.

  \<^bold>\<open>State, errors, loops.\<close>  A C structure is a record, a fixed array a list whose length is part of
  the invariant, an integer a word of its width; the theorems on counters, weights, lengths and
  timeouts say where nothing wraps, and where something does.  Functions return their result and
  the new state.  System calls, allocation, the clock and random bytes are arguments.  All loops are
  structural recursions over the index range of the C loop; no definition needs fuel.  In
  \<open>pht_insert_race\<close> the other writers act through two arbitrary functions, before the
  second load of the slot and before the compare-and-swap.  Bounded probes look at 8 slots (16 in the sidecar), as the constants of the
  source say; the theorems on \<open>probe_table\<close> show that this is enough for lookups to be exact.

  \<^bold>\<open>Reachability.\<close>  The invariants are proved for all states reachable from creation by any sequence
  of calls (\<open>swim_step\<close>, \<open>pt_step\<close>, \<open>pht_step\<close>, \<open>tac_step\<close>), by interpretation of
  \<open>invariant_machine\<close>.  \<open>tac_step S\<close> has the set \<open>S\<close> of the sources that write to the table as a
  parameter, which is what makes the claim on corroboration expressible.

  \<^bold>\<open>Not modelled.\<close>  A full weak memory model.  Readers of the coupling table may perform their relaxed
  loads in any order that their acquire loads allow; stores become visible in program order, and
  the loads of the pheromone table's seqlock reader happen in program order.  Interleavings are modelled for
  an insertion into the pheromone table under the interference of other writers, for the seqlock
  reader, and for readers of the coupling table during writes to the slot they read; other calls
  run one after the other.  Wiping of temporaries and alignment padding have no effect on values.  The
  vendored Monocypher is a parameter; the tests are not translated.  The header files also hold
  prototypes, constants that no function uses and assertions on structures that are never written
  to a file.

  \<^bold>\<open>Left for later.\<close>  A PlumTree network that also loses announcements and requests, where a second
  announcement is needed for coverage.
\<close>

end
